(* ===== verification/Prelude.thy ===== *)
theory Prelude
  imports Main "HOL-Library.Word"
begin

unbundle bit_operations_syntax

text \<open>
  Shared vocabulary of the development: the machine integers of the kernel's target
  (\<^verbatim>\<open>aarch64-unknown-none-softfloat\<close>, so \<^verbatim>\<open>usize\<close> is 64 bits wide and memory is
  little-endian), the outcome of a Rust call, byte memory, and the generic lemmas on
  words, lists and byte encodings that the component theories use.

  The kernel is built with \<^verbatim>\<open>cargo rustc --release\<close> (src/kernel/Makefile.toml), where
  integer overflow is not checked: \<open>+\<close>, \<open>-\<close> and \<open>*\<close> on words wrap, as the code does.
  Indexing and slicing stay checked in release builds, so they are branches that panic.
\<close>

section \<open>Machine integers\<close>

type_synonym u8 = "8 word"
type_synonym u16 = "16 word"
type_synonym u32 = "32 word"
type_synonym u64 = "64 word"
type_synonym usize = "64 word"

text \<open>Two groups of facts: definitions that proofs unfold freely, and equations on constants.\<close>

named_theorems model_defs
named_theorems consts_defs

section \<open>Outcome of a call\<close>

text \<open>
  A Rust function with result type \<^verbatim>\<open>Result<T, E>\<close> returns \<open>Ok\<close> or \<open>Err\<close>; it may also panic
  (\<^verbatim>\<open>unwrap\<close>, \<^verbatim>\<open>assert!\<close>, \<^verbatim>\<open>todo!\<close>, an index or slice out of range), or never return (\<open>Hang\<close>).
  State is passed explicitly and is returned beside the outcome in every case, because
  what a call has written before it fails stays written.
\<close>

datatype ('a, 'e) outcome = Ok 'a | Err 'e | Panic | Hang

type_synonym 'a res = "('a, unit) outcome"

text \<open>The \<^verbatim>\<open>?\<close> operator and the propagation of panics, over a state.\<close>

fun and_then :: "('a, 'e) outcome \<times> 's \<Rightarrow> ('a \<Rightarrow> 's \<Rightarrow> ('b, 'e) outcome \<times> 's) \<Rightarrow> ('b, 'e) outcome \<times> 's" where
  "and_then (Ok a, s) f = f a s"
| "and_then (Err e, s) f = (Err e, s)"
| "and_then (Panic, s) f = (Panic, s)"
| "and_then (Hang, s) f = (Hang, s)"

text \<open>The same without state.\<close>

fun bind_res :: "('a, 'e) outcome \<Rightarrow> ('a \<Rightarrow> ('b, 'e) outcome) \<Rightarrow> ('b, 'e) outcome" where
  "bind_res (Ok a) f = f a"
| "bind_res (Err e) f = Err e"
| "bind_res Panic f = Panic"
| "bind_res Hang f = Hang"

text \<open>\<^verbatim>\<open>Option::ok_or(())\<close>.\<close>

fun ok_or :: "'a option \<Rightarrow> 'a res" where
  "ok_or (Some a) = Ok a"
| "ok_or None = Err ()"

text \<open>\<^verbatim>\<open>unwrap\<close> of an \<^verbatim>\<open>Option\<close>.\<close>

fun unwrap_opt :: "'a option \<Rightarrow> ('a, 'e) outcome" where
  "unwrap_opt (Some a) = Ok a"
| "unwrap_opt None = Panic"

lemma and_then_assoc: "and_then (and_then m f) g = and_then m (\<lambda>a s. and_then (f a s) g)"
  by (cases "(m, f)" rule: and_then.cases) simp_all

lemma and_then_Ok_iff:
  "and_then m f = (Ok b, t) \<longleftrightarrow> (\<exists>a s. m = (Ok a, s) \<and> f a s = (Ok b, t))"
  by (cases "(m, f)" rule: and_then.cases) auto

lemma bind_res_Ok_iff: "bind_res m f = Ok b \<longleftrightarrow> (\<exists>a. m = Ok a \<and> f a = Ok b)"
  by (cases m) auto

lemma bind_res_Err_iff:
  "bind_res m f = Err e \<longleftrightarrow> m = Err e \<or> (\<exists>a. m = Ok a \<and> f a = Err e)"
  by (cases m) auto

lemma ok_or_Ok_iff [simp]: "ok_or x = Ok a \<longleftrightarrow> x = Some a"
  by (cases x) auto

lemma ok_or_Err_iff [simp]: "ok_or x = Err e \<longleftrightarrow> x = None"
  by (cases x) auto

lemma ok_or_no_Panic [simp]: "ok_or x \<noteq> Panic" "ok_or x \<noteq> Hang"
  by (cases x; simp)+

text \<open>An invariant of the state that both parts of a sequence keep.\<close>

lemma and_then_keeps:
  assumes "P (snd m)"
    and "\<And>a s. m = (Ok a, s) \<Longrightarrow> P s \<Longrightarrow> P (snd (f a s))"
  shows "P (snd (and_then m f))"
  using assms by (cases "(m, f)" rule: and_then.cases) auto

section \<open>Words as natural numbers\<close>

lemma unat_add_noof:
  fixes a b :: "'a::len word"
  assumes "unat a + unat b < 2 ^ LENGTH('a)"
  shows "unat (a + b) = unat a + unat b"
  using assms by (simp add: unat_word_ariths)

lemma unat_sub_noof:
  fixes a b :: "'a::len word"
  assumes "unat b \<le> unat a"
  shows "unat (a - b) = unat a - unat b"
  using assms by (simp add: unat_sub word_le_nat_alt)

lemma unat_mult_noof:
  fixes a b :: "'a::len word"
  assumes "unat a * unat b < 2 ^ LENGTH('a)"
  shows "unat (a * b) = unat a * unat b"
  using assms by (simp add: unat_word_ariths)

lemma unat_of_nat64:
  assumes "n < 2 ^ 64"
  shows "unat (of_nat n :: u64) = n"
  using assms by (simp add: unat_of_nat)

lemma u64_lt: "unat (w :: u64) < 18446744073709551616"
  using unsigned_less [of w] by simp

lemma unat_min: "unat (min a b) = min (unat a) (unat (b :: 'a::len word))"
  by (simp add: min_def word_le_nat_alt)

lemma upt_0_Suc: "[0..<Suc n] = 0 # map Suc [0..<n]"
  by (simp add: map_Suc_upt upt_conv_Cons del: upt_Suc)

text \<open>A wrap-around distance below \<open>n\<close> is an offset from the base.\<close>

lemma word_diff_less_iff:
  fixes a x :: u64
  assumes "unat a + n \<le> 2 ^ 64"
  shows "unat (x - a) < n \<longleftrightarrow> unat a \<le> unat x \<and> unat x < unat a + n"
proof (cases "unat a \<le> unat x")
  case True
  then show ?thesis by (auto simp: unat_sub_noof)
next
  case False
  then have "unat (x - a) = unat x + 2 ^ 64 - unat a"
    by (simp add: unat_sub_if_size word_size word_le_nat_alt)
  with False assms show ?thesis by auto
qed

section \<open>Little-endian encoding\<close>

text \<open>
  The bytes of a word in memory order, and the word a run of bytes stands for. The decoder is
  what \<^verbatim>\<open>transmute_copy\<close> and a typed pointer read do to one integer field on this target.
\<close>

fun le_word :: "u8 list \<Rightarrow> 'a::len word" where
  "le_word [] = 0"
| "le_word (b # bs) = ucast b OR push_bit 8 (le_word bs)"

definition word_le :: "nat \<Rightarrow> 'a::len word \<Rightarrow> u8 list" where
  "word_le n w = map (\<lambda>i. ucast (drop_bit (8 * i) w)) [0..<n]"

lemma length_word_le [simp]: "length (word_le n w) = n"
  by (simp add: word_le_def)

lemma word_le_Suc: "word_le (Suc n) w = ucast w # word_le n (drop_bit 8 w)"
proof -
  have "[0..<Suc n] = 0 # map Suc [0..<n]"
    by (rule upt_0_Suc)
  then show ?thesis
    by (simp add: word_le_def drop_bit_drop_bit add.commute)
qed

lemma bit_le_word:
  "bit (le_word bs :: 'a::len word) n \<longleftrightarrow>
     n < LENGTH('a) \<and> n div 8 < length bs \<and> bit (bs ! (n div 8)) (n mod 8)"
proof (induction bs arbitrary: n)
  case Nil
  then show ?case by simp
next
  case (Cons b bs)
  show ?case
  proof (cases "n < 8")
    case True
    then show ?thesis
      by (auto simp: bit_or_iff bit_push_bit_iff bit_ucast_iff)
  next
    case False
    then have "\<not> bit b n" by (auto dest: bit_imp_le_length)
    moreover have "n div 8 = Suc ((n - 8) div 8)" "n mod 8 = (n - 8) mod 8"
      using False by (auto simp: le_div_geq le_mod_geq)
    moreover have "n - 8 < LENGTH('a)" if "n < LENGTH('a)" using that by arith
    ultimately show ?thesis
      using False Cons.IH [of "n - 8"]
      by (auto simp: bit_or_iff bit_push_bit_iff bit_ucast_iff)
  qed
qed

theorem le_word_word_le:
  fixes w :: "'a::len word"
  assumes "LENGTH('a) \<le> 8 * n"
  shows "le_word (word_le n w) = w"
proof (rule bit_word_eqI)
  fix k assume k: "k < LENGTH('a)"
  with assms have "k div 8 < n" by (simp add: less_mult_imp_div_less mult.commute)
  then show "bit (le_word (word_le n w) :: 'a word) k = bit w k"
    using k by (simp add: bit_le_word word_le_def bit_ucast_iff bit_drop_bit_eq)
qed

theorem word_le_le_word:
  assumes "length bs = n" and "8 * n \<le> LENGTH('a::len)"
  shows "word_le n (le_word bs :: 'a word) = bs"
proof (rule nth_equalityI)
  show "length (word_le n (le_word bs :: 'a word)) = length bs"
    using assms by simp
next
  fix i assume i: "i < length (word_le n (le_word bs :: 'a word))"
  then have i': "i < n" by simp
  show "word_le n (le_word bs :: 'a word) ! i = bs ! i"
  proof (rule bit_word_eqI)
    fix k assume k: "k < LENGTH(8)"
    then have "8 * i + k < LENGTH('a)" using assms(2) i' by simp
    then show "bit (word_le n (le_word bs :: 'a word) ! i) k = bit (bs ! i) k"
      using k i' assms(1)
      by (simp add: word_le_def bit_ucast_iff bit_drop_bit_eq bit_le_word add.commute)
  qed
qed

section \<open>Byte memory\<close>

text \<open>
  Memory as the kernel's pointers see it: one byte per 64-bit address. A \<^verbatim>\<open>u64\<close> read or write
  through a pointer touches the eight bytes at that address.
\<close>

type_synonym mem = "u64 \<Rightarrow> u8"

definition read_u64 :: "mem \<Rightarrow> u64 \<Rightarrow> u64" where
  "read_u64 m a = le_word (map (\<lambda>i. m (a + of_nat i)) [0..<8])"

definition write_bytes_at :: "mem \<Rightarrow> u64 \<Rightarrow> u8 list \<Rightarrow> mem" where
  "write_bytes_at m a bs = (\<lambda>x. if unat (x - a) < length bs then bs ! unat (x - a) else m x)"

definition write_u64 :: "mem \<Rightarrow> u64 \<Rightarrow> u64 \<Rightarrow> mem" where
  "write_u64 m a v = write_bytes_at m a (word_le 8 v)"

text \<open>\<^verbatim>\<open>ptr::write_bytes(p, val, 1)\<close> on an object of \<open>n\<close> bytes.\<close>

definition fill_bytes :: "mem \<Rightarrow> u64 \<Rightarrow> u8 \<Rightarrow> nat \<Rightarrow> mem" where
  "fill_bytes m a v n = (\<lambda>x. if unat (x - a) < n then v else m x)"

lemma read_write_u64_same [simp]: "read_u64 (write_u64 m a v) a = v"
proof -
  have "map (\<lambda>i. write_u64 m a v (a + of_nat i)) [0..<8] = word_le 8 v"
    by (rule nth_equalityI)
      (auto simp: write_u64_def write_bytes_at_def unat_of_nat64)
  then show ?thesis
    by (simp add: read_u64_def le_word_word_le)
qed

lemma read_u64_cong:
  assumes "\<And>i. i < 8 \<Longrightarrow> m (a + of_nat i) = m' (a + of_nat i)"
  shows "read_u64 m a = read_u64 m' a"
proof -
  have "map (\<lambda>i. m (a + of_nat i)) [0..<8] = map (\<lambda>i. m' (a + of_nat i)) [0..<8]"
    using assms by (intro map_cong) auto
  then show ?thesis by (simp only: read_u64_def)
qed

text \<open>Two runs of bytes, neither of which wraps, that do not overlap.\<close>

definition disjoint_runs :: "u64 \<Rightarrow> nat \<Rightarrow> u64 \<Rightarrow> nat \<Rightarrow> bool" where
  "disjoint_runs a n b k \<longleftrightarrow>
     unat a + n \<le> 2 ^ 64 \<and> unat b + k \<le> 2 ^ 64 \<and> (unat a + n \<le> unat b \<or> unat b + k \<le> unat a)"

lemma disjoint_runs_offset:
  assumes "disjoint_runs a n b k" and "i < k"
  shows "\<not> unat (b + of_nat i - a) < n"
proof -
  have i: "unat (of_nat i :: u64) = i"
    using assms by (intro unat_of_nat64) (auto simp: disjoint_runs_def)
  have "unat (b + of_nat i) = unat b + i"
    using assms i by (subst unat_add_noof) (auto simp: disjoint_runs_def)
  then show ?thesis
    using assms by (subst word_diff_less_iff) (auto simp: disjoint_runs_def)
qed

lemma read_u64_write_other:
  assumes "disjoint_runs a 8 b 8"
  shows "read_u64 (write_u64 m a v) b = read_u64 m b"
  by (rule read_u64_cong)
    (use disjoint_runs_offset [OF assms] in \<open>simp add: write_u64_def write_bytes_at_def\<close>)

lemma read_u64_fill_other:
  assumes "disjoint_runs a n b 8"
  shows "read_u64 (fill_bytes m a v n) b = read_u64 m b"
  by (rule read_u64_cong)
    (use disjoint_runs_offset [OF assms] in \<open>simp add: fill_bytes_def\<close>)

lemma le_word_zeros: "le_word (replicate n 0) = 0"
  by (induction n) auto

lemma read_u64_fill_zero:
  assumes "unat a + n \<le> 2 ^ 64" and "unat a \<le> unat b" and "unat b + 8 \<le> unat a + n"
  shows "read_u64 (fill_bytes m a 0 n) b = 0"
proof -
  have "fill_bytes m a 0 n (b + of_nat i) = 0" if "i < 8" for i
  proof -
    have "unat (of_nat i :: u64) = i" using that by (intro unat_of_nat64) simp
    then have "unat (b + of_nat i) = unat b + i"
      using assms that by (subst unat_add_noof) auto
    then have "unat (b + of_nat i - a) < n"
      using assms that by (subst word_diff_less_iff) auto
    then show ?thesis by (simp add: fill_bytes_def)
  qed
  then have "map (\<lambda>i. fill_bytes m a 0 n (b + of_nat i)) [0..<8] = map (\<lambda>i. 0) [0..<8]"
    by (intro map_cong) auto
  then show ?thesis
    by (simp only: read_u64_def map_replicate_const le_word_zeros)
qed

section \<open>Slices of vectors\<close>

text \<open>
  \<^verbatim>\<open>&v[start..end]\<close>: a panic unless \<open>start \<le> end \<le> len\<close>. The bounds are \<^verbatim>\<open>usize\<close> values.
\<close>

definition vec_len :: "'a list \<Rightarrow> usize" where
  "vec_len xs = of_nat (length xs)"

definition slice :: "'a list \<Rightarrow> usize \<Rightarrow> usize \<Rightarrow> 'a list res" where
  "slice xs start end =
     (if start \<le> end \<and> end \<le> vec_len xs
      then Ok (take (unat end - unat start) (drop (unat start) xs)) else Panic)"

text \<open>A \<^verbatim>\<open>Vec\<close> never holds more than \<^verbatim>\<open>isize::MAX\<close> bytes.\<close>

definition vec_ok :: "'a list \<Rightarrow> bool" where
  "vec_ok xs \<longleftrightarrow> length xs < 2 ^ 63"

lemma unat_vec_len: "vec_ok xs \<Longrightarrow> unat (vec_len xs) = length xs"
  by (simp add: vec_len_def vec_ok_def unat_of_nat64)

text \<open>\<^verbatim>\<open>Vec::resize_with(n, || x)\<close>: truncate, or pad with copies of \<open>x\<close>.\<close>

definition resize_with :: "nat \<Rightarrow> 'a \<Rightarrow> 'a list \<Rightarrow> 'a list" where
  "resize_with n x xs = take n xs @ replicate (n - length xs) x"

lemma length_resize_with [simp]: "length (resize_with n x xs) = n"
  by (simp add: resize_with_def)

lemma nth_resize_with:
  "i < n \<Longrightarrow> resize_with n x xs ! i = (if i < length xs then xs ! i else x)"
  by (auto simp: resize_with_def nth_append)

section \<open>Auto-incrementing identifiers\<close>

text \<open>
  \<^verbatim>\<open>AtomicU64::fetch_add(1)\<close> as an identifier source: the old value is handed out and the
  counter wraps. The first \<open>2 ^ LENGTH('a)\<close> identifiers of any run are distinct.
\<close>

definition fetch_add1 :: "'a::len word \<Rightarrow> 'a word \<times> 'a word" where
  "fetch_add1 c = (c, c + 1)"

fun fetch_n :: "nat \<Rightarrow> 'a::len word \<Rightarrow> 'a word list" where
  "fetch_n 0 c = []"
| "fetch_n (Suc n) c = fst (fetch_add1 c) # fetch_n n (snd (fetch_add1 c))"

lemma fetch_n_eq: "fetch_n n c = map (\<lambda>i. c + of_nat i) [0..<n]"
proof (induction n arbitrary: c)
  case 0
  then show ?case by simp
next
  case (Suc n)
  have "[0..<Suc n] = 0 # map Suc [0..<n]"
    by (rule upt_0_Suc)
  then show ?case
    using Suc by (simp add: fetch_add1_def add.assoc)
qed

lemma fetch_n_distinct:
  fixes c :: "'a::len word"
  assumes "n \<le> 2 ^ LENGTH('a)"
  shows "distinct (fetch_n n c)"
proof -
  have "inj_on (\<lambda>i. c + of_nat i) {0..<n}"
  proof (rule inj_onI)
    fix i j assume ij: "i \<in> {0..<n}" "j \<in> {0..<n}" and eq: "c + of_nat i = c + of_nat j"
    have "unat (of_nat i :: 'a word) = i" "unat (of_nat j :: 'a word) = j"
      using ij assms by (simp_all add: unat_of_nat)
    with eq show "i = j" by (metis add_left_cancel)
  qed
  then show ?thesis by (simp add: fetch_n_eq distinct_map)
qed

text \<open>The contract of an identifier source over some state.\<close>

locale id_source =
  fixes next_id :: "'s \<Rightarrow> 'w::len word \<times> 's"
    and counter :: "'s \<Rightarrow> 'w word"
  assumes next_id: "fst (next_id s) = counter s"
    and counter_next: "counter (snd (next_id s)) = counter s + 1"
begin

fun take_ids :: "nat \<Rightarrow> 's \<Rightarrow> 'w word list" where
  "take_ids 0 s = []"
| "take_ids (Suc n) s = fst (next_id s) # take_ids n (snd (next_id s))"

lemma take_ids_eq: "take_ids n s = fetch_n n (counter s)"
  by (induction n arbitrary: s) (simp_all add: next_id counter_next fetch_add1_def)

lemma take_ids_distinct: "n \<le> 2 ^ LENGTH('w) \<Longrightarrow> distinct (take_ids n s)"
  by (simp add: take_ids_eq fetch_n_distinct)

end

end
