(* ===== verification/Fs_Node.thy ===== *)
theory Fs_Node
  imports Prelude
begin

text \<open>
  Nodes, links, open directories and open files (\<^verbatim>\<open>fs/node.rs\<close>, \<^verbatim>\<open>fs/directory.rs\<close>,
  \<^verbatim>\<open>fs/file.rs\<close>, the names of \<^verbatim>\<open>fs/file_system.rs\<close>). A file system object is identified by
  \<open>fs_id\<close>, the address of its \<^verbatim>\<open>Arc\<close>; a \<^verbatim>\<open>Weak\<close> reference to it is that identifier. The \<^verbatim>\<open>me\<close> fields
  are self references and carry no information. Names are byte strings.
\<close>

type_synonym fs_id = nat

datatype NodeType = CharacterDevice | Directory | File

record node =
  node_fs :: fs_id
  node_id :: u64
  node_type :: NodeType

text \<open>\<^verbatim>\<open>PartialEq\<close> compares the file system and the identifier, not the type.\<close>

definition node_eq :: "node \<Rightarrow> node \<Rightarrow> bool" where
  "node_eq a b \<longleftrightarrow> node_fs a = node_fs b \<and> node_id a = node_id b"

record node_link =
  link_name :: string
  link_node :: node

record directory =
  dir_node :: node
  dir_position :: usize

record open_file =
  file_node :: node
  file_position :: usize

definition directory_new :: "node \<Rightarrow> directory" where
  "directory_new n = \<lparr>dir_node = n, dir_position = 0\<rparr>"

definition file_new :: "node \<Rightarrow> open_file" where
  "file_new n = \<lparr>file_node = n, file_position = 0\<rparr>"

definition CURRENT :: string where
  [consts_defs]: "CURRENT = ''.''"

definition PARENT :: string where
  [consts_defs]: "PARENT = ''..''"

lemma CURRENT_PARENT [simp]: "CURRENT \<noteq> PARENT" "PARENT \<noteq> CURRENT"
  by (simp_all add: consts_defs)

lemma node_eq_refl [simp]: "node_eq a a"
  and node_eq_sym: "node_eq a b \<Longrightarrow> node_eq b a"
  and node_eq_trans: "node_eq a b \<Longrightarrow> node_eq b c \<Longrightarrow> node_eq a c"
  by (simp_all add: node_eq_def)

section \<open>Reading a directory\<close>

text \<open>
  What a file system promises about directories: entry \<open>k\<close> of the list of links is what
  \<^verbatim>\<open>readdir\<close> returns at position \<open>k\<close>, \<^verbatim>\<open>None\<close> past the end, an error when there is no such
  directory. A client that scans a directory link by link for a name then finds the first
  link of that name. The laws of the client's loop are its own unfolding.
\<close>

definition advance :: "directory \<Rightarrow> directory" where
  "advance d = d\<lparr>dir_position := dir_position d + 1\<rparr>"

locale directory_entries =
  fixes entries :: "'s \<Rightarrow> node \<Rightarrow> node_link list option"
    and readdir :: "'s \<Rightarrow> directory \<Rightarrow> usize \<Rightarrow> node_link option res"
  assumes readdir_entries: "readdir s d k =
    (case entries s (dir_node d) of
       None \<Rightarrow> Err ()
     | Some ls \<Rightarrow> Ok (if unat k < length ls then Some (ls ! unat k) else None))"

locale directory_scan = directory_entries +
  fixes scan :: "'s \<Rightarrow> string \<Rightarrow> directory \<Rightarrow> node_link res option"
  assumes scan_link: "readdir s d (dir_position d) = Ok (Some l) \<Longrightarrow>
      scan s name d = (if link_name l = name then Some (Ok l) else scan s name (advance d))"
    and scan_end: "readdir s d (dir_position d) = Ok None \<Longrightarrow> scan s name d = Some (Err ())"
    and scan_error: "readdir s d (dir_position d) = Err () \<Longrightarrow> scan s name d = Some (Err ())"
begin

lemma scan_from:
  assumes e: "entries s (dir_node d) = Some ls" and len: "length ls < 2 ^ 63"
    and k: "unat (dir_position d) \<le> length ls"
  shows "scan s name d = Some (case find (\<lambda>l. link_name l = name) (drop (unat (dir_position d)) ls) of
      None \<Rightarrow> Err () | Some l \<Rightarrow> Ok l)"
  using e k
proof (induction "length ls - unat (dir_position d)" arbitrary: d)
  case 0
  then show ?case using readdir_entries [of s d] by (simp add: scan_end)
next
  case (Suc n)
  let ?k = "unat (dir_position d)"
  have less: "?k < length ls" using Suc.hyps(2) by simp
  then have r: "readdir s d (dir_position d) = Ok (Some (ls ! ?k))"
    using readdir_entries [of s d] Suc.prems(1) by simp
  have pos: "unat (dir_position (advance d)) = Suc ?k"
    using less len by (simp add: advance_def unat_add_noof)
  have drop: "drop ?k ls = ls ! ?k # drop (Suc ?k) ls" using less by (rule Cons_nth_drop_Suc [symmetric])
  have "scan s name (advance d) = Some (case find (\<lambda>l. link_name l = name) (drop (Suc ?k) ls) of
      None \<Rightarrow> Err () | Some l \<Rightarrow> Ok l)"
    using Suc.hyps(1) [of "advance d"] Suc.hyps(2) Suc.prems less pos by (simp add: advance_def)
  then show ?case using scan_link [OF r] drop by simp
qed

text \<open>The scan of a freshly opened directory always ends, with the first link of the name.\<close>

lemma scan_new:
  assumes "\<And>ls. entries s n = Some ls \<Longrightarrow> length ls < 2 ^ 63"
  shows "scan s name (directory_new n) = Some (case entries s n of
      None \<Rightarrow> Err ()
    | Some ls \<Rightarrow> (case find (\<lambda>l. link_name l = name) ls of None \<Rightarrow> Err () | Some l \<Rightarrow> Ok l))"
proof (cases "entries s n")
  case None
  then show ?thesis
    using readdir_entries [of s "directory_new n" 0] by (simp add: directory_new_def scan_error)
next
  case (Some ls)
  then show ?thesis
    using scan_from [of s "directory_new n" ls name] assms by (simp add: directory_new_def)
qed

end

end
