(* ===== verification/Tmpfs.thy ===== *)
theory Tmpfs
  imports Fs_Node
begin

text \<open>
  The temporary file system (\<^verbatim>\<open>fs/tmpfs.rs\<close>): a counter for node identifiers, the links of every
  directory and the bytes of every file. The mutexes make each call one step. \<^verbatim>\<open>todo!()\<close> is a
  panic, and so is a slice out of range. A file is refined by its length and the byte at each
  offset. The heap is taken to be large enough here; the theory \<^verbatim>\<open>Heap_Data\<close> adds it.
\<close>

section \<open>State and operations\<close>

record tmpfs =
  tmp_root :: node
  node_counter :: u64
  directories :: "u64 \<rightharpoonup> node_link list"
  files :: "u64 \<rightharpoonup> u8 list"

abbreviation link :: "string \<Rightarrow> node \<Rightarrow> node_link" where
  "link name n \<equiv> \<lparr>link_name = name, link_node = n\<rparr>"

definition tmpfs_new :: "fs_id \<Rightarrow> tmpfs" where
  "tmpfs_new me =
     (let root = \<lparr>node_fs = me, node_id = 0, node_type = Directory\<rparr>
      in \<lparr>tmp_root = root, node_counter = 1,
          directories = [0 \<mapsto> [link CURRENT root, link PARENT root]],
          files = Map.empty\<rparr>)"

definition tmpfs_mkdir :: "node \<Rightarrow> string \<Rightarrow> tmpfs \<Rightarrow> unit res \<times> tmpfs" where
  "tmpfs_mkdir dir name t =
     (let (nid, counter) = fetch_add1 (node_counter t);
          child_node = \<lparr>node_fs = node_fs dir, node_id = nid, node_type = Directory\<rparr>;
          t1 = t\<lparr>node_counter := counter\<rparr>
      in case directories t1 (node_id dir) of
           None \<Rightarrow> (Err (), t1)
         | Some links \<Rightarrow>
             let ds1 = (directories t1)(node_id dir \<mapsto> links @ [link name child_node]);
                 ds2 = ds1(nid \<mapsto> [link CURRENT child_node, link PARENT dir])
             in case ds2 (node_id dir) of
                  None \<Rightarrow> (Err (), t1\<lparr>directories := ds2\<rparr>)
                | Some links2 \<Rightarrow>
                    (Ok (), t1\<lparr>directories := ds2(node_id dir \<mapsto> links2 @ [link name child_node])\<rparr>))"

definition tmpfs_mknod :: "node \<Rightarrow> string \<Rightarrow> tmpfs \<Rightarrow> unit res \<times> tmpfs" where
  "tmpfs_mknod dir name t =
     (let (nid, counter) = fetch_add1 (node_counter t);
          child_node = \<lparr>node_fs = node_fs dir, node_id = nid, node_type = File\<rparr>;
          t1 = t\<lparr>node_counter := counter, files := (files t)(nid \<mapsto> [])\<rparr>
      in case directories t1 (node_id dir) of
           None \<Rightarrow> (Err (), t1)
         | Some links \<Rightarrow>
             (Ok (), t1\<lparr>directories := (directories t1)(node_id dir \<mapsto> links @ [link name child_node])\<rparr>))"

definition tmpfs_rmdir :: "node \<Rightarrow> string \<Rightarrow> tmpfs \<Rightarrow> unit res \<times> tmpfs" where
  "tmpfs_rmdir dir name t = (Panic, t)"

definition tmpfs_unlink :: "node \<Rightarrow> string \<Rightarrow> tmpfs \<Rightarrow> unit res \<times> tmpfs" where
  "tmpfs_unlink dir name t = (Panic, t)"

definition tmpfs_rename :: "node \<Rightarrow> string \<Rightarrow> node \<Rightarrow> string \<Rightarrow> tmpfs \<Rightarrow> unit res \<times> tmpfs" where
  "tmpfs_rename old_dir old_name new_dir new_name t = (Panic, t)"

definition tmpfs_opendir :: "node \<Rightarrow> tmpfs \<Rightarrow> unit res" where
  "tmpfs_opendir n t = Ok ()"

definition tmpfs_readdir :: "tmpfs \<Rightarrow> directory \<Rightarrow> usize \<Rightarrow> node_link option res" where
  "tmpfs_readdir t d position =
     bind_res (ok_or (directories t (node_id (dir_node d)))) (\<lambda>links.
       Ok (if unat position < length links
           then Some (link (link_name (links ! unat position)) (link_node (links ! unat position)))
           else None))"

definition tmpfs_open :: "node \<Rightarrow> tmpfs \<Rightarrow> unit res" where
  "tmpfs_open n t = Ok ()"

definition tmpfs_seek :: "open_file \<Rightarrow> usize \<Rightarrow> tmpfs \<Rightarrow> unit res" where
  "tmpfs_seek f position t = Ok ()"

definition tmpfs_read :: "open_file \<Rightarrow> usize \<Rightarrow> usize \<Rightarrow> tmpfs \<Rightarrow> u8 list res" where
  "tmpfs_read f position count t =
     bind_res (ok_or (files t (node_id (file_node f)))) (\<lambda>bytes.
       let range_end = position + count;
           range_end = (if vec_len bytes < range_end then vec_len bytes else range_end)
       in slice bytes position range_end)"

text \<open>
  \<^verbatim>\<open>write\<close> grows the file first: \<^verbatim>\<open>resize_with\<close> panics above \<^verbatim>\<open>isize::MAX\<close>. Then the slice of the
  range is checked, and \<^verbatim>\<open>copy_from_slice\<close> compares the lengths.
\<close>

definition tmpfs_write :: "open_file \<Rightarrow> usize \<Rightarrow> u8 list \<Rightarrow> tmpfs \<Rightarrow> usize res \<times> tmpfs" where
  "tmpfs_write f position buf t =
     (let nid = node_id (file_node f) in
      case files t nid of
        None \<Rightarrow> (Err (), t)
      | Some bytes \<Rightarrow>
          let range_end = position + vec_len buf;
              grow = vec_len bytes < range_end
          in if grow \<and> 2 ^ 63 \<le> unat range_end then (Panic, t)
             else
               let bytes1 = (if grow then resize_with (unat range_end) 0 bytes else bytes);
                   t1 = t\<lparr>files := (files t)(nid \<mapsto> bytes1)\<rparr>;
                   len = (if position < range_end then range_end - position else 0)
               in if position \<le> range_end \<and> range_end \<le> vec_len bytes1 \<and> len = vec_len buf
                  then (Ok len, t\<lparr>files := (files t)(nid \<mapsto>
                      take (unat position) bytes1 @ buf @ drop (unat range_end) bytes1)\<rparr>)
                  else (Panic, t1))"

section \<open>Directories\<close>

lemma tmpfs_readdir_entries:
  "tmpfs_readdir t d k = (case directories t (node_id (dir_node d)) of
     None \<Rightarrow> Err () | Some ls \<Rightarrow> Ok (if unat k < length ls then Some (ls ! unat k) else None))"
  by (simp add: tmpfs_readdir_def split: option.split)

interpretation tmpfs_dirs: directory_entries "\<lambda>t n. directories t (node_id n)" tmpfs_readdir
  by unfold_locales (rule tmpfs_readdir_entries)

text \<open>
  Well-formedness: the root is directory 0; identifiers in use are below the counter; no
  identifier is both a directory and a file; the first two links of a directory are itself and
  a directory; every link points to a live node of the recorded type; the number of links is
  bounded by the number of identifiers handed out; files fit in a \<^verbatim>\<open>Vec\<close>.
\<close>

definition live_node :: "fs_id \<Rightarrow> tmpfs \<Rightarrow> node \<Rightarrow> bool" where
  "live_node me t n \<longleftrightarrow> node_fs n = me \<and>
     (case node_type n of
        Directory \<Rightarrow> node_id n \<in> dom (directories t)
      | File \<Rightarrow> node_id n \<in> dom (files t)
      | CharacterDevice \<Rightarrow> False)"

definition links_ok :: "fs_id \<Rightarrow> tmpfs \<Rightarrow> u64 \<Rightarrow> node_link list \<Rightarrow> bool" where
  "links_ok me t i ls \<longleftrightarrow>
     (\<exists>up rest. ls = link CURRENT \<lparr>node_fs = me, node_id = i, node_type = Directory\<rparr> # link PARENT up # rest
        \<and> node_type up = Directory \<and> (\<forall>l \<in> set rest. link_name l \<noteq> CURRENT \<and> link_name l \<noteq> PARENT))
     \<and> (\<forall>l \<in> set ls. live_node me t (link_node l))
     \<and> length ls \<le> 2 * unat (node_counter t)"

definition tmpfs_wf :: "fs_id \<Rightarrow> tmpfs \<Rightarrow> bool" where
  "tmpfs_wf me t \<longleftrightarrow>
     tmp_root t = \<lparr>node_fs = me, node_id = 0, node_type = Directory\<rparr>
     \<and> 0 \<in> dom (directories t)
     \<and> (\<forall>i \<in> dom (directories t) \<union> dom (files t). unat i < unat (node_counter t))
     \<and> dom (directories t) \<inter> dom (files t) = {}
     \<and> (\<forall>i ls. directories t i = Some ls \<longrightarrow> links_ok me t i ls)
     \<and> (\<forall>i bytes. files t i = Some bytes \<longrightarrow> vec_ok bytes)"

text \<open>The identifiers do not run out: one more can be handed out without a wrap.\<close>

definition ids_left :: "tmpfs \<Rightarrow> bool" where
  "ids_left t \<longleftrightarrow> unat (node_counter t) < 2 ^ 60"

lemma live_node_mono:
  assumes "live_node me t n" and "dom (directories t) \<subseteq> dom (directories t')"
    and "dom (files t) \<subseteq> dom (files t')"
  shows "live_node me t' n"
  using assms by (auto simp: live_node_def split: NodeType.splits)

lemma links_ok_mono:
  assumes "links_ok me t i ls" and "dom (directories t) \<subseteq> dom (directories t')"
    and "dom (files t) \<subseteq> dom (files t')" and "unat (node_counter t) \<le> unat (node_counter t')"
  shows "links_ok me t' i ls"
  using assms live_node_mono [OF _ assms(2,3)] by (fastforce simp: links_ok_def)

text \<open>Adding \<open>k\<close> links to one node, one of the last identifiers handed out.\<close>

lemma links_ok_append:
  assumes "links_ok me t i ls" and "dom (directories t) \<subseteq> dom (directories t')"
    and "dom (files t) \<subseteq> dom (files t')" and "unat (node_counter t') = Suc (unat (node_counter t))"
    and "live_node me t' n" and "name \<noteq> CURRENT" "name \<noteq> PARENT" and "k \<le> 2"
  shows "links_ok me t' i (ls @ replicate k (link name n))"
proof -
  obtain up rest where ls: "ls = link CURRENT \<lparr>node_fs = me, node_id = i, node_type = Directory\<rparr> # link PARENT up # rest"
    and up: "node_type up = Directory" and r: "\<forall>l \<in> set rest. link_name l \<noteq> CURRENT \<and> link_name l \<noteq> PARENT"
    using assms(1) by (auto simp: links_ok_def)
  have "\<forall>l \<in> set ls. live_node me t' (link_node l)"
    using assms(1) live_node_mono [OF _ assms(2,3)] by (simp add: links_ok_def)
  moreover have "length ls + k \<le> 2 * unat (node_counter t')" using assms(1,4,8) by (simp add: links_ok_def)
  moreover have "\<exists>up rest'. ls @ replicate k (link name n)
        = link CURRENT \<lparr>node_fs = me, node_id = i, node_type = Directory\<rparr> # link PARENT up # rest'
      \<and> node_type up = Directory \<and> (\<forall>l \<in> set rest'. link_name l \<noteq> CURRENT \<and> link_name l \<noteq> PARENT)"
    using ls up r assms(6,7) by (intro exI [of _ up] exI [of _ "rest @ replicate k (link name n)"]) auto
  ultimately show ?thesis using assms(5) by (auto simp: links_ok_def)
qed

lemma counter_step:
  assumes "ids_left t"
  shows "unat (node_counter t + 1) = Suc (unat (node_counter t))"
  using assms by (simp add: ids_left_def unat_add_noof)

lemma counter_fresh:
  assumes "tmpfs_wf me t"
  shows "node_counter t \<notin> dom (directories t)" and "node_counter t \<notin> dom (files t)"
proof -
  have "i \<in> dom (directories t) \<union> dom (files t) \<Longrightarrow> i \<noteq> node_counter t" for i
    using assms by (force simp: tmpfs_wf_def)
  then show "node_counter t \<notin> dom (directories t)" "node_counter t \<notin> dom (files t)" by blast+
qed

text \<open>What the two operations do to a directory that exists.\<close>

lemma tmpfs_mkdir_eq:
  assumes "tmpfs_wf me t" and "directories t (node_id dir) = Some ls"
  defines "child \<equiv> \<lparr>node_fs = node_fs dir, node_id = node_counter t, node_type = Directory\<rparr>"
  shows "tmpfs_mkdir dir name t = (Ok (), t\<lparr>node_counter := node_counter t + 1,
     directories := (directories t)
       (node_id dir \<mapsto> ls @ replicate 2 (link name child),
        node_counter t \<mapsto> [link CURRENT child, link PARENT dir])\<rparr>)"
proof -
  have "node_id dir \<noteq> node_counter t" using counter_fresh(1) [OF assms(1)] assms(2) by auto
  then show ?thesis
    using assms(2) by (simp add: tmpfs_mkdir_def fetch_add1_def child_def fun_upd_twist numeral_2_eq_2 Let_def)
qed

lemma tmpfs_mknod_eq:
  assumes "directories t (node_id dir) = Some ls"
  defines "child \<equiv> \<lparr>node_fs = node_fs dir, node_id = node_counter t, node_type = File\<rparr>"
  shows "tmpfs_mknod dir name t = (Ok (), t\<lparr>node_counter := node_counter t + 1,
     files := (files t)(node_counter t \<mapsto> []),
     directories := (directories t)(node_id dir \<mapsto> ls @ [link name child])\<rparr>)"
  using assms by (simp add: tmpfs_mknod_def fetch_add1_def)

lemma links_ok_new:
  assumes "live_node me t \<lparr>node_fs = me, node_id = i, node_type = Directory\<rparr>" and "live_node me t dir"
    and "node_type dir = Directory" and "0 < unat (node_counter t)"
  shows "links_ok me t i [link CURRENT \<lparr>node_fs = me, node_id = i, node_type = Directory\<rparr>, link PARENT dir]"
  using assms by (auto simp: links_ok_def)

lemma tmpfs_wfI:
  assumes "tmpfs_wf me t"
    and "tmp_root t' = tmp_root t" and "dom (directories t) \<subseteq> dom (directories t')"
    and "\<And>i. i \<in> dom (directories t') \<union> dom (files t') \<Longrightarrow> unat i < unat (node_counter t')"
    and "dom (directories t') \<inter> dom (files t') = {}"
    and "\<And>i ls. directories t' i = Some ls \<Longrightarrow> links_ok me t' i ls"
    and "\<And>i bytes. files t' i = Some bytes \<Longrightarrow> vec_ok bytes"
  shows "tmpfs_wf me t'"
  unfolding tmpfs_wf_def using assms(1)
  by (intro conjI ballI allI impI assms(4,5,6,7)) (use assms(2,3) in \<open>auto simp: tmpfs_wf_def\<close>)

lemma tmpfs_wf_new: "tmpfs_wf me (tmpfs_new me)"
proof -
  have "links_ok me (tmpfs_new me) 0 [link CURRENT \<lparr>node_fs = me, node_id = 0, node_type = Directory\<rparr>,
      link PARENT \<lparr>node_fs = me, node_id = 0, node_type = Directory\<rparr>]"
    by (rule links_ok_new) (simp_all add: tmpfs_new_def live_node_def Let_def)
  then show ?thesis by (auto simp: tmpfs_wf_def tmpfs_new_def Let_def split: if_splits)
qed

lemma dom_bound: "tmpfs_wf me t \<Longrightarrow> i \<in> dom (directories t) \<union> dom (files t) \<Longrightarrow> unat i < unat (node_counter t)"
  by (simp add: tmpfs_wf_def)

lemma wf_links: "tmpfs_wf me t \<Longrightarrow> directories t i = Some ls \<Longrightarrow> links_ok me t i ls"
  by (simp add: tmpfs_wf_def)

lemma wf_rest:
  assumes "tmpfs_wf me t"
  shows "dom (directories t) \<inter> dom (files t) = {}" "files t i = Some bytes \<Longrightarrow> vec_ok bytes"
    "tmp_root t = \<lparr>node_fs = me, node_id = 0, node_type = Directory\<rparr>"
  using assms by (simp_all add: tmpfs_wf_def)

text \<open>One operation that hands out an identifier, and how it may change the maps.\<close>

lemma tmpfs_wf_step:
  assumes wf: "tmpfs_wf me t" and cnt: "unat (node_counter t') = Suc (unat (node_counter t))"
    and "tmp_root t' = tmp_root t"
    and sub: "dom (directories t) \<subseteq> dom (directories t')" "dom (files t) \<subseteq> dom (files t')"
    and ids: "dom (directories t') \<union> dom (files t') \<subseteq> insert (node_counter t) (dom (directories t) \<union> dom (files t))"
    and "dom (directories t') \<inter> dom (files t') = {}"
    and links: "\<And>i ks. directories t' i = Some ks \<Longrightarrow> directories t i = Some ks \<or> links_ok me t' i ks"
    and fl: "\<And>i bytes. files t' i = Some bytes \<Longrightarrow> files t i = Some bytes \<or> bytes = []"
  shows "tmpfs_wf me t'"
proof (rule tmpfs_wfI [OF wf])
  show "unat i < unat (node_counter t')" if "i \<in> dom (directories t') \<union> dom (files t')" for i
  proof -
    have "i = node_counter t \<or> i \<in> dom (directories t) \<union> dom (files t)" using that ids by blast
    then show ?thesis using dom_bound [OF wf, of i] cnt by (metis less_Suc_eq)
  qed
  show "links_ok me t' i ks" if "directories t' i = Some ks" for i ks
    using links [OF that] links_ok_mono [OF wf_links [OF wf] sub] cnt by auto
  show "vec_ok bytes" if "files t' i = Some bytes" for i bytes
    using fl [OF that] wf_rest(2) [OF wf] by (auto simp: vec_ok_def)
qed fact+

lemma tmpfs_mkdir_wf:
  assumes wf: "tmpfs_wf me t" and ids: "ids_left t" and dir: "node_fs dir = me" "node_type dir = Directory"
    and name: "name \<noteq> CURRENT" "name \<noteq> PARENT"
  shows "tmpfs_wf me (snd (tmpfs_mkdir dir name t))"
proof (cases "directories t (node_id dir)")
  case None
  then have e: "snd (tmpfs_mkdir dir name t) = t\<lparr>node_counter := node_counter t + 1\<rparr>"
    by (simp add: tmpfs_mkdir_def fetch_add1_def)
  show ?thesis unfolding e
    by (rule tmpfs_wf_step [OF wf]) (use counter_step [OF ids] wf_rest [OF wf] in auto)
next
  case (Some ls)
  define child where "child = \<lparr>node_fs = me, node_id = node_counter t, node_type = Directory\<rparr>"
  define t' where "t' = t\<lparr>node_counter := node_counter t + 1,
     directories := (directories t)(node_id dir \<mapsto> ls @ replicate 2 (link name child),
        node_counter t \<mapsto> [link CURRENT child, link PARENT dir])\<rparr>"
  have e: "snd (tmpfs_mkdir dir name t) = t'"
    using tmpfs_mkdir_eq [OF wf Some] dir by (simp add: t'_def child_def)
  have cnt: "unat (node_counter t') = Suc (unat (node_counter t))"
    using counter_step [OF ids] by (simp add: t'_def)
  have sub: "dom (directories t) \<subseteq> dom (directories t')" "dom (files t) \<subseteq> dom (files t')"
    by (auto simp: t'_def)
  have live: "live_node me t' child" "live_node me t' dir"
    using dir Some by (auto simp: live_node_def child_def t'_def)
  have new: "links_ok me t' (node_counter t) [link CURRENT child, link PARENT dir]"
    using links_ok_new live dir(2) cnt by (simp add: child_def)
  have parent: "links_ok me t' (node_id dir) (ls @ replicate 2 (link name child))"
    using links_ok_append [OF wf_links [OF wf Some] sub cnt live(1) name] by simp
  show ?thesis unfolding e
  proof (rule tmpfs_wf_step [OF wf cnt _ sub])
    show "directories t i = Some ks \<or> links_ok me t' i ks" if "directories t' i = Some ks" for i ks
      using that new parent by (auto simp: t'_def split: if_splits)
    show "dom (directories t') \<inter> dom (files t') = {}"
      using wf_rest(1) [OF wf] counter_fresh [OF wf] Some by (auto simp: t'_def)
  qed (use Some in \<open>auto simp: t'_def split: if_splits\<close>)
qed

lemma tmpfs_mknod_wf:
  assumes wf: "tmpfs_wf me t" and ids: "ids_left t" and dir: "node_fs dir = me"
    and name: "name \<noteq> CURRENT" "name \<noteq> PARENT"
  shows "tmpfs_wf me (snd (tmpfs_mknod dir name t))"
proof (cases "directories t (node_id dir)")
  case None
  then have e: "snd (tmpfs_mknod dir name t)
      = t\<lparr>node_counter := node_counter t + 1, files := (files t)(node_counter t \<mapsto> [])\<rparr>"
    by (simp add: tmpfs_mknod_def fetch_add1_def)
  show ?thesis unfolding e
    by (rule tmpfs_wf_step [OF wf])
      (use counter_step [OF ids] wf_rest(1) [OF wf] counter_fresh [OF wf] in \<open>auto split: if_splits\<close>)
next
  case (Some ls)
  define child where "child = \<lparr>node_fs = me, node_id = node_counter t, node_type = File\<rparr>"
  define t' where "t' = t\<lparr>node_counter := node_counter t + 1,
     files := (files t)(node_counter t \<mapsto> []),
     directories := (directories t)(node_id dir \<mapsto> ls @ [link name child])\<rparr>"
  have e: "snd (tmpfs_mknod dir name t) = t'"
    using tmpfs_mknod_eq [where t = t and dir = dir and name = name, OF Some] dir by (simp add: t'_def child_def)
  have cnt: "unat (node_counter t') = Suc (unat (node_counter t))"
    using counter_step [OF ids] by (simp add: t'_def)
  have sub: "dom (directories t) \<subseteq> dom (directories t')" "dom (files t) \<subseteq> dom (files t')"
    by (auto simp: t'_def)
  have live: "live_node me t' child"
    by (auto simp: live_node_def child_def t'_def)
  have parent: "links_ok me t' (node_id dir) (ls @ [link name child])"
    using links_ok_append [where k = 1, OF wf_links [OF wf Some] sub cnt live name] by simp
  show ?thesis unfolding e
  proof (rule tmpfs_wf_step [OF wf cnt _ sub])
    show "directories t i = Some ks \<or> links_ok me t' i ks" if "directories t' i = Some ks" for i ks
      using that parent by (auto simp: t'_def split: if_splits)
    show "dom (directories t') \<inter> dom (files t') = {}"
      using wf_rest(1) [OF wf] counter_fresh [OF wf] Some by (auto simp: t'_def)
  qed (use Some in \<open>auto simp: t'_def split: if_splits\<close>)
qed

section \<open>Files\<close>

text \<open>
  The abstract file: its length and a byte for every offset, zero past the end. Writing sets the
  bytes of a range and extends the length to the end of the range; reading returns the bytes
  of the part of the range that exists.
\<close>

type_synonym abs_file = "nat \<times> (nat \<Rightarrow> u8)"

definition abs_bytes :: "u8 list \<Rightarrow> abs_file" where
  "abs_bytes bytes = (length bytes, \<lambda>i. if i < length bytes then bytes ! i else 0)"

definition spec_write :: "nat \<Rightarrow> u8 list \<Rightarrow> abs_file \<Rightarrow> abs_file" where
  "spec_write pos buf f = (max (fst f) (pos + length buf),
     \<lambda>i. if pos \<le> i \<and> i < pos + length buf then buf ! (i - pos) else snd f i)"

definition spec_read :: "nat \<Rightarrow> nat \<Rightarrow> abs_file \<Rightarrow> u8 list" where
  "spec_read pos count f = map (snd f) [pos..<min (pos + count) (fst f)]"

lemma abs_bytes_eq_iff: "abs_bytes xs = abs_bytes ys \<longleftrightarrow> xs = ys"
  by (auto simp: abs_bytes_def fun_eq_iff intro: nth_equalityI)

lemma abs_bytes_write:
  assumes "length xs \<le> n" and "pos + length buf \<le> n" and "n = max (length xs) (pos + length buf)"
  shows "abs_bytes (take pos (resize_with n 0 xs) @ buf @ drop (pos + length buf) (resize_with n 0 xs))
    = spec_write pos buf (abs_bytes xs)"
proof -
  let ?r = "resize_with n 0 xs"
  let ?ys = "take pos ?r @ buf @ drop (pos + length buf) ?r"
  have len: "length ?ys = n" using assms(2) by simp
  have "(if i < n then ?ys ! i else 0)
      = (if pos \<le> i \<and> i < pos + length buf then buf ! (i - pos) else if i < length xs then xs ! i else 0)" for i
    using assms(1,2) by (auto simp: nth_append nth_resize_with min_def)
  then have "snd (abs_bytes ?ys) = snd (spec_write pos buf (abs_bytes xs))"
    by (simp only: abs_bytes_def spec_write_def len snd_conv)
  moreover have "fst (abs_bytes ?ys) = fst (spec_write pos buf (abs_bytes xs))"
    using len assms(3) by (simp only: abs_bytes_def spec_write_def fst_conv)
  ultimately show ?thesis by (rule prod_eqI [rotated])
qed

lemma tmpfs_write_cases:
  assumes f: "files t (node_id (file_node f)) = Some bytes" and ok: "vec_ok bytes" "vec_ok buf"
  shows "if unat pos + length buf < 2 ^ 63
    then \<exists>bytes'. tmpfs_write f pos buf t = (Ok (vec_len buf), t\<lparr>files := (files t)(node_id (file_node f) \<mapsto> bytes')\<rparr>)
           \<and> abs_bytes bytes' = spec_write (unat pos) buf (abs_bytes bytes) \<and> vec_ok bytes'
    else fst (tmpfs_write f pos buf t) = Panic
      \<and> (\<exists>bytes'. vec_ok bytes' \<and> snd (tmpfs_write f pos buf t) = t\<lparr>files := (files t)(node_id (file_node f) \<mapsto> bytes')\<rparr>)"
proof -
  let ?n = "max (length bytes) (unat pos + length buf)"
  let ?nid = "node_id (file_node f)"
  let ?e = "pos + vec_len buf"
  have ul: "unat (vec_len buf) = length buf" "unat (vec_len bytes) = length bytes"
    using ok by (simp_all add: unat_vec_len)
  have same: "t = t\<lparr>files := (files t)(?nid \<mapsto> bytes)\<rparr>" using f by (simp add: map_upd_triv)
  show ?thesis
  proof (cases "unat pos + length buf < 2 ^ 64")
    case noof: True
    then have ue: "unat ?e = unat pos + length buf" using ul by (simp add: unat_add_noof)
    show ?thesis
    proof (cases "unat pos + length buf < 2 ^ 63")
      case fits: True
      define bytes1 where "bytes1 = (if vec_len bytes < ?e then resize_with (unat ?e) 0 bytes else bytes)"
      have b1: "bytes1 = resize_with ?n 0 bytes"
        using ue ul by (auto simp: bytes1_def word_less_nat_alt resize_with_def max_def)
      have v1: "vec_ok bytes1" using ok(1) fits by (simp add: b1 vec_ok_def)
      have "pos \<le> ?e" "?e \<le> vec_len bytes1"
        using ue unat_vec_len [OF v1] by (simp_all add: word_le_nat_alt b1)
      moreover have "(if pos < ?e then ?e - pos else 0) = vec_len buf"
      proof (cases "pos < ?e")
        case False
        then have "length buf = 0" using ue by (simp add: word_less_nat_alt)
        then show ?thesis using False by (simp add: vec_len_def)
      qed simp
      moreover have "\<not> 2 ^ 63 \<le> unat ?e" using ue fits by simp
      ultimately have "tmpfs_write f pos buf t = (Ok (vec_len buf), t\<lparr>files := (files t)(?nid \<mapsto>
          take (unat pos) bytes1 @ buf @ drop (unat pos + length buf) bytes1)\<rparr>)"
        using f ue by (simp add: tmpfs_write_def Let_def bytes1_def)
      moreover have "abs_bytes (take (unat pos) bytes1 @ buf @ drop (unat pos + length buf) bytes1)
          = spec_write (unat pos) buf (abs_bytes bytes)"
        unfolding b1 by (rule abs_bytes_write) simp_all
      moreover have "vec_ok (take (unat pos) bytes1 @ buf @ drop (unat pos + length buf) bytes1)"
        using v1 by (simp add: vec_ok_def b1)
      ultimately show ?thesis using fits by auto
    next
      case False
      then have "vec_len bytes < ?e" using ul ok(1) ue by (simp add: word_less_nat_alt vec_ok_def)
      then have "tmpfs_write f pos buf t = (Panic, t)"
        using f False ue by (simp add: tmpfs_write_def Let_def)
      then show ?thesis using False ok(1) same by auto
    qed
  next
    case False
    have "unat ?e = (unat pos + length buf) mod 2 ^ 64"
      using ul by (simp add: unat_word_ariths)
    also have "\<dots> = unat pos + length buf - 2 ^ 64"
      using False u64_lt [of pos] ok(2) by (simp add: mod_if vec_ok_def)
    finally have ue: "unat ?e = unat pos + length buf - 2 ^ 64" .
    have lt: "\<not> pos \<le> ?e" using ue ok(2) False by (simp add: word_le_nat_alt vec_ok_def)
    have small: "unat ?e < 2 ^ 63" using ue u64_lt [of pos] ok(2) by (simp add: vec_ok_def)
    define bytes1 where "bytes1 = (if vec_len bytes < ?e then resize_with (unat ?e) 0 bytes else bytes)"
    have "tmpfs_write f pos buf t = (Panic, t\<lparr>files := (files t)(?nid \<mapsto> bytes1)\<rparr>)"
      using f lt small by (simp add: tmpfs_write_def Let_def bytes1_def)
    moreover have "vec_ok bytes1" using small ok(1) by (simp add: bytes1_def vec_ok_def)
    ultimately show ?thesis using False by auto
  qed
qed

text \<open>
  Writing implements the abstract file, as long as the heap has room for its data (\<open>Heap_Data\<close> says when). A write whose end lies below \<^verbatim>\<open>isize::MAX + 1\<close> returns
  the number of bytes given, extends the file to the end of the range, zero-fills a gap and
  changes no other byte and no other file; a write that ends higher panics. An identifier with
  no file is an error that changes nothing.
\<close>

lemma tmpfs_write_refines:
  assumes "tmpfs_wf me t" and "vec_ok buf"
  shows "case files t (node_id (file_node f)) of
      None \<Rightarrow> tmpfs_write f pos buf t = (Err (), t)
    | Some bytes \<Rightarrow>
        if unat pos + length buf < 2 ^ 63
        then \<exists>bytes'. tmpfs_write f pos buf t
               = (Ok (vec_len buf), t\<lparr>files := (files t)(node_id (file_node f) \<mapsto> bytes')\<rparr>)
             \<and> abs_bytes bytes' = spec_write (unat pos) buf (abs_bytes bytes)
        else fst (tmpfs_write f pos buf t) = Panic"
proof (cases "files t (node_id (file_node f))")
  case None
  then show ?thesis by (simp add: tmpfs_write_def)
next
  case (Some bytes)
  show ?thesis
    using tmpfs_write_cases [OF Some wf_rest(2) [OF assms(1) Some] assms(2), of pos] Some
    by (auto split: if_splits)
qed

lemma tmpfs_set_file_wf:
  assumes wf: "tmpfs_wf me t" and "nid \<in> dom (files t)" and b: "vec_ok bytes'"
  shows "tmpfs_wf me (t\<lparr>files := (files t)(nid \<mapsto> bytes')\<rparr>)"
proof -
  let ?t' = "t\<lparr>files := (files t)(nid \<mapsto> bytes')\<rparr>"
  have d: "dom (files ?t') = dom (files t)" using assms(2) by auto
  show ?thesis
  proof (rule tmpfs_wfI [OF wf])
    show "links_ok me ?t' i ls" if "directories ?t' i = Some ls" for i ls
      by (rule links_ok_mono [where t = t]) (use that wf_links [OF wf] d in \<open>simp_all del: dom_fun_upd\<close>)
    show "unat i < unat (node_counter ?t')" if "i \<in> dom (directories ?t') \<union> dom (files ?t')" for i
      using dom_bound [OF wf, of i] that d by (simp del: dom_fun_upd)
    show "dom (directories ?t') \<inter> dom (files ?t') = {}" using wf_rest(1) [OF wf] d by (simp del: dom_fun_upd)
    show "vec_ok bs" if "files ?t' i = Some bs" for i bs
      using that b wf_rest(2) [OF wf] by (auto split: if_splits)
  qed simp_all
qed

lemma tmpfs_write_wf:
  assumes wf: "tmpfs_wf me t" and buf: "vec_ok buf"
  shows "tmpfs_wf me (snd (tmpfs_write f pos buf t))"
proof (cases "files t (node_id (file_node f))")
  case None
  then show ?thesis using wf by (simp add: tmpfs_write_def)
next
  case (Some bytes)
  obtain bytes' where b: "vec_ok bytes'"
    and e: "snd (tmpfs_write f pos buf t) = t\<lparr>files := (files t)(node_id (file_node f) \<mapsto> bytes')\<rparr>"
    using tmpfs_write_cases [OF Some wf_rest(2) [OF wf Some] buf, of pos] by (auto split: if_splits)
  show ?thesis unfolding e by (rule tmpfs_set_file_wf [OF wf _ b]) (use Some in auto)
qed

lemma tmpfs_read_eq:
  assumes f: "files t (node_id (file_node f)) = Some bytes" and ok: "vec_ok bytes"
    and noof: "unat pos + unat count < 2 ^ 64"
  shows "tmpfs_read f pos count t =
    (if unat pos \<le> length bytes then Ok (spec_read (unat pos) (unat count) (abs_bytes bytes)) else Panic)"
proof -
  let ?e = "pos + count"
  let ?m = "min (unat pos + unat count) (length bytes)"
  have ue: "unat ?e = unat pos + unat count" using noof by (simp add: unat_add_noof)
  have ul: "unat (vec_len bytes) = length bytes" using ok by (rule unat_vec_len)
  define e where "e = (if vec_len bytes < ?e then vec_len bytes else ?e)"
  have e: "unat e = ?m" using ue ul by (auto simp: e_def word_less_nat_alt)
  have r: "tmpfs_read f pos count t = slice bytes pos e"
    using f by (simp add: tmpfs_read_def Let_def e_def)
  show ?thesis
  proof (cases "unat pos \<le> length bytes")
    case True
    then have "pos \<le> e" "e \<le> vec_len bytes" using e ul by (auto simp: word_le_nat_alt)
    then have "slice bytes pos e = Ok (take (?m - unat pos) (drop (unat pos) bytes))"
      using e by (simp add: slice_def)
    moreover have "take (m - p) (drop p bytes) = map (\<lambda>i. if i < length bytes then bytes ! i else 0) [p..<m]"
      if "m \<le> length bytes" for m p
      using that by (intro nth_equalityI) auto
    then have "take (?m - unat pos) (drop (unat pos) bytes) = spec_read (unat pos) (unat count) (abs_bytes bytes)"
      by (simp add: spec_read_def abs_bytes_def)
    ultimately show ?thesis using r True by simp
  next
    case False
    then have "\<not> pos \<le> e" using e by (simp add: word_le_nat_alt)
    then show ?thesis using r False by (simp add: slice_def)
  qed
qed

text \<open>A file system with one empty file, node 1, in its root.\<close>

definition tmpfs_one :: "fs_id \<Rightarrow> tmpfs" where
  "tmpfs_one me = snd (tmpfs_mknod (tmp_root (tmpfs_new me)) ''a'' (tmpfs_new me))"

lemma tmpfs_one_wf: "tmpfs_wf me (tmpfs_one me)"
  unfolding tmpfs_one_def
  by (rule tmpfs_mknod_wf [OF tmpfs_wf_new]) (simp_all add: tmpfs_new_def Let_def ids_left_def consts_defs)

lemma tmpfs_one_files: "files (tmpfs_one me) = [1 \<mapsto> []]"
  by (simp add: tmpfs_one_def tmpfs_mknod_def tmpfs_new_def Let_def fetch_add1_def)

text \<open>
  Reading implements the abstract file. At a position up to the length of the file, a read returns
  the bytes of the part of the range that exists. It panics at a position past the end, and when position and count add up to more than a
  \<^verbatim>\<open>usize\<close>: then the end of the range wraps and lies before its start.
\<close>

lemma tmpfs_read_wraps:
  assumes "files t (node_id (file_node f)) = Some bytes" and "2 ^ 64 \<le> unat pos + unat count"
  shows "tmpfs_read f pos count t = Panic"
proof -
  let ?e = "pos + count"
  have "unat ?e = (unat pos + unat count) mod 2 ^ 64" by (simp add: unat_word_ariths)
  also have "\<dots> = unat pos + unat count - 2 ^ 64"
    using assms(2) u64_lt [of pos] u64_lt [of count] by (simp add: mod_if)
  finally have "?e < pos" using assms(2) u64_lt [of count] by (simp add: word_less_nat_alt)
  then have "\<not> pos \<le> (if vec_len bytes < ?e then vec_len bytes else ?e)" by (auto simp: not_le)
  then show ?thesis using assms(1) by (simp add: tmpfs_read_def slice_def Let_def)
qed

lemma tmpfs_read_refines:
  assumes "tmpfs_wf me t"
  shows "tmpfs_read f pos count t = (case files t (node_id (file_node f)) of
      None \<Rightarrow> Err ()
    | Some bytes \<Rightarrow>
        if unat pos \<le> length bytes \<and> unat pos + unat count < 2 ^ 64
        then Ok (spec_read (unat pos) (unat count) (abs_bytes bytes)) else Panic)"
proof (cases "files t (node_id (file_node f))")
  case None
  then show ?thesis by (simp add: tmpfs_read_def)
next
  case (Some bytes)
  then show ?thesis
    using tmpfs_read_eq [OF Some wf_rest(2) [OF assms Some]] tmpfs_read_wraps [OF Some]
    by (cases "unat pos + unat count < 2 ^ 64") simp_all
qed

end
