(* ===== verification/Devfs.thy ===== *)
theory Devfs
  imports Tmpfs
begin

text \<open>
  The device file system (\<^verbatim>\<open>device/devfs.rs\<close>) and the trait \<^verbatim>\<open>CharacterDevice\<close>
  (\<^verbatim>\<open>device/character_device.rs\<close>). A trait object is the record of its two methods, which act on
  the state \<open>'d\<close> of the devices behind them.
\<close>

record 'd char_device =
  cd_read :: "usize \<Rightarrow> 'd \<Rightarrow> u8 list res \<times> 'd"
  cd_write :: "u8 list \<Rightarrow> 'd \<Rightarrow> usize res \<times> 'd"

record 'd devfs =
  dev_root :: node
  dev_node_counter :: u64
  dev_directories :: "u64 \<rightharpoonup> node_link list"
  character_devices :: "u64 \<Rightarrow> 'd char_device option"

definition devfs_new :: "fs_id \<Rightarrow> 'd devfs" where
  "devfs_new me =
     (let root = \<lparr>node_fs = me, node_id = 0, node_type = Directory\<rparr>
      in \<lparr>dev_root = root, dev_node_counter = 1,
          dev_directories = [0 \<mapsto> [link CURRENT root, link PARENT root]],
          character_devices = Map.empty\<rparr>)"

definition register_character_device :: "string \<Rightarrow> 'd char_device \<Rightarrow> 'd devfs \<Rightarrow> unit res \<times> 'd devfs" where
  "register_character_device name device d =
     (let (nid, counter) = fetch_add1 (dev_node_counter d);
          child_node = \<lparr>node_fs = node_fs (dev_root d), node_id = nid, node_type = CharacterDevice\<rparr>;
          d1 = d\<lparr>dev_node_counter := counter, character_devices := (character_devices d)(nid \<mapsto> device)\<rparr>
      in case dev_directories d1 (node_id (dev_root d)) of
           None \<Rightarrow> (Err (), d1)
         | Some links \<Rightarrow>
             (Ok (), d1\<lparr>dev_directories := (dev_directories d1)
               (node_id (dev_root d) \<mapsto> links @ [link name child_node])\<rparr>))"

definition devfs_opendir :: "node \<Rightarrow> 'd devfs \<Rightarrow> unit res" where
  "devfs_opendir n d = Ok ()"

definition devfs_readdir :: "'d devfs \<Rightarrow> directory \<Rightarrow> usize \<Rightarrow> node_link option res" where
  "devfs_readdir d dir position =
     bind_res (ok_or (dev_directories d (node_id (dir_node dir)))) (\<lambda>links.
       Ok (if unat position < length links
           then Some (link (link_name (links ! unat position)) (link_node (links ! unat position)))
           else None))"

definition devfs_open :: "node \<Rightarrow> 'd devfs \<Rightarrow> unit res" where
  "devfs_open n d = Ok ()"

definition devfs_seek :: "open_file \<Rightarrow> usize \<Rightarrow> 'd devfs \<Rightarrow> unit res" where
  "devfs_seek f position d = Ok ()"

definition devfs_read :: "open_file \<Rightarrow> usize \<Rightarrow> usize \<Rightarrow> 'd devfs \<Rightarrow> 'd \<Rightarrow> u8 list res \<times> 'd" where
  "devfs_read f position count d dev =
     (case node_type (file_node f) of
        CharacterDevice \<Rightarrow>
          and_then (ok_or (character_devices d (node_id (file_node f))), dev) (\<lambda>device dev. cd_read device count dev)
      | _ \<Rightarrow> (Err (), dev))"

definition devfs_write :: "open_file \<Rightarrow> usize \<Rightarrow> u8 list \<Rightarrow> 'd devfs \<Rightarrow> 'd \<Rightarrow> usize res \<times> 'd" where
  "devfs_write f position buf d dev =
     (case node_type (file_node f) of
        CharacterDevice \<Rightarrow>
          and_then (ok_or (character_devices d (node_id (file_node f))), dev) (\<lambda>device dev. cd_write device buf dev)
      | _ \<Rightarrow> (Err (), dev))"

section \<open>Directories\<close>

lemma devfs_readdir_entries:
  "devfs_readdir d dir k = (case dev_directories d (node_id (dir_node dir)) of
     None \<Rightarrow> Err () | Some ls \<Rightarrow> Ok (if unat k < length ls then Some (ls ! unat k) else None))"
  by (simp add: devfs_readdir_def split: option.split)

interpretation devfs_dirs: directory_entries "\<lambda>d n. dev_directories d (node_id n)" devfs_readdir
  by unfold_locales (rule devfs_readdir_entries)

text \<open>
  Well-formedness: one directory, the root, whose links after the first two name distinct
  registered devices; identifiers in use are below the counter.
\<close>

definition devfs_wf :: "fs_id \<Rightarrow> 'd devfs \<Rightarrow> bool" where
  "devfs_wf me d \<longleftrightarrow>
     dev_root d = \<lparr>node_fs = me, node_id = 0, node_type = Directory\<rparr>
     \<and> (\<exists>rest. dev_directories d = [0 \<mapsto> link CURRENT (dev_root d) # link PARENT (dev_root d) # rest]
          \<and> (\<forall>l \<in> set rest. link_name l \<noteq> CURRENT \<and> link_name l \<noteq> PARENT
               \<and> node_fs (link_node l) = me \<and> node_type (link_node l) = CharacterDevice
               \<and> node_id (link_node l) \<in> dom (character_devices d))
          \<and> distinct (map (node_id \<circ> link_node) rest)
          \<and> length rest < unat (dev_node_counter d))
     \<and> (\<forall>i \<in> dom (character_devices d). unat i < unat (dev_node_counter d))"

definition dev_ids_left :: "'d devfs \<Rightarrow> bool" where
  "dev_ids_left d \<longleftrightarrow> unat (dev_node_counter d) < 2 ^ 60"

lemma devfs_wf_new: "devfs_wf me (devfs_new me)"
  by (simp add: devfs_wf_def devfs_new_def Let_def)

lemma register_wf:
  assumes wf: "devfs_wf me d" and ids: "dev_ids_left d" and name: "name \<noteq> CURRENT" "name \<noteq> PARENT"
  defines "child \<equiv> \<lparr>node_fs = me, node_id = dev_node_counter d, node_type = CharacterDevice\<rparr>"
  shows "register_character_device name device d = (Ok (), snd (register_character_device name device d))"
    and "devfs_wf me (snd (register_character_device name device d))"
    and "\<exists>ls. dev_directories d 0 = Some ls
      \<and> dev_directories (snd (register_character_device name device d)) = [0 \<mapsto> ls @ [link name child]]"
    and "character_devices (snd (register_character_device name device d))
      = (character_devices d)(dev_node_counter d \<mapsto> device)"
    and "dev_node_counter d \<notin> dom (character_devices d)"
proof -
  obtain rest where dir: "dev_directories d = [0 \<mapsto> link CURRENT (dev_root d) # link PARENT (dev_root d) # rest]"
    and rest: "\<forall>l \<in> set rest. link_name l \<noteq> CURRENT \<and> link_name l \<noteq> PARENT
               \<and> node_fs (link_node l) = me \<and> node_type (link_node l) = CharacterDevice
               \<and> node_id (link_node l) \<in> dom (character_devices d)"
    and dis: "distinct (map (node_id \<circ> link_node) rest)" and len: "length rest < unat (dev_node_counter d)"
    using wf by (auto simp: devfs_wf_def)
  have root: "dev_root d = \<lparr>node_fs = me, node_id = 0, node_type = Directory\<rparr>"
    and bound: "\<And>i. i \<in> dom (character_devices d) \<Longrightarrow> unat i < unat (dev_node_counter d)"
    using wf by (auto simp: devfs_wf_def)
  have cnt: "unat (dev_node_counter d + 1) = Suc (unat (dev_node_counter d))"
    using ids by (simp add: dev_ids_left_def unat_add_noof)
  have e: "register_character_device name device d = (Ok (), d\<lparr>dev_node_counter := dev_node_counter d + 1,
      character_devices := (character_devices d)(dev_node_counter d \<mapsto> device),
      dev_directories := [0 \<mapsto> link CURRENT (dev_root d) # link PARENT (dev_root d) # rest @ [link name child]]\<rparr>)"
    by (simp add: register_character_device_def fetch_add1_def dir root child_def Let_def)
  show "register_character_device name device d = (Ok (), snd (register_character_device name device d))"
    and "\<exists>ls. dev_directories d 0 = Some ls
      \<and> dev_directories (snd (register_character_device name device d)) = [0 \<mapsto> ls @ [link name child]]"
    and "character_devices (snd (register_character_device name device d))
      = (character_devices d)(dev_node_counter d \<mapsto> device)"
    by (simp_all add: e dir)
  show fresh: "dev_node_counter d \<notin> dom (character_devices d)" using bound by blast
  have new: "dev_node_counter d \<notin> (node_id \<circ> link_node) ` set rest" using rest fresh by auto
  have b: "unat i < Suc (unat (dev_node_counter d))"
    if "i = dev_node_counter d \<or> i \<in> dom (character_devices d)" for i
    using that bound less_SucI by blast
  show "devfs_wf me (snd (register_character_device name device d))"
    unfolding devfs_wf_def e
  proof (intro conjI exI [of _ "rest @ [link name child]"] ballI)
    show "unat i < unat (dev_node_counter (snd (Ok (), d\<lparr>dev_node_counter := dev_node_counter d + 1,
        character_devices := (character_devices d)(dev_node_counter d \<mapsto> device),
        dev_directories := [0 \<mapsto> link CURRENT (dev_root d) # link PARENT (dev_root d) # rest @ [link name child]]\<rparr>)))"
      if "i \<in> dom (character_devices (snd (Ok (), d\<lparr>dev_node_counter := dev_node_counter d + 1,
        character_devices := (character_devices d)(dev_node_counter d \<mapsto> device),
        dev_directories := [0 \<mapsto> link CURRENT (dev_root d) # link PARENT (dev_root d) # rest @ [link name child]]\<rparr>)))" for i
      using that b [of i] cnt by auto
  qed (use root rest dis new name len cnt in \<open>auto simp: child_def\<close>)
qed

text \<open>
  C33. A registered device is what its name leads to: registration succeeds, appends one link of the
  given name to the root directory, and a write or read through a file opened on that
  link's node is exactly the device's own write or read, as it is for every device
  registered before.
\<close>

theorem register_character_device_spec:
  assumes "devfs_wf me d" and "dev_ids_left d" and "name \<noteq> CURRENT" and "name \<noteq> PARENT"
    and "register_character_device name device d = (r, d')"
  shows "r = Ok () \<and> devfs_wf me d'
    \<and> (\<exists>ls n. dev_directories d 0 = Some ls \<and> dev_directories d' 0 = Some (ls @ [link name n])
        \<and> (\<forall>pos buf dev. devfs_write \<lparr>file_node = n, file_position = pos\<rparr> pos buf d' dev = cd_write device buf dev)
        \<and> (\<forall>pos k dev. devfs_read \<lparr>file_node = n, file_position = pos\<rparr> pos k d' dev = cd_read device k dev)
        \<and> (\<forall>f pos buf dev. node_id (file_node f) \<noteq> node_id n \<longrightarrow>
             devfs_write f pos buf d' dev = devfs_write f pos buf d dev)
        \<and> (\<forall>f pos k dev. node_id (file_node f) \<noteq> node_id n \<longrightarrow>
             devfs_read f pos k d' dev = devfs_read f pos k d dev))"
proof -
  let ?n = "\<lparr>node_fs = me, node_id = dev_node_counter d, node_type = CharacterDevice\<rparr>"
  note w = register_wf(1-4) [where device = device, OF assms(1-4)]
  have d': "d' = snd (register_character_device name device d)" and r: "r = Ok ()"
    using w(1) assms(5) by simp_all
  obtain ls where ls: "dev_directories d 0 = Some ls" "dev_directories d' 0 = Some (ls @ [link name ?n])"
    using w(3) by (auto simp: d')
  have cd: "character_devices d' = (character_devices d)(dev_node_counter d \<mapsto> device)"
    using w(4) by (simp add: d')
  show ?thesis
    using r w(2) ls cd
    by (intro conjI exI [of _ ls] exI [of _ ?n])
      (auto simp: d' [symmetric] devfs_write_def devfs_read_def split: NodeType.split)
qed

theorem register_character_device_spec_witness:
  "fst (register_character_device ''tty'' \<lparr>cd_read = \<lambda>k d. (Ok [], d), cd_write = \<lambda>b d. (Ok (vec_len b), b)\<rparr>
     (devfs_new 3)) = Ok ()"
  using register_character_device_spec [OF devfs_wf_new, where name = "''tty''" and me = 3
      and device = "\<lparr>cd_read = \<lambda>k d. (Ok [], d), cd_write = \<lambda>b d. (Ok (vec_len b), b)\<rparr>",
      OF _ _ _ prod.collapse [symmetric]]
  by (simp add: dev_ids_left_def devfs_new_def Let_def consts_defs)

end
