(* ===== verification/File_System.thy ===== *)
theory File_System
  imports Devfs
begin

text \<open>
  The trait \<^verbatim>\<open>FileSystem\<close> (\<^verbatim>\<open>fs/file_system.rs\<close>) over its two implementations, and the open
  directories and files that call it (\<^verbatim>\<open>fs/directory.rs\<close>, \<^verbatim>\<open>fs/file.rs\<close>). \<open>store\<close> holds the
  file system objects that are alive; upgrading a \<^verbatim>\<open>Weak\<close> reference is a lookup in it, so
  every call \<^verbatim>\<open>node.file_system().upgrade().ok_or(())?.op(..)\<close> is one definition here. A method
  that an implementation does not provide is the trait's default, an error.
\<close>

section \<open>Dispatch\<close>

datatype 'd fs_object = TmpfsObj tmpfs | DevfsObj "'d devfs"

record 'd fs_world =
  store :: "fs_id \<Rightarrow> 'd fs_object option"
  device_state :: 'd

fun fs_root :: "'d fs_object \<Rightarrow> node" where
  "fs_root (TmpfsObj t) = tmp_root t"
| "fs_root (DevfsObj d) = dev_root d"

definition put_fs :: "fs_id \<Rightarrow> 'd fs_object \<Rightarrow> 'd fs_world \<Rightarrow> 'd fs_world" where
  "put_fs i fs w = w\<lparr>store := (store w)(i \<mapsto> fs)\<rparr>"

text \<open>A call of a method that only temporary file systems have.\<close>

definition call_tmpfs :: "fs_id \<Rightarrow> (tmpfs \<Rightarrow> 'a res \<times> tmpfs) \<Rightarrow> 'd fs_world \<Rightarrow> 'a res \<times> 'd fs_world" where
  "call_tmpfs i op w =
     (case store w i of
        Some (TmpfsObj t) \<Rightarrow> (case op t of (r, t') \<Rightarrow> (r, put_fs i (TmpfsObj t') w))
      | _ \<Rightarrow> (Err (), w))"

definition fs_mkdir :: "node \<Rightarrow> string \<Rightarrow> 'd fs_world \<Rightarrow> unit res \<times> 'd fs_world" where
  "fs_mkdir dir name = call_tmpfs (node_fs dir) (tmpfs_mkdir dir name)"

definition fs_rmdir :: "node \<Rightarrow> string \<Rightarrow> 'd fs_world \<Rightarrow> unit res \<times> 'd fs_world" where
  "fs_rmdir dir name = call_tmpfs (node_fs dir) (tmpfs_rmdir dir name)"

definition fs_mknod :: "node \<Rightarrow> string \<Rightarrow> 'd fs_world \<Rightarrow> unit res \<times> 'd fs_world" where
  "fs_mknod dir name = call_tmpfs (node_fs dir) (tmpfs_mknod dir name)"

definition fs_unlink :: "node \<Rightarrow> string \<Rightarrow> 'd fs_world \<Rightarrow> unit res \<times> 'd fs_world" where
  "fs_unlink dir name = call_tmpfs (node_fs dir) (tmpfs_unlink dir name)"

definition fs_rename :: "node \<Rightarrow> string \<Rightarrow> node \<Rightarrow> string \<Rightarrow> 'd fs_world \<Rightarrow> unit res \<times> 'd fs_world" where
  "fs_rename old_dir old_name new_dir new_name =
     call_tmpfs (node_fs old_dir) (tmpfs_rename old_dir old_name new_dir new_name)"

definition fs_opendir :: "'d fs_world \<Rightarrow> node \<Rightarrow> unit res" where
  "fs_opendir w n = (case store w (node_fs n) of
     None \<Rightarrow> Err () | Some (TmpfsObj t) \<Rightarrow> tmpfs_opendir n t | Some (DevfsObj d) \<Rightarrow> devfs_opendir n d)"

definition fs_readdir :: "'d fs_world \<Rightarrow> directory \<Rightarrow> usize \<Rightarrow> node_link option res" where
  "fs_readdir w d position = (case store w (node_fs (dir_node d)) of
     None \<Rightarrow> Err ()
   | Some (TmpfsObj t) \<Rightarrow> tmpfs_readdir t d position
   | Some (DevfsObj dv) \<Rightarrow> devfs_readdir dv d position)"

definition fs_open :: "'d fs_world \<Rightarrow> node \<Rightarrow> unit res" where
  "fs_open w n = (case store w (node_fs n) of
     None \<Rightarrow> Err () | Some (TmpfsObj t) \<Rightarrow> tmpfs_open n t | Some (DevfsObj d) \<Rightarrow> devfs_open n d)"

definition fs_seek :: "'d fs_world \<Rightarrow> open_file \<Rightarrow> usize \<Rightarrow> unit res" where
  "fs_seek w f position = (case store w (node_fs (file_node f)) of
     None \<Rightarrow> Err () | Some (TmpfsObj t) \<Rightarrow> tmpfs_seek f position t | Some (DevfsObj d) \<Rightarrow> devfs_seek f position d)"

definition fs_read :: "open_file \<Rightarrow> usize \<Rightarrow> usize \<Rightarrow> 'd fs_world \<Rightarrow> u8 list res \<times> 'd fs_world" where
  "fs_read f position count w = (case store w (node_fs (file_node f)) of
     None \<Rightarrow> (Err (), w)
   | Some (TmpfsObj t) \<Rightarrow> (tmpfs_read f position count t, w)
   | Some (DevfsObj d) \<Rightarrow>
       (case devfs_read f position count d (device_state w) of (r, dev) \<Rightarrow> (r, w\<lparr>device_state := dev\<rparr>)))"

definition fs_write :: "open_file \<Rightarrow> usize \<Rightarrow> u8 list \<Rightarrow> 'd fs_world \<Rightarrow> usize res \<times> 'd fs_world" where
  "fs_write f position buf w = (case store w (node_fs (file_node f)) of
     None \<Rightarrow> (Err (), w)
   | Some (TmpfsObj t) \<Rightarrow>
       (case tmpfs_write f position buf t of (r, t') \<Rightarrow> (r, put_fs (node_fs (file_node f)) (TmpfsObj t') w))
   | Some (DevfsObj d) \<Rightarrow>
       (case devfs_write f position buf d (device_state w) of (r, dev) \<Rightarrow> (r, w\<lparr>device_state := dev\<rparr>)))"

section \<open>Open directories and files\<close>

definition dir_readdir :: "'d fs_world \<Rightarrow> directory \<Rightarrow> node_link option res \<times> directory" where
  "dir_readdir w d = and_then (fs_readdir w d (dir_position d), d) (\<lambda>node_link d. (Ok node_link, advance d))"

definition file_seek :: "usize \<Rightarrow> 'd fs_world \<Rightarrow> open_file \<Rightarrow> unit res \<times> open_file" where
  "file_seek position w f = and_then (fs_seek w f position, f) (\<lambda>_ f. (Ok (), f\<lparr>file_position := position\<rparr>))"

definition file_read :: "usize \<Rightarrow> open_file \<times> 'd fs_world \<Rightarrow> u8 list res \<times> (open_file \<times> 'd fs_world)" where
  "file_read count st = (case st of (f, w) \<Rightarrow>
     (case fs_read f (file_position f) count w of
        (Ok buf, w') \<Rightarrow> (Ok buf, (f\<lparr>file_position := file_position f + vec_len buf\<rparr>, w'))
      | (r, w') \<Rightarrow> (r, (f, w'))))"

definition file_write :: "u8 list \<Rightarrow> open_file \<times> 'd fs_world \<Rightarrow> usize res \<times> (open_file \<times> 'd fs_world)" where
  "file_write buf st = (case st of (f, w) \<Rightarrow>
     (case fs_write f (file_position f) buf w of
        (Ok len, w') \<Rightarrow> (Ok len, (f\<lparr>file_position := file_position f + len\<rparr>, w'))
      | (r, w') \<Rightarrow> (r, (f, w'))))"

section \<open>Entries and well-formedness\<close>

definition dir_entries :: "'d fs_world \<Rightarrow> node \<Rightarrow> node_link list option" where
  "dir_entries w n = (case store w (node_fs n) of
     None \<Rightarrow> None
   | Some (TmpfsObj t) \<Rightarrow> directories t (node_id n)
   | Some (DevfsObj d) \<Rightarrow> dev_directories d (node_id n))"

interpretation fs_dirs: directory_entries dir_entries fs_readdir
  by unfold_locales
    (auto simp: fs_readdir_def dir_entries_def tmpfs_dirs.readdir_entries devfs_dirs.readdir_entries
      split: option.split fs_object.split)

fun fs_wf :: "fs_id \<Rightarrow> 'd fs_object \<Rightarrow> bool" where
  "fs_wf i (TmpfsObj t) = tmpfs_wf i t"
| "fs_wf i (DevfsObj d) = devfs_wf i d"

fun fs_ids_left :: "'d fs_object \<Rightarrow> bool" where
  "fs_ids_left (TmpfsObj t) = ids_left t"
| "fs_ids_left (DevfsObj d) = dev_ids_left d"

definition world_wf :: "'d fs_world \<Rightarrow> bool" where
  "world_wf w \<longleftrightarrow> (\<forall>i fs. store w i = Some fs \<longrightarrow> fs_wf i fs)"

definition world_ids_left :: "'d fs_world \<Rightarrow> bool" where
  "world_ids_left w \<longleftrightarrow> (\<forall>i fs. store w i = Some fs \<longrightarrow> fs_ids_left fs)"

text \<open>The weaker bound that still holds after one more identifier has been handed out.\<close>

fun fs_counter :: "'d fs_object \<Rightarrow> u64" where
  "fs_counter (TmpfsObj t) = node_counter t"
| "fs_counter (DevfsObj d) = dev_node_counter d"

definition world_sized :: "'d fs_world \<Rightarrow> bool" where
  "world_sized w \<longleftrightarrow> (\<forall>i fs. store w i = Some fs \<longrightarrow> unat (fs_counter fs) \<le> 2 ^ 60)"

lemma ids_left_counter: "fs_ids_left fs \<longleftrightarrow> unat (fs_counter fs) < 2 ^ 60"
  by (cases fs) (simp_all add: ids_left_def dev_ids_left_def)

lemma ids_left_sized: "world_ids_left w \<Longrightarrow> world_sized w"
  unfolding world_ids_left_def world_sized_def ids_left_counter by (blast intro: less_imp_le)

lemma world_wfD: "world_wf w \<Longrightarrow> store w i = Some fs \<Longrightarrow> fs_wf i fs"
  by (simp add: world_wf_def)

lemma tmpfs_ids_left: "world_ids_left w \<Longrightarrow> store w i = Some (TmpfsObj t) \<Longrightarrow> ids_left t"
  by (force simp: world_ids_left_def)

lemma world_wf_put: "world_wf w \<Longrightarrow> fs_wf i fs \<Longrightarrow> world_wf (put_fs i fs w)"
  by (simp add: world_wf_def put_fs_def)

lemma world_wf_device [simp]: "world_wf (w\<lparr>device_state := dev\<rparr>) = world_wf w"
  by (simp add: world_wf_def)

lemma fs_wf_root: "fs_wf i fs \<Longrightarrow> fs_root fs = \<lparr>node_fs = i, node_id = 0, node_type = Directory\<rparr>"
  by (cases fs) (simp_all add: tmpfs_wf_def devfs_wf_def)

lemma call_tmpfs_wf:
  assumes "world_wf w" and "\<And>t. store w i = Some (TmpfsObj t) \<Longrightarrow> tmpfs_wf i t \<Longrightarrow> tmpfs_wf i (snd (op t))"
  shows "world_wf (snd (call_tmpfs i op w))"
  using assms world_wfD [OF assms(1), of i]
  by (auto simp: call_tmpfs_def world_wf_put case_prod_unfold split: option.split fs_object.split)

lemma call_tmpfs_store_dom: "dom (store (snd (call_tmpfs i op w))) = dom (store w)"
  by (auto simp: call_tmpfs_def put_fs_def case_prod_unfold split: option.split fs_object.split)

lemma fs_mkdir_wf:
  assumes "world_wf w" and "world_ids_left w" and "node_type dir = Directory" and "name \<noteq> CURRENT" "name \<noteq> PARENT"
  shows "world_wf (snd (fs_mkdir dir name w))"
  unfolding fs_mkdir_def
  by (rule call_tmpfs_wf [OF assms(1)])
    (use assms in \<open>auto intro!: tmpfs_mkdir_wf tmpfs_ids_left\<close>)

lemma fs_mknod_wf:
  assumes "world_wf w" and "world_ids_left w" and "name \<noteq> CURRENT" "name \<noteq> PARENT"
  shows "world_wf (snd (fs_mknod dir name w))"
  unfolding fs_mknod_def
  by (rule call_tmpfs_wf [OF assms(1)])
    (use assms in \<open>auto intro!: tmpfs_mknod_wf tmpfs_ids_left\<close>)

lemma call_tmpfs_sized:
  assumes "world_ids_left w" and "\<And>t. unat (node_counter (snd (op t))) \<le> Suc (unat (node_counter t))"
  shows "world_sized (snd (call_tmpfs i op w))"
proof (cases "\<exists>t. store w i = Some (TmpfsObj t)")
  case True
  then obtain t where t: "store w i = Some (TmpfsObj t)" by blast
  have "unat (node_counter (snd (op t))) \<le> 2 ^ 60"
    using tmpfs_ids_left [OF assms(1) t] assms(2) [of t] by (simp add: ids_left_def)
  then show ?thesis
    using ids_left_sized [OF assms(1)] t by (simp add: call_tmpfs_def case_prod_unfold put_fs_def world_sized_def)
next
  case False
  then show ?thesis using ids_left_sized [OF assms(1)] by (auto simp: call_tmpfs_def split: option.split fs_object.split)
qed

lemma unat_Suc_le: "unat (c + 1 :: u64) \<le> Suc (unat c)"
  by (simp add: unat_word_ariths)

lemma fs_mkdir_sized: "world_ids_left w \<Longrightarrow> world_sized (snd (fs_mkdir dir name w))"
  unfolding fs_mkdir_def
  by (rule call_tmpfs_sized) (auto simp: tmpfs_mkdir_def fetch_add1_def Let_def unat_Suc_le split: option.split)

lemma fs_mknod_sized: "world_ids_left w \<Longrightarrow> world_sized (snd (fs_mknod dir name w))"
  unfolding fs_mknod_def
  by (rule call_tmpfs_sized) (auto simp: tmpfs_mknod_def fetch_add1_def Let_def unat_Suc_le split: option.split)

lemma fs_write_wf:
  assumes "world_wf w" and "vec_ok buf"
  shows "world_wf (snd (fs_write f pos buf w))"
  using assms world_wfD [OF assms(1), of "node_fs (file_node f)"] tmpfs_write_wf [of "node_fs (file_node f)"]
  by (auto simp: fs_write_def world_wf_put case_prod_unfold split: option.split fs_object.split)

text \<open>A directory of a well-formed file system starts with itself and its parent, and fits in memory.\<close>

lemma entries_wf:
  assumes "world_wf w" and "world_sized w" and "dir_entries w n = Some ls"
  shows "length ls < 2 ^ 63"
    and "\<exists>up rest. ls = link CURRENT \<lparr>node_fs = node_fs n, node_id = node_id n, node_type = Directory\<rparr> # link PARENT up # rest
      \<and> node_type up = Directory \<and> node_fs up = node_fs n
      \<and> (\<forall>l \<in> set rest. link_name l \<noteq> CURRENT \<and> link_name l \<noteq> PARENT)"
proof -
  obtain fs where fs: "store w (node_fs n) = Some fs" using assms(3) by (auto simp: dir_entries_def split: option.splits)
  note wf = world_wfD [OF assms(1) fs]
  have left: "unat (fs_counter fs) \<le> 2 ^ 60" using assms(2) fs by (auto simp: world_sized_def)
  show "length ls < 2 ^ 63"
    and "\<exists>up rest. ls = link CURRENT \<lparr>node_fs = node_fs n, node_id = node_id n, node_type = Directory\<rparr> # link PARENT up # rest
      \<and> node_type up = Directory \<and> node_fs up = node_fs n
      \<and> (\<forall>l \<in> set rest. link_name l \<noteq> CURRENT \<and> link_name l \<noteq> PARENT)"
  proof (atomize (full), cases fs)
    case (TmpfsObj t)
    then have d: "directories t (node_id n) = Some ls" "tmpfs_wf (node_fs n) t" "unat (node_counter t) \<le> 2 ^ 60"
      using assms(3) fs wf left by (simp_all add: dir_entries_def)
    from wf_links [OF d(2,1)] d(3) show "length ls < 2 ^ 63
      \<and> (\<exists>up rest. ls = link CURRENT \<lparr>node_fs = node_fs n, node_id = node_id n, node_type = Directory\<rparr> # link PARENT up # rest
        \<and> node_type up = Directory \<and> node_fs up = node_fs n
        \<and> (\<forall>l \<in> set rest. link_name l \<noteq> CURRENT \<and> link_name l \<noteq> PARENT))"
      by (auto simp: links_ok_def live_node_def)
  next
    case (DevfsObj d)
    then have d: "dev_directories d (node_id n) = Some ls" "devfs_wf (node_fs n) d" "unat (dev_node_counter d) \<le> 2 ^ 60"
      using assms(3) fs wf left by (simp_all add: dir_entries_def)
    then show "length ls < 2 ^ 63
      \<and> (\<exists>up rest. ls = link CURRENT \<lparr>node_fs = node_fs n, node_id = node_id n, node_type = Directory\<rparr> # link PARENT up # rest
        \<and> node_type up = Directory \<and> node_fs up = node_fs n
        \<and> (\<forall>l \<in> set rest. link_name l \<noteq> CURRENT \<and> link_name l \<noteq> PARENT))"
      by (auto simp: devfs_wf_def split: if_splits)
  qed
qed

section \<open>Appending to a file\<close>

text \<open>A run of writes through one open file, until one of them does not succeed.\<close>

fun write_all :: "u8 list list \<Rightarrow> open_file \<times> 'd fs_world \<Rightarrow> bool \<times> (open_file \<times> 'd fs_world)" where
  "write_all [] st = (True, st)"
| "write_all (buf # bufs) st =
     (case file_write buf st of (Ok len, st') \<Rightarrow> write_all bufs st' | (_, st') \<Rightarrow> (False, st'))"

text \<open>The bytes of the file behind an open file of a temporary file system.\<close>

definition file_bytes :: "'d fs_world \<Rightarrow> open_file \<Rightarrow> u8 list option" where
  "file_bytes w f = (case store w (node_fs (file_node f)) of
     Some (TmpfsObj t) \<Rightarrow> files t (node_id (file_node f)) | _ \<Rightarrow> None)"

lemma spec_write_append: "spec_write (length bytes) buf (abs_bytes bytes) = abs_bytes (bytes @ buf)"
  by (auto simp: spec_write_def abs_bytes_def nth_append fun_eq_iff)

lemma file_write_append:
  assumes wf: "world_wf w" and b: "file_bytes w f = Some bytes"
    and pos: "unat (file_position f) = length bytes" and len: "length bytes + length buf < 2 ^ 63"
  shows "\<exists>w'. file_write buf (f, w) = (Ok (vec_len buf), (f\<lparr>file_position := file_position f + vec_len buf\<rparr>, w'))
    \<and> world_wf w' \<and> file_bytes w' f = Some (bytes @ buf)"
proof -
  let ?i = "node_fs (file_node f)"
  obtain t where t: "store w ?i = Some (TmpfsObj t)" and fl: "files t (node_id (file_node f)) = Some bytes"
    using b by (auto simp: file_bytes_def split: option.splits fs_object.splits)
  have twf: "tmpfs_wf ?i t" using world_wfD [OF wf t] by simp
  have v: "vec_ok buf" using len by (simp add: vec_ok_def)
  have fits: "unat (file_position f) + length buf < 2 ^ 63" using pos len by simp
  obtain bytes' where e: "tmpfs_write f (file_position f) buf t
        = (Ok (vec_len buf), t\<lparr>files := (files t)(node_id (file_node f) \<mapsto> bytes')\<rparr>)"
    and a: "abs_bytes bytes' = spec_write (unat (file_position f)) buf (abs_bytes bytes)"
    using tmpfs_write_cases [OF fl wf_rest(2) [OF twf fl] v, of "file_position f"] fits by auto
  have bb: "bytes' = bytes @ buf" using a pos by (simp add: spec_write_append abs_bytes_eq_iff)
  define w' where "w' = put_fs ?i (TmpfsObj (t\<lparr>files := (files t)(node_id (file_node f) \<mapsto> bytes @ buf)\<rparr>)) w"
  have fw: "fs_write f (file_position f) buf w = (Ok (vec_len buf), w')"
    using t e bb by (simp add: fs_write_def w'_def)
  then have "file_write buf (f, w) = (Ok (vec_len buf), (f\<lparr>file_position := file_position f + vec_len buf\<rparr>, w'))"
    by (simp add: file_write_def)
  moreover have "world_wf w'" using fs_write_wf [OF wf v, of f "file_position f"] fw by simp
  moreover have "file_bytes w' f = Some (bytes @ buf)" by (simp add: file_bytes_def w'_def put_fs_def)
  ultimately show ?thesis by blast
qed

lemma file_bytes_device [simp]: "file_bytes (w\<lparr>device_state := d\<rparr>) f = file_bytes w f"
  by (simp add: file_bytes_def)

lemma file_bytes_position [simp]: "file_bytes w (f\<lparr>file_position := p\<rparr>) = file_bytes w f"
  by (simp add: file_bytes_def split: option.split fs_object.split)

lemma write_all_appends:
  assumes "world_wf w" and "file_bytes w f = Some bytes" and "unat (file_position f) = length bytes"
    and "length bytes + length (concat bufs) < 2 ^ 63"
  shows "\<exists>w'. write_all bufs (f, w) = (True, (f\<lparr>file_position := file_position f + of_nat (length (concat bufs))\<rparr>, w'))
    \<and> world_wf w' \<and> file_bytes w' f = Some (bytes @ concat bufs)"
  using assms
proof (induction bufs arbitrary: w f bytes)
  case Nil
  then show ?case by simp
next
  case (Cons buf bufs)
  obtain w1 where w1: "file_write buf (f, w) = (Ok (vec_len buf), (f\<lparr>file_position := file_position f + vec_len buf\<rparr>, w1))"
    "world_wf w1" "file_bytes w1 f = Some (bytes @ buf)"
    using file_write_append [OF Cons.prems(1-3), of buf] Cons.prems(4) by auto
  let ?f1 = "f\<lparr>file_position := file_position f + vec_len buf\<rparr>"
  have "unat (vec_len buf) = length buf" using Cons.prems(4) by (intro unat_vec_len) (simp add: vec_ok_def)
  then have pos: "unat (file_position ?f1) = length (bytes @ buf)"
    using Cons.prems(3,4) by (simp add: unat_add_noof)
  have len: "length (bytes @ buf) + length (concat bufs) < 2 ^ 63" using Cons.prems(4) by simp
  show ?case
    using Cons.IH [of w1 ?f1 "bytes @ buf", OF w1(2) _ pos len] w1 by (auto simp: vec_len_def add.assoc)
qed

text \<open>
  C31. What is written to a file is what is read back. Any run of writes through a freshly opened,
  empty file succeeds and leaves the position at its end; after a seek to the start, one read
  returns the concatenation of the buffers.
\<close>

theorem write_seek_read:
  assumes "world_wf w" and "file_bytes w (file_new n) = Some []" and "length (concat bufs) < 2 ^ 63"
  shows "\<exists>f w'. write_all bufs (file_new n, w) = (True, (f, w'))
    \<and> unat (file_position f) = length (concat bufs)
    \<and> (\<exists>f'. file_seek 0 w' f = (Ok (), f')
        \<and> fst (file_read (of_nat (length (concat bufs))) (f', w')) = Ok (concat bufs))"
proof -
  let ?n = "of_nat (length (concat bufs)) :: usize"
  let ?f = "\<lparr>file_node = n, file_position = ?n\<rparr>" and ?g = "file_new n"
  obtain w' where w': "write_all bufs (file_new n, w) = (True, (?f, w'))" "world_wf w'"
    "file_bytes w' (file_new n) = Some (concat bufs)"
    using write_all_appends [OF assms(1,2), of bufs] assms(3) by (auto simp: file_new_def)
  obtain t where t: "store w' (node_fs n) = Some (TmpfsObj t)" and fl: "files t (node_id n) = Some (concat bufs)"
    using w'(3) by (auto simp: file_bytes_def file_new_def split: option.splits fs_object.splits)
  have v: "vec_ok (concat bufs)" using assms(3) by (simp add: vec_ok_def)
  have un: "unat ?n = length (concat bufs)" using assms(3) by (simp add: unat_of_nat64)
  have seek: "file_seek 0 w' ?f = (Ok (), ?g)"
    using t by (simp add: file_seek_def fs_seek_def tmpfs_seek_def file_new_def)
  have "tmpfs_read ?g 0 ?n t = Ok (spec_read 0 (length (concat bufs)) (abs_bytes (concat bufs)))"
    using tmpfs_read_eq [of t ?g "concat bufs" 0 ?n] fl v un assms(3) by (simp add: file_new_def)
  also have "spec_read 0 (length (concat bufs)) (abs_bytes (concat bufs)) = concat bufs"
    by (rule nth_equalityI) (simp_all add: spec_read_def abs_bytes_def)
  finally have "fst (file_read ?n (?g, w')) = Ok (concat bufs)"
    using t by (simp add: file_read_def fs_read_def file_new_def)
  then show ?thesis using w'(1) seek un by auto
qed

theorem write_seek_read_witness:
  "\<exists>f w'. write_all [[1], [2, 3]] (file_new \<lparr>node_fs = 7, node_id = 1, node_type = File\<rparr>,
        \<lparr>store = [7 \<mapsto> TmpfsObj (tmpfs_one 7)], device_state = ()\<rparr>) = (True, (f, w'))
     \<and> (\<exists>f'. file_seek 0 w' f = (Ok (), f') \<and> fst (file_read 3 (f', w')) = Ok [1, 2, 3])"
proof -
  let ?w = "\<lparr>store = [7 \<mapsto> TmpfsObj (tmpfs_one 7)], device_state = ()\<rparr>"
  have "world_wf ?w" using tmpfs_one_wf by (auto simp: world_wf_def split: if_splits)
  moreover have "file_bytes ?w (file_new \<lparr>node_fs = 7, node_id = 1, node_type = File\<rparr>) = Some []"
    by (simp add: file_bytes_def file_new_def tmpfs_one_files)
  ultimately show ?thesis
    using write_seek_read [where w = ?w and n = "\<lparr>node_fs = 7, node_id = 1, node_type = File\<rparr>"
        and bufs = "[[1], [2, 3]]"] by auto
qed

end
