(* ===== verification/Vfs.thy ===== *)
theory Vfs
  imports File_System
begin

text \<open>
  The virtual file system (\<^verbatim>\<open>fs/virtual_file_system.rs\<close>): a root file system and a list of mounts.
  A node is resolved through the mounts in both directions by loops that nothing in the code
  bounds, so they are partial functions and a loop that never ends is the outcome \<open>Hang\<close>.
  The theorems say when the loops end, that the two directions are inverse to each
  other, and what \<^verbatim>\<open>mount\<close> must not be asked to do.
\<close>

section \<open>State and operations\<close>

record mount =
  mount_point :: node
  subtree :: fs_id

record vfs =
  root_file_system :: fs_id
  mounts :: "mount list"

definition vfs_new :: "fs_id \<Rightarrow> 'd fs_world \<Rightarrow> vfs \<times> 'd fs_world" where
  "vfs_new me w = (\<lparr>root_file_system = me, mounts = []\<rparr>, put_fs me (TmpfsObj (tmpfs_new me)) w)"

text \<open>
  The root of a file system held by an \<^verbatim>\<open>Arc\<close>. Such a reference keeps the object alive, so in a
  well-formed state the lookup never fails.
\<close>

definition arc_root :: "'d fs_world \<Rightarrow> fs_id \<Rightarrow> node res" where
  "arc_root w i = (case store w i of None \<Rightarrow> Panic | Some fs \<Rightarrow> Ok (fs_root fs))"

definition vfs_root :: "vfs \<Rightarrow> 'd fs_world \<Rightarrow> node res" where
  "vfs_root v w = arc_root w (root_file_system v)"

partial_function (option) mount_point_loop ::
    "mount list \<Rightarrow> 'd fs_world \<Rightarrow> node \<Rightarrow> bool \<Rightarrow> (node \<times> bool) res option" where
  "mount_point_loop ms w n changed =
     (case store w (node_fs n) of
        None \<Rightarrow> Some (Err ())
      | Some fs \<Rightarrow>
          if \<not> node_eq n (fs_root fs) then Some (Ok (n, changed))
          else (case find (\<lambda>m. subtree m = node_fs n) ms of
                  Some m \<Rightarrow> mount_point_loop ms w (mount_point m) True
                | None \<Rightarrow> Some (Ok (n, changed))))"

partial_function (option) subtree_loop ::
    "mount list \<Rightarrow> 'd fs_world \<Rightarrow> node \<Rightarrow> bool \<Rightarrow> (node \<times> bool) res option" where
  "subtree_loop ms w n changed =
     (case find (\<lambda>m. node_eq (mount_point m) n) ms of
        None \<Rightarrow> Some (Ok (n, changed))
      | Some m \<Rightarrow>
          (case arc_root w (subtree m) of
             Ok r \<Rightarrow> subtree_loop ms w r True
           | _ \<Rightarrow> Some Panic))"

declare mount_point_loop.simps [code] subtree_loop.simps [code]

definition returned :: "'a res option \<Rightarrow> 'a res" where
  "returned r = (case r of None \<Rightarrow> Hang | Some x \<Rightarrow> x)"

definition resolve_mount_point :: "vfs \<Rightarrow> 'd fs_world \<Rightarrow> node \<Rightarrow> (node \<times> bool) res" where
  "resolve_mount_point v w n = returned (mount_point_loop (mounts v) w n False)"

definition resolve_subtree :: "vfs \<Rightarrow> 'd fs_world \<Rightarrow> node \<Rightarrow> (node \<times> bool) res" where
  "resolve_subtree v w n = returned (subtree_loop (mounts v) w n False)"

definition vfs_mount :: "node \<Rightarrow> fs_id \<Rightarrow> 'd fs_world \<Rightarrow> vfs \<Rightarrow> unit res \<times> vfs" where
  "vfs_mount mp sub w v =
     and_then (resolve_subtree v w mp, v) (\<lambda>(mp, _) v.
       if node_type mp \<noteq> Directory then (Err (), v)
       else if list_ex (\<lambda>m. subtree m = sub) (mounts v) then (Err (), v)
       else (Ok (), v\<lparr>mounts := mounts v @ [\<lparr>mount_point = mp, subtree = sub\<rparr>]\<rparr>))"

text \<open>The four operations on a name in a directory share their checks.\<close>

definition checked_call ::
    "vfs \<Rightarrow> node \<Rightarrow> string \<Rightarrow> (node \<Rightarrow> string \<Rightarrow> 'd fs_world \<Rightarrow> unit res \<times> 'd fs_world) \<Rightarrow>
     'd fs_world \<Rightarrow> unit res \<times> 'd fs_world" where
  "checked_call v parent name op w =
     and_then (resolve_subtree v w parent, w) (\<lambda>(parent, _) w.
       if node_type parent \<noteq> Directory then (Err (), w)
       else if name = CURRENT \<or> name = PARENT then (Err (), w)
       else op parent name w)"

definition vfs_mkdir :: "vfs \<Rightarrow> node \<Rightarrow> string \<Rightarrow> 'd fs_world \<Rightarrow> unit res \<times> 'd fs_world" where
  "vfs_mkdir v parent name = checked_call v parent name fs_mkdir"

definition vfs_rmdir :: "vfs \<Rightarrow> node \<Rightarrow> string \<Rightarrow> 'd fs_world \<Rightarrow> unit res \<times> 'd fs_world" where
  "vfs_rmdir v parent name = checked_call v parent name fs_rmdir"

definition vfs_mknod :: "vfs \<Rightarrow> node \<Rightarrow> string \<Rightarrow> 'd fs_world \<Rightarrow> unit res \<times> 'd fs_world" where
  "vfs_mknod v parent name = checked_call v parent name fs_mknod"

text \<open>As in the source, unlinking calls \<^verbatim>\<open>rmdir\<close>.\<close>

definition vfs_unlink :: "vfs \<Rightarrow> node \<Rightarrow> string \<Rightarrow> 'd fs_world \<Rightarrow> unit res \<times> 'd fs_world" where
  "vfs_unlink v parent name = checked_call v parent name fs_rmdir"

definition vfs_rename :: "node \<Rightarrow> string \<Rightarrow> node \<Rightarrow> string \<Rightarrow> 'd fs_world \<Rightarrow> unit res \<times> 'd fs_world" where
  "vfs_rename old_dir old_name new_dir new_name w = (Panic, w)"

definition vfs_opendir :: "vfs \<Rightarrow> 'd fs_world \<Rightarrow> node \<Rightarrow> directory res" where
  "vfs_opendir v w n =
     bind_res (resolve_subtree v w n) (\<lambda>(n, _).
       if node_type n \<noteq> Directory then Err ()
       else bind_res (fs_opendir w n) (\<lambda>_. Ok (directory_new n)))"

definition vfs_open :: "vfs \<Rightarrow> 'd fs_world \<Rightarrow> node \<Rightarrow> open_file res" where
  "vfs_open v w n =
     bind_res (resolve_subtree v w n) (\<lambda>(n, _).
       if node_type n = Directory then Err ()
       else bind_res (fs_open w n) (\<lambda>_. Ok (file_new n)))"

text \<open>The loop over the links of the mount point's directory.\<close>

partial_function (option) parent_scan :: "'d fs_world \<Rightarrow> string \<Rightarrow> directory \<Rightarrow> node_link res option" where
  "parent_scan w name d =
     (case dir_readdir w d of
        (Ok (Some l), d') \<Rightarrow> if link_name l = name then Some (Ok l) else parent_scan w name d'
      | (Panic, _) \<Rightarrow> Some Panic
      | (Hang, _) \<Rightarrow> Some Hang
      | _ \<Rightarrow> Some (Err ()))"

declare parent_scan.simps [code]

definition vfs_readdir :: "vfs \<Rightarrow> 'd fs_world \<Rightarrow> directory \<Rightarrow> node_link option res \<times> directory" where
  "vfs_readdir v w d =
     (case dir_readdir w d of
        (Ok (Some l), d') \<Rightarrow>
          if link_name l = PARENT
          then (bind_res (resolve_mount_point v w (dir_node d)) (\<lambda>(mp, changed).
                  if changed
                  then bind_res (vfs_opendir v w mp) (\<lambda>mp_dir.
                         bind_res (returned (parent_scan w PARENT mp_dir)) (\<lambda>l. Ok (Some l)))
                  else Ok (Some l)), d')
          else (Ok (Some l), d')
      | r \<Rightarrow> r)"

section \<open>Chains of mounts\<close>

text \<open>
  One step of each loop on a well-formed world, where the root of file system \<open>i\<close> is node 0 of \<open>i\<close>;
  and where the loops end.
\<close>

definition root_node :: "fs_id \<Rightarrow> node" where
  "root_node i = \<lparr>node_fs = i, node_id = 0, node_type = Directory\<rparr>"

definition mounted_on :: "mount list \<Rightarrow> node \<Rightarrow> node option" where
  "mounted_on ms n = map_option (root_node \<circ> subtree) (find (\<lambda>m. node_eq (mount_point m) n) ms)"

definition mounted_at :: "mount list \<Rightarrow> node \<Rightarrow> node option" where
  "mounted_at ms n =
     (if node_id n = 0 then map_option mount_point (find (\<lambda>m. subtree m = node_fs n) ms) else None)"

inductive top_of :: "mount list \<Rightarrow> node \<Rightarrow> node \<Rightarrow> bool" for ms where
  top_here: "mounted_on ms n = None \<Longrightarrow> top_of ms n n"
| top_up: "mounted_on ms n = Some r \<Longrightarrow> top_of ms r x \<Longrightarrow> top_of ms n x"

inductive bottom_of :: "mount list \<Rightarrow> node \<Rightarrow> node \<Rightarrow> bool" for ms where
  bottom_here: "mounted_at ms n = None \<Longrightarrow> bottom_of ms n n"
| bottom_down: "mounted_at ms n = Some p \<Longrightarrow> bottom_of ms p x \<Longrightarrow> bottom_of ms n x"

lemma top_of_None: "mounted_on ms n = None \<Longrightarrow> top_of ms n x \<longleftrightarrow> x = n"
  and top_of_Some: "mounted_on ms n = Some r \<Longrightarrow> top_of ms n x \<longleftrightarrow> top_of ms r x"
  by (subst top_of.simps; simp)+

lemma bottom_of_None: "mounted_at ms n = None \<Longrightarrow> bottom_of ms n x \<longleftrightarrow> x = n"
  and bottom_of_Some: "mounted_at ms n = Some p \<Longrightarrow> bottom_of ms n x \<longleftrightarrow> bottom_of ms p x"
  by (subst bottom_of.simps; simp)+

text \<open>
  What \<^verbatim>\<open>mount\<close> makes sure of: a file system is mounted once, on a directory on which no other is. The mounts as a relation: from the node
  that is covered to the root that covers it. A well-formed list of mounts has, beside, no cycle.
\<close>

definition node_key :: "node \<Rightarrow> fs_id \<times> u64" where
  "node_key n = (node_fs n, node_id n)"

definition mounts_sound :: "mount list \<Rightarrow> bool" where
  "mounts_sound ms \<longleftrightarrow>
     distinct (map subtree ms) \<and> distinct (map (\<lambda>m. node_key (mount_point m)) ms) \<and> (\<forall>m \<in> set ms. node_type (mount_point m) = Directory)"

definition mount_edges :: "mount list \<Rightarrow> ((fs_id \<times> u64) \<times> (fs_id \<times> u64)) set" where
  "mount_edges ms = (\<lambda>m. (node_key (mount_point m), (subtree m, 0))) ` set ms"

definition mounts_wf :: "mount list \<Rightarrow> bool" where
  "mounts_wf ms \<longleftrightarrow> mounts_sound ms \<and> acyclic (mount_edges ms)"

text \<open>
  A sound state: every file system is well-formed, the root and the mounted file systems are alive, and the mounts are sound. In a
  well-formed one the mounts have no cycle either, and every mount point is a directory that exists.
\<close>

definition vfs_sound :: "vfs \<Rightarrow> 'd fs_world \<Rightarrow> bool" where
  "vfs_sound v w \<longleftrightarrow> world_wf w \<and> mounts_sound (mounts v) \<and> root_file_system v \<in> dom (store w)
     \<and> (\<forall>m \<in> set (mounts v). subtree m \<in> dom (store w))"

definition mount_points_exist :: "vfs \<Rightarrow> 'd fs_world \<Rightarrow> bool" where
  "mount_points_exist v w \<longleftrightarrow> (\<forall>m \<in> set (mounts v). dir_entries w (mount_point m) \<noteq> None)"

definition vfs_wf :: "vfs \<Rightarrow> 'd fs_world \<Rightarrow> bool" where
  "vfs_wf v w \<longleftrightarrow> vfs_sound v w \<and> acyclic (mount_edges (mounts v)) \<and> mount_points_exist v w"

lemma dir_entries_store: "dir_entries w n \<noteq> None \<Longrightarrow> node_fs n \<in> dom (store w)"
  by (auto simp: dir_entries_def split: option.splits)

lemma entries_root: "world_wf w \<Longrightarrow> i \<in> dom (store w) \<Longrightarrow> dir_entries w (root_node i) \<noteq> None"
  by (auto simp: dir_entries_def root_node_def tmpfs_wf_def devfs_wf_def dest!: world_wfD split: fs_object.split)

lemma top_of_unique: "top_of ms n x \<Longrightarrow> top_of ms n y \<Longrightarrow> x = y"
  by (induction arbitrary: y rule: top_of.induct) (simp_all add: top_of_None top_of_Some)

lemma bottom_of_unique: "bottom_of ms n x \<Longrightarrow> bottom_of ms n y \<Longrightarrow> x = y"
  by (induction arbitrary: y rule: bottom_of.induct) (simp_all add: bottom_of_None bottom_of_Some)

lemma top_of_end: "top_of ms n x \<Longrightarrow> mounted_on ms x = None"
  by (induction rule: top_of.induct)

lemma mounted_on_cong: "node_eq a b \<Longrightarrow> mounted_on ms a = mounted_on ms b"
  by (simp add: mounted_on_def node_eq_def)

lemma top_of_cong:
  assumes "top_of ms a x" and "node_eq a b"
  shows "\<exists>y. top_of ms b y \<and> node_eq x y"
  using assms
proof (cases rule: top_of.cases)
  case top_here
  then show ?thesis using assms(2) mounted_on_cong by (metis top_of.top_here)
next
  case (top_up r)
  then show ?thesis using assms(2) mounted_on_cong [of a b ms] top_of.top_up [of ms b r x] by auto
qed

text \<open>The loops on a well-formed world compute the ends of the chains.\<close>

lemma arc_root_wf: "world_wf w \<Longrightarrow> i \<in> dom (store w) \<Longrightarrow> arc_root w i = Ok (root_node i)"
  by (auto simp: arc_root_def root_node_def fs_wf_root [OF world_wfD])

lemma subtree_loop_top:
  assumes "world_wf w" and "\<forall>m \<in> set ms. subtree m \<in> dom (store w)" and "top_of ms n x"
  shows "subtree_loop ms w n c = Some (Ok (x, c \<or> mounted_on ms n \<noteq> None))"
  using assms(3)
proof (induction arbitrary: c rule: top_of.induct)
  case (top_here n)
  then show ?case by (subst subtree_loop.simps) (simp add: mounted_on_def)
next
  case (top_up n r x)
  obtain m where m: "find (\<lambda>m. node_eq (mount_point m) n) ms = Some m" "r = root_node (subtree m)"
    using top_up.hyps(1) by (auto simp: mounted_on_def)
  then have "m \<in> set ms" by (metis find_Some_iff nth_mem)
  then have "arc_root w (subtree m) = Ok r" using arc_root_wf assms(1,2) m(2) by blast
  then show ?case using m top_up by (subst subtree_loop.simps) simp
qed

lemma subtree_loop_ends:
  assumes "world_wf w" and "\<forall>m \<in> set ms. subtree m \<in> dom (store w)" and "subtree_loop ms w n c = Some r"
  shows "\<exists>x. top_of ms n x"
  using assms(1,2)
proof (induction rule: subtree_loop.raw_induct [OF _ assms(3)])
  case (1 loop ms w n c r)
  show ?case
  proof (cases "find (\<lambda>m. node_eq (mount_point m) n) ms")
    case None
    then show ?thesis using top_here [of ms n] by (auto simp: mounted_on_def)
  next
    case (Some m)
    then have "m \<in> set ms" by (metis find_Some_iff nth_mem)
    then have a: "arc_root w (subtree m) = Ok (root_node (subtree m))" using arc_root_wf 1(3,4) by blast
    then obtain x where "top_of ms (root_node (subtree m)) x" using 1(1,2,3,4) Some by fastforce
    then show ?thesis using top_up [of ms n "root_node (subtree m)" x] Some by (auto simp: mounted_on_def)
  qed
qed

lemma mount_point_loop_bottom:
  assumes "world_wf w" and "\<forall>m \<in> set ms. node_fs (mount_point m) \<in> dom (store w)"
    and "bottom_of ms n x" and "node_fs n \<in> dom (store w)"
  shows "mount_point_loop ms w n c = Some (Ok (x, c \<or> mounted_at ms n \<noteq> None))"
  using assms(3,4)
proof (induction arbitrary: c rule: bottom_of.induct)
  case (bottom_here n)
  then obtain fs where fs: "store w (node_fs n) = Some fs" "fs_root fs = root_node (node_fs n)"
    using world_wfD [OF assms(1)] fs_wf_root by (fastforce simp: root_node_def)
  then show ?case
    using bottom_here by (subst mount_point_loop.simps)
      (auto simp: mounted_at_def node_eq_def root_node_def split: if_splits)
next
  case (bottom_down n p x)
  obtain fs where fs: "store w (node_fs n) = Some fs" "fs_root fs = root_node (node_fs n)"
    using world_wfD [OF assms(1)] fs_wf_root bottom_down.prems by (fastforce simp: root_node_def)
  obtain m where m: "find (\<lambda>m. subtree m = node_fs n) ms = Some m" "p = mount_point m" "node_id n = 0"
    using bottom_down.hyps(1) by (auto simp: mounted_at_def split: if_splits)
  then have "m \<in> set ms" by (metis find_Some_iff nth_mem)
  then have "node_fs p \<in> dom (store w)" using assms(2) m(2) by blast
  then have "mount_point_loop ms w p True = Some (Ok (x, True))" using bottom_down.IH [of True] by simp
  moreover have "mounted_at ms n \<noteq> None" using bottom_down.hyps(1) by simp
  ultimately show ?case
    using m fs by (subst mount_point_loop.simps) (simp add: node_eq_def root_node_def)
qed

lemma find_append: "find P (xs @ ys) = (case find P xs of None \<Rightarrow> find P ys | Some x \<Rightarrow> Some x)"
  by (induction xs) auto

lemma find_SomeD: "find P xs = Some x \<Longrightarrow> x \<in> set xs \<and> P x"
  by (auto simp: find_Some_iff)

lemma mounted_on_edge:
  assumes "mounted_on ms n = Some r"
  shows "(node_key n, node_key r) \<in> mount_edges ms"
proof -
  obtain m where m: "find (\<lambda>m. node_eq (mount_point m) n) ms = Some m" "r = root_node (subtree m)"
    using assms by (auto simp: mounted_on_def)
  then have "m \<in> set ms" "node_key (mount_point m) = node_key n" by (auto simp: node_key_def node_eq_def dest!: find_SomeD)
  moreover have "node_key r = (subtree m, 0)" by (simp add: m(2) node_key_def root_node_def)
  ultimately show ?thesis unfolding mount_edges_def by (metis (no_types, lifting) image_eqI)
qed

lemma mounted_at_edge:
  assumes "mounted_at ms n = Some p"
  shows "(node_key p, node_key n) \<in> mount_edges ms"
proof -
  obtain m where m: "find (\<lambda>m. subtree m = node_fs n) ms = Some m" "p = mount_point m" "node_id n = 0"
    using assms by (auto simp: mounted_at_def split: if_splits)
  then have "m \<in> set ms" "subtree m = node_fs n" by (auto dest: find_SomeD)
  then show ?thesis using m(2,3) by (force simp: mount_edges_def node_key_def)
qed

lemma edges_single_valued: "mounts_sound ms \<Longrightarrow> single_valued (mount_edges ms)"
proof (rule single_valuedI)
  fix k x y
  assume ms: "mounts_sound ms" and "(k, x) \<in> mount_edges ms" "(k, y) \<in> mount_edges ms"
  then obtain m m' where m: "m \<in> set ms" "m' \<in> set ms" "node_key (mount_point m) = node_key (mount_point m')" "x = (subtree m, 0)" "y = (subtree m', 0)"
    by (auto simp: mount_edges_def)
  have "inj_on (\<lambda>m. node_key (mount_point m)) (set ms)" using ms by (simp add: mounts_sound_def distinct_map)
  then have "m = m'" using m(1-3) by (auto dest: inj_onD)
  then show "x = y" using m(4,5) by simp
qed

text \<open>Without a cycle both chains end, because there are finitely many mounts; a chain that enters a cycle has no end.\<close>

lemma mounts_wf_ends:
  assumes "mounts_wf ms"
  shows "\<exists>x. top_of ms n x" and "\<exists>x. bottom_of ms n x"
proof -
  have E: "finite (mount_edges ms)" "acyclic (mount_edges ms)" using assms by (simp_all add: mounts_wf_def mount_edges_def)
  show "\<exists>x. top_of ms n x"
  proof (induction "node_key n" arbitrary: n rule: wf_induct_rule [OF finite_acyclic_wf_converse [OF E]])
    case 1
    then show ?case
      using top_here [of ms n] top_up [of ms n] mounted_on_edge [of ms n] by (cases "mounted_on ms n") (simp, blast)+
  qed
  show "\<exists>x. bottom_of ms n x"
  proof (induction "node_key n" arbitrary: n rule: wf_induct_rule [OF finite_acyclic_wf [OF E]])
    case 1
    then show ?case
      using bottom_here [of ms n] bottom_down [of ms n] mounted_at_edge [of ms n] by (cases "mounted_at ms n") (simp, blast)+
  qed
qed

lemma cycle_no_top:
  assumes "mounts_sound ms" and "top_of ms n x"
  shows "(node_key n, node_key n) \<notin> (mount_edges ms)\<^sup>+"
  using assms(2)
proof (induction rule: top_of.induct)
  case (top_here n)
  have "\<not> (\<exists>m \<in> set ms. node_eq (mount_point m) n)" using top_here by (auto simp: mounted_on_def find_None_iff)
  then have "node_key n \<notin> Domain (mount_edges ms)" by (auto simp: mount_edges_def node_key_def node_eq_def)
  then show ?case by (metis Domain.DomainI tranclD)
next
  case (top_up n r x)
  have e: "(node_key n, node_key r) \<in> mount_edges ms" by (rule mounted_on_edge [OF top_up.hyps(1)])
  show ?case
  proof
    assume "(node_key n, node_key n) \<in> (mount_edges ms)\<^sup>+"
    then obtain k where "(node_key n, k) \<in> mount_edges ms" "(k, node_key n) \<in> (mount_edges ms)\<^sup>*" by (blast dest: tranclD)
    then have "(node_key r, node_key n) \<in> (mount_edges ms)\<^sup>*" using e edges_single_valued [OF assms(1)] by (metis single_valuedD)
    then have "(node_key r, node_key r) \<in> (mount_edges ms)\<^sup>+" using e by (rule rtrancl_into_trancl1)
    then show False using top_up.IH by simp
  qed
qed

lemma tops_acyclic:
  assumes "mounts_sound ms" and "\<And>n. \<exists>x. top_of ms n x"
  shows "acyclic (mount_edges ms)"
  unfolding acyclic_def
proof
  fix k :: "fs_id \<times> u64"
  let ?n = "\<lparr>node_fs = fst k, node_id = snd k, node_type = Directory\<rparr>"
  show "(k, k) \<notin> (mount_edges ms)\<^sup>+"
    using cycle_no_top [OF assms(1), of ?n] assms(2) [of ?n] by (auto simp: node_key_def)
qed

lemma vfs_wf_sound: "vfs_wf v w \<Longrightarrow> vfs_sound v w"
  by (simp add: vfs_wf_def)

lemma vfs_wfD:
  assumes "vfs_wf v w"
  shows "world_wf w" "mounts_wf (mounts v)" "root_file_system v \<in> dom (store w)"
    "\<forall>m \<in> set (mounts v). subtree m \<in> dom (store w)" "\<forall>m \<in> set (mounts v). node_fs (mount_point m) \<in> dom (store w)"
    "\<forall>m \<in> set (mounts v). dir_entries w (mount_point m) \<noteq> None"
  using assms dir_entries_store unfolding vfs_wf_def vfs_sound_def mounts_wf_def mount_points_exist_def by blast+

lemma vfs_soundD:
  assumes "vfs_sound v w"
  shows "world_wf w" "mounts_sound (mounts v)" "root_file_system v \<in> dom (store w)" "\<forall>m \<in> set (mounts v). subtree m \<in> dom (store w)"
  using assms by (simp_all add: vfs_sound_def)

text \<open>In a sound state the loop returns exactly when the chain ends, and with the end of the chain.\<close>

lemma resolve_sound:
  assumes "vfs_sound v w"
  shows "resolve_subtree v w n \<noteq> Hang \<longleftrightarrow> (\<exists>x. top_of (mounts v) n x)"
    and "top_of (mounts v) n x \<Longrightarrow> resolve_subtree v w n = Ok (x, mounted_on (mounts v) n \<noteq> None)"
proof -
  note a = vfs_soundD(1,4) [OF assms]
  show top: "resolve_subtree v w n = Ok (x, mounted_on (mounts v) n \<noteq> None)" if "top_of (mounts v) n x" for x
    using subtree_loop_top [OF a that, of False] by (simp add: resolve_subtree_def returned_def)
  show "resolve_subtree v w n \<noteq> Hang \<longleftrightarrow> (\<exists>x. top_of (mounts v) n x)"
  proof (cases "subtree_loop (mounts v) w n False")
    case None
    then show ?thesis using top by (auto simp: resolve_subtree_def returned_def)
  next
    case (Some r)
    then show ?thesis using subtree_loop_ends [OF a Some] top by auto
  qed
qed

lemma resolve_ends_iff:
  assumes "vfs_sound v w"
  shows "(\<forall>n. resolve_subtree v w n \<noteq> Hang) \<longleftrightarrow> acyclic (mount_edges (mounts v))"
  using resolve_sound(1) [OF assms] tops_acyclic [OF vfs_soundD(2) [OF assms]] mounts_wf_ends(1) [of "mounts v"] vfs_soundD(2) [OF assms]
  unfolding mounts_wf_def by blast

lemma resolve_subtree_top:
  assumes "vfs_wf v w" and "top_of (mounts v) n x"
  shows "resolve_subtree v w n = Ok (x, mounted_on (mounts v) n \<noteq> None)"
  by (rule resolve_sound(2) [OF vfs_wf_sound [OF assms(1)] assms(2)])

lemma resolve_subtree_Ok:
  assumes "vfs_wf v w"
  obtains x where "top_of (mounts v) n x" "resolve_subtree v w n = Ok (x, mounted_on (mounts v) n \<noteq> None)"
  using mounts_wf_ends(1) [OF vfs_wfD(2) [OF assms], of n] resolve_subtree_top [OF assms] by blast

lemma resolve_mount_point_bottom:
  assumes "vfs_wf v w" and "bottom_of (mounts v) n x" and "node_fs n \<in> dom (store w)"
  shows "resolve_mount_point v w n = Ok (x, mounted_at (mounts v) n \<noteq> None)"
  using mount_point_loop_bottom [OF vfs_wfD(1,5) [OF assms(1)] assms(2,3), of False]
  by (simp add: resolve_mount_point_def returned_def)

text \<open>The two directions undo each other, because mount points and subtrees are distinct.\<close>

lemma find_distinct:
  assumes "distinct (map f xs)" and "m \<in> set xs"
  shows "find (\<lambda>x. f x = f m) xs = Some m"
  using assms by (induction xs) (auto simp: image_iff)

lemma mounted_at_on:
  assumes "mounts_wf ms" and "mounted_at ms n = Some p"
  shows "mounted_on ms p = Some (root_node (node_fs n)) \<and> node_id n = 0 \<and> node_type p = Directory"
proof -
  obtain m where m: "find (\<lambda>m. subtree m = node_fs n) ms = Some m" "p = mount_point m" "node_id n = 0"
    using assms(2) by (auto simp: mounted_at_def split: if_splits)
  then have s: "m \<in> set ms" "subtree m = node_fs n" using find_SomeD by fast+
  have "find (\<lambda>x. node_key (mount_point x) = node_key (mount_point m)) ms = Some m"
    by (rule find_distinct [of "\<lambda>m. node_key (mount_point m)"]) (use assms(1) s(1) in \<open>auto simp: mounts_wf_def mounts_sound_def\<close>)
  then have "find (\<lambda>x. node_eq (mount_point x) p) ms = Some m" by (simp add: node_eq_def node_key_def m(2))
  then show ?thesis using s m assms(1) by (simp add: mounted_on_def mounts_wf_def mounts_sound_def)
qed

lemma mounted_on_at:
  assumes "mounts_wf ms" and "mounted_on ms n = Some r"
  shows "\<exists>p. mounted_at ms r = Some p \<and> node_eq p n"
proof -
  obtain m where m: "find (\<lambda>m. node_eq (mount_point m) n) ms = Some m" "r = root_node (subtree m)"
    using assms(2) by (auto simp: mounted_on_def)
  then have s: "m \<in> set ms" "node_eq (mount_point m) n" using find_SomeD by fast+
  have "find (\<lambda>x. subtree x = subtree m) ms = Some m"
    by (rule find_distinct) (use assms(1) s(1) in \<open>auto simp: mounts_wf_def mounts_sound_def\<close>)
  then show ?thesis using s m by (auto simp: mounted_at_def root_node_def)
qed

lemma bottom_top:
  assumes "mounts_wf ms" and "bottom_of ms n y" and "top_of ms n x"
  shows "\<exists>x'. top_of ms y x' \<and> node_eq x x'"
  using assms(2,3)
proof (induction arbitrary: x rule: bottom_of.induct)
  case (bottom_here n)
  then show ?case by auto
next
  case (bottom_down n p y)
  have on: "mounted_on ms p = Some (root_node (node_fs n))" "node_id n = 0"
    using mounted_at_on [OF assms(1) bottom_down.hyps(1)] by auto
  have "node_eq n (root_node (node_fs n))" using on(2) by (simp add: node_eq_def root_node_def)
  then obtain x1 where x1: "top_of ms (root_node (node_fs n)) x1" "node_eq x x1"
    using top_of_cong [OF bottom_down.prems] by blast
  then have "top_of ms p x1" using top_up on(1) by blast
  then show ?case using bottom_down.IH x1(2) node_eq_trans by blast
qed

lemma mounted_at_cong: "node_eq a b \<Longrightarrow> mounted_at ms a = mounted_at ms b"
  by (simp add: mounted_at_def node_eq_def)

lemma bottom_of_cong:
  assumes "bottom_of ms a x" and "node_eq a b"
  shows "\<exists>y. bottom_of ms b y \<and> node_eq x y"
proof (cases "mounted_at ms a")
  case None
  then show ?thesis using assms mounted_at_cong [OF assms(2), of ms] by (auto simp: bottom_of_None)
next
  case (Some p)
  then show ?thesis using assms mounted_at_cong [OF assms(2), of ms]
    by (metis bottom_of_Some node_eq_refl)
qed

lemma top_bottom:
  assumes "mounts_wf ms" and "top_of ms n x" and "bottom_of ms n y"
  shows "\<exists>y'. bottom_of ms x y' \<and> node_eq y y'"
  using assms(2,3)
proof (induction arbitrary: y rule: top_of.induct)
  case (top_here n)
  then show ?case by auto
next
  case (top_up n r x)
  obtain p where p: "mounted_at ms r = Some p" "node_eq p n"
    using mounted_on_at [OF assms(1) top_up.hyps(1)] by blast
  obtain y1 where y1: "bottom_of ms p y1" "node_eq y y1"
    using bottom_of_cong [OF top_up.prems node_eq_sym [OF p(2)]] by blast
  then have "bottom_of ms r y1" using p(1) by (simp add: bottom_of_Some)
  then show ?case using top_up.IH y1(2) node_eq_trans by blast
qed

lemma top_of_alive:
  assumes "vfs_wf v w" and "top_of (mounts v) n x" and "node_fs n \<in> dom (store w)"
  shows "node_fs x \<in> dom (store w)"
  using assms(2,3)
proof (induction rule: top_of.induct)
  case (top_up n r x)
  then obtain m where "find (\<lambda>m. node_eq (mount_point m) n) (mounts v) = Some m" "r = root_node (subtree m)"
    by (auto simp: mounted_on_def)
  then have "m \<in> set (mounts v)" "node_fs r = subtree m" by (auto simp: root_node_def dest: find_SomeD)
  then show ?case using top_up vfs_wfD(4) [OF assms(1)] by auto
qed

lemma top_of_entries:
  assumes "vfs_wf v w" and "top_of (mounts v) n x" and "x = n \<Longrightarrow> dir_entries w n \<noteq> None"
  shows "dir_entries w x \<noteq> None"
proof (cases "mounted_on (mounts v) n")
  case None
  then show ?thesis using assms(2,3) by (simp add: top_of_None)
next
  case (Some r)
  have root: "dir_entries w r \<noteq> None" if "mounted_on (mounts v) n = Some r" for n r
  proof -
    obtain m where "m \<in> set (mounts v)" "r = root_node (subtree m)"
      using \<open>mounted_on (mounts v) n = Some r\<close> by (auto simp: mounted_on_def dest!: find_SomeD)
    then show ?thesis using vfs_wfD(1,4) [OF assms(1)] entries_root by blast
  qed
  have "top_of (mounts v) r x" using Some assms(2) by (simp add: top_of_Some)
  then show ?thesis using root [OF Some] by (induction rule: top_of.induct) (use root in auto)
qed

lemma resolutions_inverse:
  assumes "vfs_wf v w" and "node_fs n \<in> dom (store w)"
  shows "\<exists>top bot up down.
      resolve_subtree v w n = Ok (top, up) \<and> resolve_mount_point v w n = Ok (bot, down)
    \<and> resolve_subtree v w top = Ok (top, False)
    \<and> (\<exists>top' b. resolve_subtree v w bot = Ok (top', b) \<and> node_eq top' top)
    \<and> (\<exists>bot' b. resolve_mount_point v w top = Ok (bot', b) \<and> node_eq bot' bot)"
proof -
  let ?ms = "mounts v"
  have ms: "mounts_wf ?ms" using assms(1) by (rule vfs_wfD)
  obtain top where top: "top_of ?ms n top" using mounts_wf_ends(1) [OF ms] by blast
  obtain bot where bot: "bottom_of ?ms n bot" using mounts_wf_ends(2) [OF ms] by blast
  obtain top' where t': "top_of ?ms bot top'" "node_eq top top'" using bottom_top [OF ms bot top] by blast
  obtain bot' where b': "bottom_of ?ms top bot'" "node_eq bot bot'" using top_bottom [OF ms top bot] by blast
  have tt: "top_of ?ms top top" "mounted_on ?ms top = None" using top_of_end [OF top] top_here by blast+
  have "node_fs top \<in> dom (store w)" using top_of_alive [OF assms(1) top assms(2)] .
  then show ?thesis
    using resolve_subtree_top [OF assms(1) top] resolve_mount_point_bottom [OF assms(1) bot assms(2)]
      resolve_subtree_top [OF assms(1) tt(1)] tt(2) resolve_subtree_top [OF assms(1) t'(1)]
      resolve_mount_point_bottom [OF assms(1) b'(1)] t'(2) b'(2)
    by (auto intro: node_eq_sym)
qed

text \<open>
  C34. When resolution through mounts ends, and what it gives. In a sound state whose mount points exist, the loop to the highest subtree ends from every
  node exactly when the mounts, taken as a relation from the covered nodes to the covering roots, have no cycle. Then
  the loop to the lowest mount point ends too, and the two directions agree, for any node of a live file system: nothing is mounted on
  the highest subtree, so that resolving twice changes nothing, and from one of the two the other is found again.
\<close>

theorem resolve_terminates_inverse:
  assumes "vfs_sound v w" and "mount_points_exist v w"
  shows "((\<forall>n. resolve_subtree v w n \<noteq> Hang) \<longleftrightarrow> acyclic (mount_edges (mounts v)))
    \<and> (acyclic (mount_edges (mounts v)) \<longrightarrow> (\<forall>n. node_fs n \<in> dom (store w) \<longrightarrow>
        (\<exists>top bot up down.
            resolve_subtree v w n = Ok (top, up) \<and> resolve_mount_point v w n = Ok (bot, down)
          \<and> resolve_subtree v w top = Ok (top, False)
          \<and> (\<exists>top' b. resolve_subtree v w bot = Ok (top', b) \<and> node_eq top' top)
          \<and> (\<exists>bot' b. resolve_mount_point v w top = Ok (bot', b) \<and> node_eq bot' bot))))"
proof (intro conjI impI allI)
  show "(\<forall>n. resolve_subtree v w n \<noteq> Hang) \<longleftrightarrow> acyclic (mount_edges (mounts v))" by (rule resolve_ends_iff [OF assms(1)])
  assume "acyclic (mount_edges (mounts v))"
  then have "vfs_wf v w" using assms by (simp add: vfs_wf_def)
  then show "\<exists>top bot up down.
            resolve_subtree v w n = Ok (top, up) \<and> resolve_mount_point v w n = Ok (bot, down)
          \<and> resolve_subtree v w top = Ok (top, False)
          \<and> (\<exists>top' b. resolve_subtree v w bot = Ok (top', b) \<and> node_eq top' top)
          \<and> (\<exists>bot' b. resolve_mount_point v w top = Ok (bot', b) \<and> node_eq bot' bot)"
    if "node_fs n \<in> dom (store w)" for n by (rule resolutions_inverse [OF _ that])
qed

section \<open>Mounting\<close>

lemma mounted_on_snoc:
  "mounted_on (ms @ [\<lparr>mount_point = mp, subtree = s\<rparr>]) n =
     (case mounted_on ms n of Some r \<Rightarrow> Some r | None \<Rightarrow> if node_eq mp n then Some (root_node s) else None)"
  by (simp add: mounted_on_def find_append split: option.split)

text \<open>
  A new mount of \<open>s\<close> on a free node \<open>mp\<close>. If the chain from the root of \<open>s\<close> does not end at \<open>mp\<close>, every
  chain still ends; if it does, no chain from \<open>mp\<close> ends any more.
\<close>

lemma top_of_snoc_free:
  assumes "mounted_on ms mp = None" and "top_of ms (root_node s) z" and "\<not> node_eq mp z" and "top_of ms n x"
  defines "ms' \<equiv> ms @ [\<lparr>mount_point = mp, subtree = s\<rparr>]"
  shows "top_of ms' n (if node_eq mp x then z else x)"
proof -
  have keep: "top_of ms' n x" if "top_of ms n x" "\<not> node_eq mp x" for n x
    using that
  proof (induction rule: top_of.induct)
    case (top_here n)
    then show ?case by (simp add: ms'_def mounted_on_snoc top_of.top_here)
  next
    case (top_up n r x)
    then have "mounted_on ms' n = Some r" by (simp add: ms'_def mounted_on_snoc)
    then show ?case using top_up.IH [OF top_up.prems] by (rule top_of.top_up)
  qed
  show ?thesis
  proof (cases "node_eq mp x")
    case True
    have "top_of ms' n z" using assms(4) True
    proof (induction rule: top_of.induct)
      case (top_here n)
      then have "mounted_on ms' n = Some (root_node s)" by (simp add: ms'_def mounted_on_snoc)
      then show ?case using keep [OF assms(2,3)] by (rule top_of.top_up)
    next
      case (top_up n r x)
      then have "mounted_on ms' n = Some r" by (simp add: ms'_def mounted_on_snoc)
      then show ?case using top_up.IH [OF top_up.prems] by (rule top_of.top_up)
    qed
    then show ?thesis using True by simp
  next
    case False
    then show ?thesis using keep assms(4) by simp
  qed
qed

lemma top_of_snoc_cycle:
  assumes "top_of ms (root_node s) z" and "node_eq mp z"
    and "top_of (ms @ [\<lparr>mount_point = mp, subtree = s\<rparr>]) n x"
  shows "\<not> (\<exists>y. top_of ms n y \<and> node_eq mp y)"
  using assms(3)
proof (induction rule: top_of.induct)
  case (top_here n)
  then have "mounted_on ms n = None" "\<not> node_eq mp n"
    by (auto simp: mounted_on_snoc split: option.splits if_splits)
  then show ?case by (simp add: top_of_None)
next
  case (top_up n r x)
  show ?case
  proof (cases "mounted_on ms n")
    case None
    then have "r = root_node s" using top_up.hyps(1) by (simp add: mounted_on_snoc split: if_splits)
    then show ?thesis using top_up.IH assms(1,2) by blast
  next
    case (Some r')
    then show ?thesis using top_up by (simp add: mounted_on_snoc top_of_Some)
  qed
qed

lemma mounts_sound_snoc:
  assumes ms: "mounts_sound ms" and free: "mounted_on ms mp = None" and dir: "node_type mp = Directory" and new: "s \<notin> subtree ` set ms"
  shows "mounts_sound (ms @ [\<lparr>mount_point = mp, subtree = s\<rparr>])"
proof -
  have "find (\<lambda>m. node_eq (mount_point m) mp) ms = None" using free by (simp add: mounted_on_def)
  then have "node_key mp \<notin> (\<lambda>m. node_key (mount_point m)) ` set ms" by (auto simp: find_None_iff node_eq_def node_key_def)
  then show ?thesis using ms dir new by (auto simp: mounts_sound_def)
qed

lemma mounts_wf_snoc:
  assumes "mounts_wf ms" and "mounted_on ms mp = None" and "node_type mp = Directory"
    and "s \<notin> subtree ` set ms" and z: "top_of ms (root_node s) z" "\<not> node_eq mp z"
  shows "mounts_wf (ms @ [\<lparr>mount_point = mp, subtree = s\<rparr>])"
proof -
  have snd: "mounts_sound (ms @ [\<lparr>mount_point = mp, subtree = s\<rparr>])" using assms by (intro mounts_sound_snoc) (simp_all add: mounts_wf_def)
  have "\<exists>x. top_of (ms @ [\<lparr>mount_point = mp, subtree = s\<rparr>]) n x" for n
    using top_of_snoc_free [OF assms(2) z] mounts_wf_ends(1) [OF assms(1), of n] by blast
  then show ?thesis using tops_acyclic [OF snd] snd by (simp add: mounts_wf_def)
qed

text \<open>What a successful \<^verbatim>\<open>mount\<close> has done.\<close>

lemma vfs_mount_Ok:
  assumes "vfs_sound v w" and "vfs_mount mp s w v = (Ok (), v')"
  obtains x where "top_of (mounts v) mp x" "node_type x = Directory" "s \<notin> subtree ` set (mounts v)"
    "v' = v\<lparr>mounts := mounts v @ [\<lparr>mount_point = x, subtree = s\<rparr>]\<rparr>"
proof -
  have "resolve_subtree v w mp \<noteq> Hang" using assms(2) by (auto simp: vfs_mount_def)
  then obtain x where x: "top_of (mounts v) mp x" using resolve_sound(1) [OF assms(1)] by blast
  note r = resolve_sound(2) [OF assms(1) x]
  have "node_type x = Directory \<and> s \<notin> subtree ` set (mounts v)
      \<and> v' = v\<lparr>mounts := mounts v @ [\<lparr>mount_point = x, subtree = s\<rparr>]\<rparr>"
    using assms(2) r by (auto simp: vfs_mount_def list_ex_iff split: if_splits)
  then show thesis using that x by blast
qed

lemma vfs_mount_failed: "fst (vfs_mount mp s w v) \<noteq> Ok () \<Longrightarrow> snd (vfs_mount mp s w v) = v"
  by (cases "resolve_subtree v w mp") (auto simp: vfs_mount_def split: if_splits)

text \<open>Any call of \<^verbatim>\<open>mount\<close> keeps a state sound, also one that makes a cycle.\<close>

lemma vfs_mount_sound:
  assumes "vfs_sound v w" and "s \<in> dom (store w)"
  shows "vfs_sound (snd (vfs_mount mp s w v)) w"
proof (cases "fst (vfs_mount mp s w v) = Ok ()")
  case True
  then have "vfs_mount mp s w v = (Ok (), snd (vfs_mount mp s w v))" by (metis prod.collapse)
  then obtain x where x: "top_of (mounts v) mp x" "node_type x = Directory" "s \<notin> subtree ` set (mounts v)"
    "snd (vfs_mount mp s w v) = v\<lparr>mounts := mounts v @ [\<lparr>mount_point = x, subtree = s\<rparr>]\<rparr>" using vfs_mount_Ok [OF assms(1)] by blast
  have "mounts_sound (mounts v @ [\<lparr>mount_point = x, subtree = s\<rparr>])"
    by (rule mounts_sound_snoc [OF vfs_soundD(2) [OF assms(1)] top_of_end [OF x(1)] x(2,3)])
  then show ?thesis using assms x(4) by (auto simp: vfs_sound_def)
next
  case False
  then show ?thesis using vfs_mount_failed assms(1) by metis
qed

text \<open>
  C35. A successful mount keeps every resolution ending exactly when the mounted file system's root
  does not already resolve to the chosen mount point. Otherwise resolving the mount point never
  returns again: the call made a cycle, which the code does not check for.
\<close>

theorem mount_ends_iff:
  assumes "vfs_wf v w" and "s \<in> dom (store w)" and "vfs_mount mp s w v = (Ok (), v')"
    and "resolve_subtree v w mp = Ok (x, b)" and "resolve_subtree v w (root_node s) = Ok (z, b')"
  shows "(\<forall>n. resolve_subtree v' w n \<noteq> Hang) \<longleftrightarrow> \<not> node_eq x z"
proof -
  let ?ms' = "mounts v @ [\<lparr>mount_point = x, subtree = s\<rparr>]"
  note sound = vfs_wf_sound [OF assms(1)] and tops = mounts_wf_ends(1) [OF vfs_wfD(2) [OF assms(1)]]
  obtain y where y: "top_of (mounts v) mp y" "v' = v\<lparr>mounts := mounts v @ [\<lparr>mount_point = y, subtree = s\<rparr>]\<rparr>"
    using vfs_mount_Ok [OF sound assms(3)] .
  then have yx: "y = x" using resolve_subtree_top [OF assms(1) y(1)] assms(4) by simp
  have free: "mounted_on (mounts v) x = None" using y(1) yx top_of_end by blast
  obtain z' where z': "top_of (mounts v) (root_node s) z'" using tops by blast
  have z: "top_of (mounts v) (root_node s) z" using resolve_subtree_top [OF assms(1) z'] assms(5) z' by simp
  have "vfs_sound v' w" using vfs_mount_sound [OF sound assms(2), of mp] assms(3) by simp
  then have res: "resolve_subtree v' w n \<noteq> Hang \<longleftrightarrow> (\<exists>t. top_of ?ms' n t)" for n
    using resolve_sound(1) [of v' w n] y(2) yx by simp
  show ?thesis
  proof
    assume "\<not> node_eq x z"
    then show "\<forall>n. resolve_subtree v' w n \<noteq> Hang"
      using res top_of_snoc_free [OF free z] tops by blast
  next
    assume "\<forall>n. resolve_subtree v' w n \<noteq> Hang"
    then show "\<not> node_eq x z" using res top_of_snoc_cycle [OF z] top_here [OF free] node_eq_refl by blast
  qed
qed

lemma vfs_mount_wf:
  assumes "vfs_wf v w" and "s \<in> dom (store w)" and "node_type mp = Directory \<Longrightarrow> dir_entries w mp \<noteq> None"
    and "vfs_mount mp s w v = (r, v')"
    and "\<And>x z. top_of (mounts v) mp x \<Longrightarrow> top_of (mounts v) (root_node s) z \<Longrightarrow> \<not> node_eq x z"
  shows "vfs_wf v' w"
proof (cases "r = Ok ()")
  case True
  note sound = vfs_wf_sound [OF assms(1)]
  obtain x where x: "top_of (mounts v) mp x" "node_type x = Directory" "s \<notin> subtree ` set (mounts v)"
    "v' = v\<lparr>mounts := mounts v @ [\<lparr>mount_point = x, subtree = s\<rparr>]\<rparr>"
    using vfs_mount_Ok [OF sound assms(4) [unfolded True]] .
  obtain z where z: "top_of (mounts v) (root_node s) z"
    using mounts_wf_ends(1) [OF vfs_wfD(2) [OF assms(1)]] by blast
  have "mounts_wf (mounts v')"
    using mounts_wf_snoc [OF vfs_wfD(2) [OF assms(1)] top_of_end [OF x(1)] x(2,3) z assms(5) [OF x(1) z]] x(4) by simp
  moreover have "dir_entries w x \<noteq> None"
    using top_of_entries [OF assms(1) x(1)] assms(3) x(2) by blast
  moreover have "vfs_sound v' w" using vfs_mount_sound [OF sound assms(2), of mp] assms(4) by simp
  ultimately show ?thesis using assms(1) x(4) by (auto simp: vfs_wf_def mounts_wf_def mount_points_exist_def)
next
  case False
  then have "v' = v" using assms(4) vfs_mount_failed [of mp s w v] by simp
  then show ?thesis using assms(1) by simp
qed

section \<open>Reading directories through mounts\<close>

interpretation pscan: directory_scan dir_entries fs_readdir parent_scan
  by unfold_locales (subst parent_scan.simps, simp add: dir_readdir_def)+

lemma dir_entries_cong: "node_eq a b \<Longrightarrow> dir_entries w a = dir_entries w b"
  by (auto simp: dir_entries_def node_eq_def split: option.split fs_object.split)

lemma top_of_Directory: "top_of ms n x \<Longrightarrow> node_type n = Directory \<Longrightarrow> node_type x = Directory"
  by (induction rule: top_of.induct) (auto simp: mounted_on_def root_node_def)

lemma bottom_of_Directory:
  "bottom_of ms n x \<Longrightarrow> mounts_wf ms \<Longrightarrow> node_type n = Directory \<Longrightarrow> node_type x = Directory"
  by (induction rule: bottom_of.induct) (use mounted_at_on in blast)+

lemma vfs_opendir_top:
  assumes "vfs_wf v w" and "top_of (mounts v) n x"
  shows "vfs_opendir v w n = (if node_type x = Directory \<and> node_fs x \<in> dom (store w) then Ok (directory_new x) else Err ())"
  using resolve_subtree_top [OF assms]
  by (auto simp: vfs_opendir_def fs_opendir_def tmpfs_opendir_def devfs_opendir_def split: option.split fs_object.split)

lemma vfs_opendir_Ok:
  assumes "vfs_wf v w" and "vfs_opendir v w n = Ok d"
  shows "top_of (mounts v) n (dir_node d)" "node_type (dir_node d) = Directory" "node_fs (dir_node d) \<in> dom (store w)"
    "mounted_on (mounts v) (dir_node d) = None" "d = directory_new (dir_node d)"
proof -
  obtain x where x: "top_of (mounts v) n x" using mounts_wf_ends(1) [OF vfs_wfD(2) [OF assms(1)]] by blast
  have "node_type x = Directory" "node_fs x \<in> dom (store w)" "d = directory_new x"
    using vfs_opendir_top [OF assms(1) x] assms(2) by (auto split: if_splits)
  then show "top_of (mounts v) n (dir_node d)" "node_type (dir_node d) = Directory" "node_fs (dir_node d) \<in> dom (store w)"
    "mounted_on (mounts v) (dir_node d) = None" "d = directory_new (dir_node d)"
    using x top_of_end [OF x] by (simp_all add: directory_new_def)
qed

text \<open>The link a directory has under the parent's name, and where a scan for it ends.\<close>

lemma parent_link:
  assumes "world_wf w" and "world_sized w" and "dir_entries w n = Some ls" and "l \<in> set ls" and "link_name l = PARENT"
  shows "parent_scan w PARENT (directory_new n) = Some (Ok l)"
proof -
  obtain up rest where ls: "ls = link CURRENT \<lparr>node_fs = node_fs n, node_id = node_id n, node_type = Directory\<rparr> # link PARENT up # rest"
    and rest: "\<forall>l \<in> set rest. link_name l \<noteq> CURRENT \<and> link_name l \<noteq> PARENT"
    using entries_wf(2) [OF assms(1-3)] by blast
  have "l = link PARENT up" using assms(4,5) ls rest by auto
  then show ?thesis
    using pscan.scan_new [where s = w and n = n and name = PARENT] entries_wf(1) [OF assms(1-3)] assms(3) ls
    by fastforce
qed

text \<open>
  The branch for the parent link of a mounted root has no effect: it opens the mount point, which resolves back to
  the mounted root itself, so the link leads to that root, and never to the parent directory of the mount point that the comment in
  the code announces.
\<close>

lemma vfs_readdir_plain:
  assumes "vfs_wf v w" and "world_sized w" and "vfs_opendir v w n = Ok d0" and "dir_node d = dir_node d0"
  shows "vfs_readdir v w d = dir_readdir w d"
proof -
  note wf = vfs_wfD [OF assms(1)] and op = vfs_opendir_Ok [OF assms(1,3), folded assms(4)]
  have "vfs_readdir v w d = dir_readdir w d"
    if r: "dir_readdir w d = (Ok (Some l), d')" and name: "link_name l = PARENT" for l d'
  proof -
    let ?n = "dir_node d"
    obtain bot where bot: "bottom_of (mounts v) ?n bot" using mounts_wf_ends(2) [OF wf(2)] by blast
    have mp: "resolve_mount_point v w ?n = Ok (bot, mounted_at (mounts v) ?n \<noteq> None)"
      using resolve_mount_point_bottom [OF assms(1) bot op(3)] .
    obtain x where x: "top_of (mounts v) bot x" "node_eq ?n x"
      using bottom_top [OF wf(2) bot top_here [OF op(4)]] by blast
    have xd: "node_type x = Directory" "node_fs x \<in> dom (store w)"
      using top_of_Directory [OF x(1) bottom_of_Directory [OF bot wf(2) op(2)]] op(3) x(2) by (simp_all add: node_eq_def)
    obtain ls where ls: "dir_entries w ?n = Some ls" "l \<in> set ls"
      using r fs_dirs.readdir_entries [of w d "dir_position d"]
      by (auto simp: dir_readdir_def split: option.splits if_splits)
    have "parent_scan w PARENT (directory_new x) = Some (Ok l)"
      using parent_link [OF wf(1) assms(2) _ ls(2) name, of x] ls(1) dir_entries_cong [OF x(2), of w] by simp
    then show ?thesis
      using r name mp vfs_opendir_top [OF assms(1) x(1)] xd by (simp add: vfs_readdir_def returned_def)
  qed
  then show ?thesis
    by (cases "dir_readdir w d") (auto simp: vfs_readdir_def split: outcome.splits option.splits)
qed

section \<open>Reachable states\<close>

text \<open>
  The operations that change the mounts or the file systems, as steps, whether they succeed or not. The guards are what the types of the code
  ensure (a new file system is a new object, the file system to mount is alive, and a buffer is no longer than a slice can be), that
  identifiers have not run out, and that nobody registers a device under one of the two reserved names. Any mount may be asked for, also
  one that makes a cycle; a call that never returns changes nothing. What is opened, listed or
  looked up changes neither.
\<close>

inductive vfs_step :: "vfs \<times> 'd fs_world \<Rightarrow> vfs \<times> 'd fs_world \<Rightarrow> bool" where
  new_tmpfs: "store w i = None \<Longrightarrow> vfs_step (v, w) (v, put_fs i (TmpfsObj (tmpfs_new i)) w)"
| new_devfs: "store w i = None \<Longrightarrow> vfs_step (v, w) (v, put_fs i (DevfsObj (devfs_new i)) w)"
| register: "store w i = Some (DevfsObj d) \<Longrightarrow> dev_ids_left d \<Longrightarrow> name \<noteq> CURRENT \<Longrightarrow> name \<noteq> PARENT \<Longrightarrow>
    vfs_step (v, w) (v, put_fs i (DevfsObj (snd (register_character_device name device d))) w)"
| mount: "s \<in> dom (store w) \<Longrightarrow> vfs_step (v, w) (snd (vfs_mount mp s w v), w)"
| mkdir: "world_ids_left w \<Longrightarrow> vfs_step (v, w) (v, snd (vfs_mkdir v parent name w))"
| mknod: "world_ids_left w \<Longrightarrow> vfs_step (v, w) (v, snd (vfs_mknod v parent name w))"
| rmdir: "vfs_step (v, w) (v, snd (vfs_rmdir v parent name w))"
| unlink: "vfs_step (v, w) (v, snd (vfs_unlink v parent name w))"
| rename: "vfs_step (v, w) (v, snd (vfs_rename old_dir old_name new_dir new_name w))"
| write_file: "vec_ok buf \<Longrightarrow> vfs_step (v, w) (v, snd (fs_write f pos buf w))"
| read_file: "vfs_step (v, w) (v, snd (fs_read f pos count w))"

lemma fs_write_dom: "dom (store (snd (fs_write f pos buf w))) = dom (store w)"
  by (auto simp: fs_write_def put_fs_def case_prod_unfold split: option.split fs_object.split)

lemma fs_read_store: "store (snd (fs_read f pos count w)) = store w"
  by (auto simp: fs_read_def case_prod_unfold split: option.split fs_object.split)

text \<open>A change of the world that only adds: file systems stay alive, and directories keep their links.\<close>

definition grows :: "'d fs_world \<Rightarrow> 'd fs_world \<Rightarrow> bool" where
  "grows w w' \<longleftrightarrow> dom (store w) \<subseteq> dom (store w')
     \<and> (\<forall>n ls. dir_entries w n = Some ls \<longrightarrow> (\<exists>more. dir_entries w' n = Some (ls @ more)))"

lemma grows_refl [simp]: "grows w w"
  by (auto simp: grows_def)

lemma vfs_sound_world:
  assumes "vfs_sound v w" and "world_wf w'" and "grows w w'"
  shows "vfs_sound v w'"
  using assms unfolding vfs_sound_def grows_def by blast

lemma vfs_wf_world:
  assumes "vfs_wf v w" and "world_wf w'" and "grows w w'"
  shows "vfs_wf v w'"
proof -
  have "mount_points_exist v w'" using assms unfolding vfs_wf_def mount_points_exist_def grows_def by blast
  then show ?thesis using assms(1) vfs_sound_world [OF vfs_wf_sound [OF assms(1)] assms(2,3)] by (simp add: vfs_wf_def)
qed

lemma grows_put:
  assumes "\<And>n ls. node_fs n = i \<Longrightarrow> dir_entries w n = Some ls \<Longrightarrow> \<exists>more. dir_entries (put_fs i fs w) n = Some (ls @ more)"
  shows "grows w (put_fs i fs w)"
  unfolding grows_def
proof (intro conjI allI impI)
  fix n ls assume e: "dir_entries w n = Some ls"
  show "\<exists>more. dir_entries (put_fs i fs w) n = Some (ls @ more)"
  proof (cases "node_fs n = i")
    case False
    then have "dir_entries (put_fs i fs w) n = dir_entries w n" by (simp add: dir_entries_def put_fs_def)
    then show ?thesis using e by simp
  qed (use assms e in blast)
qed (auto simp: put_fs_def)

lemma call_tmpfs_grows:
  assumes "world_wf w"
    and "\<And>t k ls. tmpfs_wf i t \<Longrightarrow> directories t k = Some ls \<Longrightarrow> \<exists>more. directories (snd (op t)) k = Some (ls @ more)"
  shows "grows w (snd (call_tmpfs i op w))"
proof (cases "\<exists>t. store w i = Some (TmpfsObj t)")
  case True
  then obtain t where t: "store w i = Some (TmpfsObj t)" by blast
  have "tmpfs_wf i t" using world_wfD [OF assms(1) t] by simp
  then have "grows w (put_fs i (TmpfsObj (snd (op t))) w)"
    by (intro grows_put) (use t assms(2) in \<open>auto simp: dir_entries_def put_fs_def\<close>)
  then show ?thesis using t by (simp add: call_tmpfs_def case_prod_unfold)
next
  case False
  then show ?thesis by (auto simp: call_tmpfs_def split: option.split fs_object.split)
qed

lemma tmpfs_mkdir_grows:
  assumes "tmpfs_wf me t" and "directories t k = Some ls"
  shows "\<exists>more. directories (snd (tmpfs_mkdir dir name t)) k = Some (ls @ more)"
proof (cases "directories t (node_id dir)")
  case None
  then show ?thesis using assms(2) by (simp add: tmpfs_mkdir_def fetch_add1_def)
next
  case (Some ks)
  have "k \<noteq> node_counter t" using counter_fresh(1) [OF assms(1)] assms(2) by auto
  then show ?thesis using tmpfs_mkdir_eq [OF assms(1) Some, of name] assms(2) Some by auto
qed

lemma tmpfs_mknod_grows:
  assumes "directories t k = Some ls"
  shows "\<exists>more. directories (snd (tmpfs_mknod dir name t)) k = Some (ls @ more)"
  using assms by (cases "directories t (node_id dir)") (auto simp: tmpfs_mknod_def fetch_add1_def)

lemma fs_mkdir_grows: "world_wf w \<Longrightarrow> grows w (snd (fs_mkdir dir name w))"
  unfolding fs_mkdir_def by (rule call_tmpfs_grows) (auto intro: tmpfs_mkdir_grows)

lemma fs_mknod_grows: "world_wf w \<Longrightarrow> grows w (snd (fs_mknod dir name w))"
  unfolding fs_mknod_def by (rule call_tmpfs_grows) (auto intro: tmpfs_mknod_grows)

lemma fs_rmdir_grows: "world_wf w \<Longrightarrow> grows w (snd (fs_rmdir dir name w))"
  unfolding fs_rmdir_def by (rule call_tmpfs_grows) (auto simp: tmpfs_rmdir_def)

lemma tmpfs_write_dirs: "directories (snd (tmpfs_write f pos buf t)) = directories t"
  by (simp add: tmpfs_write_def Let_def split: option.split)

lemma fs_write_grows: "grows w (snd (fs_write f pos buf w))"
proof -
  have "dir_entries (snd (fs_write f pos buf w)) n = dir_entries w n" for n
    by (auto simp: fs_write_def dir_entries_def put_fs_def case_prod_unfold tmpfs_write_dirs
        split: option.split fs_object.split)
  then show ?thesis unfolding grows_def by (simp add: fs_write_dom)
qed

lemma new_fs_keeps:
  assumes "world_wf w" and "fs_wf i fs" and "store w i = None"
  shows "world_wf (put_fs i fs w) \<and> grows w (put_fs i fs w)"
  using world_wf_put [OF assms(1,2)] grows_put [of i w fs] assms(3) by (auto simp: dir_entries_def)

lemma checked_call_keeps:
  assumes "P w" and "\<And>n. node_type n = Directory \<Longrightarrow> name \<noteq> CURRENT \<Longrightarrow> name \<noteq> PARENT \<Longrightarrow> P (snd (op n name w))"
  shows "P (snd (checked_call v parent name op w))"
  using assms by (cases "resolve_subtree v w parent") (auto simp: checked_call_def)

lemma tmpfs_rmdir_wf: "world_wf w \<Longrightarrow> world_wf (snd (fs_rmdir dir name w))"
  unfolding fs_rmdir_def by (rule call_tmpfs_wf) (simp_all add: tmpfs_rmdir_def)

lemma vfs_mkdir_keeps:
  assumes "world_wf w" and "world_ids_left w"
  shows "world_wf (snd (vfs_mkdir v parent name w)) \<and> grows w (snd (vfs_mkdir v parent name w))"
  unfolding vfs_mkdir_def
  by (rule checked_call_keeps [where P = "\<lambda>w'. world_wf w' \<and> grows w w'"]) (use assms fs_mkdir_wf fs_mkdir_grows in auto)

lemma vfs_mknod_keeps:
  assumes "world_wf w" and "world_ids_left w"
  shows "world_wf (snd (vfs_mknod v parent name w)) \<and> grows w (snd (vfs_mknod v parent name w))"
  unfolding vfs_mknod_def
  by (rule checked_call_keeps [where P = "\<lambda>w'. world_wf w' \<and> grows w w'"]) (use assms fs_mknod_wf fs_mknod_grows in auto)

lemma vfs_rmdir_keeps:
  assumes "world_wf w"
  shows "world_wf (snd (checked_call v parent name fs_rmdir w)) \<and> grows w (snd (checked_call v parent name fs_rmdir w))"
  by (rule checked_call_keeps [where P = "\<lambda>w'. world_wf w' \<and> grows w w'"]) (use assms tmpfs_rmdir_wf fs_rmdir_grows in auto)

lemma fs_write_keeps:
  assumes "world_wf w" and "vec_ok buf"
  shows "world_wf (snd (fs_write f pos buf w)) \<and> grows w (snd (fs_write f pos buf w))"
  using fs_write_wf [OF assms] fs_write_grows by blast

lemma fs_read_keeps:
  assumes "world_wf w"
  shows "world_wf (snd (fs_read f pos count w)) \<and> grows w (snd (fs_read f pos count w))"
  using assms by (simp add: world_wf_def grows_def dir_entries_def fs_read_store)

lemma register_keeps:
  fixes device :: "'d char_device"
  assumes "world_wf w" and "store w i = Some (DevfsObj d)" and "dev_ids_left d" "name \<noteq> CURRENT" "name \<noteq> PARENT"
  defines "w' \<equiv> put_fs i (DevfsObj (snd (register_character_device name device d))) w"
  shows "world_wf w' \<and> grows w w'"
proof
  have d: "devfs_wf i d" using world_wfD [OF assms(1,2)] by simp
  note new = register_wf(2,3) [OF d assms(3-5), where device = device]
  show "world_wf w'" using world_wf_put [OF assms(1), of i] new(1) by (simp add: w'_def)
  show "grows w w'"
    unfolding w'_def
  proof (rule grows_put)
    fix n ls assume n: "node_fs n = i" and ls: "dir_entries w n = Some ls"
    then have "dev_directories d (node_id n) = Some ls" using assms(2) by (simp add: dir_entries_def)
    moreover from this have "node_id n = 0" using d by (auto simp: devfs_wf_def split: if_splits)
    ultimately show "\<exists>more. dir_entries (put_fs i (DevfsObj (snd (register_character_device name device d))) w) n = Some (ls @ more)"
      using new(2) n by (auto simp: dir_entries_def put_fs_def)
  qed
qed

lemma vfs_sound_step:
  assumes "vfs_step s s'" and "vfs_sound (fst s) (snd s)"
  shows "vfs_sound (fst s') (snd s')"
  using assms(1)
proof (cases rule: vfs_step.cases)
  case (mount sub w v mp)
  then show ?thesis using vfs_mount_sound [of v w sub mp] assms(2) by simp
next
  case (new_tmpfs w i v)
  then show ?thesis using assms(2) new_fs_keeps [of w i "TmpfsObj (tmpfs_new i)"] vfs_soundD(1) [of v w] vfs_sound_world [of v w] by (simp add: tmpfs_wf_new)
next
  case (new_devfs w i v)
  then show ?thesis using assms(2) new_fs_keeps [of w i "DevfsObj (devfs_new i)"] vfs_soundD(1) [of v w] vfs_sound_world [of v w] by (simp add: devfs_wf_new)
next
  case (register w i d name v device)
  then show ?thesis using assms(2) register_keeps [of w i d name device] vfs_soundD(1) [of v w] vfs_sound_world [of v w] by simp
next
  case (mkdir w v parent name)
  then show ?thesis using assms(2) vfs_mkdir_keeps [of w v parent name] vfs_soundD(1) [of v w] vfs_sound_world [of v w] by simp
next
  case (mknod w v parent name)
  then show ?thesis using assms(2) vfs_mknod_keeps [of w v parent name] vfs_soundD(1) [of v w] vfs_sound_world [of v w] by simp
next
  case (rmdir v w parent name)
  then show ?thesis using assms(2) vfs_rmdir_keeps [of w v parent name] vfs_soundD(1) [of v w] vfs_sound_world [of v w] by (simp add: vfs_rmdir_def)
next
  case (unlink v w parent name)
  then show ?thesis using assms(2) vfs_rmdir_keeps [of w v parent name] vfs_soundD(1) [of v w] vfs_sound_world [of v w] by (simp add: vfs_unlink_def)
next
  case (rename v w old_dir old_name new_dir new_name)
  then show ?thesis using assms(2) by (simp add: vfs_rename_def)
next
  case (write_file buf v w f pos)
  then show ?thesis using assms(2) fs_write_keeps [of w buf f pos] vfs_soundD(1) [of v w] vfs_sound_world [of v w] by simp
next
  case (read_file v w f pos count)
  then show ?thesis using assms(2) fs_read_keeps [of w f pos count] vfs_soundD(1) [of v w] vfs_sound_world [of v w] by simp
qed

lemma vfs_new_wf:
  assumes "world_wf w" and "vfs_new me w = (v, w')"
  shows "vfs_wf v w'"
proof -
  have "world_wf (put_fs me (TmpfsObj (tmpfs_new me)) w)"
    using world_wf_put [OF assms(1)] tmpfs_wf_new by simp
  then show ?thesis using assms(2)
    by (auto simp: vfs_new_def vfs_wf_def vfs_sound_def mounts_sound_def mount_edges_def mount_points_exist_def put_fs_def acyclic_def)
qed

lemma vfs_steps_sound:
  assumes "world_wf w" and "vfs_new me w = s" and "vfs_step\<^sup>*\<^sup>* s s'"
  shows "vfs_sound (fst s') (snd s')"
  using assms(3)
proof (induction rule: rtranclp_induct)
  case base
  then show ?case using vfs_new_wf [OF assms(1), of me "fst s" "snd s"] assms(2) vfs_wf_sound by simp
next
  case (step y z)
  then show ?case using vfs_sound_step by blast
qed

text \<open>
  C20. Every state that the operations can reach from a new virtual file system, whatever mounts are asked for, is sound: all
  file systems in it are well-formed, no file system is mounted twice, no directory is mounted on twice, and only directories are mount points. In each of
  these states resolution ends from every node exactly when the mounts have no cycle. Operations that
  fail or hang are included; the runs hand out fewer than \<open>2 ^ 60\<close> identifiers in each file system, and no device is registered under
  the names of the links \<^verbatim>\<open>.\<close> and \<^verbatim>\<open>..\<close>.
\<close>

theorem vfs_reachable_wf:
  assumes "world_wf w" and "vfs_new me w = s" and "vfs_step\<^sup>*\<^sup>* s (v', w')"
  shows "vfs_sound v' w' \<and> ((\<forall>n. resolve_subtree v' w' n \<noteq> Hang) \<longleftrightarrow> acyclic (mount_edges (mounts v')))"
  using vfs_steps_sound [OF assms] resolve_ends_iff [of v' w'] by simp

text \<open>A concrete state: the root file system 1 with a directory \<^verbatim>\<open>dev\<close>, and device file system 2 mounted on it.\<close>

definition world0 :: "unit fs_world" where
  "world0 = \<lparr>store = Map.empty, device_state = ()\<rparr>"

definition dev_dir :: node where
  "dev_dir = \<lparr>node_fs = 1, node_id = 1, node_type = Directory\<rparr>"

definition world1 :: "unit fs_world" where
  "world1 = put_fs 2 (DevfsObj (devfs_new 2)) (snd (vfs_mkdir (fst (vfs_new 1 world0)) (root_node 1) ''dev'' (snd (vfs_new 1 world0))))"

definition vfs1 :: vfs where
  "vfs1 = snd (vfs_mount dev_dir 2 world1 (fst (vfs_new 1 world0)))"

lemma vfs_steps1: "vfs_step\<^sup>*\<^sup>* (vfs_new 1 world0) (fst (vfs_new 1 world0), world1)"
proof -
  let ?v = "fst (vfs_new 1 world0)" and ?w = "snd (vfs_new 1 world0)"
  have "world_ids_left ?w"
    by (simp add: world_ids_left_def vfs_new_def world0_def put_fs_def tmpfs_new_def ids_left_def Let_def)
  then have "vfs_step (?v, ?w) (?v, snd (vfs_mkdir ?v (root_node 1) ''dev'' ?w))" by (rule mkdir)
  moreover have "store (snd (vfs_mkdir ?v (root_node 1) ''dev'' ?w)) 2 = None"
    by (simp add: vfs_mkdir_def checked_call_def resolve_subtree_def returned_def subtree_loop.simps vfs_new_def
        world0_def put_fs_def fs_mkdir_def call_tmpfs_def root_node_def case_prod_unfold consts_defs)
  then have "vfs_step (?v, snd (vfs_mkdir ?v (root_node 1) ''dev'' ?w)) (?v, world1)"
    unfolding world1_def by (rule new_devfs)
  ultimately show ?thesis by (metis converse_rtranclp_into_rtranclp prod.collapse r_into_rtranclp)
qed

lemma world0_wf: "world_wf world0"
  by (simp add: world_wf_def world0_def)

lemmas vfs_eval = resolve_subtree_def returned_def subtree_loop.simps vfs_new_def world0_def put_fs_def
  root_node_def node_eq_def arc_root_def

lemma vfs0_wf: "vfs_wf (fst (vfs_new 1 world0)) world1"
  using vfs_steps_sound [OF world0_wf refl vfs_steps1]
  by (simp add: vfs_wf_def mount_points_exist_def mount_edges_def vfs_new_def acyclic_def)

lemma world1_store: "store world1 2 = Some (DevfsObj (devfs_new 2))"
  by (simp add: world1_def put_fs_def)

lemma world1_dom: "1 \<in> dom (store world1)" "2 \<in> dom (store world1)"
  using vfs_wfD(3) [OF vfs0_wf] world1_store by (simp_all add: vfs_new_def domI)

text \<open>Mounting the device file system on its own root makes resolution of that root hang.\<close>

theorem mount_ends_iff_witness:
  "\<exists>v'. vfs_mount (root_node 2) 2 world1 (fst (vfs_new 1 world0)) = (Ok (), v')
     \<and> \<not> (\<forall>n. resolve_subtree v' world1 n \<noteq> Hang)"
proof -
  let ?v = "fst (vfs_new 1 world0)"
  have r: "resolve_subtree ?v world1 (root_node 2) = Ok (root_node 2, False)" by (simp add: vfs_eval)
  obtain v' where m: "vfs_mount (root_node 2) 2 world1 ?v = (Ok (), v')"
    using r by (simp add: vfs_mount_def vfs_new_def root_node_def)
  show ?thesis using mount_ends_iff [OF vfs0_wf world1_dom(2) m r r] m by simp
qed

lemma world1_dev: "dir_entries world1 dev_dir \<noteq> None"
  by (simp add: world1_def vfs_mkdir_def checked_call_def vfs_eval fs_mkdir_def call_tmpfs_def dev_dir_def
      tmpfs_mkdir_def tmpfs_new_def devfs_new_def fetch_add1_def dir_entries_def consts_defs Let_def)

lemma vfs1_wf: "vfs_wf vfs1 world1"
proof -
  let ?v = "fst (vfs_new 1 world0)"
  have none: "top_of (mounts ?v) n x \<longleftrightarrow> x = n" for n x by (rule top_of_None) (simp add: mounted_on_def vfs_new_def)
  have "\<not> node_eq dev_dir (root_node 2)" by (simp add: dev_dir_def root_node_def node_eq_def)
  then show ?thesis
    unfolding vfs1_def using vfs_mount_wf [OF vfs0_wf world1_dom(2) world1_dev, where r = "fst (vfs_mount dev_dir 2 world1 ?v)"] none by simp
qed

theorem vfs_reachable_wf_witness: "\<exists>n. resolve_subtree (snd (vfs_mount (root_node 2) 2 world1 (fst (vfs_new 1 world0)))) world1 n = Hang"
proof -
  let ?v = "snd (vfs_mount (root_node 2) 2 world1 (fst (vfs_new 1 world0)))"
  have "vfs_step (fst (vfs_new 1 world0), world1) (?v, world1)" by (rule mount [OF world1_dom(2)])
  then have "vfs_step\<^sup>*\<^sup>* (vfs_new 1 world0) (?v, world1)" using vfs_steps1 by (rule rtranclp.rtrancl_into_rtrancl [rotated])
  note r = vfs_reachable_wf [OF world0_wf refl this]
  have "resolve_subtree (fst (vfs_new 1 world0)) world1 (root_node 2) = Ok (root_node 2, False)" by (simp add: vfs_eval)
  then have "mounts ?v = [\<lparr>mount_point = root_node 2, subtree = 2\<rparr>]" by (simp add: vfs_mount_def vfs_new_def root_node_def)
  then have "((2, 0), (2, 0)) \<in> mount_edges (mounts ?v)" by (simp add: mount_edges_def node_key_def root_node_def)
  then have "\<not> acyclic (mount_edges (mounts ?v))" by (auto simp: acyclic_def)
  with r show ?thesis by blast
qed

theorem resolve_terminates_inverse_witness:
  "\<exists>top up. resolve_subtree vfs1 world1 dev_dir = Ok (top, up) \<and> resolve_subtree vfs1 world1 top = Ok (top, False)"
proof -
  have "vfs_sound vfs1 world1" "mount_points_exist vfs1 world1" "acyclic (mount_edges (mounts vfs1))" using vfs1_wf by (simp_all add: vfs_wf_def)
  note r = resolve_terminates_inverse [OF this(1,2)] and cyc = this(3)
  have "node_fs dev_dir \<in> dom (store world1)" using world1_dom(1) by (simp add: dev_dir_def)
  then show ?thesis using r cyc by blast
qed

lemma vfs1_mounts: "mounts vfs1 = [\<lparr>mount_point = dev_dir, subtree = 2\<rparr>]"
  by (simp add: vfs1_def vfs_mount_def vfs_eval dev_dir_def)

lemma world1_ids: "world_ids_left world1"
  by (simp add: world_ids_left_def world1_def vfs_mkdir_def checked_call_def vfs_eval fs_mkdir_def call_tmpfs_def
      tmpfs_mkdir_def tmpfs_new_def devfs_new_def fetch_add1_def ids_left_def dev_ids_left_def consts_defs Let_def)

lemma vfs1_opendir: "vfs_opendir vfs1 world1 dev_dir = Ok (directory_new (root_node 2))"
proof -
  have "mounted_on (mounts vfs1) dev_dir = Some (root_node 2)" "mounted_on (mounts vfs1) (root_node 2) = None"
    by (simp_all add: vfs1_mounts mounted_on_def dev_dir_def node_eq_def root_node_def)
  then have "top_of (mounts vfs1) dev_dir (root_node 2)" using top_here top_up by blast
  then show ?thesis using vfs_opendir_top [OF vfs1_wf] world1_dom(2) by (simp add: root_node_def)
qed

lemma vfs_readdir_mounted_root:
  "fst (vfs_readdir vfs1 world1 \<lparr>dir_node = root_node 2, dir_position = 1\<rparr>) = Ok (Some (link PARENT (root_node 2)))"
  using vfs_readdir_plain [OF vfs1_wf ids_left_sized [OF world1_ids] vfs1_opendir,
      where d = "\<lparr>dir_node = root_node 2, dir_position = 1\<rparr>"]
  by (simp add: directory_new_def dir_readdir_def fs_readdir_def root_node_def world1_store devfs_readdir_def
      devfs_new_def Let_def)

end
