(* ===== verification/File_Manager.thy ===== *)
theory File_Manager
  imports Vfs
begin

text \<open>
  Paths and the file manager (\<^verbatim>\<open>fs/file_manager.rs\<close>). Parsing a path is the inverse of printing
  its tokens; walking a path returns unless the mounts have a cycle; and a free path at which a file or directory has
  just been made leads to it, while every path that led somewhere before still leads there.
\<close>

section \<open>Paths\<close>

definition SLASH :: char where
  [consts_defs]: "SLASH = CHR ''/''"

datatype PathStart = Root | Node node

datatype PathToken = Current | Parent | Literal string

record path_info =
  path_tokens :: "PathToken list"
  path_start :: PathStart

fun token_to_str :: "PathToken \<Rightarrow> string" where
  "token_to_str Current = CURRENT"
| "token_to_str Parent = PARENT"
| "token_to_str (Literal s) = s"

definition token_from_str :: "string \<Rightarrow> PathToken" where
  "token_from_str s = (if s = CURRENT then Current else if s = PARENT then Parent else Literal s)"

text \<open>\<^verbatim>\<open>str::split(SLASH)\<close>: the pieces between the slashes, empty ones included.\<close>

fun split_slash :: "string \<Rightarrow> string list" where
  "split_slash [] = [[]]"
| "split_slash (c # cs) =
     (if c = SLASH then [] # split_slash cs
      else (case split_slash cs of [] \<Rightarrow> [[c]] | s # ss \<Rightarrow> (c # s) # ss))"

definition path_str_to_tokens :: "string \<Rightarrow> PathToken list" where
  "path_str_to_tokens path =
     List.map_filter (\<lambda>s. if s = [] then None else Some (token_from_str s)) (split_slash path)"

definition starts_with_slash :: "string \<Rightarrow> bool" where
  "starts_with_slash path \<longleftrightarrow> (case path of [] \<Rightarrow> False | c # _ \<Rightarrow> c = SLASH)"

definition path_absolute :: "string \<Rightarrow> path_info option" where
  "path_absolute path =
     (if starts_with_slash path then Some \<lparr>path_tokens = path_str_to_tokens path, path_start = Root\<rparr> else None)"

definition path_new :: "string \<Rightarrow> node \<Rightarrow> path_info res" where
  "path_new path start =
     (if starts_with_slash path then unwrap_opt (path_absolute path)
      else Ok \<lparr>path_tokens = path_str_to_tokens path, path_start = Node start\<rparr>)"

definition path_parent :: "path_info \<Rightarrow> path_info" where
  "path_parent p =
     (let tokens =
        (if path_tokens p \<noteq> [] \<and> (case last (path_tokens p) of Literal _ \<Rightarrow> True | _ \<Rightarrow> False)
         then butlast (path_tokens p) else path_tokens p @ [Parent])
      in \<lparr>path_tokens = tokens, path_start = path_start p\<rparr>)"

definition last_token :: "path_info \<Rightarrow> PathToken option" where
  "last_token p = (if path_tokens p = [] then None else Some (last (path_tokens p)))"

section \<open>The file manager\<close>

text \<open>The loop over the links of one directory of the path.\<close>

partial_function (option) walk_scan :: "'d fs_world \<Rightarrow> string \<Rightarrow> directory \<Rightarrow> node_link res option" where
  "walk_scan w target_name d =
     (case dir_readdir w d of
        (Ok (Some l), d') \<Rightarrow> if link_name l = target_name then Some (Ok l) else walk_scan w target_name d'
      | (Ok None, _) \<Rightarrow> Some (Err ())
      | (Err e, _) \<Rightarrow> Some (Err e)
      | (Panic, _) \<Rightarrow> Some Panic
      | (Hang, _) \<Rightarrow> Some Hang)"

declare walk_scan.simps [code]

fun walk_tokens :: "vfs \<Rightarrow> 'd fs_world \<Rightarrow> PathToken list \<Rightarrow> node \<Rightarrow> node res" where
  "walk_tokens v w [] current_node = Ok current_node"
| "walk_tokens v w (token # tokens) current_node =
     bind_res (vfs_opendir v w current_node) (\<lambda>directory.
     bind_res (returned (walk_scan w (token_to_str token) directory)) (\<lambda>l.
       walk_tokens v w tokens (link_node l)))"

definition fm_walk :: "vfs \<Rightarrow> 'd fs_world \<Rightarrow> path_info \<Rightarrow> node res" where
  "fm_walk v w path =
     bind_res (case path_start path of Root \<Rightarrow> vfs_root v w | Node n \<Rightarrow> Ok n)
       (walk_tokens v w (path_tokens path))"

definition fm_mount :: "path_info \<Rightarrow> fs_id \<Rightarrow> 'd fs_world \<Rightarrow> vfs \<Rightarrow> unit res \<times> vfs" where
  "fm_mount path sub w v = and_then (fm_walk v w path, v) (\<lambda>mp v. vfs_mount mp sub w v)"

text \<open>The four operations on a path differ in the operation they call on its parent.\<close>

definition on_parent ::
    "vfs \<Rightarrow> path_info \<Rightarrow> (vfs \<Rightarrow> node \<Rightarrow> string \<Rightarrow> 'd fs_world \<Rightarrow> unit res \<times> 'd fs_world) \<Rightarrow>
     'd fs_world \<Rightarrow> unit res \<times> 'd fs_world" where
  "on_parent v path op w =
     and_then (fm_walk v w (path_parent path), w) (\<lambda>parent w.
       case last_token path of Some (Literal name) \<Rightarrow> op v parent name w | _ \<Rightarrow> (Err (), w))"

definition fm_mkdir :: "vfs \<Rightarrow> path_info \<Rightarrow> 'd fs_world \<Rightarrow> unit res \<times> 'd fs_world" where
  "fm_mkdir v path = on_parent v path vfs_mkdir"

definition fm_rmdir :: "vfs \<Rightarrow> path_info \<Rightarrow> 'd fs_world \<Rightarrow> unit res \<times> 'd fs_world" where
  "fm_rmdir v path = on_parent v path vfs_rmdir"

definition fm_mknod :: "vfs \<Rightarrow> path_info \<Rightarrow> 'd fs_world \<Rightarrow> unit res \<times> 'd fs_world" where
  "fm_mknod v path = on_parent v path vfs_mknod"

definition fm_unlink :: "vfs \<Rightarrow> path_info \<Rightarrow> 'd fs_world \<Rightarrow> unit res \<times> 'd fs_world" where
  "fm_unlink v path = on_parent v path vfs_unlink"

definition fm_rename :: "path_info \<Rightarrow> path_info \<Rightarrow> 'd fs_world \<Rightarrow> unit res \<times> 'd fs_world" where
  "fm_rename old_path new_path w = (Panic, w)"

definition fm_opendir :: "vfs \<Rightarrow> 'd fs_world \<Rightarrow> path_info \<Rightarrow> directory res" where
  "fm_opendir v w path = bind_res (fm_walk v w path) (vfs_opendir v w)"

definition fm_open :: "vfs \<Rightarrow> 'd fs_world \<Rightarrow> path_info \<Rightarrow> open_file res" where
  "fm_open v w path = bind_res (fm_walk v w path) (vfs_open v w)"

section \<open>Parsing and printing paths\<close>

text \<open>The tokens that parsing can produce: a literal is neither empty nor reserved and has no slash.\<close>

fun token_ok :: "PathToken \<Rightarrow> bool" where
  "token_ok (Literal s) = (s \<noteq> [] \<and> s \<noteq> CURRENT \<and> s \<noteq> PARENT \<and> SLASH \<notin> set s)"
| "token_ok _ = True"

definition print_path :: "PathToken list \<Rightarrow> string" where
  "print_path ts = concat (map (\<lambda>t. SLASH # token_to_str t) ts)"

lemma token_from_to_str: "token_ok t \<Longrightarrow> token_from_str (token_to_str t) = t"
  by (cases t) (auto simp: token_from_str_def)

lemma token_str_ok: "token_ok t \<Longrightarrow> token_to_str t \<noteq> [] \<and> SLASH \<notin> set (token_to_str t)"
  by (cases t) (auto simp: consts_defs)

lemma split_slash_nonempty: "split_slash s \<noteq> []"
  by (cases s) (auto split: list.split)

lemma split_slash_piece:
  assumes "SLASH \<notin> set s"
  shows "split_slash (s @ SLASH # rest) = s # split_slash rest" and "split_slash s = [s]"
  using assms by (induction s) auto

lemma split_slash_no_slash: "s \<in> set (split_slash p) \<Longrightarrow> SLASH \<notin> set s"
proof (induction p arbitrary: s)
  case (Cons c p)
  then show ?case
    using split_slash_nonempty [of p] by (cases "split_slash p") (auto split: if_splits)
qed simp

lemma split_slash_print:
  assumes "\<forall>t \<in> set ts. token_ok t"
  shows "split_slash (print_path ts) = [] # map token_to_str ts"
  using assms
proof (induction ts)
  case Nil
  then show ?case by (simp add: print_path_def)
next
  case (Cons t ts)
  then have t: "SLASH \<notin> set (token_to_str t)" using token_str_ok by simp
  show ?case
  proof (cases ts)
    case Nil
    then show ?thesis using split_slash_piece(2) [OF t] by (simp add: print_path_def)
  next
    case (Cons u us)
    then have "print_path (t # ts) = SLASH # token_to_str t @ SLASH # (token_to_str u @ print_path us)"
      "print_path ts = SLASH # (token_to_str u @ print_path us)" by (simp_all add: print_path_def)
    then show ?thesis using Cons.IH Cons.prems split_slash_piece(1) [OF t] by simp
  qed
qed

text \<open>
  C36. Parsing inverts printing: the tokens of a printed path are the tokens it was printed from; every
  string, printed or not, parses to tokens that can be printed; and making a path
  representation from a string never panics.
\<close>

theorem path_roundtrip:
  "(\<forall>ts. list_all token_ok ts = (path_str_to_tokens (print_path ts) = ts))
   \<and> (\<forall>s. list_all token_ok (path_str_to_tokens s))
   \<and> (\<forall>s n. \<exists>p. path_new s n = Ok p)"
proof (intro conjI allI)
  show parse_ok: "list_all token_ok (path_str_to_tokens s)" for s
    using split_slash_no_slash [of _ s]
    by (auto simp: list_all_iff path_str_to_tokens_def List.map_filter_def token_from_str_def split: if_splits)
  fix ts
  show "list_all token_ok ts = (path_str_to_tokens (print_path ts) = ts)"
  proof
    assume ok: "list_all token_ok ts"
    have "List.map_filter (\<lambda>s. if s = [] then None else Some (token_from_str s)) (map token_to_str ts) = ts"
      using ok by (induction ts) (auto simp: List.map_filter_def token_str_ok token_from_to_str)
    then show "path_str_to_tokens (print_path ts) = ts"
      using split_slash_print ok by (simp add: path_str_to_tokens_def list_all_iff List.map_filter_def)
  next
    assume "path_str_to_tokens (print_path ts) = ts"
    then show "list_all token_ok ts" using parse_ok by metis
  qed
qed (auto simp: path_new_def path_absolute_def)

section \<open>Walking\<close>

interpretation wscan: directory_scan dir_entries fs_readdir walk_scan
  by unfold_locales (subst walk_scan.simps, simp add: dir_readdir_def)+

text \<open>
  The specification of a walk: one component at a time, a name is looked up among the links of the
  directory that the node resolves to.
\<close>

definition lookup :: "vfs \<Rightarrow> 'd fs_world \<Rightarrow> string \<Rightarrow> node \<Rightarrow> node option" where
  "lookup v w name n =
     (case resolve_subtree v w n of
        Ok (x, _) \<Rightarrow>
          if node_type x = Directory
          then Option.bind (dir_entries w x) (\<lambda>ls. map_option link_node (find (\<lambda>l. link_name l = name) ls))
          else None
      | _ \<Rightarrow> None)"

fun spec_walk :: "vfs \<Rightarrow> 'd fs_world \<Rightarrow> string list \<Rightarrow> node \<Rightarrow> node option" where
  "spec_walk v w [] n = Some n"
| "spec_walk v w (name # names) n = Option.bind (lookup v w name n) (spec_walk v w names)"

definition start_node :: "vfs \<Rightarrow> path_info \<Rightarrow> node" where
  "start_node v p = (case path_start p of Root \<Rightarrow> root_node (root_file_system v) | Node n \<Rightarrow> n)"

lemma lookup_top:
  assumes "vfs_wf v w" and "top_of (mounts v) n x"
  shows "lookup v w name n = (if node_type x = Directory
    then Option.bind (dir_entries w x) (\<lambda>ls. map_option link_node (find (\<lambda>l. link_name l = name) ls)) else None)"
  using resolve_subtree_top [OF assms] by (simp add: lookup_def)

lemma walk_step:
  assumes "vfs_wf v w" and "world_sized w"
  shows "walk_tokens v w (t # ts) n = bind_res (ok_or (lookup v w (token_to_str t) n)) (walk_tokens v w ts)"
proof -
  obtain x where x: "top_of (mounts v) n x" using mounts_wf_ends(1) [OF vfs_wfD(2) [OF assms(1)]] by blast
  have "walk_scan w (token_to_str t) (directory_new x) = Some (case dir_entries w x of
      None \<Rightarrow> Err ()
    | Some ls \<Rightarrow> (case find (\<lambda>l. link_name l = token_to_str t) ls of None \<Rightarrow> Err () | Some l \<Rightarrow> Ok l))"
    by (rule wscan.scan_new) (rule entries_wf(1) [OF vfs_wfD(1) [OF assms(1)] assms(2)])
  moreover have "dir_entries w x = None" if "node_fs x \<notin> dom (store w)"
    using that dir_entries_store by blast
  ultimately show ?thesis
    using vfs_opendir_top [OF assms(1) x] lookup_top [OF assms(1) x]
    by (auto simp: returned_def split: option.split)
qed

lemma walk_tokens_spec:
  assumes "vfs_wf v w" and "world_sized w"
  shows "walk_tokens v w ts n = ok_or (spec_walk v w (map token_to_str ts) n)"
proof (induction ts arbitrary: n)
  case Nil
  then show ?case by simp
next
  case (Cons t ts)
  then show ?case using walk_step [OF assms] by (cases "lookup v w (token_to_str t) n") (simp_all del: walk_tokens.simps)
qed

lemma fm_walk_ok:
  assumes "vfs_wf v w" and "world_sized w"
  shows "fm_walk v w p = ok_or (spec_walk v w (map token_to_str (path_tokens p)) (start_node v p))"
  using walk_tokens_spec [OF assms] arc_root_wf [OF vfs_wfD(1,3) [OF assms(1)]]
  by (simp add: fm_walk_def start_node_def vfs_root_def split: PathStart.split)

text \<open>
  C21. Walking a path always returns, without a panic, and its result is that of looking up one
  component after another, each among the links of the directory that the node so far
  resolves to: the node found, or an error when a component is missing or is not a directory.
\<close>

theorem fm_walk_spec:
  assumes "vfs_wf v w" and "world_sized w"
  shows "fm_walk v w p = ok_or (spec_walk v w (map token_to_str (path_tokens p)) (start_node v p))"
  by (rule fm_walk_ok [OF assms])

theorem fm_walk_spec_witness:
  "fm_walk vfs1 world1 \<lparr>path_tokens = [Literal ''dev'', Current], path_start = Root\<rparr> = Ok (root_node 2)
   \<and> fm_walk vfs1 world1 \<lparr>path_tokens = [Literal ''dev'', Literal ''x''], path_start = Root\<rparr> = Err ()"
proof -
  have on: "mounted_on (mounts vfs1) (root_node 1) = None" "mounted_on (mounts vfs1) (root_node 2) = None"
      "mounted_on (mounts vfs1) dev_dir = Some (root_node 2)"
    by (simp_all add: vfs1_mounts mounted_on_def dev_dir_def node_eq_def root_node_def)
  have top: "top_of (mounts vfs1) (root_node 1) (root_node 1)" "top_of (mounts vfs1) dev_dir (root_node 2)"
    using on top_here top_up by blast+
  have e1: "Option.bind (dir_entries world1 (root_node 1)) (\<lambda>ls. map_option link_node (find (\<lambda>l. link_name l = ''dev'') ls)) = Some dev_dir"
    by (simp add: world1_def vfs_mkdir_def checked_call_def vfs_eval fs_mkdir_def call_tmpfs_def dev_dir_def
        tmpfs_mkdir_def tmpfs_new_def devfs_new_def fetch_add1_def dir_entries_def consts_defs Let_def)
  have e2: "dir_entries world1 (root_node 2) = Some [link CURRENT (root_node 2), link PARENT (root_node 2)]"
    using world1_store by (simp add: dir_entries_def root_node_def devfs_new_def Let_def)
  have ty: "node_type (root_node i) = Directory" for i by (simp add: root_node_def)
  have l: "lookup vfs1 world1 ''dev'' (root_node 1) = Some dev_dir" "lookup vfs1 world1 CURRENT dev_dir = Some (root_node 2)"
      "lookup vfs1 world1 ''x'' dev_dir = None"
    using lookup_top [OF vfs1_wf top(1)] lookup_top [OF vfs1_wf top(2)] e1 e2 ty by (simp_all add: consts_defs)
  have r: "root_file_system vfs1 = 1" by (simp add: vfs1_def vfs_mount_def vfs_eval dev_dir_def)
  show ?thesis
    using fm_walk_spec [OF vfs1_wf ids_left_sized [OF world1_ids]] l r by (simp add: start_node_def)
qed

section \<open>Making files and directories\<close>

lemma spec_walk_append:
  "spec_walk v w (xs @ ys) n = Option.bind (spec_walk v w xs n) (spec_walk v w ys)"
proof (induction xs arbitrary: n)
  case (Cons x xs)
  then show ?case by (cases "lookup v w x n") simp_all
qed simp

lemma lookup_grows:
  assumes "vfs_wf v w" and "vfs_wf v w'" and "grows w w'" and "lookup v w name n = Some y"
  shows "lookup v w' name n = Some y"
proof -
  obtain x where x: "top_of (mounts v) n x" using mounts_wf_ends(1) [OF vfs_wfD(2) [OF assms(1)]] by blast
  obtain ls l where ls: "dir_entries w x = Some ls" "find (\<lambda>l. link_name l = name) ls = Some l"
    "y = link_node l" "node_type x = Directory"
    using assms(4) lookup_top [OF assms(1) x] by (auto simp: bind_eq_Some_conv split: if_splits)
  obtain more where "dir_entries w' x = Some (ls @ more)" using ls(1) assms(3) unfolding grows_def by blast
  then show ?thesis using ls lookup_top [OF assms(2) x] by (simp add: find_append)
qed

lemma spec_walk_grows:
  assumes "vfs_wf v w" and "vfs_wf v w'" and "grows w w'" and "spec_walk v w names n = Some y"
  shows "spec_walk v w' names n = Some y"
  using assms(4)
proof (induction names arbitrary: n)
  case (Cons name names)
  then show ?case using lookup_grows [OF assms(1-3)] by (auto simp: bind_eq_Some_conv)
qed simp

lemma fm_walk_grows:
  assumes "vfs_wf v w" "world_sized w" and "vfs_wf v w'" "world_sized w'" and "grows w w'" and "fm_walk v w q = Ok n"
  shows "fm_walk v w' q = Ok n"
  using assms(6) spec_walk_grows [OF assms(1,3,5)] fm_walk_ok [OF assms(1,2)] fm_walk_ok [OF assms(3,4)] by simp

text \<open>What has happened when an operation on the parent of a path succeeds.\<close>

lemma on_parent_Ok:
  assumes "vfs_wf v w" and "on_parent v p (\<lambda>v parent name. checked_call v parent name op) w = (Ok (), w')"
  obtains name pn x where "path_tokens p = butlast (path_tokens p) @ [Literal name]"
    "fm_walk v w \<lparr>path_tokens = butlast (path_tokens p), path_start = path_start p\<rparr> = Ok pn"
    "top_of (mounts v) pn x" "node_type x = Directory" "name \<noteq> CURRENT" "name \<noteq> PARENT" "op x name w = (Ok (), w')"
proof -
  obtain pn where pn: "fm_walk v w (path_parent p) = Ok pn"
    and c: "(case last_token p of Some (Literal name) \<Rightarrow> checked_call v pn name op w | _ \<Rightarrow> (Err (), w)) = (Ok (), w')"
    using assms(2) by (auto simp: on_parent_def and_then_Ok_iff)
  obtain name where name: "last_token p = Some (Literal name)" and c': "checked_call v pn name op w = (Ok (), w')"
    using c by (auto split: option.splits PathToken.splits)
  have toks: "path_tokens p = butlast (path_tokens p) @ [Literal name]"
    using name append_butlast_last_id [of "path_tokens p"]
    by (metis last_token_def option.distinct(1) option.inject)
  have "path_parent p = \<lparr>path_tokens = butlast (path_tokens p), path_start = path_start p\<rparr>"
    using name by (auto simp: path_parent_def last_token_def split: if_splits)
  moreover obtain x where x: "top_of (mounts v) pn x" using mounts_wf_ends(1) [OF vfs_wfD(2) [OF assms(1)]] by blast
  moreover have "node_type x = Directory" "name \<noteq> CURRENT" "name \<noteq> PARENT" "op x name w = (Ok (), w')"
    using c' resolve_subtree_top [OF assms(1) x] by (auto simp: checked_call_def split: if_splits)
  ultimately show thesis using that toks pn by simp
qed

lemma walk_to_new:
  assumes "vfs_wf v w" "world_sized w" and "vfs_wf v w'" "world_sized w'" and "grows w w'"
    and toks: "path_tokens p = butlast (path_tokens p) @ [Literal name]"
    and pn: "fm_walk v w \<lparr>path_tokens = butlast (path_tokens p), path_start = path_start p\<rparr> = Ok pn"
    and x: "top_of (mounts v) pn x" "node_type x = Directory"
    and old: "fm_walk v w p = Err ()"
    and ent: "dir_entries w x = Some ls" "dir_entries w' x = Some (ls @ link name child # extra)"
  shows "fm_walk v w' p = Ok child"
proof -
  let ?names = "map token_to_str (butlast (path_tokens p))"
  let ?q = "\<lparr>path_tokens = butlast (path_tokens p), path_start = path_start p\<rparr>"
  have names: "map token_to_str (path_tokens p) = ?names @ [name]" by (subst toks) simp
  have st: "start_node v ?q = start_node v p" by (simp add: start_node_def)
  have par: "spec_walk v w ?names (start_node v p) = Some pn" using pn fm_walk_ok [OF assms(1,2), of ?q] st by simp
  have "lookup v w name pn = None"
    using old fm_walk_ok [OF assms(1,2), of p] names par by (cases "lookup v w name pn") (simp_all add: spec_walk_append)
  then have "find (\<lambda>l. link_name l = name) ls = None" using lookup_top [OF assms(1) x(1)] x(2) ent(1) by simp
  then have "lookup v w' name pn = Some child" using lookup_top [OF assms(3) x(1)] x(2) ent(2) by (simp add: find_append)
  then show ?thesis
    using fm_walk_ok [OF assms(3,4), of p] names spec_walk_grows [OF assms(1,3,5) par] by (simp add: spec_walk_append)
qed

text \<open>A successful call of a temporary file system through a node.\<close>

lemma call_tmpfs_Ok:
  assumes "call_tmpfs i op w = (Ok r, w')"
  obtains t t' where "store w i = Some (TmpfsObj t)" "op t = (Ok r, t')" "w' = put_fs i (TmpfsObj t') w"
proof -
  obtain t where t: "store w i = Some (TmpfsObj t)"
    using assms by (auto simp: call_tmpfs_def split: option.splits fs_object.splits)
  then have "op t = (Ok r, snd (op t))" "w' = put_fs i (TmpfsObj (snd (op t))) w"
    using assms by (auto simp: call_tmpfs_def split: prod.splits)
  then show thesis using that t by blast
qed

text \<open>A node with an identifier that was not in use is not a mount point.\<close>

lemma fresh_not_mounted:
  assumes "vfs_wf v w" and "store w (node_fs n) = Some (TmpfsObj t)" and "node_id n = node_counter t"
  shows "top_of (mounts v) n n"
proof (rule top_here)
  have "tmpfs_wf (node_fs n) t" using world_wfD [OF vfs_wfD(1) [OF assms(1)] assms(2)] by simp
  then have none: "dir_entries w n = None" using counter_fresh(1) assms(2,3) by (simp add: dir_entries_def domIff)
  show "mounted_on (mounts v) n = None"
  proof (rule ccontr)
    assume "mounted_on (mounts v) n \<noteq> None"
    then obtain m where "m \<in> set (mounts v)" "node_eq (mount_point m) n"
      by (auto simp: mounted_on_def dest!: find_SomeD)
    then show False using vfs_wfD(6) [OF assms(1)] none dir_entries_cong by metis
  qed
qed

text \<open>One new link at the end of one directory: a lookup gives what it gave before, or finds the new node where it found none.\<close>

lemma lookup_linked:
  assumes "vfs_wf v w" and "vfs_wf v w'"
    and ent: "\<And>y. dir_entries w' y = (if node_eq x y then map_option (\<lambda>ls. ls @ [link name n]) (dir_entries w y) else dir_entries w y)"
  shows "lookup v w' nm m = lookup v w nm m \<or> lookup v w nm m = None \<and> lookup v w' nm m = Some n"
proof -
  obtain y where y: "top_of (mounts v) m y" using mounts_wf_ends(1) [OF vfs_wfD(2) [OF assms(1)]] by blast
  show ?thesis
    using lookup_top [OF assms(1) y, of nm] lookup_top [OF assms(2) y, of nm] ent [of y]
    by (cases "dir_entries w y"; cases "node_eq x y") (auto simp: find_append split: option.split)
qed

lemma spec_walk_linked:
  assumes "\<And>nm m. lookup v w' nm m = lookup v w nm m \<or> lookup v w nm m = None \<and> lookup v w' nm m = Some n"
    and leaf: "\<And>nm. lookup v w' nm n = None"
  shows "spec_walk v w' names m = spec_walk v w names m \<or> spec_walk v w names m = None \<and> spec_walk v w' names m = Some n"
proof (induction names arbitrary: m)
  case (Cons nm names)
  consider y where "lookup v w nm m = Some y" "lookup v w' nm m = Some y" | "lookup v w nm m = None" "lookup v w' nm m = None"
    | "lookup v w nm m = None" "lookup v w' nm m = Some n"
    using assms(1) [of nm m] by (cases "lookup v w nm m"; cases "lookup v w' nm m") auto
  then show ?case
  proof cases
    case 1
    then show ?thesis using Cons.IH [of y] by simp
  next
    case 3
    then show ?thesis using leaf by (cases names) simp_all
  qed simp
qed simp

text \<open>
  C37. What making a file does. When \<^verbatim>\<open>mknod\<close> succeeds in a well-formed state with identifiers left, whether or not the path led to something before, the state stays well-formed, and there is
  a new regular file, which did not exist before, can be opened and is empty. If the path led nowhere, it leads to the new file now; if it led to
  a node, it still does, since the call does not refuse a name that is taken. Every other path
  leads where it led, to the same node or nowhere, except that paths that led nowhere may be further names of the new file.
\<close>

theorem fm_mknod_creates:
  assumes "vfs_wf v w" and "world_ids_left w" and "fm_mknod v p w = (Ok (), w')"
  shows "vfs_wf v w'
    \<and> (\<exists>n. node_type n = File \<and> file_bytes w (file_new n) = None \<and> file_bytes w' (file_new n) = Some [] \<and> vfs_open v w' n = Ok (file_new n)
         \<and> fm_walk v w' p = (case fm_walk v w p of Ok m \<Rightarrow> Ok m | _ \<Rightarrow> Ok n)
         \<and> (\<forall>q. fm_walk v w' q = fm_walk v w q \<or> fm_walk v w q = Err () \<and> fm_walk v w' q = Ok n))"
proof -
  have sized: "world_sized w" by (rule ids_left_sized [OF assms(2)])
  obtain name pn x where toks: "path_tokens p = butlast (path_tokens p) @ [Literal name]"
    and pn: "fm_walk v w \<lparr>path_tokens = butlast (path_tokens p), path_start = path_start p\<rparr> = Ok pn"
    and x: "top_of (mounts v) pn x" "node_type x = Directory" and name: "name \<noteq> CURRENT" "name \<noteq> PARENT"
    and op: "fs_mknod x name w = (Ok (), w')"
    using on_parent_Ok [OF assms(1), of p fs_mknod w'] assms(3) unfolding fm_mknod_def vfs_mknod_def [abs_def] by blast
  have w': "world_wf w'" "world_sized w'" "grows w w'"
    using fs_mknod_wf [OF vfs_wfD(1) [OF assms(1)] assms(2) name, of x] fs_mknod_sized [OF assms(2), of x name]
      fs_mknod_grows [OF vfs_wfD(1) [OF assms(1)], of x name] op by simp_all
  have wf': "vfs_wf v w'" by (rule vfs_wf_world [OF assms(1) w'(1,3)])
  obtain t t' where t: "store w (node_fs x) = Some (TmpfsObj t)" and e: "tmpfs_mknod x name t = (Ok (), t')"
    and w'eq: "w' = put_fs (node_fs x) (TmpfsObj t') w"
    using call_tmpfs_Ok [OF op [unfolded fs_mknod_def]] .
  obtain ls where ls: "directories t (node_id x) = Some ls"
    using e by (auto simp: tmpfs_mknod_def fetch_add1_def Let_def split: option.splits)
  let ?n = "\<lparr>node_fs = node_fs x, node_id = node_counter t, node_type = File\<rparr>"
  note t'eq = tmpfs_mknod_eq [where t = t and dir = x and name = name, OF ls]
  have ent: "dir_entries w' y = (if node_eq x y then map_option (\<lambda>ls. ls @ [link name ?n]) (dir_entries w y) else dir_entries w y)" for y
    using t ls e t'eq w'eq by (auto simp: dir_entries_def put_fs_def node_eq_def)
  have top: "top_of (mounts v) ?n ?n" using fresh_not_mounted [OF assms(1), of ?n t] t by simp
  have st: "store w' (node_fs x) = Some (TmpfsObj t')" by (simp add: w'eq put_fs_def)
  have twf: "tmpfs_wf (node_fs x) t" using world_wfD [OF vfs_wfD(1) [OF assms(1)] t] by simp
  have bytes: "file_bytes w (file_new ?n) = None" "file_bytes w' (file_new ?n) = Some []"
    using t st e t'eq counter_fresh(2) [OF twf] by (auto simp: file_bytes_def file_new_def)
  have open_n: "vfs_open v w' ?n = Ok (file_new ?n)"
    using st resolve_subtree_top [OF wf' top] by (simp add: vfs_open_def fs_open_def tmpfs_open_def)
  have leaf: "lookup v w' nm ?n = None" for nm using lookup_top [OF wf' top] by simp
  note lk = lookup_linked [OF assms(1) wf' ent]
  note walks = fm_walk_ok [OF assms(1) sized] fm_walk_ok [OF wf' w'(2)]
  have "spec_walk v w' names m = spec_walk v w names m \<or> spec_walk v w names m = None \<and> spec_walk v w' names m = Some ?n" for names m
    by (rule spec_walk_linked [OF lk leaf])
  from this [of "map token_to_str (path_tokens q)" "start_node v q" for q]
  have all: "fm_walk v w' q = fm_walk v w q \<or> fm_walk v w q = Err () \<and> fm_walk v w' q = Ok ?n" for q
    unfolding walks by (metis ok_or.simps)
  have "fm_walk v w' p = (case fm_walk v w p of Ok m \<Rightarrow> Ok m | _ \<Rightarrow> Ok ?n)"
  proof (cases "spec_walk v w (map token_to_str (path_tokens p)) (start_node v p)")
    case (Some m)
    then show ?thesis using fm_walk_grows [OF assms(1) sized wf' w'(2,3)] walks(1) by simp
  next
    case None
    have "dir_entries w x = Some ls" "dir_entries w' x = Some (ls @ link name ?n # [])"
      using t ls ent [of x] by (simp_all add: dir_entries_def)
    then have "fm_walk v w' p = Ok ?n"
      using walk_to_new [OF assms(1) sized wf' w'(2,3) toks pn x] None walks(1) by simp
    then show ?thesis using None walks(1) by simp
  qed
  then show ?thesis using wf' bytes open_n all by (intro conjI exI [of _ ?n]) simp_all
qed

text \<open>
  Making a directory works, and lists it twice. When \<^verbatim>\<open>mkdir\<close> succeeds for a path that led nowhere,
  the path leads to a new directory that holds only the links to itself and its parent, the
  state stays well-formed, and every path that led to a node still leads to it; but the
  parent directory has gained two equal links instead of one.
\<close>

lemma fm_mkdir_creates:
  assumes "vfs_wf v w" and "world_ids_left w" and "fm_mkdir v p w = (Ok (), w')" and "fm_walk v w p = Err ()"
  shows "vfs_wf v w'
    \<and> (\<exists>n x ls name. fm_walk v w' p = Ok n \<and> fm_opendir v w' p = Ok (directory_new n)
         \<and> dir_entries w' n = Some [link CURRENT n, link PARENT x]
         \<and> dir_entries w x = Some ls \<and> dir_entries w' x = Some (ls @ [link name n, link name n]))
    \<and> (\<forall>q n. fm_walk v w q = Ok n \<longrightarrow> fm_walk v w' q = Ok n)"
proof -
  have sized: "world_sized w" by (rule ids_left_sized [OF assms(2)])
  obtain name pn x where toks: "path_tokens p = butlast (path_tokens p) @ [Literal name]"
    and pn: "fm_walk v w \<lparr>path_tokens = butlast (path_tokens p), path_start = path_start p\<rparr> = Ok pn"
    and x: "top_of (mounts v) pn x" "node_type x = Directory" and name: "name \<noteq> CURRENT" "name \<noteq> PARENT"
    and op: "fs_mkdir x name w = (Ok (), w')"
    using on_parent_Ok [OF assms(1), of p fs_mkdir w'] assms(3) unfolding fm_mkdir_def vfs_mkdir_def [abs_def] by blast
  have w': "world_wf w'" "world_sized w'" "grows w w'"
    using fs_mkdir_wf [OF vfs_wfD(1) [OF assms(1)] assms(2) x(2) name] fs_mkdir_sized [OF assms(2), of x name]
      fs_mkdir_grows [OF vfs_wfD(1) [OF assms(1)], of x name] op by simp_all
  have wf': "vfs_wf v w'" by (rule vfs_wf_world [OF assms(1) w'(1,3)])
  obtain t t' where t: "store w (node_fs x) = Some (TmpfsObj t)" and e: "tmpfs_mkdir x name t = (Ok (), t')"
    and w'eq: "w' = put_fs (node_fs x) (TmpfsObj t') w"
    using call_tmpfs_Ok [OF op [unfolded fs_mkdir_def]] .
  have twf: "tmpfs_wf (node_fs x) t" using world_wfD [OF vfs_wfD(1) [OF assms(1)] t] by simp
  obtain ls where ls: "directories t (node_id x) = Some ls"
    using e by (auto simp: tmpfs_mkdir_def fetch_add1_def Let_def split: option.splits)
  let ?n = "\<lparr>node_fs = node_fs x, node_id = node_counter t, node_type = Directory\<rparr>"
  have ne: "node_id x \<noteq> node_counter t" using counter_fresh(1) [OF twf] ls by auto
  note t'eq = tmpfs_mkdir_eq [OF twf ls, of name]
  have ent: "dir_entries w x = Some ls" "dir_entries w' x = Some (ls @ link name ?n # [link name ?n])"
    "dir_entries w' ?n = Some [link CURRENT ?n, link PARENT x]"
    using t ls e t'eq w'eq ne by (auto simp: dir_entries_def put_fs_def numeral_2_eq_2)
  have walk: "fm_walk v w' p = Ok ?n"
    by (rule walk_to_new [OF assms(1) sized wf' w'(2,3) toks pn x assms(4) ent(1,2)])
  have top: "top_of (mounts v) ?n ?n" using fresh_not_mounted [OF assms(1), of ?n t] t by simp
  have st: "store w' (node_fs x) = Some (TmpfsObj t')" by (simp add: w'eq put_fs_def)
  then have "fm_opendir v w' p = Ok (directory_new ?n)"
    using walk vfs_opendir_top [OF wf' top] by (auto simp: fm_opendir_def)
  then have "\<exists>n x ls name. fm_walk v w' p = Ok n \<and> fm_opendir v w' p = Ok (directory_new n)
         \<and> dir_entries w' n = Some [link CURRENT n, link PARENT x]
         \<and> dir_entries w x = Some ls \<and> dir_entries w' x = Some (ls @ [link name n, link name n])"
    using walk ent by blast
  then show ?thesis using wf' fm_walk_grows [OF assms(1) sized wf' w'(2,3)] by blast
qed

section \<open>A new file system\<close>

text \<open>The virtual file system as the kernel creates it, and a path directly below its root.\<close>

definition new_vfs :: vfs where
  "new_vfs = fst (vfs_new 1 world0)"

definition new_world :: "unit fs_world" where
  "new_world = snd (vfs_new 1 world0)"

definition path_a :: path_info where
  "path_a = \<lparr>path_tokens = [Literal ''a''], path_start = Root\<rparr>"

lemma new_vfs_wf: "vfs_wf new_vfs new_world"
  using vfs_new_wf [OF world0_wf, of 1] by (simp add: new_vfs_def new_world_def)

lemma new_world_ids: "world_ids_left new_world"
  by (simp add: world_ids_left_def new_world_def vfs_new_def world0_def put_fs_def tmpfs_new_def ids_left_def Let_def)

lemma new_vfs_top: "top_of (mounts new_vfs) n n"
  by (rule top_here) (simp add: mounted_on_def new_vfs_def vfs_new_def)

lemma new_world_entries: "dir_entries new_world (root_node 1) = Some [link CURRENT (root_node 1), link PARENT (root_node 1)]"
  by (simp add: dir_entries_def new_world_def vfs_new_def put_fs_def root_node_def tmpfs_new_def Let_def)

lemma new_vfs_resolve: "resolve_subtree new_vfs w n = Ok (n, False)"
  by (simp add: resolve_subtree_def returned_def subtree_loop.simps new_vfs_def vfs_new_def)

lemma path_a_walk: "fm_walk new_vfs new_world path_a = Err ()"
  using fm_walk_ok [OF new_vfs_wf ids_left_sized [OF new_world_ids], of path_a] new_world_entries
    lookup_top [OF new_vfs_wf new_vfs_top, of "''a''" "root_node 1"]
  by (simp add: path_a_def start_node_def consts_defs new_vfs_def vfs_new_def root_node_def)

lemma path_a_parent: "fm_walk new_vfs new_world (path_parent path_a) = Ok (root_node 1)"
  using fm_walk_ok [OF new_vfs_wf ids_left_sized [OF new_world_ids], of "path_parent path_a"]
  by (simp add: path_a_def path_parent_def start_node_def new_vfs_def vfs_new_def)

lemma path_a_made:
  "fm_mknod new_vfs path_a new_world = (Ok (), snd (fm_mknod new_vfs path_a new_world))"
  "fm_mkdir new_vfs path_a new_world = (Ok (), snd (fm_mkdir new_vfs path_a new_world))"
proof -
  have last: "last_token path_a = Some (Literal ''a'')" by (simp add: last_token_def path_a_def)
  have st: "store new_world 1 = Some (TmpfsObj (tmpfs_new 1))" by (simp add: new_world_def vfs_new_def put_fs_def)
  have a: "''a'' \<noteq> CURRENT" "''a'' \<noteq> PARENT" by (simp_all add: consts_defs)
  have ok: "fst (tmpfs_mknod (root_node 1) ''a'' (tmpfs_new 1)) = Ok ()"
    "fst (tmpfs_mkdir (root_node 1) ''a'' (tmpfs_new 1)) = Ok ()"
    by (simp_all add: tmpfs_mknod_def tmpfs_mkdir_def tmpfs_new_def root_node_def fetch_add1_def Let_def)
  have "fst (fm_mknod new_vfs path_a new_world) = Ok ()" "fst (fm_mkdir new_vfs path_a new_world) = Ok ()"
    using ok st a last
    by (simp_all add: fm_mknod_def fm_mkdir_def on_parent_def path_a_parent vfs_mknod_def vfs_mkdir_def checked_call_def
        new_vfs_resolve fs_mknod_def fs_mkdir_def call_tmpfs_def case_prod_unfold root_node_def)
  then show "fm_mknod new_vfs path_a new_world = (Ok (), snd (fm_mknod new_vfs path_a new_world))"
    "fm_mkdir new_vfs path_a new_world = (Ok (), snd (fm_mkdir new_vfs path_a new_world))"
    by (metis prod.collapse)+
qed

theorem fm_mknod_creates_witness:
  "\<exists>n. fm_walk new_vfs (snd (fm_mknod new_vfs path_a new_world)) path_a = Ok n \<and> node_type n = File
     \<and> fm_walk new_vfs new_world path_a = Err ()"
  using fm_mknod_creates [OF new_vfs_wf new_world_ids path_a_made(1)] path_a_walk by auto

lemma fm_mkdir_creates_witness:
  "\<exists>n. fm_opendir new_vfs (snd (fm_mkdir new_vfs path_a new_world)) path_a = Ok (directory_new n)"
  using fm_mkdir_creates [OF new_vfs_wf new_world_ids path_a_made(2) path_a_walk] by blast

end
