(* ===== verification/Boot_Files.thy ===== *)
theory Boot_Files
  imports File_Manager
begin

text \<open>
  The file systems that the start-up code builds (\<^verbatim>\<open>boot/aarch64/raspi3b/init.rs\<close>, first half of \<^verbatim>\<open>kernel_init\<close>): the
  virtual file system, a temporary file system mounted on its root, the device file system with the serial port on
  \<^verbatim>\<open>/dev\<close>, and the file \<^verbatim>\<open>/bin/cli\<close>. File systems are named in the order of their creation. Every result is
  unwrapped, so an error is a panic.
\<close>

section \<open>Operations\<close>

fun unwrap_res :: "('a, 'e) outcome \<Rightarrow> ('a, 'f) outcome" where
  "unwrap_res (Ok a) = Ok a"
| "unwrap_res (Err e) = Panic"
| "unwrap_res Panic = Panic"
| "unwrap_res Hang = Hang"

type_synonym 'd fs_state = "vfs \<times> 'd fs_world"

definition mount_at :: "string \<Rightarrow> fs_id \<Rightarrow> 'd fs_state \<Rightarrow> unit res \<times> 'd fs_state" where
  "mount_at path sub st =
     and_then (unwrap_opt (path_absolute path), st) (\<lambda>p (v, w). case fm_mount p sub w v of (r, v) \<Rightarrow> (unwrap_res r, (v, w)))"

definition mkdir_at :: "string \<Rightarrow> 'd fs_state \<Rightarrow> unit res \<times> 'd fs_state" where
  "mkdir_at path st =
     and_then (unwrap_opt (path_absolute path), st) (\<lambda>p (v, w). case fm_mkdir v p w of (r, w) \<Rightarrow> (unwrap_res r, (v, w)))"

definition mknod_at :: "string \<Rightarrow> 'd fs_state \<Rightarrow> unit res \<times> 'd fs_state" where
  "mknod_at path st =
     and_then (unwrap_opt (path_absolute path), st) (\<lambda>p (v, w). case fm_mknod v p w of (r, w) \<Rightarrow> (unwrap_res r, (v, w)))"

definition write_at :: "string \<Rightarrow> u8 list \<Rightarrow> 'd fs_state \<Rightarrow> usize res \<times> 'd fs_state" where
  "write_at path bytes st =
     and_then (unwrap_opt (path_absolute path), st) (\<lambda>p (v, w).
     and_then (unwrap_res (fm_open v w p), (v, w)) (\<lambda>f (v, w).
       case file_write bytes (f, w) of (r, (_, w)) \<Rightarrow> (unwrap_res r, (v, w))))"

text \<open>A call on the device file system, which the caller holds by an \<^verbatim>\<open>Arc\<close>.\<close>

definition register_at :: "fs_id \<Rightarrow> string \<Rightarrow> 'd char_device \<Rightarrow> 'd fs_state \<Rightarrow> unit res \<times> 'd fs_state" where
  "register_at i name device st =
     (case store (snd st) i of
        Some (DevfsObj d) \<Rightarrow>
          (case register_character_device name device d of (r, d) \<Rightarrow> (unwrap_res r, (fst st, put_fs i (DevfsObj d) (snd st))))
      | _ \<Rightarrow> (Panic, st))"

text \<open>The file systems are number 2 (the one inside the virtual file system), 3 (the root) and 4 (the devices).\<close>

definition boot_files :: "'d char_device \<Rightarrow> u8 list \<Rightarrow> 'd fs_world \<Rightarrow> usize res \<times> 'd fs_state" where
  "boot_files serial cli_bytes w =
     (case vfs_new 2 w of (v, w) \<Rightarrow>
     and_then (mount_at ''/'' 3 (v, put_fs 3 (TmpfsObj (tmpfs_new 3)) w)) (\<lambda>_ st.
     and_then (mkdir_at ''/dev'' st) (\<lambda>_ (v, w).
     and_then (mount_at ''/dev'' 4 (v, put_fs 4 (DevfsObj (devfs_new 4)) w)) (\<lambda>_ st.
     and_then (register_at 4 ''ttyS0'' serial st) (\<lambda>_ st.
     and_then (mkdir_at ''/bin'' st) (\<lambda>_ st.
     and_then (mknod_at ''/bin/cli'' st) (\<lambda>_ st.
       write_at ''/bin/cli'' cli_bytes st)))))))"

section \<open>The tree that results\<close>

lemma paths:
  "path_absolute ''/'' = Some \<lparr>path_tokens = [], path_start = Root\<rparr>"
  "path_absolute ''/dev'' = Some \<lparr>path_tokens = [Literal ''dev''], path_start = Root\<rparr>"
  "path_absolute ''/bin'' = Some \<lparr>path_tokens = [Literal ''bin''], path_start = Root\<rparr>"
  "path_absolute ''/bin/cli'' = Some \<lparr>path_tokens = [Literal ''bin'', Literal ''cli''], path_start = Root\<rparr>"
  "path_absolute ''/dev/ttyS0'' = Some \<lparr>path_tokens = [Literal ''dev'', Literal ''ttyS0''], path_start = Root\<rparr>"
  by (simp_all add: path_absolute_def starts_with_slash_def path_str_to_tokens_def SLASH_def token_from_str_def consts_defs
    List.map_filter_def)

text \<open>
  The states between the steps, as computed: the root file system with the given links in its root, other
  directories and files, and the device file system, when there is one.
\<close>

abbreviation dnode :: "u64 \<Rightarrow> node" where
  "dnode i \<equiv> \<lparr>node_fs = 3, node_id = i, node_type = Directory\<rparr>"

abbreviation cli_node :: node where
  "cli_node \<equiv> \<lparr>node_fs = 3, node_id = 3, node_type = File\<rparr>"

abbreviation tty_node :: node where
  "tty_node \<equiv> \<lparr>node_fs = 4, node_id = 1, node_type = CharacterDevice\<rparr>"

definition root_tmpfs :: "u64 \<Rightarrow> (u64 \<rightharpoonup> node_link list) \<Rightarrow> (u64 \<rightharpoonup> u8 list) \<Rightarrow> tmpfs" where
  "root_tmpfs c ds fs = \<lparr>tmp_root = dnode 0, node_counter = c, directories = ds, files = fs\<rparr>"

abbreviation dots :: "node \<Rightarrow> node_link list" where
  "dots n \<equiv> [link CURRENT n, link PARENT (dnode 0)]"

abbreviation twice :: "string \<Rightarrow> node \<Rightarrow> node_link list" where
  "twice name n \<equiv> [link name n, link name n]"

definition tree1 :: tmpfs where
  "tree1 = root_tmpfs 1 [0 \<mapsto> dots (dnode 0)] Map.empty"

definition tree2 :: tmpfs where
  "tree2 = root_tmpfs 2 [0 \<mapsto> dots (dnode 0) @ twice ''dev'' (dnode 1), 1 \<mapsto> dots (dnode 1)] Map.empty"

definition tree3 :: tmpfs where
  "tree3 = root_tmpfs 3 [0 \<mapsto> dots (dnode 0) @ twice ''dev'' (dnode 1) @ twice ''bin'' (dnode 2),
     1 \<mapsto> dots (dnode 1), 2 \<mapsto> dots (dnode 2)] Map.empty"

definition tree4 :: "u8 list \<Rightarrow> tmpfs" where
  "tree4 bytes = root_tmpfs 4 [0 \<mapsto> dots (dnode 0) @ twice ''dev'' (dnode 1) @ twice ''bin'' (dnode 2),
     1 \<mapsto> dots (dnode 1), 2 \<mapsto> dots (dnode 2) @ [link ''cli'' cli_node]] [3 \<mapsto> bytes]"

definition dev_tree :: "'d char_device \<Rightarrow> 'd devfs" where
  "dev_tree serial = snd (register_character_device ''ttyS0'' serial (devfs_new 4))"

definition boot_world :: "tmpfs \<Rightarrow> 'd devfs option \<Rightarrow> 'd fs_world \<Rightarrow> 'd fs_world" where
  "boot_world t d w = w\<lparr>store := \<lambda>i. if i = 2 then Some (TmpfsObj (tmpfs_new 2)) else if i = 3 then Some (TmpfsObj t)
     else if i = 4 then map_option DevfsObj d else None\<rparr>"

abbreviation vfs_root_only :: vfs where
  "vfs_root_only \<equiv> \<lparr>root_file_system = 2, mounts = [\<lparr>mount_point = root_node 2, subtree = 3\<rparr>]\<rparr>"

abbreviation vfs_booted :: vfs where
  "vfs_booted \<equiv> \<lparr>root_file_system = 2, mounts = [\<lparr>mount_point = root_node 2, subtree = 3\<rparr>, \<lparr>mount_point = dnode 1, subtree = 4\<rparr>]\<rparr>"

lemma tree_roots [simp]:
  "tmp_root tree1 = dnode 0" "tmp_root tree2 = dnode 0" "tmp_root tree3 = dnode 0" "tmp_root (tree4 bytes) = dnode 0"
  by (simp_all add: tree1_def tree2_def tree3_def tree4_def root_tmpfs_def)

lemma boot_store [simp]:
  "store (boot_world t d w) 2 = Some (TmpfsObj (tmpfs_new 2))" "store (boot_world t d w) 3 = Some (TmpfsObj t)"
  "store (boot_world t d w) 4 = map_option DevfsObj d" "device_state (boot_world t d w) = device_state w"
  by (simp_all add: boot_world_def)

lemma boot_put [simp]:
  "put_fs 3 (TmpfsObj t') (boot_world t d w) = boot_world t' d w"
  "put_fs 4 (DevfsObj d') (boot_world t d w) = boot_world t (Some d') w"
  by (cases w; simp add: boot_world_def put_fs_def fun_eq_iff)+

lemmas walk_eval = fm_walk_def vfs_root_def arc_root_def resolve_subtree_def returned_def subtree_loop.simps root_node_def
  vfs_opendir_def fs_opendir_def tmpfs_opendir_def devfs_opendir_def walk_scan.simps dir_readdir_def fs_readdir_def
  tmpfs_readdir_def devfs_readdir_def directory_new_def advance_def node_eq_def tmpfs_new_def Let_def

lemma tree_steps:
  "tmpfs_mkdir (dnode 0) ''dev'' tree1 = (Ok (), tree2)" "tmpfs_mkdir (dnode 0) ''bin'' tree2 = (Ok (), tree3)"
  "tmpfs_mknod (dnode 2) ''cli'' tree3 = (Ok (), tree4 [])"
  by (simp_all add: tmpfs_mkdir_def tmpfs_mknod_def tree1_def tree2_def tree3_def tree4_def root_tmpfs_def fetch_add1_def Let_def fun_eq_iff)

lemma tree_new: "tmpfs_new 3 = tree1"
  by (simp add: tmpfs_new_def tree1_def root_tmpfs_def Let_def)

lemma step1:
  assumes "store w = Map.empty"
  shows "vfs_new 2 w = (\<lparr>root_file_system = 2, mounts = []\<rparr>, put_fs 2 (TmpfsObj (tmpfs_new 2)) w)"
    "put_fs 3 (TmpfsObj (tmpfs_new 3)) (put_fs 2 (TmpfsObj (tmpfs_new 2)) w) = boot_world tree1 None w"
    "mount_at ''/'' 3 (\<lparr>root_file_system = 2, mounts = []\<rparr>, boot_world t None w) = (Ok (), (vfs_root_only, boot_world t None w))"
proof -
  show "vfs_new 2 w = (\<lparr>root_file_system = 2, mounts = []\<rparr>, put_fs 2 (TmpfsObj (tmpfs_new 2)) w)" by (simp add: vfs_new_def)
  show "put_fs 3 (TmpfsObj (tmpfs_new 3)) (put_fs 2 (TmpfsObj (tmpfs_new 2)) w) = boot_world tree1 None w"
    using assms by (cases w) (simp add: tree_new put_fs_def boot_world_def fun_eq_iff)
  show "mount_at ''/'' 3 (\<lparr>root_file_system = 2, mounts = []\<rparr>, boot_world t None w) = (Ok (), (vfs_root_only, boot_world t None w))"
    by (simp add: mount_at_def paths fm_mount_def walk_eval vfs_mount_def tmpfs_new_def)
qed

lemma step2: "mkdir_at ''/dev'' (vfs_root_only, boot_world tree1 None w) = (Ok (), (vfs_root_only, boot_world tree2 None w))"
  by (simp add: tree_steps mkdir_at_def paths fm_mkdir_def on_parent_def path_parent_def last_token_def walk_eval vfs_mkdir_def
    checked_call_def fs_mkdir_def call_tmpfs_def consts_defs)

lemma step3:
  "mount_at ''/dev'' 4 (vfs_root_only, boot_world tree2 (Some d) w) = (Ok (), (vfs_booted, boot_world tree2 (Some d) w))"
  by (simp add: mount_at_def paths fm_mount_def walk_eval vfs_mount_def tree2_def root_tmpfs_def tmpfs_new_def consts_defs)

lemma step4: "register_at 4 ''ttyS0'' serial (v, boot_world t (Some (devfs_new 4)) w) = (Ok (), (v, boot_world t (Some (dev_tree serial)) w))"
  by (simp add: register_at_def dev_tree_def register_character_device_def devfs_new_def fetch_add1_def Let_def)

lemma step5: "mkdir_at ''/bin'' (vfs_booted, boot_world tree2 d w) = (Ok (), (vfs_booted, boot_world tree3 d w))"
  by (simp add: tree_steps mkdir_at_def paths fm_mkdir_def on_parent_def path_parent_def last_token_def walk_eval vfs_mkdir_def
    checked_call_def fs_mkdir_def call_tmpfs_def consts_defs)

lemma step6: "mknod_at ''/bin/cli'' (vfs_booted, boot_world tree3 d w) = (Ok (), (vfs_booted, boot_world (tree4 []) d w))"
proof -
  have "fm_walk vfs_booted (boot_world tree3 d w) \<lparr>path_tokens = [Literal ''bin''], path_start = Root\<rparr> = Ok (dnode 2)"
    by (simp add: walk_eval tree3_def root_tmpfs_def tmpfs_new_def consts_defs)
  then show ?thesis
    by (simp add: tree_steps mknod_at_def paths fm_mknod_def on_parent_def path_parent_def last_token_def vfs_mknod_def
      checked_call_def resolve_subtree_def returned_def subtree_loop.simps root_node_def node_eq_def fs_mknod_def call_tmpfs_def consts_defs)
qed

lemma cli_open: "fm_open vfs_booted (boot_world (tree4 bytes) d w) \<lparr>path_tokens = [Literal ''bin'', Literal ''cli''], path_start = Root\<rparr> = Ok (file_new cli_node)"
  by (simp add: fm_open_def walk_eval tree4_def root_tmpfs_def tmpfs_new_def consts_defs vfs_open_def fs_open_def tmpfs_open_def)

lemma tty_open: "fm_open vfs_booted (boot_world (tree4 bytes) (Some (dev_tree serial)) w)
    \<lparr>path_tokens = [Literal ''dev'', Literal ''ttyS0''], path_start = Root\<rparr> = Ok (file_new tty_node)"
  by (simp add: fm_open_def walk_eval tree4_def root_tmpfs_def tmpfs_new_def consts_defs vfs_open_def fs_open_def devfs_open_def
    dev_tree_def register_character_device_def devfs_new_def fetch_add1_def Let_def)

lemma step7:
  assumes "vec_ok bytes"
  shows "write_at ''/bin/cli'' bytes (vfs_booted, boot_world (tree4 []) d w) = (Ok (vec_len bytes), (vfs_booted, boot_world (tree4 bytes) d w))"
proof -
  have "tmpfs_write (file_new cli_node) 0 bytes (tree4 []) = (Ok (vec_len bytes), tree4 bytes)"
  proof -
    have n: "unat (vec_len bytes) = length bytes" "length bytes < 2 ^ 63" using assms by (simp_all add: unat_vec_len vec_ok_def)
    have f: "files (tree4 []) 3 = Some []" "(tree4 [])\<lparr>files := (files (tree4 []))(3 \<mapsto> bytes)\<rparr> = tree4 bytes"
      by (simp_all add: tree4_def root_tmpfs_def)
    have "vec_len bytes = 0 \<Longrightarrow> bytes = []" using n by (auto simp: word_unat_eq_iff)
    then show ?thesis
      using n f by (auto simp: tmpfs_write_def file_new_def resize_with_def vec_len_def word_less_nat_alt word_le_nat_alt word_unat_eq_iff Let_def)
  qed
  then show ?thesis
    by (simp add: write_at_def paths cli_open file_write_def fs_write_def) (simp add: file_new_def)
qed

section \<open>The state is well-formed\<close>

lemma tree4_wf:
  assumes "vec_ok bytes"
  shows "tmpfs_wf 3 (tree4 bytes)"
proof -
  have i: "ids_left tree1" "ids_left tree2" "ids_left tree3"
    by (simp_all add: ids_left_def tree1_def tree2_def tree3_def root_tmpfs_def)
  have "tmpfs_wf 3 tree1" using tmpfs_wf_new [of 3] by (simp add: tree_new)
  then have "tmpfs_wf 3 tree2"
    using tmpfs_mkdir_wf [of 3 tree1 "dnode 0" "''dev''"] i(1) by (simp add: tree_steps consts_defs)
  then have "tmpfs_wf 3 tree3"
    using tmpfs_mkdir_wf [of 3 tree2 "dnode 0" "''bin''"] i(2) by (simp add: tree_steps consts_defs)
  then have w: "tmpfs_wf 3 (tree4 [])"
    using tmpfs_mknod_wf [of 3 tree3 "dnode 2" "''cli''"] i(3) by (simp add: tree_steps consts_defs)
  have "tmpfs_wf 3 ((tree4 [])\<lparr>files := (files (tree4 []))(3 \<mapsto> bytes)\<rparr>)"
    by (rule tmpfs_set_file_wf [OF w _ assms]) (simp add: tree4_def root_tmpfs_def)
  then show ?thesis by (simp add: tree4_def root_tmpfs_def)
qed

lemma dev_tree_wf: "devfs_wf 4 (dev_tree serial)"
  unfolding dev_tree_def by (rule register_wf(2) [OF devfs_wf_new]) (simp_all add: dev_ids_left_def devfs_new_def consts_defs Let_def)

lemma booted_mounts_wf: "mounts_wf (mounts vfs_booted)"
proof -
  let ?ms = "mounts vfs_booted"
  have n: "mounted_on ?ms (root_node 3) = None" "mounted_on ?ms (root_node 4) = None"
    by (simp_all add: mounted_on_def node_eq_def root_node_def)
  have "\<exists>x. top_of ?ms n x" for n
  proof (cases "mounted_on ?ms n")
    case (Some r)
    then have "r = root_node 3 \<or> r = root_node 4" by (auto simp: mounted_on_def split: if_splits)
    then show ?thesis using n Some top_here top_up by metis
  qed (use top_here in blast)
  moreover have "mounts_sound ?ms" by (simp add: mounts_sound_def node_key_def root_node_def)
  ultimately show ?thesis using tops_acyclic by (simp add: mounts_wf_def)
qed

lemma booted_wf:
  assumes "vec_ok bytes"
  shows "vfs_wf vfs_booted (boot_world (tree4 bytes) (Some (dev_tree serial)) w)"
    and "world_ids_left (boot_world (tree4 bytes) (Some (dev_tree serial)) w)"
proof -
  let ?w = "boot_world (tree4 bytes) (Some (dev_tree serial)) w"
  have "world_wf ?w"
    using tree4_wf [OF assms] dev_tree_wf tmpfs_wf_new by (auto simp: world_wf_def boot_world_def)
  moreover have "dir_entries ?w (root_node 2) \<noteq> None" "dir_entries ?w (dnode 1) \<noteq> None"
    by (simp_all add: dir_entries_def root_node_def tmpfs_new_def tree4_def root_tmpfs_def Let_def)
  ultimately show "vfs_wf vfs_booted ?w" using booted_mounts_wf
    by (simp add: vfs_wf_def vfs_sound_def mounts_wf_def mount_points_exist_def domIff)
  show "world_ids_left ?w"
    by (auto simp: world_ids_left_def boot_world_def ids_left_def dev_ids_left_def tmpfs_new_def tree4_def root_tmpfs_def
      dev_tree_def register_character_device_def devfs_new_def fetch_add1_def Let_def split: if_splits)
qed

text \<open>What the later parts of the start-up code rely on.\<close>

lemma boot_files_ok:
  assumes "store w = Map.empty" and "vec_ok cli_bytes"
  shows "boot_files serial cli_bytes w
    = (Ok (vec_len cli_bytes), (vfs_booted, boot_world (tree4 cli_bytes) (Some (dev_tree serial)) w))"
  using step1 [OF assms(1)] step7 [OF assms(2)] by (simp add: boot_files_def step2 step3 step4 step5 step6)

lemma tree4_bytes: "file_bytes (boot_world (tree4 bytes) d w) (file_new cli_node) = Some bytes"
  by (simp add: file_bytes_def file_new_def tree4_def root_tmpfs_def)

lemma tty_write:
  "fs_write (file_new tty_node) pos buf (boot_world t (Some (dev_tree serial)) w)
    = (case cd_write serial buf (device_state w) of (r, dev) \<Rightarrow> (r, (boot_world t (Some (dev_tree serial)) w)\<lparr>device_state := dev\<rparr>))"
  by (simp add: fs_write_def file_new_def devfs_write_def dev_tree_def register_character_device_def devfs_new_def fetch_add1_def Let_def
    split: prod.split)

text \<open>
  C25. The start-up code never panics over its file systems: with no file system yet, and for every program that fits in
  memory, all its steps succeed. Afterwards the virtual file system is well-formed, the path \<^verbatim>\<open>/bin/cli\<close> opens a file
  that holds exactly the program, and the path \<^verbatim>\<open>/dev/ttyS0\<close> opens a file whose writes are writes to the serial port.
\<close>

theorem boot_files_spec:
  assumes "store w = Map.empty" and "vec_ok cli_bytes"
  shows "\<exists>v w' cli tty f g. boot_files serial cli_bytes w = (Ok (vec_len cli_bytes), (v, w')) \<and> vfs_wf v w'
    \<and> path_absolute ''/bin/cli'' = Some cli \<and> fm_open v w' cli = Ok f \<and> file_bytes w' f = Some cli_bytes
    \<and> path_absolute ''/dev/ttyS0'' = Some tty \<and> fm_open v w' tty = Ok g
    \<and> (\<forall>buf. (fst (file_write buf (g, w')), device_state (snd (snd (file_write buf (g, w'))))) = cd_write serial buf (device_state w))"
proof -
  let ?w = "boot_world (tree4 cli_bytes) (Some (dev_tree serial)) w"
  have "file_bytes ?w (file_new cli_node) = Some cli_bytes" by (rule tree4_bytes)
  moreover have "(fst (file_write buf (file_new tty_node, ?w)), device_state (snd (snd (file_write buf (file_new tty_node, ?w)))))
      = cd_write serial buf (device_state w)" for buf
    by (simp add: file_write_def tty_write split: prod.split outcome.split)
  ultimately show ?thesis
    using boot_files_ok [OF assms] booted_wf(1) [OF assms(2)] paths(4,5) cli_open tty_open by blast
qed

theorem boot_files_spec_witness:
  "\<exists>v w' cli f. boot_files \<lparr>cd_read = (\<lambda>n d. (Ok [], d)), cd_write = (\<lambda>b d. (Ok (vec_len b), d))\<rparr> [1, 2, 3] world0 = (Ok 3, (v, w'))
     \<and> path_absolute ''/bin/cli'' = Some cli \<and> fm_open v w' cli = Ok f \<and> file_bytes w' f = Some [1, 2, 3]"
proof -
  let ?serial = "\<lparr>cd_read = (\<lambda>n d. (Ok [], d)), cd_write = (\<lambda>b d. (Ok (vec_len b), d))\<rparr> :: unit char_device"
  have e: "store world0 = Map.empty" "vec_ok [1 :: u8, 2, 3]" "vec_len [1 :: u8, 2, 3] = 3" by (simp_all add: world0_def vec_ok_def vec_len_def)
  show ?thesis using boot_files_spec [OF e(1,2), of ?serial] unfolding e(3) by blast
qed

end
