(* ===== verification/Cpu.thy ===== *)
theory Cpu
  imports Prelude
begin

unbundle bit_operations_syntax

text \<open>
  The processor core as the kernel uses it (\<^verbatim>\<open>cpu/aarch64\<close>): the registers that a context switch
  saves (\<^verbatim>\<open>cpu_context.rs\<close>, \<^verbatim>\<open>cpu_context.s\<close>), the number of the core (\<^verbatim>\<open>identification.rs\<close>) and the
  interrupt mask (\<^verbatim>\<open>interrupt_mask.rs\<close>).
\<close>

section \<open>Registers saved by a context switch\<close>

record registers =
  x19 :: u64
  x20 :: u64
  x21 :: u64
  x22 :: u64
  x23 :: u64
  x24 :: u64
  x25 :: u64
  x26 :: u64
  x27 :: u64
  x28 :: u64
  fp :: u64
  lr :: u64
  sp :: u64

definition registers_new :: registers where
  "registers_new = \<lparr>x19 = 0, x20 = 0, x21 = 0, x22 = 0, x23 = 0, x24 = 0, x25 = 0, x26 = 0, x27 = 0, x28 = 0,
     fp = 0, lr = 0, sp = 0\<rparr>"

text \<open>A \<^verbatim>\<open>CpuContext\<close> is one cell that holds its registers.\<close>

definition cpu_context_new :: registers where
  "cpu_context_new = registers_new"

definition set_stack_pointer :: "u64 \<Rightarrow> registers \<Rightarrow> registers" where
  "set_stack_pointer v r = r\<lparr>sp := v\<rparr>"

definition set_link_register :: "u64 \<Rightarrow> u64 \<Rightarrow> u64 \<Rightarrow> registers \<Rightarrow> registers" where
  "set_link_register vlr vx19 vx20 r = r\<lparr>lr := vlr, x19 := vx19, x20 := vx20\<rparr>"

section \<open>A core\<close>

text \<open>
  \<open>regs\<close> are the registers of the core that the code keeps across calls, \<open>daif\<close> its interrupt
  mask, \<open>ttbr0_el1\<close> the table base of the lower half of the address space.
\<close>

record cpu =
  mpidr_el1 :: u64
  daif :: u64
  ttbr0_el1 :: u64
  regs :: registers

definition AFFINITY0_MASK :: u64 where
  [consts_defs]: "AFFINITY0_MASK = 0xFF"

definition current_core :: "'z cpu_scheme \<Rightarrow> usize" where
  "current_core c = mpidr_el1 c AND AFFINITY0_MASK"

text \<open>\<^verbatim>\<open>daifclr\<close> and \<^verbatim>\<open>daifset\<close> with operand \<^verbatim>\<open>0b0011\<close> act on the bits I and F of \<^verbatim>\<open>DAIF\<close>, bits 7 and 6.\<close>

definition DAIF_IF :: u64 where
  [consts_defs]: "DAIF_IF = 0xC0"

definition enable_interrupts :: "'z cpu_scheme \<Rightarrow> 'z cpu_scheme" where
  "enable_interrupts c = c\<lparr>daif := daif c AND NOT DAIF_IF\<rparr>"

definition disable_interrupts :: "'z cpu_scheme \<Rightarrow> u64 \<times> 'z cpu_scheme" where
  "disable_interrupts c = (daif c, c\<lparr>daif := daif c OR DAIF_IF\<rparr>)"

definition restore_interrupts :: "u64 \<Rightarrow> 'z cpu_scheme \<Rightarrow> 'z cpu_scheme" where
  "restore_interrupts v c = c\<lparr>daif := v\<rparr>"

definition critical :: "('z cpu_scheme \<times> 's \<Rightarrow> 'a res \<times> ('z cpu_scheme \<times> 's)) \<Rightarrow> 'z cpu_scheme \<times> 's \<Rightarrow>
    'a res \<times> ('z cpu_scheme \<times> 's)" where
  "critical f st =
     (case disable_interrupts (fst st) of (saved, c) \<Rightarrow>
        and_then (f (c, snd st)) (\<lambda>result st. (Ok result, (restore_interrupts saved (fst st), snd st))))"

definition interrupts_enabled :: "'z cpu_scheme \<Rightarrow> bool" where
  "interrupts_enabled c \<longleftrightarrow> daif c AND DAIF_IF = 0"

lemma enable_interrupts_enabled [simp]: "interrupts_enabled (enable_interrupts c)"
  by (simp add: interrupts_enabled_def enable_interrupts_def and.assoc)

lemma disable_interrupts_disabled: "\<not> interrupts_enabled (snd (disable_interrupts c))"
proof -
  have "(daif c OR DAIF_IF) AND DAIF_IF = DAIF_IF"
    by (rule bit_word_eqI) (auto simp: bit_simps)
  then show ?thesis by (simp add: interrupts_enabled_def disable_interrupts_def DAIF_IF_def)
qed

text \<open>A critical section runs its body with interrupts masked and leaves the mask as it was.\<close>

lemma critical_ok:
  assumes "f (snd (disable_interrupts c), s) = (Ok r, (c', s'))"
  shows "critical f (c, s) = (Ok r, (c'\<lparr>daif := daif c\<rparr>, s'))"
  using assms by (simp add: critical_def disable_interrupts_def restore_interrupts_def)

section \<open>Switching registers\<close>

text \<open>
  \<^verbatim>\<open>cpu_context_switch(prev, next, ...)\<close> up to its branch to \<^verbatim>\<open>after_func\<close>: the registers of the core
  are stored in \<open>prev\<close>, then loaded from \<open>next\<close>. Both are cells of the same store, and may be the
  same one.
\<close>

definition cpu_context_switch :: "('s \<Rightarrow> registers) \<Rightarrow> (registers \<Rightarrow> 's \<Rightarrow> 's) \<Rightarrow> 'z cpu_scheme \<times> 's \<Rightarrow> 'z cpu_scheme \<times> 's" where
  "cpu_context_switch get_next put_prev st =
     (let s = put_prev (regs (fst st)) (snd st)
      in ((fst st)\<lparr>regs := get_next s\<rparr>, s))"

text \<open>
  \<^verbatim>\<open>cpu_context_entry\<close>, where a new task starts: the function in \<open>x19\<close> is called with \<open>x20\<close> as its
  first argument.
\<close>

definition cpu_context_entry_call :: "registers \<Rightarrow> u64 \<times> u64" where
  "cpu_context_entry_call r = (x19 r, x20 r)"

end
