(* ===== verification/Sync.thy ===== *)
theory Sync
  imports Prelude
begin

text \<open>
  The synchronisation primitives (\<^verbatim>\<open>sync/lock.rs\<close>, \<^verbatim>\<open>sync/mutex.rs\<close>, \<^verbatim>\<open>sync/once.rs\<close>,
  \<^verbatim>\<open>sync/once_lock.rs\<close>). The spin lock and the mutex are a step relation in which any number
  of threads interleave at the level of single atomic operations and single accesses to the
  protected data; the result is what the other theories use when they treat a call under a
  mutex as one step. The write-once cell is modelled call by call, since each of its calls
  runs under its lock.
\<close>

section \<open>The spin lock\<close>

text \<open>\<^verbatim>\<open>compare_exchange(false, true)\<close>: whether it succeeded, and the new value.\<close>

definition compare_exchange :: "bool \<Rightarrow> bool \<times> bool" where
  "compare_exchange locked = (if locked then (False, locked) else (True, True))"

definition lock_new :: bool where
  "lock_new = False"

definition unlock :: "bool \<Rightarrow> bool" where
  "unlock locked = False"

text \<open>
  \<^verbatim>\<open>Lock::lock\<close> as one call: when the lock is held and nothing releases it, the loop never ends.
\<close>

definition lock_loop :: "bool \<Rightarrow> unit res \<times> bool" where
  "lock_loop locked = (case compare_exchange locked of (True, l) \<Rightarrow> (Ok (), l) | (False, l) \<Rightarrow> (Hang, l))"

text \<open>
  A thread that updates the data with a function: it asks for the lock and spins, holds the guard, has read
  the data through it, has written the data through it, and drops the guard.
\<close>

datatype 'a thread = Outside | Spinning "'a \<Rightarrow> 'a" | Holding "'a \<Rightarrow> 'a" | Loaded "'a \<Rightarrow> 'a" 'a | Stored

record ('p, 'a) mutex =
  mutex_locked :: bool
  mutex_data :: 'a
  threads :: "'p \<Rightarrow> 'a thread"
  updates :: "('a \<Rightarrow> 'a) list"

text \<open>\<open>updates\<close> records the functions that have been stored, in order; the code has no such field.\<close>

definition mutex_new :: "'a \<Rightarrow> ('p, 'a) mutex" where
  "mutex_new x = \<lparr>mutex_locked = lock_new, mutex_data = x, threads = (\<lambda>_. Outside), updates = []\<rparr>"

definition set_thread :: "'p \<Rightarrow> 'a thread \<Rightarrow> ('p, 'a) mutex \<Rightarrow> ('p, 'a) mutex" where
  "set_thread p x m = m\<lparr>threads := (threads m)(p := x)\<rparr>"

inductive mutex_step :: "('p, 'a) mutex \<Rightarrow> ('p, 'a) mutex \<Rightarrow> bool" where
  request: "threads m p = Outside \<Longrightarrow> mutex_step m (set_thread p (Spinning f) m)"
| spin: "threads m p = Spinning f \<Longrightarrow> compare_exchange (mutex_locked m) = (False, l) \<Longrightarrow>
    mutex_step m (m\<lparr>mutex_locked := l\<rparr>)"
| acquire: "threads m p = Spinning f \<Longrightarrow> compare_exchange (mutex_locked m) = (True, l) \<Longrightarrow>
    mutex_step m (set_thread p (Holding f) (m\<lparr>mutex_locked := l\<rparr>))"
| load: "threads m p = Holding f \<Longrightarrow> mutex_step m (set_thread p (Loaded f (mutex_data m)) m)"
| store: "threads m p = Loaded f v \<Longrightarrow>
    mutex_step m (set_thread p Stored (m\<lparr>mutex_data := f v, updates := updates m @ [f]\<rparr>))"
| release: "threads m p = Stored \<Longrightarrow>
    mutex_step m (set_thread p Outside (m\<lparr>mutex_locked := unlock (mutex_locked m)\<rparr>))"

fun in_section :: "'a thread \<Rightarrow> bool" where
  "in_section (Holding _) = True"
| "in_section (Loaded _ _) = True"
| "in_section Stored = True"
| "in_section _ = False"

definition mutex_inv :: "'a \<Rightarrow> ('p, 'a) mutex \<Rightarrow> bool" where
  "mutex_inv x m \<longleftrightarrow>
     (mutex_locked m \<longleftrightarrow> (\<exists>p. in_section (threads m p)))
     \<and> (\<forall>p q. in_section (threads m p) \<longrightarrow> in_section (threads m q) \<longrightarrow> p = q)
     \<and> (\<forall>p f v. threads m p = Loaded f v \<longrightarrow> v = mutex_data m)
     \<and> mutex_data m = fold (\<lambda>f. f) (updates m) x"

lemma mutex_inv_new: "mutex_inv x (mutex_new x)"
  by (simp add: mutex_inv_def mutex_new_def lock_new_def)

lemma compare_exchange_simps [simp]:
  "compare_exchange l = (False, l') \<longleftrightarrow> l \<and> l'"
  "compare_exchange l = (True, l') \<longleftrightarrow> \<not> l \<and> l'"
  by (auto simp: compare_exchange_def)

lemma mutex_inv_same_sections:
  assumes "mutex_inv x m" and "\<And>q. in_section (threads m' q) = in_section (threads m q)"
    and "mutex_locked m' = mutex_locked m" and "\<And>q g v. threads m' q = Loaded g v \<Longrightarrow> v = mutex_data m'"
    and "mutex_data m' = fold (\<lambda>f. f) (updates m') x"
  shows "mutex_inv x m'"
  using assms unfolding mutex_inv_def by simp

lemma mutex_inv_step:
  assumes "mutex_step m m'" and "mutex_inv x m"
  shows "mutex_inv x m'"
  using assms
proof (induction rule: mutex_step.induct)
  case (request m p f)
  then have "in_section (threads (set_thread p (Spinning f) m) q) = in_section (threads m q)" for q
    by (auto simp: set_thread_def)
  then show ?case using request by (auto simp: mutex_inv_def set_thread_def split: if_splits)
next
  case (spin m p f l)
  then have "m\<lparr>mutex_locked := l\<rparr> = m" by simp
  then show ?case using spin.prems by simp
next
  case (acquire m p f l)
  then have "\<not> in_section (threads m q)" for q by (auto simp: mutex_inv_def)
  then show ?case using acquire by (auto simp: mutex_inv_def set_thread_def split: if_splits)
next
  case (load m p f)
  then show ?case
    by (intro mutex_inv_same_sections [OF load.prems]) (auto simp: mutex_inv_def set_thread_def split: if_splits)
next
  case (store m p f v)
  then have p: "in_section (threads m p)" and v: "v = mutex_data m" by (auto simp: mutex_inv_def)
  then have "threads m q = Loaded g u \<Longrightarrow> q = p" for q g u using store.prems by (force simp: mutex_inv_def)
  then have nl: "threads (set_thread p Stored m) q \<noteq> Loaded g u" for q g u by (auto simp: set_thread_def)
  have "in_section (threads (set_thread p Stored m) q) = in_section (threads m q)" for q
    using p by (simp add: set_thread_def)
  then show ?case using store nl v by (simp add: mutex_inv_def set_thread_def)
next
  case (release m p)
  then have p: "in_section (threads m p)" by simp
  then have "in_section (threads m q) \<Longrightarrow> q = p" for q using release.prems by (auto simp: mutex_inv_def)
  then have "\<not> in_section (threads (set_thread p Outside m) q)" for q by (auto simp: set_thread_def)
  moreover have "threads (set_thread p Outside m) q = Loaded f v \<Longrightarrow> v = mutex_data m" for q f v
    using release.prems by (auto simp: set_thread_def mutex_inv_def split: if_splits)
  ultimately show ?case using release by (auto simp: mutex_inv_def set_thread_def unlock_def)
qed

lemma mutex_reachable:
  assumes "mutex_step\<^sup>*\<^sup>* (mutex_new x) m"
  shows "mutex_inv x m"
  using assms by (induction rule: rtranclp_induct) (auto intro: mutex_inv_new mutex_inv_step)

text \<open>
  C27. A mutex excludes, and makes an update one step. However any number of threads interleave, at
  most one is between acquiring and releasing the lock, the lock is taken exactly then, and
  the data is always the result of applying the stored updates one after the other to the
  initial value: no update is lost although reading and writing are separate steps. While some
  thread wants the lock or holds it, some thread can take a step that makes progress.
\<close>

theorem mutex_atomic:
  assumes "mutex_step\<^sup>*\<^sup>* (mutex_new x) m"
  shows "(\<forall>p q. in_section (threads m p) \<longrightarrow> in_section (threads m q) \<longrightarrow> p = q)
    \<and> (mutex_locked m \<longleftrightarrow> (\<exists>p. in_section (threads m p)))
    \<and> mutex_data m = fold (\<lambda>f. f) (updates m) x
    \<and> ((\<exists>p. threads m p \<noteq> Outside) \<longrightarrow> (\<exists>p m'. mutex_step m m' \<and> threads m p \<noteq> Outside \<and> threads m' p \<noteq> threads m p))"
proof -
  have inv: "mutex_inv x m" using mutex_reachable [OF assms] .
  have progress: "\<exists>p m'. mutex_step m m' \<and> threads m p \<noteq> Outside \<and> threads m' p \<noteq> threads m p"
    if busy: "threads m p \<noteq> Outside" for p
  proof (cases "mutex_locked m")
    case True
    then obtain q where q: "in_section (threads m q)" using inv by (auto simp: mutex_inv_def)
    show ?thesis
    proof (cases "threads m q")
      case (Holding f)
      then show ?thesis using load [OF Holding] by (intro exI [of _ q]) (fastforce simp: set_thread_def)
    next
      case (Loaded f v)
      then show ?thesis using store [OF Loaded] by (intro exI [of _ q]) (fastforce simp: set_thread_def)
    next
      case Stored
      then show ?thesis using release [OF Stored] by (intro exI [of _ q]) (fastforce simp: set_thread_def)
    qed (use q in auto)
  next
    case False
    then have "\<not> in_section (threads m p)" using inv by (auto simp: mutex_inv_def)
    then obtain f where f: "threads m p = Spinning f" using busy by (cases "threads m p") auto
    then show ?thesis using acquire [OF f, of True] False by (intro exI [of _ p]) (fastforce simp: set_thread_def)
  qed
  then show ?thesis using inv by (auto simp: mutex_inv_def)
qed

theorem mutex_atomic_witness:
  "\<exists>m :: (nat, nat) mutex. mutex_step\<^sup>*\<^sup>* (mutex_new 5) m \<and> threads m 0 = Spinning Suc \<and> mutex_data m = 5"
proof -
  let ?m = "set_thread 0 (Spinning Suc) (mutex_new 5) :: (nat, nat) mutex"
  have s: "mutex_step\<^sup>*\<^sup>* (mutex_new 5) ?m" using request [of "mutex_new 5" 0 Suc] by (auto simp: mutex_new_def)
  then show ?thesis
    using mutex_atomic [OF s] by (intro exI [of _ ?m]) (simp add: set_thread_def mutex_new_def)
qed

section \<open>One-time initialisation\<close>

record once =
  completed :: bool

definition once_new :: once where
  "once_new = \<lparr>completed = False\<rparr>"

definition call_once :: "('s \<Rightarrow> unit res \<times> 's) \<Rightarrow> once \<times> 's \<Rightarrow> unit res \<times> (once \<times> 's)" where
  "call_once f st = (case st of (once, s) \<Rightarrow>
     if \<not> completed once
     then (case f s of (Ok _, s') \<Rightarrow> (Ok (), (once\<lparr>completed := True\<rparr>, s')) | (r, s') \<Rightarrow> (r, (once, s')))
     else (Ok (), st))"

definition is_completed :: "once \<Rightarrow> bool" where
  "is_completed once = completed once"

text \<open>The cell: \<open>None\<close> is uninitialised memory, and reading it as initialised is a fault.\<close>

record 'a once_lock =
  ol_once :: once
  ol_data :: "'a option"

definition once_lock_new :: "'a once_lock" where
  "once_lock_new = \<lparr>ol_once = once_new, ol_data = None\<rparr>"

definition once_lock_get :: "'a once_lock \<Rightarrow> 'a option res" where
  "once_lock_get c =
     (if is_completed (ol_once c) then bind_res (unwrap_opt (ol_data c)) (\<lambda>x. Ok (Some x)) else Ok None)"

text \<open>The closure may change some state of its own, \<open>'s\<close>, and may panic.\<close>

definition get_or_init :: "('s \<Rightarrow> 'a res \<times> 's) \<Rightarrow> 'a once_lock \<times> 's \<Rightarrow> 'a res \<times> ('a once_lock \<times> 's)" where
  "get_or_init f st = (case st of (c, s) \<Rightarrow>
     (case call_once (\<lambda>(d, s). case f s of (Ok x, s') \<Rightarrow> (Ok (), (Some x, s'))
                                  | (Err e, s') \<Rightarrow> (Err e, (d, s')) | (Panic, s') \<Rightarrow> (Panic, (d, s')) | (Hang, s') \<Rightarrow> (Hang, (d, s')))
            (ol_once c, (ol_data c, s)) of
        (Ok _, (o', (d', s'))) \<Rightarrow> (unwrap_opt d', (\<lparr>ol_once = o', ol_data = d'\<rparr>, s'))
      | (Err e, (o', (d', s'))) \<Rightarrow> (Err e, (\<lparr>ol_once = o', ol_data = d'\<rparr>, s'))
      | (Panic, (o', (d', s'))) \<Rightarrow> (Panic, (\<lparr>ol_once = o', ol_data = d'\<rparr>, s'))
      | (Hang, (o', (d', s'))) \<Rightarrow> (Hang, (\<lparr>ol_once = o', ol_data = d'\<rparr>, s'))))"

text \<open>\<^verbatim>\<open>set\<close> hands its value over through an option that the closure takes and unwraps.\<close>

definition once_lock_set :: "'a \<Rightarrow> 'a once_lock \<Rightarrow> (unit, 'a) outcome \<times> 'a once_lock" where
  "once_lock_set value c =
     (case get_or_init (\<lambda>v. (unwrap_opt v, None)) (c, Some value) of
        (Ok _, (c', None)) \<Rightarrow> (Ok (), c')
      | (Ok _, (c', Some v)) \<Rightarrow> (Err v, c')
      | (Hang, (c', _)) \<Rightarrow> (Hang, c')
      | (_, (c', _)) \<Rightarrow> (Panic, c'))"

definition once_lock_ok :: "'a once_lock \<Rightarrow> bool" where
  "once_lock_ok c \<longleftrightarrow> (completed (ol_once c) \<longleftrightarrow> ol_data c \<noteq> None)"

fun set_all :: "'a list \<Rightarrow> 'a once_lock \<Rightarrow> (unit, 'a) outcome list \<times> 'a once_lock" where
  "set_all [] c = ([], c)"
| "set_all (x # xs) c =
     (case once_lock_set x c of (r, c') \<Rightarrow> case set_all xs c' of (rs, c'') \<Rightarrow> (r # rs, c''))"

lemma set_initialised:
  assumes "once_lock_ok c" and "ol_data c = Some y"
  shows "once_lock_set x c = (Err x, c)"
  using assms by (simp add: once_lock_set_def get_or_init_def call_once_def once_lock_ok_def)

lemma set_all_initialised:
  assumes "once_lock_ok c" and "ol_data c = Some y"
  shows "set_all xs c = (map Err xs, c)"
  by (induction xs) (simp_all add: set_initialised [OF assms])

text \<open>
  A write-once cell keeps the first value. Of any sequence of writes to a new cell the first
  succeeds, every later one fails and gets its own value back, and reading the cell returns
  the first value; reading a new cell returns nothing. Nothing panics.
\<close>

lemma once_lock_first:
  "once_lock_get (once_lock_new :: 'a once_lock) = Ok None
   \<and> fst (set_all (x # xs) once_lock_new) = Ok () # map Err xs
   \<and> once_lock_get (snd (set_all (x # xs) once_lock_new)) = Ok (Some (x :: 'a))"
proof -
  have first: "once_lock_set x once_lock_new = (Ok (), \<lparr>ol_once = \<lparr>completed = True\<rparr>, ol_data = Some x\<rparr>)"
    by (simp add: once_lock_set_def get_or_init_def call_once_def once_lock_new_def once_new_def)
  have rest: "set_all xs \<lparr>ol_once = \<lparr>completed = True\<rparr>, ol_data = Some x\<rparr>
      = (map Err xs, \<lparr>ol_once = \<lparr>completed = True\<rparr>, ol_data = Some x\<rparr>)"
    by (rule set_all_initialised) (simp_all add: once_lock_ok_def)
  show ?thesis
    using first rest by (simp add: once_lock_get_def is_completed_def once_lock_new_def once_new_def)
qed

end
