(* ===== verification/Drivers.thy ===== *)
theory Drivers
  imports Devfs Sync
begin

unbundle bit_operations_syntax

text \<open>
  The drivers: the timer (\<^verbatim>\<open>device/driver/armv8_timer.rs\<close>, with the traits of \<^verbatim>\<open>device/timer.rs\<close> and
  \<^verbatim>\<open>device/monotonic.rs\<close>), the interrupt controller (\<^verbatim>\<open>device/driver/bcm2837_interrupt.rs\<close>, with
  \<^verbatim>\<open>device/interrupt_controller.rs\<close>) and the serial port (\<^verbatim>\<open>device/driver/bcm2837_serial.rs\<close>). The
  hardware is the state of the definitions: plain registers for the first two; for the serial
  port the values that its status register and its receiver will show, one per read, which
  nothing in the driver controls. Each method of the serial port takes the lock of the driver, which is part of the state.
\<close>

section \<open>Timer\<close>

text \<open>A \<^verbatim>\<open>Duration\<close> is its number of nanoseconds.\<close>

type_synonym duration = nat

definition NANOS :: u64 where
  [consts_defs]: "NANOS = 1000000000"

record timer_hw =
  cntfrq_el0 :: u64
  cntpct_el0 :: u64
  cntp_tval_el0 :: u64
  cntp_ctl_el0 :: u64

definition timer_frequency :: "'z timer_hw_scheme \<Rightarrow> u64" where
  "timer_frequency h = cntfrq_el0 h"

definition timer_count :: "'z timer_hw_scheme \<Rightarrow> u64" where
  "timer_count h = cntpct_el0 h"

text \<open>The products are computed in 128 bits and cut to 64.\<close>

definition set_duration :: "duration \<Rightarrow> 'z timer_hw_scheme \<Rightarrow> 'z timer_hw_scheme" where
  "set_duration d h =
     (let tval = ucast ((of_nat d * ucast (timer_frequency h) :: 128 word) div ucast NANOS)
      in h\<lparr>cntp_tval_el0 := tval, cntp_ctl_el0 := 1\<rparr>)"

definition monotonic :: "'z timer_hw_scheme \<Rightarrow> duration res" where
  "monotonic h =
     (if timer_frequency h = 0 then Panic
      else Ok (unat (ucast ((ucast (timer_count h) * ucast NANOS :: 128 word) div ucast (timer_frequency h)) :: u64)))"

lemma unat_ucast_up: "unat (ucast (w :: u64) :: 128 word) = unat w"
proof -
  have "unat w < 2 ^ 64" using unsigned_less [of w] by simp
  then have "unat w < 2 ^ 128" by simp
  then show ?thesis by (simp add: unsigned_ucast_eq take_bit_nat_eq_self)
qed

lemma set_duration_ticks:
  assumes "d * unat (cntfrq_el0 h) < 2 ^ 128" and "d * unat (cntfrq_el0 h) div 10 ^ 9 < 2 ^ 64"
  shows "unat (cntp_tval_el0 (set_duration d h)) = d * unat (cntfrq_el0 h) div 10 ^ 9"
proof -
  let ?p = "of_nat d * ucast (cntfrq_el0 h) :: 128 word"
  have p: "unat ?p = d * unat (cntfrq_el0 h)"
  proof (cases "cntfrq_el0 h = 0")
    case False
    then have "d * 1 \<le> d * unat (cntfrq_el0 h)" by (intro mult_le_mono2) (simp add: unat_gt_0 Suc_leI)
    with assms(1) have "d < 2 ^ 128" by linarith
    then have "unat (of_nat d :: 128 word) = d" by (simp add: unat_of_nat take_bit_nat_eq_self)
    then show ?thesis using assms(1) unat_ucast_up [of "cntfrq_el0 h"] by (subst unat_mult_noof) simp_all
  qed simp
  have "unat (?p div ucast NANOS) = d * unat (cntfrq_el0 h) div 10 ^ 9"
    using p unat_ucast_up [of NANOS] by (simp add: unat_div_distrib NANOS_def)
  then show ?thesis
    using assms(2) by (simp add: set_duration_def timer_frequency_def Let_def unsigned_ucast_eq take_bit_nat_eq_self)
qed

section \<open>Interrupt controller\<close>

record intc_hw =
  core0_timer_irqcntl :: u32
  core0_irq :: u32

definition CNTPNSIRQ :: u64 where
  [consts_defs]: "CNTPNSIRQ = 1"

text \<open>\<^verbatim>\<open>0b1 << number as u32\<close>: the shift count is taken modulo the width.\<close>

definition irq_bit :: "u64 \<Rightarrow> u32" where
  "irq_bit number = push_bit (unat (ucast number :: u32) mod 32) 1"

definition intc_enable :: "u64 \<Rightarrow> 'z intc_hw_scheme \<Rightarrow> 'z intc_hw_scheme" where
  "intc_enable number h = h\<lparr>core0_timer_irqcntl := core0_timer_irqcntl h OR irq_bit number\<rparr>"

definition intc_is_pending :: "u64 \<Rightarrow> 'z intc_hw_scheme \<Rightarrow> bool" where
  "intc_is_pending number h \<longleftrightarrow> core0_irq h AND irq_bit number \<noteq> 0"

definition intc_clear :: "u64 \<Rightarrow> 'z intc_hw_scheme \<Rightarrow> 'z intc_hw_scheme" where
  "intc_clear number h = h\<lparr>core0_irq := core0_irq h AND NOT (irq_bit number)\<rparr>"

lemma bit_irq_bit: "bit (irq_bit n) k \<longleftrightarrow> k = unat (ucast n :: u32) mod 32"
proof -
  have "unat (ucast n :: u32) mod 32 < 32" by simp
  then show ?thesis by (auto simp: irq_bit_def bit_simps)
qed

lemma intc_is_pending_bit: "intc_is_pending n h \<longleftrightarrow> bit (core0_irq h) (unat (ucast n :: u32) mod 32)"
proof -
  let ?k = "unat (ucast n :: u32) mod 32"
  have b: "bit (core0_irq h AND irq_bit n) k \<longleftrightarrow> k = ?k \<and> bit (core0_irq h) k" for k
    unfolding bit_and_iff bit_irq_bit by blast
  have "core0_irq h AND irq_bit n = 0 \<longleftrightarrow> \<not> bit (core0_irq h) ?k"
  proof
    assume "core0_irq h AND irq_bit n = 0"
    then show "\<not> bit (core0_irq h) ?k" using b [of ?k] by simp
  next
    assume "\<not> bit (core0_irq h) ?k"
    then show "core0_irq h AND irq_bit n = 0" by (intro bit_word_eqI) (simp only: b bit_0_eq bot_apply bot_bool_def, blast)
  qed
  then show ?thesis by (simp add: intc_is_pending_def)
qed

lemma intc_clear_pending:
  "intc_is_pending k (intc_clear n h) \<longleftrightarrow>
     intc_is_pending k h \<and> unat (ucast k :: u32) mod 32 \<noteq> unat (ucast n :: u32) mod 32"
proof -
  have "unat (ucast k :: u32) mod 32 < 32" by simp
  then show ?thesis
    by (auto simp: intc_is_pending_bit intc_clear_def bit_and_iff bit_not_iff bit_irq_bit)
qed

section \<open>Serial port\<close>

definition GPFSEL1 :: u64 where [consts_defs]: "GPFSEL1 = 0xFFFF00003F200004"

definition GPPUD :: u64 where [consts_defs]: "GPPUD = 0xFFFF00003F200094"

definition GPPUDCLK0 :: u64 where [consts_defs]: "GPPUDCLK0 = 0xFFFF00003F200098"

definition AUX_ENABLES :: u64 where [consts_defs]: "AUX_ENABLES = 0xFFFF00003F215004"

definition AUX_MU_IER :: u64 where [consts_defs]: "AUX_MU_IER = 0xFFFF00003F215044"

definition AUX_MU_IIR :: u64 where [consts_defs]: "AUX_MU_IIR = 0xFFFF00003F215048"

definition AUX_MU_LCR :: u64 where [consts_defs]: "AUX_MU_LCR = 0xFFFF00003F21504C"

definition AUX_MU_MCR :: u64 where [consts_defs]: "AUX_MU_MCR = 0xFFFF00003F215050"

definition AUX_MU_CNTL :: u64 where [consts_defs]: "AUX_MU_CNTL = 0xFFFF00003F215060"

definition AUX_MU_BAUD :: u64 where [consts_defs]: "AUX_MU_BAUD = 0xFFFF00003F215068"

definition GPFSEL1_FSEL14_MASK :: u32 where [consts_defs]: "GPFSEL1_FSEL14_MASK = push_bit 12 7"

definition GPFSEL1_FSEL14_F5 :: u32 where [consts_defs]: "GPFSEL1_FSEL14_F5 = push_bit 12 2"

definition GPFSEL1_FSEL15_MASK :: u32 where [consts_defs]: "GPFSEL1_FSEL15_MASK = push_bit 15 7"

definition GPFSEL1_FSEL15_F5 :: u32 where [consts_defs]: "GPFSEL1_FSEL15_F5 = push_bit 15 2"

definition GPPUDCLK0_PUD14 :: u32 where [consts_defs]: "GPPUDCLK0_PUD14 = push_bit 14 1"

definition GPPUDCLK0_PUD15 :: u32 where [consts_defs]: "GPPUDCLK0_PUD15 = push_bit 15 1"

definition AUX_ENABLES_MU :: u8 where [consts_defs]: "AUX_ENABLES_MU = 1"

definition AUX_MU_IIR_TX :: u8 where [consts_defs]: "AUX_MU_IIR_TX = 1"

definition AUX_MU_IIR_RX :: u8 where [consts_defs]: "AUX_MU_IIR_RX = 2"

definition AUX_MU_LCR_8BIT :: u8 where [consts_defs]: "AUX_MU_LCR_8BIT = 3"

definition AUX_MU_LSR_RX_READY :: u8 where [consts_defs]: "AUX_MU_LSR_RX_READY = 1"

definition AUX_MU_LSR_TX_EMPTY :: u8 where [consts_defs]: "AUX_MU_LSR_TX_EMPTY = push_bit 5 1"

definition AUX_MU_CNTL_RX :: u8 where [consts_defs]: "AUX_MU_CNTL_RX = 1"

definition AUX_MU_CNTL_TX :: u8 where [consts_defs]: "AUX_MU_CNTL_TX = 2"

text \<open>
  The port: the lock of the driver; the configuration registers, each accessed at one width; what successive reads of the line status register and of the
  receiver will return, with the number of reads done; and the bytes sent.
\<close>

record uart =
  uart_lock :: bool
  regs8 :: "u64 \<Rightarrow> u8"
  regs16 :: "u64 \<Rightarrow> u16"
  regs32 :: "u64 \<Rightarrow> u32"
  lsr :: "nat \<Rightarrow> u8"
  lsr_reads :: nat
  rx :: "nat \<Rightarrow> u8"
  rx_reads :: nat
  tx :: "u8 list"

definition write8 :: "u64 \<Rightarrow> u8 \<Rightarrow> uart \<Rightarrow> uart" where
  "write8 a v u = u\<lparr>regs8 := (regs8 u)(a := v)\<rparr>"

definition write16 :: "u64 \<Rightarrow> u16 \<Rightarrow> uart \<Rightarrow> uart" where
  "write16 a v u = u\<lparr>regs16 := (regs16 u)(a := v)\<rparr>"

definition write32 :: "u64 \<Rightarrow> u32 \<Rightarrow> uart \<Rightarrow> uart" where
  "write32 a v u = u\<lparr>regs32 := (regs32 u)(a := v)\<rparr>"

definition read_lsr :: "uart \<Rightarrow> u8 \<times> uart" where
  "read_lsr u = (lsr u (lsr_reads u), u\<lparr>lsr_reads := Suc (lsr_reads u)\<rparr>)"

definition serial_new :: "uart \<Rightarrow> uart" where
  "serial_new u = u\<lparr>uart_lock := lock_new\<rparr>"

text \<open>\<^verbatim>\<open>self.lock.call\<close>. The lock spins without masking interrupts, so whoever finds it held by a thread that does not run waits forever.\<close>

definition serial_call :: "(uart \<Rightarrow> 'a res \<times> uart) \<Rightarrow> uart \<Rightarrow> 'a res \<times> uart" where
  "serial_call f u =
     and_then (case lock_loop (uart_lock u) of (r, l) \<Rightarrow> (r, u\<lparr>uart_lock := l\<rparr>)) (\<lambda>_ u.
     and_then (f u) (\<lambda>r u. (Ok r, u\<lparr>uart_lock := unlock (uart_lock u)\<rparr>)))"

text \<open>The order of the writes is the code's; the two waits of 150 cycles leave no trace.\<close>

definition serial_init :: "uart \<Rightarrow> unit res \<times> uart" where
  "serial_init = serial_call (\<lambda>u0. (Ok (),
     (let u1 = write8 AUX_ENABLES (regs8 u0 AUX_ENABLES OR AUX_ENABLES_MU) u0;
          u2 = write8 AUX_MU_IER 0 u1;
          u3 = write8 AUX_MU_CNTL 0 u2;
          u4 = write8 AUX_MU_LCR AUX_MU_LCR_8BIT u3;
          u5 = write8 AUX_MU_MCR 0 u4;
          u6 = write16 AUX_MU_BAUD 270 u5;
          u7 = write32 GPFSEL1 ((regs32 u6 GPFSEL1 AND NOT (GPFSEL1_FSEL14_MASK OR GPFSEL1_FSEL15_MASK))
                                  OR (GPFSEL1_FSEL14_F5 OR GPFSEL1_FSEL15_F5)) u6;
          u8 = write32 GPPUD 0 u7;
          u9 = write32 GPPUDCLK0 (GPPUDCLK0_PUD14 OR GPPUDCLK0_PUD15) u8;
          u10 = write32 GPPUDCLK0 0 u9;
          u11 = write8 AUX_MU_CNTL (AUX_MU_CNTL_RX OR AUX_MU_CNTL_TX) u10
      in write8 AUX_MU_IIR (AUX_MU_IIR_RX OR AUX_MU_IIR_TX) u11)))"

partial_function (option) wait_tx_empty :: "uart \<Rightarrow> uart option" where
  "wait_tx_empty u =
     (case read_lsr u of (v, u') \<Rightarrow>
        if v AND AUX_MU_LSR_TX_EMPTY = 0 then wait_tx_empty u' else Some u')"

declare wait_tx_empty.simps [code]

definition write_byte :: "u8 \<Rightarrow> uart \<Rightarrow> unit res \<times> uart" where
  "write_byte byte = serial_call (\<lambda>u.
     case wait_tx_empty u of None \<Rightarrow> (Hang, u) | Some u' \<Rightarrow> (Ok (), u'\<lparr>tx := tx u' @ [byte]\<rparr>))"

definition read_byte :: "uart \<Rightarrow> u8 option res \<times> uart" where
  "read_byte = serial_call (\<lambda>u.
     case read_lsr u of (v, u') \<Rightarrow>
       if v AND AUX_MU_LSR_RX_READY = 0 then (Ok None, u')
       else (Ok (Some (rx u' (rx_reads u'))), u'\<lparr>rx_reads := Suc (rx_reads u')\<rparr>))"

partial_function (option) read_loop :: "u8 list \<Rightarrow> uart \<Rightarrow> (u8 list res \<times> uart) option" where
  "read_loop buf u =
     (case read_byte u of
        (Ok (Some byte), u') \<Rightarrow> read_loop (buf @ [byte]) u'
      | (Ok None, u') \<Rightarrow> Some (Ok buf, u')
      | (Err e, u') \<Rightarrow> Some (Err e, u')
      | (Panic, u') \<Rightarrow> Some (Panic, u')
      | (Hang, u') \<Rightarrow> None)"

declare read_loop.simps [code]

text \<open>\<^verbatim>\<open>Vec::with_capacity(count)\<close> panics above \<^verbatim>\<open>isize::MAX\<close>; the count is not used otherwise.\<close>

definition serial_read :: "usize \<Rightarrow> uart \<Rightarrow> u8 list res \<times> uart" where
  "serial_read count u =
     (if 2 ^ 63 \<le> unat count then (Panic, u)
      else (case read_loop [] u of None \<Rightarrow> (Hang, u) | Some out \<Rightarrow> out))"

fun write_loop :: "u8 list \<Rightarrow> uart \<Rightarrow> unit res \<times> uart" where
  "write_loop [] u = (Ok (), u)"
| "write_loop (byte # bytes) u = and_then (write_byte byte u) (\<lambda>_ u. write_loop bytes u)"

definition serial_write :: "u8 list \<Rightarrow> uart \<Rightarrow> usize res \<times> uart" where
  "serial_write buf u = and_then (write_loop buf u) (\<lambda>_ u. (Ok (vec_len buf), u))"

definition serial_device :: "uart char_device" where
  "serial_device = \<lparr>cd_read = serial_read, cd_write = serial_write\<rparr>"

lemma serial_call_free:
  "\<not> uart_lock u \<Longrightarrow> serial_call f u = and_then (f (u\<lparr>uart_lock := True\<rparr>)) (\<lambda>r u. (Ok r, u\<lparr>uart_lock := unlock (uart_lock u)\<rparr>))"
  by (simp add: serial_call_def lock_loop_def compare_exchange_def)

lemma serial_call_held: "uart_lock u \<Longrightarrow> serial_call f u = (Hang, u)"
  by (cases u) (simp add: serial_call_def lock_loop_def compare_exchange_def)

lemma uart_unlocked: "\<not> uart_lock u \<Longrightarrow> u\<lparr>uart_lock := False\<rparr> = u"
  by (cases u) simp

text \<open>
  After the initialisation the port sends and receives, with interrupts off, on the two pins it uses; the
  functions of the other pins are as they were.
\<close>

lemma serial_init_result:
  fixes u :: uart
  defines "u' \<equiv> snd (serial_init (serial_new u))"
  shows "regs8 u' AUX_MU_CNTL = 3 \<and> regs8 u' AUX_MU_IER = 0 \<and> regs8 u' AUX_MU_LCR = 3
   \<and> regs16 u' AUX_MU_BAUD = 270 \<and> bit (regs8 u' AUX_ENABLES) 0
   \<and> (bit (regs32 u' GPFSEL1) k \<longleftrightarrow> (if 12 \<le> k \<and> k < 18 then k = 13 \<or> k = 16 else bit (regs32 u GPFSEL1) k))"
proof -
  have "bit ((g AND NOT (GPFSEL1_FSEL14_MASK OR GPFSEL1_FSEL15_MASK)) OR (GPFSEL1_FSEL14_F5 OR GPFSEL1_FSEL15_F5)) k
      \<longleftrightarrow> (if 12 \<le> k \<and> k < 18 then k = 13 \<or> k = 16 else bit g k)" for g :: u32
  proof -
    have m: "GPFSEL1_FSEL14_MASK OR GPFSEL1_FSEL15_MASK = push_bit 12 (mask 6)" "GPFSEL1_FSEL14_F5 OR GPFSEL1_FSEL15_F5 = push_bit 13 1 OR push_bit 16 1"
      by (simp_all add: consts_defs mask_eq_exp_minus_1)
    have f: "bit (GPFSEL1_FSEL14_F5 OR GPFSEL1_FSEL15_F5) k \<longleftrightarrow> k = 13 \<or> k = 16"
      unfolding m(2) bit_or_iff bit_push_bit_iff bit_1_iff by auto
    have "bit g k \<Longrightarrow> k < 32" using bit_imp_le_length [of g k] by simp
    then show ?thesis
      unfolding bit_or_iff [of _ "GPFSEL1_FSEL14_F5 OR GPFSEL1_FSEL15_F5"] f m(1) by (auto simp: bit_simps)
  qed
  then show ?thesis unfolding u'_def
    by (simp add: serial_init_def serial_call_free serial_new_def lock_new_def unlock_def Let_def write8_def write16_def write32_def consts_defs bit_simps)
qed

lemma serial_init_keeps:
  "fst (serial_init (serial_new u)) = Ok ()" "\<not> uart_lock (snd (serial_init (serial_new u)))"
  "lsr (snd (serial_init (serial_new u))) = lsr u" "tx (snd (serial_init (serial_new u))) = tx u"
  by (simp_all add: serial_init_def serial_call_free serial_new_def lock_new_def unlock_def Let_def write8_def write16_def write32_def)

text \<open>The transmitter becomes empty again and again. The port is ready when also the lock is free.\<close>

definition tx_fair :: "uart \<Rightarrow> bool" where
  "tx_fair u \<longleftrightarrow> (\<forall>n. \<exists>k \<ge> n. lsr u k AND AUX_MU_LSR_TX_EMPTY \<noteq> 0)"

definition uart_ready :: "uart \<Rightarrow> bool" where
  "uart_ready u \<longleftrightarrow> \<not> uart_lock u \<and> tx_fair u"

lemma wait_tx_empty_returns:
  assumes "lsr u k AND AUX_MU_LSR_TX_EMPTY \<noteq> 0" and "lsr_reads u \<le> k"
  shows "\<exists>j. wait_tx_empty u = Some (u\<lparr>lsr_reads := j\<rparr>)"
  using assms
proof (induction "k - lsr_reads u" arbitrary: u)
  case 0
  then have "lsr_reads u = k" by simp
  then show ?case using 0 by (subst wait_tx_empty.simps) (auto simp: read_lsr_def)
next
  case (Suc d)
  show ?case
  proof (cases "lsr u (lsr_reads u) AND AUX_MU_LSR_TX_EMPTY = 0")
    case True
    have "\<exists>j. wait_tx_empty (u\<lparr>lsr_reads := Suc (lsr_reads u)\<rparr>) = Some (u\<lparr>lsr_reads := j\<rparr>)"
      using Suc.hyps(1) [of "u\<lparr>lsr_reads := Suc (lsr_reads u)\<rparr>"] Suc.hyps(2) Suc.prems by simp
    then show ?thesis using True by (subst wait_tx_empty.simps) (simp add: read_lsr_def)
  next
    case False
    then show ?thesis by (subst wait_tx_empty.simps) (auto simp: read_lsr_def)
  qed
qed

lemma write_byte_fair:
  assumes "uart_ready u"
  shows "\<exists>j. write_byte b u = (Ok (), u\<lparr>lsr_reads := j, tx := tx u @ [b]\<rparr>)"
proof -
  let ?u = "u\<lparr>uart_lock := True\<rparr>"
  have free: "\<not> uart_lock u" using assms by (simp add: uart_ready_def)
  obtain k where "lsr_reads ?u \<le> k" "lsr ?u k AND AUX_MU_LSR_TX_EMPTY \<noteq> 0" using assms by (auto simp: uart_ready_def tx_fair_def)
  then obtain j where "wait_tx_empty ?u = Some (?u\<lparr>lsr_reads := j\<rparr>)" using wait_tx_empty_returns by blast
  moreover have "?u\<lparr>lsr_reads := j, tx := tx u @ [b], uart_lock := False\<rparr> = u\<lparr>lsr_reads := j, tx := tx u @ [b]\<rparr>" for j
    using free by (cases u) simp
  ultimately show ?thesis by (auto simp: write_byte_def serial_call_free [OF free] unlock_def)
qed

lemma write_loop_fair:
  assumes "uart_ready u"
  shows "\<exists>j. write_loop buf u = (Ok (), u\<lparr>lsr_reads := j, tx := tx u @ buf\<rparr>)"
  using assms
proof (induction buf arbitrary: u)
  case Nil
  show ?case by (rule exI [of _ "lsr_reads u"]) simp
next
  case (Cons b buf)
  obtain i where i: "write_byte b u = (Ok (), u\<lparr>lsr_reads := i, tx := tx u @ [b]\<rparr>)" using write_byte_fair Cons.prems by blast
  let ?u = "u\<lparr>lsr_reads := i, tx := tx u @ [b]\<rparr>"
  have "uart_ready ?u" using Cons.prems by (simp add: uart_ready_def tx_fair_def)
  then obtain j where "write_loop buf ?u = (Ok (), ?u\<lparr>lsr_reads := j, tx := tx ?u @ buf\<rparr>)" using Cons.IH by blast
  then show ?case using i by auto
qed

text \<open>
  Writing to the serial port sends every byte, in order, and returns their number, provided that
  the transmitter becomes empty again and again; nothing else changes but the number of
  status reads.
\<close>

lemma serial_write_all:
  assumes "uart_ready u"
  shows "\<exists>j. serial_write buf u = (Ok (vec_len buf), u\<lparr>lsr_reads := j, tx := tx u @ buf\<rparr>)"
  using write_loop_fair [OF assms, of buf] by (auto simp: serial_write_def)

end
