(* ===== verification/Address.thy ===== *)
theory Address
  imports Prelude
begin

unbundle bit_operations_syntax

text \<open>
  Physical and user addresses (\<^verbatim>\<open>memory/address.rs\<close>), the kernel's view of physical memory
  (\<^verbatim>\<open>memory/aarch64/mapper.rs\<close>), and the constants of \<^verbatim>\<open>memory/aarch64/init.rs\<close> they use.
  An address type is a wrapper around a \<^verbatim>\<open>usize\<close>; its phantom type parameter matters only for
  \<^verbatim>\<open>size_of::<T>()\<close>, which the offset operations take as an argument.
\<close>

datatype PhysicalAddress = PhysicalAddress (address: usize)

definition PhysicalAddress_convert :: "PhysicalAddress \<Rightarrow> PhysicalAddress" where
  [simp]: "PhysicalAddress_convert p = PhysicalAddress (address p)"

datatype UserAddress = UserAddress (as_ptr: usize)

definition UserAddress_add :: "usize \<Rightarrow> UserAddress \<Rightarrow> usize \<Rightarrow> UserAddress" where
  "UserAddress_add size_of_T a count = UserAddress (as_ptr a + size_of_T * count)"

definition UserAddress_sub :: "usize \<Rightarrow> UserAddress \<Rightarrow> usize \<Rightarrow> UserAddress" where
  "UserAddress_sub size_of_T a count = UserAddress (as_ptr a - size_of_T * count)"

lemma UserAddress_add_sub: "UserAddress_sub n (UserAddress_add n a k) k = a"
  by (cases a) (simp add: UserAddress_sub_def UserAddress_add_def)

section \<open>The kernel's window on physical memory\<close>

definition VA_BITS :: nat where
  [consts_defs]: "VA_BITS = 48"

definition VA_START :: usize where
  "VA_START = NOT (push_bit VA_BITS 1 - 1)"

definition virtual_address :: "PhysicalAddress \<Rightarrow> usize" where
  "virtual_address p = (address p) OR VA_START"

definition physical_address :: "usize \<Rightarrow> PhysicalAddress" where
  "physical_address ptr = PhysicalAddress (ptr AND NOT VA_START)"

lemma VA_START_value: "VA_START = 0xFFFF000000000000"
  by (simp add: VA_START_def VA_BITS_def push_bit_eq_mult not_eq_complement)

lemma not_VA_START: "NOT VA_START = mask 48"
  by (simp add: VA_START_value mask_eq_exp_minus_1 not_eq_complement)

lemma VA_START_mask: "VA_START = NOT (mask 48)"
  by (simp add: not_VA_START [symmetric])

lemma physical_address_mod: "unat (address (physical_address v)) = unat v mod 2 ^ 48"
  by (simp add: physical_address_def not_VA_START take_bit_eq_mask [symmetric] unsigned_take_bit_eq
      take_bit_eq_mod unat_mod_distrib)

text \<open>A physical address below \<open>2 ^ 48\<close> shows up at the same offset in kernel memory.\<close>

lemma virtual_address_plus:
  assumes "unat (address p) < 2 ^ 48"
  shows "virtual_address p = address p + VA_START"
proof -
  have "take_bit 48 (address p) = address p"
    using assms
    by (simp add: word_unat_eq_iff unsigned_take_bit_eq take_bit_nat_eq_self_iff)
  then have "address p AND VA_START = 0"
    by (metis VA_START_mask take_bit_eq_mask word_bw_assocs(1) bit.conj_cancel_right word_log_esimps(1))
  then show ?thesis
    by (metis add_0 virtual_address_def word_plus_and_or)
qed

lemma unat_virtual_address:
  assumes "unat (address p) < 2 ^ 48"
  shows "unat (virtual_address p) = unat (address p) + 0xFFFF000000000000"
  using assms by (simp add: virtual_address_plus VA_START_value unat_add_noof)

lemma window_mod: "n < 2 ^ 48 \<Longrightarrow> (n + 0xFFFF000000000000) mod 2 ^ 48 = (n :: nat)"
proof -
  assume "n < 2 ^ 48"
  then have "(n + 65535 * 2 ^ 48) mod 2 ^ 48 = n" by (metis mod_less mod_mult_self1)
  then show ?thesis by simp
qed

theorem physical_virtual_address:
  assumes "unat (address p) < 2 ^ 48"
  shows "physical_address (virtual_address p) = p"
proof -
  have "unat (address (physical_address (virtual_address p))) = unat (address p)"
    using assms window_mod [of "unat (address p)"]
    by (simp add: physical_address_mod unat_virtual_address)
  then show ?thesis by (metis PhysicalAddress.expand word_unat_eq_iff)
qed

theorem virtual_physical_address:
  assumes "VA_START \<le> v"
  shows "virtual_address (physical_address v) = v"
proof -
  have v: "unat v \<ge> 0xFFFF000000000000"
    using assms by (simp add: VA_START_value word_le_nat_alt)
  have "unat v mod 2 ^ 48 = unat v - 0xFFFF000000000000"
  proof -
    have "unat v - 0xFFFF000000000000 < 2 ^ 48" using u64_lt [of v] v by simp
    moreover have "unat v = (unat v - 0xFFFF000000000000) + 65535 * 2 ^ 48" using v by simp
    ultimately show ?thesis by (metis mod_less mod_mult_self1)
  qed
  moreover have "unat v mod 2 ^ 48 < 2 ^ 48" by simp
  ultimately have "unat (virtual_address (physical_address v)) = unat v"
    using v by (subst unat_virtual_address) (simp_all add: physical_address_mod)
  then show ?thesis by (simp add: word_unat_eq_iff)
qed

end
