(* ===== verification/Linear_Allocator.thy ===== *)
theory Linear_Allocator
  imports Prelude
begin

text \<open>
  The contract the kernel's two allocators share (\<^verbatim>\<open>memory/heap.rs\<close>, \<^verbatim>\<open>memory/page.rs\<close>): a
  mark that only moves forward, and every block handed out lies between the mark before
  the call and the mark after it. Whatever the requests are, blocks never overlap. The laws
  are required only of calls that \<open>fits\<close>: calls in which the mark does not wrap.
\<close>

locale linear_allocator =
  fixes alloc :: "'r \<Rightarrow> 's \<Rightarrow> 'b option \<times> 's"
    and fits :: "'r \<Rightarrow> 's \<Rightarrow> bool"
    and mark :: "'s \<Rightarrow> nat"
    and block_lo :: "'r \<Rightarrow> 'b \<Rightarrow> nat"
    and block_hi :: "'r \<Rightarrow> 'b \<Rightarrow> nat"
  assumes mark_mono: "fits r s \<Longrightarrow> mark s \<le> mark (snd (alloc r s))"
    and block_between: "fits r s \<Longrightarrow> alloc r s = (Some b, s') \<Longrightarrow>
      mark s \<le> block_lo r b \<and> block_hi r b \<le> mark s'"
begin

text \<open>A run of requests: the blocks that were handed out, oldest first.\<close>

fun run_allocs :: "'r list \<Rightarrow> 's \<Rightarrow> ('r \<times> 'b) list \<times> 's" where
  "run_allocs [] s = ([], s)"
| "run_allocs (r # rs) s =
     (let (res, s1) = alloc r s; (bs, s2) = run_allocs rs s1
      in ((case res of None \<Rightarrow> bs | Some b \<Rightarrow> (r, b) # bs), s2))"

fun run_fits :: "'r list \<Rightarrow> 's \<Rightarrow> bool" where
  "run_fits [] s = True"
| "run_fits (r # rs) s = (fits r s \<and> run_fits rs (snd (alloc r s)))"

lemma run_allocs_bounds:
  assumes "run_fits rs s" and "run_allocs rs s = (bs, s')"
  shows "mark s \<le> mark s' \<and> (\<forall>(r, b) \<in> set bs. mark s \<le> block_lo r b \<and> block_hi r b \<le> mark s')"
  using assms
proof (induction rs arbitrary: s bs)
  case Nil
  then show ?case by simp
next
  case (Cons r rs)
  obtain res s1 where a: "alloc r s = (res, s1)" by (cases "alloc r s") auto
  obtain bs1 where b: "run_allocs rs s1 = (bs1, s')"
    using Cons.prems(2) a by (auto simp: Let_def split: prod.splits)
  have IH: "mark s1 \<le> mark s' \<and> (\<forall>(r, b) \<in> set bs1. mark s1 \<le> block_lo r b \<and> block_hi r b \<le> mark s')"
    using Cons.IH [OF _ b] Cons.prems(1) a by simp
  have m: "mark s \<le> mark s1" using mark_mono Cons.prems(1) a by (metis run_fits.simps(2) snd_conv)
  show ?case
  proof (cases res)
    case None
    then show ?thesis using IH m Cons.prems(2) a b by force
  next
    case (Some x)
    then have "mark s \<le> block_lo r x \<and> block_hi r x \<le> mark s1"
      using block_between Cons.prems(1) a by auto
    then show ?thesis using IH m Cons.prems(2) a b Some by force
  qed
qed

text \<open>Blocks of a run are handed out in address order, so no two of them overlap.\<close>

theorem run_allocs_ordered:
  assumes "run_fits rs s" and "run_allocs rs s = (bs, s')"
  shows "sorted_wrt (\<lambda>(r, b) (r', b'). block_hi r b \<le> block_lo r' b') bs"
  using assms
proof (induction rs arbitrary: s bs)
  case Nil
  then show ?case by simp
next
  case (Cons r rs)
  obtain res s1 where a: "alloc r s = (res, s1)" by (cases "alloc r s") auto
  obtain bs1 where b: "run_allocs rs s1 = (bs1, s')"
    using Cons.prems(2) a by (auto simp: Let_def split: prod.splits)
  have fits: "fits r s" "run_fits rs s1" using Cons.prems(1) a by auto
  have IH: "sorted_wrt (\<lambda>(r, b) (r', b'). block_hi r b \<le> block_lo r' b') bs1"
    using Cons.IH [OF fits(2) b] .
  show ?case
  proof (cases res)
    case None
    then show ?thesis using IH Cons.prems(2) a b by simp
  next
    case (Some x)
    then have "block_hi r x \<le> mark s1" using block_between [OF fits(1)] a by blast
    then have "\<forall>(r', b') \<in> set bs1. block_hi r x \<le> block_lo r' b'"
      using run_allocs_bounds [OF fits(2) b] by fastforce
    then show ?thesis using IH Cons.prems(2) a b Some by auto
  qed
qed

end

end
