(* ===== verification/Page_Allocator.thy ===== *)
theory Page_Allocator
  imports Address Linear_Allocator
begin

text \<open>
  The page allocator of \<^verbatim>\<open>memory/page.rs\<close>. The mutex around \<^verbatim>\<open>allocated\<close> makes \<open>page_alloc\<close>
  atomic; the loop in it is \<open>alloc_loop\<close>, a partial function because nothing in the code stops
  it when the counter wraps. The page is zeroed through its kernel address, so the state
  also holds kernel memory.
\<close>

section \<open>State and operations\<close>

definition PAGE_SIZE :: usize where
  [consts_defs]: "PAGE_SIZE = 4096"

type_synonym range = "usize \<times> usize"

fun range_contains :: "range \<Rightarrow> usize \<Rightarrow> bool" where
  "range_contains (s, e) x = (s \<le> x \<and> x < e)"

record page_allocator =
  capacity :: usize
  reserved_ranges :: "range list"
  allocated :: usize

record page_allocation =
  pa_address :: PhysicalAddress
  pa_ptr :: usize

text \<open>What the allocator and its clients share: the allocator, and memory as the kernel sees it.\<close>

record kmem_state =
  page_alloc_state :: page_allocator
  kmem :: mem

definition page_allocator_new :: "usize \<Rightarrow> (PhysicalAddress \<times> PhysicalAddress) list \<Rightarrow> page_allocator" where
  "page_allocator_new cap ranges =
     \<lparr>capacity = cap,
      reserved_ranges = map (\<lambda>r. (address (fst r), address (snd r))) ranges,
      allocated = 0\<rparr>"

definition intersects_reserved :: "range list \<Rightarrow> usize \<Rightarrow> bool" where
  "intersects_reserved reserved alloc_start =
     (let alloc_range = (alloc_start, alloc_start + PAGE_SIZE) in
      list_ex (\<lambda>r. range_contains alloc_range (fst r)
                  \<or> range_contains alloc_range (snd r - 1)
                  \<or> range_contains r (fst alloc_range)
                  \<or> range_contains r (snd alloc_range - 1)) reserved)"

partial_function (option) alloc_loop :: "page_allocator \<Rightarrow> (usize option \<times> page_allocator) option" where
  "alloc_loop pa =
     (let alloc_start = allocated pa;
          pa' = pa\<lparr>allocated := alloc_start + PAGE_SIZE\<rparr>
      in if capacity pa < allocated pa' then Some (None, pa')
         else if intersects_reserved (reserved_ranges pa) alloc_start then alloc_loop pa'
         else Some (Some alloc_start, pa'))"

declare alloc_loop.simps [code]

definition page_alloc :: "'z kmem_state_scheme \<Rightarrow> page_allocation res \<times> 'z kmem_state_scheme" where
  "page_alloc s =
     (case alloc_loop (page_alloc_state s) of
        None \<Rightarrow> (Hang, s)
      | Some (None, pa) \<Rightarrow> (Err (), s\<lparr>page_alloc_state := pa\<rparr>)
      | Some (Some start, pa) \<Rightarrow>
          (let addr = PhysicalAddress start; ptr = virtual_address addr
           in (Ok \<lparr>pa_address = addr, pa_ptr = ptr\<rparr>,
               s\<lparr>page_alloc_state := pa, kmem := fill_bytes (kmem s) ptr 0 4096\<rparr>)))"

text \<open>Dropping an allocation clears the page; the counter never moves back.\<close>

definition page_dealloc :: "page_allocation \<Rightarrow> 'z kmem_state_scheme \<Rightarrow> 'z kmem_state_scheme" where
  "page_dealloc page s = s\<lparr>kmem := fill_bytes (kmem s) (pa_ptr page) 0 4096\<rparr>"

section \<open>The allocation loop\<close>

text \<open>The counter does not wrap in a call: there is room for one more page above both bounds.\<close>

definition pa_fits :: "page_allocator \<Rightarrow> bool" where
  "pa_fits pa \<longleftrightarrow> unat (allocated pa) + 4096 < 2 ^ 64 \<and> unat (capacity pa) + 4096 < 2 ^ 64"

text \<open>The bytes of the page at \<open>a\<close> and of the reserved ranges, as sets of numbers.\<close>

definition page_bytes :: "nat \<Rightarrow> nat set" where
  "page_bytes a = {a ..< a + 4096}"

definition reserved_bytes :: "page_allocator \<Rightarrow> nat set" where
  "reserved_bytes pa = (\<Union>(s, e) \<in> set (reserved_ranges pa). {unat s ..< unat e})"

definition reserved_nonempty :: "page_allocator \<Rightarrow> bool" where
  "reserved_nonempty pa \<longleftrightarrow> list_all (\<lambda>(s, e). s < e) (reserved_ranges pa)"

lemma overlap_test:
  fixes s e a :: usize
  assumes a: "unat a + 4096 < 2 ^ 64" and se: "s < e"
  shows "(range_contains (a, a + PAGE_SIZE) s \<or> range_contains (a, a + PAGE_SIZE) (e - 1)
            \<or> range_contains (s, e) a \<or> range_contains (s, e) (a + PAGE_SIZE - 1))
         \<longleftrightarrow> page_bytes (unat a) \<inter> {unat s ..< unat e} \<noteq> {}"
proof -
  have ae: "unat (a + PAGE_SIZE) = unat a + 4096"
    using a by (simp add: PAGE_SIZE_def unat_add_noof)
  have ae1: "unat (a + PAGE_SIZE - 1) = unat a + 4095"
    using ae by (subst unat_sub_noof) auto
  have e1: "unat (e - 1) = unat e - 1"
    using se by (subst unat_sub_noof) (auto simp: word_less_nat_alt)
  have ne: "unat s < unat e" using se by (simp add: word_less_nat_alt)
  have "page_bytes (unat a) \<inter> {unat s ..< unat e} \<noteq> {} \<longleftrightarrow>
          max (unat a) (unat s) < min (unat a + 4096) (unat e)"
    by (simp add: page_bytes_def atLeastLessThan_empty_iff) linarith
  then show ?thesis
    using ne by (auto simp: word_le_nat_alt word_less_nat_alt ae ae1 e1)
qed

lemma not_intersects_reserved:
  assumes "unat a + 4096 < 2 ^ 64" and "\<not> intersects_reserved (reserved_ranges pa) a"
  shows "page_bytes (unat a) \<inter> reserved_bytes pa = {}"
proof -
  have "page_bytes (unat a) \<inter> {unat s ..< unat e} = {}" if "(s, e) \<in> set (reserved_ranges pa)" for s e
  proof (cases "s < e")
    case True
    then show ?thesis
      using assms that overlap_test [OF assms(1) True]
      by (auto simp: intersects_reserved_def list_ex_iff Let_def)
  next
    case False
    then show ?thesis by (simp add: word_less_nat_alt)
  qed
  then show ?thesis by (fastforce simp: reserved_bytes_def)
qed

lemma intersects_reservedD:
  assumes "unat a + 4096 < 2 ^ 64" and "reserved_nonempty pa"
    and "intersects_reserved (reserved_ranges pa) a"
  shows "page_bytes (unat a) \<inter> reserved_bytes pa \<noteq> {}"
proof -
  obtain s e where se: "(s, e) \<in> set (reserved_ranges pa)"
    and "range_contains (a, a + PAGE_SIZE) s \<or> range_contains (a, a + PAGE_SIZE) (e - 1)
            \<or> range_contains (s, e) a \<or> range_contains (s, e) (a + PAGE_SIZE - 1)"
    using assms(3) by (auto simp: intersects_reserved_def list_ex_iff Let_def)
  moreover have "s < e" using se assms(2) by (auto simp: reserved_nonempty_def list_all_iff)
  ultimately have "page_bytes (unat a) \<inter> {unat s ..< unat e} \<noteq> {}"
    using overlap_test [OF assms(1)] by blast
  then show ?thesis using se by (fastforce simp: reserved_bytes_def)
qed

text \<open>The candidate pages of a call, in the order the loop tries them.\<close>

definition candidate :: "page_allocator \<Rightarrow> nat \<Rightarrow> nat" where
  "candidate pa k = unat (allocated pa) + 4096 * k"

text \<open>
  The outcome at the \<open>k\<close>-th candidate: every earlier one was inside the capacity and hit a
  reserved range; this one is past the capacity, or is free and is taken.
\<close>

definition loop_stops_at :: "page_allocator \<Rightarrow> nat \<Rightarrow> usize option \<times> page_allocator \<Rightarrow> bool" where
  "loop_stops_at pa k out \<longleftrightarrow>
     (\<forall>j < k. candidate pa j + 4096 \<le> unat (capacity pa)
            \<and> intersects_reserved (reserved_ranges pa) (of_nat (candidate pa j)))
     \<and> unat (allocated (snd out)) = candidate pa k + 4096
     \<and> snd out = pa\<lparr>allocated := allocated (snd out)\<rparr>
     \<and> (case fst out of
          None \<Rightarrow> unat (capacity pa) < candidate pa k + 4096
        | Some a \<Rightarrow> unat a = candidate pa k \<and> candidate pa k + 4096 \<le> unat (capacity pa)
                   \<and> \<not> intersects_reserved (reserved_ranges pa) a)"

lemma loop_stops_at_Suc:
  assumes "loop_stops_at (pa\<lparr>allocated := allocated pa + PAGE_SIZE\<rparr>) k out"
    and "pa_fits pa" and "allocated pa + PAGE_SIZE \<le> capacity pa"
    and "intersects_reserved (reserved_ranges pa) (allocated pa)"
  shows "loop_stops_at pa (Suc k) out"
proof -
  have nxt: "unat (allocated pa + PAGE_SIZE) = unat (allocated pa) + 4096"
    using assms(2) by (simp add: pa_fits_def PAGE_SIZE_def unat_add_noof)
  have shift: "candidate (pa\<lparr>allocated := allocated pa + PAGE_SIZE\<rparr>) j = candidate pa (Suc j)" for j
    by (simp add: candidate_def nxt)
  have first: "candidate pa 0 + 4096 \<le> unat (capacity pa)"
    using assms(3) nxt by (simp add: candidate_def word_le_nat_alt)
  have skipped: "candidate pa j + 4096 \<le> unat (capacity pa)
      \<and> intersects_reserved (reserved_ranges pa) (of_nat (candidate pa j))" if "j < Suc k" for j
  proof (cases j)
    case 0
    then show ?thesis using first assms(4) by (simp add: candidate_def)
  next
    case (Suc i)
    then show ?thesis using that assms(1) by (simp add: loop_stops_at_def shift)
  qed
  then show ?thesis
    using assms(1) by (simp add: loop_stops_at_def shift split: option.splits)
qed

text \<open>The loop returns, and it returns at the first candidate that settles the call.\<close>

lemma alloc_loop_returns:
  assumes "pa_fits pa"
  shows "\<exists>k out. alloc_loop pa = Some out \<and> loop_stops_at pa k out"
  using assms
proof (induction "unat (capacity pa) + 4096 - unat (allocated pa)" arbitrary: pa rule: less_induct)
  case less
  let ?pa = "pa\<lparr>allocated := allocated pa + PAGE_SIZE\<rparr>"
  have nxt: "unat (allocated pa + PAGE_SIZE) = unat (allocated pa) + 4096"
    using less.prems by (simp add: pa_fits_def PAGE_SIZE_def unat_add_noof)
  show ?case
  proof (cases "capacity pa < allocated ?pa")
    case True
    then have "alloc_loop pa = Some (None, ?pa)" by (subst alloc_loop.simps) simp
    moreover have "loop_stops_at pa 0 (None, ?pa)"
      using True nxt by (simp add: loop_stops_at_def candidate_def word_less_nat_alt)
    ultimately show ?thesis by blast
  next
    case in_cap: False
    show ?thesis
    proof (cases "intersects_reserved (reserved_ranges pa) (allocated pa)")
      case True
      have "alloc_loop pa = alloc_loop ?pa"
        using True in_cap by (subst alloc_loop.simps) simp
      moreover have fits': "pa_fits ?pa"
        using less.prems in_cap nxt by (simp add: pa_fits_def word_less_nat_alt)
      moreover have "unat (capacity ?pa) + 4096 - unat (allocated ?pa)
          < unat (capacity pa) + 4096 - unat (allocated pa)"
        using in_cap nxt by (simp add: word_less_nat_alt)
      ultimately obtain k out where "alloc_loop pa = Some out" "loop_stops_at ?pa k out"
        using less.hyps by metis
      moreover have "loop_stops_at pa (Suc k) out"
        using loop_stops_at_Suc [OF \<open>loop_stops_at ?pa k out\<close> less.prems] in_cap True by simp
      ultimately show ?thesis by blast
    next
      case False
      then have "alloc_loop pa = Some (Some (allocated pa), ?pa)"
        using in_cap by (subst alloc_loop.simps) (simp add: Let_def)
      moreover have "loop_stops_at pa 0 (Some (allocated pa), ?pa)"
        using False in_cap nxt by (simp add: loop_stops_at_def candidate_def word_less_nat_alt)
      ultimately show ?thesis by blast
    qed
  qed
qed


section \<open>The contract of \<open>page_alloc\<close>\<close>

lemma page_alloc_cases:
  assumes "pa_fits (page_alloc_state s)"
  obtains (page) k a pa where
      "page_alloc s = (Ok \<lparr>pa_address = PhysicalAddress a, pa_ptr = virtual_address (PhysicalAddress a)\<rparr>,
         s\<lparr>page_alloc_state := pa, kmem := fill_bytes (kmem s) (virtual_address (PhysicalAddress a)) 0 4096\<rparr>)"
      "loop_stops_at (page_alloc_state s) k (Some a, pa)"
  | (full) k pa where
      "page_alloc s = (Err (), s\<lparr>page_alloc_state := pa\<rparr>)"
      "loop_stops_at (page_alloc_state s) k (None, pa)"
proof -
  obtain k out where l: "alloc_loop (page_alloc_state s) = Some out"
      "loop_stops_at (page_alloc_state s) k out"
    using alloc_loop_returns [OF assms] by blast
  obtain res pa where out: "out = (res, pa)" by (cases out) auto
  show thesis
  proof (cases res)
    case None
    then show thesis using full l out by (simp add: page_alloc_def)
  next
    case (Some a)
    then show thesis using page l out by (simp add: page_alloc_def Let_def)
  qed
qed

text \<open>
  What a client may rely on. The first group is about the allocator, the second about memory.
\<close>

definition fresh_page :: "page_allocator \<Rightarrow> PhysicalAddress \<Rightarrow> page_allocator \<Rightarrow> bool" where
  "fresh_page pa p pa' \<longleftrightarrow>
     unat (allocated pa) \<le> unat (address p)
     \<and> unat (allocated pa') = unat (address p) + 4096
     \<and> unat (allocated pa') \<le> unat (capacity pa)
     \<and> 4096 dvd (unat (address p) - unat (allocated pa))
     \<and> page_bytes (unat (address p)) \<inter> reserved_bytes pa = {}
     \<and> capacity pa' = capacity pa \<and> reserved_ranges pa' = reserved_ranges pa"

lemma loop_stops_fresh:
  assumes "loop_stops_at pa k (Some a, pa')" and "pa_fits pa"
  shows "fresh_page pa (PhysicalAddress a) pa'"
proof -
  have eq: "pa' = pa\<lparr>allocated := allocated pa'\<rparr>" and a: "unat a = candidate pa k"
    and cap: "candidate pa k + 4096 \<le> unat (capacity pa)"
    and free: "\<not> intersects_reserved (reserved_ranges pa) a"
    and al: "unat (allocated pa') = candidate pa k + 4096"
    using assms(1) by (auto simp: loop_stops_at_def)
  have "capacity pa' = capacity pa" "reserved_ranges pa' = reserved_ranges pa"
    by (subst eq, simp)+
  moreover have "page_bytes (unat a) \<inter> reserved_bytes pa = {}"
    using not_intersects_reserved [OF _ free] a cap assms(2) by (simp add: pa_fits_def)
  ultimately show ?thesis
    using a cap al by (auto simp: fresh_page_def candidate_def)
qed

lemma fresh_page_fits:
  assumes "fresh_page pa p pa'" and "pa_fits pa"
  shows "pa_fits pa'"
  using assms by (auto simp: fresh_page_def pa_fits_def)

text \<open>
  C11. A page that \<^verbatim>\<open>PageAllocator::alloc\<close> returns lies above everything allocated before, below the
  capacity, a whole number of pages after the old counter, and outside every reserved range;
  it is mapped at its kernel address, all its bytes are zero, and no byte outside it changed.
\<close>

theorem page_alloc_ok:
  assumes "pa_fits (page_alloc_state s)" and "page_alloc s = (Ok p, s')"
  shows "fresh_page (page_alloc_state s) (pa_address p) (page_alloc_state s')
    \<and> pa_ptr p = virtual_address (pa_address p)
    \<and> (\<forall>x. kmem s' x = (if unat (x - pa_ptr p) < 4096 then 0 else kmem s x))"
  using assms(1)
proof (cases rule: page_alloc_cases)
  case (page k a pa)
  then show ?thesis
    using assms loop_stops_fresh [OF page(2)] by (auto simp: fill_bytes_def)
next
  case (full k pa)
  then show ?thesis using assms(2) by simp
qed

theorem page_alloc_ok_witness:
  "\<exists>p s'. page_alloc \<lparr>page_alloc_state = \<lparr>capacity = 0x4000, reserved_ranges = [(0, 0x1001)], allocated = 0\<rparr>,
                     kmem = (\<lambda>_. 7)\<rparr> = (Ok p, s')
     \<and> pa_address p = PhysicalAddress 0x2000 \<and> kmem s' (pa_ptr p + 4095) = 0"
proof -
  let ?s = "\<lparr>page_alloc_state = \<lparr>capacity = 0x4000, reserved_ranges = [(0, 0x1001)], allocated = 0\<rparr>,
             kmem = (\<lambda>_. 7)\<rparr> :: kmem_state"
  have run: "alloc_loop (page_alloc_state ?s) =
      Some (Some 0x2000, \<lparr>capacity = 0x4000, reserved_ranges = [(0, 0x1001)], allocated = 0x3000\<rparr>)"
    by (simp add: alloc_loop.simps intersects_reserved_def PAGE_SIZE_def)
  then obtain p s' where e: "page_alloc ?s = (Ok p, s')" and a: "pa_address p = PhysicalAddress 0x2000"
    by (simp add: page_alloc_def Let_def)
  have "pa_fits (page_alloc_state ?s)" by (simp add: pa_fits_def)
  from page_alloc_ok [OF this e] have "kmem s' (pa_ptr p + 4095) = 0" by simp
  with e a show ?thesis by blast
qed

text \<open>A page-sized slot, \<open>k\<close> pages after the counter, that can be handed out.\<close>

definition free_slot :: "page_allocator \<Rightarrow> nat \<Rightarrow> bool" where
  "free_slot pa k \<longleftrightarrow> candidate pa k + 4096 \<le> unat (capacity pa) \<and> page_bytes (candidate pa k) \<inter> reserved_bytes pa = {}"

text \<open>
  C28. The call always returns, and it fails only when memory is exhausted: it returns an error
  exactly when no page at or after the counter, in steps of a page, lies below the capacity
  and outside the (nonempty) reserved ranges. Otherwise it returns the first of these pages, and the counter is behind it.
\<close>

theorem page_alloc_complete:
  assumes "pa_fits (page_alloc_state s)" and "reserved_nonempty (page_alloc_state s)"
  shows "case page_alloc s of
      (Ok p, s') \<Rightarrow> \<exists>k. free_slot (page_alloc_state s) k \<and> (\<forall>j < k. \<not> free_slot (page_alloc_state s) j)
        \<and> unat (address (pa_address p)) = candidate (page_alloc_state s) k
        \<and> unat (allocated (page_alloc_state s')) = candidate (page_alloc_state s) k + 4096
    | (Err e, s') \<Rightarrow> \<forall>k. \<not> free_slot (page_alloc_state s) k
    | _ \<Rightarrow> False"
proof -
  let ?pa = "page_alloc_state s"
  have skipped: "\<not> free_slot ?pa j" if "loop_stops_at ?pa k out" and "j < k" for k j out
  proof -
    have "candidate ?pa j + 4096 \<le> unat (capacity ?pa)"
      and i: "intersects_reserved (reserved_ranges ?pa) (of_nat (candidate ?pa j))"
      using that by (auto simp: loop_stops_at_def)
    then have "candidate ?pa j + 4096 < 2 ^ 64" using assms(1) by (simp add: pa_fits_def)
    then show ?thesis
      using intersects_reservedD [OF _ assms(2) i] by (simp add: unat_of_nat64 free_slot_def)
  qed
  show ?thesis
    using assms(1)
  proof (cases rule: page_alloc_cases)
    case (page k a pa)
    have a: "unat a = candidate ?pa k" and c: "candidate ?pa k + 4096 \<le> unat (capacity ?pa)"
      using page(2) by (auto simp: loop_stops_at_def)
    have f: "fresh_page ?pa (PhysicalAddress a) pa" by (rule loop_stops_fresh [OF page(2) assms(1)])
    then have "free_slot ?pa k" using a c by (simp add: fresh_page_def free_slot_def)
    moreover have "unat (allocated pa) = candidate ?pa k + 4096" using f a by (simp add: fresh_page_def)
    ultimately show ?thesis using page(1) a skipped [OF page(2)] by auto
  next
    case (full k pa)
    have "\<not> free_slot ?pa j" for j
    proof (cases "j < k")
      case False
      then have "candidate ?pa k \<le> candidate ?pa j" by (simp add: candidate_def)
      moreover have "unat (capacity ?pa) < candidate ?pa k + 4096"
        using full(2) by (simp add: loop_stops_at_def)
      ultimately show ?thesis by (simp add: free_slot_def)
    qed (use skipped [OF full(2)] in blast)
    then show ?thesis using full(1) by simp
  qed
qed

theorem page_alloc_complete_witness:
  "\<exists>p s'. page_alloc \<lparr>page_alloc_state = \<lparr>capacity = 0x5000, reserved_ranges = [(0, 0x1800)], allocated = 0\<rparr>,
                    kmem = (\<lambda>_. 7)\<rparr> = (Ok p, s') \<and> unat (address (pa_address p)) = 0x2000"
proof -
  let ?s = "\<lparr>page_alloc_state = \<lparr>capacity = 0x5000, reserved_ranges = [(0, 0x1800)], allocated = 0\<rparr>,
             kmem = (\<lambda>_. 7)\<rparr> :: kmem_state"
  let ?pa = "page_alloc_state ?s"
  have slot: "free_slot ?pa k \<longleftrightarrow> 4096 * k + 4096 \<le> 20480 \<and> 6144 \<le> 4096 * k" for k
    by (auto simp: free_slot_def candidate_def page_bytes_def reserved_bytes_def atLeastLessThan_empty_iff)
  have "pa_fits ?pa" "reserved_nonempty ?pa" by (simp_all add: pa_fits_def reserved_nonempty_def)
  note c = page_alloc_complete [of ?s, OF this]
  have two: "free_slot ?pa 2" unfolding slot by simp
  obtain r s' where run: "page_alloc ?s = (r, s')" by (cases "page_alloc ?s") auto
  obtain p where p: "r = Ok p" using c run two by (cases r) auto
  then obtain k where k: "free_slot ?pa k" "\<forall>j < k. \<not> free_slot ?pa j" "unat (address (pa_address p)) = candidate ?pa k"
    using c run by auto
  have "2 \<le> k" using k(1) unfolding slot by linarith
  moreover have "\<not> 2 < k" using k(2) two by blast
  ultimately have "k = 2" by simp
  then show ?thesis using run p k(3) by (simp add: candidate_def)
qed

text \<open>Room for \<open>k\<close> more pages: the next \<open>k\<close> pages are below the capacity and free of reserved bytes.\<close>

definition room :: "nat \<Rightarrow> page_allocator \<Rightarrow> bool" where
  "room k pa \<longleftrightarrow> unat (allocated pa) + 4096 * k \<le> unat (capacity pa) \<and> reserved_nonempty pa
     \<and> (\<forall>x \<in> reserved_bytes pa. x < unat (allocated pa) \<or> unat (allocated pa) + 4096 * k \<le> x)"

lemma room_alloc:
  assumes r: "room (Suc k) pa" and fits: "pa_fits pa"
  shows "alloc_loop pa = Some (Some (allocated pa), pa\<lparr>allocated := allocated pa + PAGE_SIZE\<rparr>)"
    and "room k (pa\<lparr>allocated := allocated pa + PAGE_SIZE\<rparr>)"
proof -
  have nxt: "unat (allocated pa + PAGE_SIZE) = unat (allocated pa) + 4096"
    using fits by (simp add: pa_fits_def PAGE_SIZE_def unat_add_noof)
  have "page_bytes (unat (allocated pa)) \<inter> reserved_bytes pa = {}"
    using r by (fastforce simp: room_def page_bytes_def)
  then have "\<not> intersects_reserved (reserved_ranges pa) (allocated pa)"
    using intersects_reservedD [of "allocated pa" pa] r fits by (auto simp: room_def pa_fits_def)
  moreover have "\<not> capacity pa < allocated pa + PAGE_SIZE"
    using r nxt by (simp add: room_def word_less_nat_alt)
  ultimately show "alloc_loop pa = Some (Some (allocated pa), pa\<lparr>allocated := allocated pa + PAGE_SIZE\<rparr>)"
    by (subst alloc_loop.simps) (simp add: Let_def)
  show "room k (pa\<lparr>allocated := allocated pa + PAGE_SIZE\<rparr>)"
    using r nxt by (fastforce simp: room_def reserved_nonempty_def reserved_bytes_def)
qed

lemma room_less: "room (Suc k) pa \<Longrightarrow> room k pa"
  by (fastforce simp: room_def)

section \<open>Runs of allocations\<close>

definition page_alloc_opt :: "unit \<Rightarrow> 'z kmem_state_scheme \<Rightarrow> PhysicalAddress option \<times> 'z kmem_state_scheme" where
  "page_alloc_opt r s =
     (case page_alloc s of (Ok p, s') \<Rightarrow> (Some (pa_address p), s') | (_, s') \<Rightarrow> (None, s'))"

interpretation pages: linear_allocator page_alloc_opt
  "\<lambda>r s. pa_fits (page_alloc_state s)" "\<lambda>s. unat (allocated (page_alloc_state s))"
  "\<lambda>r p. unat (address p)" "\<lambda>r p. unat (address p) + 4096"
proof unfold_locales
  fix r :: unit and s :: "'z kmem_state_scheme"
  assume fits: "pa_fits (page_alloc_state s)"
  then show "unat (allocated (page_alloc_state s)) \<le> unat (allocated (page_alloc_state (snd (page_alloc_opt r s))))"
  proof (cases rule: page_alloc_cases)
    case (page k a pa)
    then show ?thesis by (auto simp: page_alloc_opt_def loop_stops_at_def candidate_def)
  next
    case (full k pa)
    then show ?thesis by (auto simp: page_alloc_opt_def loop_stops_at_def candidate_def)
  qed
next
  fix r :: unit and s s' :: "'z kmem_state_scheme" and p
  assume fits: "pa_fits (page_alloc_state s)" and a: "page_alloc_opt r s = (Some p, s')"
  from fits show "unat (allocated (page_alloc_state s)) \<le> unat (address p)
      \<and> unat (address p) + 4096 \<le> unat (allocated (page_alloc_state s'))"
  proof (cases rule: page_alloc_cases)
    case (page k b pa)
    then show ?thesis using a by (auto simp: page_alloc_opt_def loop_stops_at_def candidate_def)
  next
    case (full k pa)
    then show ?thesis using a by (auto simp: page_alloc_opt_def)
  qed
qed

text \<open>After a call the counter is at most one page above the larger of itself and the capacity.\<close>

lemma page_alloc_opt_advance:
  assumes "pa_fits (page_alloc_state s)"
  shows "unat (allocated (page_alloc_state (snd (page_alloc_opt r s))))
           \<le> max (unat (allocated (page_alloc_state s))) (unat (capacity (page_alloc_state s))) + 4096
    \<and> capacity (page_alloc_state (snd (page_alloc_opt r s))) = capacity (page_alloc_state s)"
proof -
  have step: "unat (allocated pa') \<le> max (unat (allocated pa)) (unat (capacity pa)) + 4096
      \<and> capacity pa' = capacity pa" if l: "loop_stops_at pa k (x, pa')" for pa k x pa'
  proof -
    have "pa' = pa\<lparr>allocated := allocated pa'\<rparr>" using l by (simp add: loop_stops_at_def)
    then have c: "capacity pa' = capacity pa" by (metis page_allocator.select_convs(1) page_allocator.surjective page_allocator.update_convs(3))
    have "candidate pa k \<le> max (unat (allocated pa)) (unat (capacity pa))"
    proof (cases k)
      case 0
      then show ?thesis by (simp add: candidate_def)
    next
      case (Suc j)
      then have "candidate pa j + 4096 \<le> unat (capacity pa)" using l by (simp add: loop_stops_at_def)
      then show ?thesis using Suc by (simp add: candidate_def)
    qed
    then show ?thesis using l c by (simp add: loop_stops_at_def)
  qed
  from assms show ?thesis
    by (cases rule: page_alloc_cases) (auto simp: page_alloc_opt_def dest: step)
qed

lemma pages_run_fits:
  assumes "max (unat (allocated (page_alloc_state s))) (unat (capacity (page_alloc_state s)))
      + 4096 * (n + 1) < 2 ^ 64"
  shows "pages.run_fits (replicate n ()) s"
  using assms
proof (induction n arbitrary: s)
  case 0
  then show ?case by simp
next
  case (Suc n)
  have fits: "pa_fits (page_alloc_state s)" using Suc.prems by (auto simp: pa_fits_def)
  have "pages.run_fits (replicate n ()) (snd (page_alloc_opt () s))"
    by (rule Suc.IH) (use Suc.prems page_alloc_opt_advance [OF fits, of "()"] in auto)
  then show ?case using fits by simp
qed

text \<open>
  C30. The pages handed out by any number of calls are in increasing order and a page apart, so
  no two allocations share a byte, whatever fails in between; the hypothesis says that the
  counter cannot wrap in that many calls.
\<close>

theorem page_allocs_disjoint:
  assumes "max (unat (allocated (page_alloc_state s))) (unat (capacity (page_alloc_state s)))
      + 4096 * (n + 1) < 2 ^ 64"
    and "pages.run_allocs (replicate n ()) s = (ps, s')"
  shows "sorted_wrt (\<lambda>p q. unat (address p) + 4096 \<le> unat (address q)) (map snd ps)"
  using pages.run_allocs_ordered [OF pages_run_fits [OF assms(1)] assms(2)]
  by (simp add: sorted_wrt_map case_prod_unfold)

theorem page_allocs_disjoint_witness:
  "sorted_wrt (\<lambda>p q. unat (address p) + 4096 \<le> unat (address q))
     (map snd (fst (pages.run_allocs (replicate 1000 ())
        \<lparr>page_alloc_state = page_allocator_new 0x40000000
            [(PhysicalAddress 0, PhysicalAddress 0x600000), (PhysicalAddress 0x3F000000, PhysicalAddress 0x40000000)],
         kmem = (\<lambda>_. 0)\<rparr>)))"
  by (rule page_allocs_disjoint [where n = 1000, OF _ surjective_pairing])
    (simp add: page_allocator_new_def)

end
