(* ===== verification/Page_Table.thy ===== *)
theory Page_Table
  imports Address
begin

unbundle bit_operations_syntax

text \<open>
  AArch64 translation tables (\<^verbatim>\<open>memory/aarch64/page_table.rs\<close>): descriptor formats, table and
  row managers. A table is 512 rows of 64 bits at a pointer; reading and writing a row goes
  through kernel memory, with the bounds assertion of \<^verbatim>\<open>Index for Table\<close> as a panic branch.
  Levels are the source's \<^verbatim>\<open>i8\<close> values; they stay between 0 and 3 and are integers here.
\<close>

section \<open>Constants\<close>

definition ROW_COUNT :: usize where
  [consts_defs]: "ROW_COUNT = 4096 div 8"

definition LEVEL_ROOT :: int where
  [consts_defs]: "LEVEL_ROOT = 0"

definition LEVEL_MAX :: int where
  [consts_defs]: "LEVEL_MAX = 3"

definition TYPE_MASK :: u64 where
  [consts_defs]: "TYPE_MASK = 0b11"

definition TYPE_TABLE :: u64 where
  [consts_defs]: "TYPE_TABLE = 0b11"

definition TYPE_BLOCK :: u64 where
  [consts_defs]: "TYPE_BLOCK = 0b01"

definition TYPE_PAGE :: u64 where
  [consts_defs]: "TYPE_PAGE = 0b11"

definition TABLE_ADDRESS_MASK :: u64 where
  [consts_defs]: "TABLE_ADDRESS_MASK = 0xFFFFFFFFF000"

definition BLOCK_ADDRESS_MASK :: u64 where
  [consts_defs]: "BLOCK_ADDRESS_MASK = 0xFFFFFFE00000"

definition PAGE_ADDRESS_MASK :: u64 where
  [consts_defs]: "PAGE_ADDRESS_MASK = 0xFFFFFFFFF000"

definition UNPRIVILEGED :: u64 where
  [consts_defs]: "UNPRIVILEGED = push_bit 6 1"

definition ACCESS_FLAG :: u64 where
  [consts_defs]: "ACCESS_FLAG = push_bit 10 1"

definition NOT_GLOBAL :: u64 where
  [consts_defs]: "NOT_GLOBAL = push_bit 11 1"

definition ATTRIBUTE_SHIFT :: nat where
  [consts_defs]: "ATTRIBUTE_SHIFT = 2"

definition ATTRIBUTE_MASK :: u64 where
  [consts_defs]: "ATTRIBUTE_MASK = push_bit ATTRIBUTE_SHIFT 0b111"

datatype Attribute = Device | Normal | NormalNC

fun attribute_index :: "Attribute \<Rightarrow> u64" where
  "attribute_index Device = 0"
| "attribute_index Normal = 1"
| "attribute_index NormalNC = 2"

datatype DescriptorType = Table | Block | Page

section \<open>Descriptor builders\<close>

datatype TableDescriptorBuilder = TableDescriptorBuilder (td_pending: u64)
datatype BlockDescriptorBuilder = BlockDescriptorBuilder (bd_pending: u64)
datatype PageDescriptorBuilder = PageDescriptorBuilder (pd_pending: u64)

definition table_desc_new :: "PhysicalAddress \<Rightarrow> TableDescriptorBuilder res" where
  "table_desc_new p =
     (if (address p AND NOT TABLE_ADDRESS_MASK) \<noteq> 0 then Err ()
      else Ok (TableDescriptorBuilder (TYPE_TABLE OR address p)))"

definition table_desc_address :: "TableDescriptorBuilder \<Rightarrow> PhysicalAddress" where
  "table_desc_address b = PhysicalAddress (td_pending b AND TABLE_ADDRESS_MASK)"

definition block_desc_new :: "PhysicalAddress \<Rightarrow> BlockDescriptorBuilder res" where
  "block_desc_new p =
     (if (address p AND NOT BLOCK_ADDRESS_MASK) \<noteq> 0 then Err ()
      else Ok (BlockDescriptorBuilder (TYPE_BLOCK OR ACCESS_FLAG OR NOT_GLOBAL OR address p)))"

definition block_desc_set_attribute :: "Attribute \<Rightarrow> BlockDescriptorBuilder \<Rightarrow> BlockDescriptorBuilder" where
  "block_desc_set_attribute a b = BlockDescriptorBuilder
     ((bd_pending b AND NOT ATTRIBUTE_MASK) OR push_bit ATTRIBUTE_SHIFT (attribute_index a))"

definition block_desc_address :: "BlockDescriptorBuilder \<Rightarrow> PhysicalAddress" where
  "block_desc_address b = PhysicalAddress (bd_pending b AND BLOCK_ADDRESS_MASK)"

definition page_desc_new :: "PhysicalAddress \<Rightarrow> PageDescriptorBuilder res" where
  "page_desc_new p =
     (if (address p AND NOT PAGE_ADDRESS_MASK) \<noteq> 0 then Err ()
      else Ok (PageDescriptorBuilder (TYPE_PAGE OR ACCESS_FLAG OR NOT_GLOBAL OR address p)))"

definition page_desc_set_attribute :: "Attribute \<Rightarrow> PageDescriptorBuilder \<Rightarrow> PageDescriptorBuilder" where
  "page_desc_set_attribute a b = PageDescriptorBuilder
     ((pd_pending b AND NOT ATTRIBUTE_MASK) OR push_bit ATTRIBUTE_SHIFT (attribute_index a))"

definition page_desc_set_unprivileged :: "bool \<Rightarrow> PageDescriptorBuilder \<Rightarrow> PageDescriptorBuilder" where
  "page_desc_set_unprivileged u b = PageDescriptorBuilder
     (if u then pd_pending b OR UNPRIVILEGED else pd_pending b AND NOT UNPRIVILEGED)"

definition page_desc_address :: "PageDescriptorBuilder \<Rightarrow> PhysicalAddress" where
  "page_desc_address b = PhysicalAddress (pd_pending b AND PAGE_ADDRESS_MASK)"

section \<open>Table and row managers\<close>

record table_manager =
  tm_table :: usize
  tm_level :: int
  tm_start :: usize

record row_manager =
  row_table :: table_manager
  row_index :: usize

definition table_manager_new :: "usize \<Rightarrow> int \<Rightarrow> usize \<Rightarrow> table_manager" where
  "table_manager_new table level start = \<lparr>tm_table = table, tm_level = level, tm_start = start\<rparr>"

definition tm_len :: "table_manager \<Rightarrow> usize" where
  "tm_len t = 4096 * ROW_COUNT ^ unat (word_of_int (LEVEL_MAX - tm_level t + 1) :: u32)"

definition tm_row :: "table_manager \<Rightarrow> usize \<Rightarrow> row_manager" where
  "tm_row t i = \<lparr>row_table = t, row_index = i\<rparr>"

definition row_by_address :: "table_manager \<Rightarrow> usize \<Rightarrow> row_manager res" where
  "row_by_address t addr =
     (let start = tm_start t; end = start + tm_len t; row_size = tm_len t div ROW_COUNT
      in if addr < start \<or> end \<le> addr then Err ()
         else Ok \<lparr>row_table = t, row_index = (addr - start) div row_size\<rparr>)"

text \<open>The address of a row in memory.\<close>

definition row_ptr :: "row_manager \<Rightarrow> u64" where
  "row_ptr r = tm_table (row_table r) + 8 * row_index r"

definition row_value :: "mem \<Rightarrow> row_manager \<Rightarrow> u64 res" where
  "row_value m r = (if row_index r < ROW_COUNT then Ok (read_u64 m (row_ptr r)) else Panic)"

definition row_set_value :: "row_manager \<Rightarrow> u64 \<Rightarrow> mem \<Rightarrow> unit res \<times> mem" where
  "row_set_value r v m =
     (if row_index r < ROW_COUNT then (Ok (), write_u64 m (row_ptr r) v) else (Panic, m))"

definition row_len :: "row_manager \<Rightarrow> usize" where
  "row_len r = tm_len (row_table r) div ROW_COUNT"

definition row_start :: "row_manager \<Rightarrow> usize" where
  "row_start r = tm_start (row_table r) + row_len r * row_index r"

text \<open>The match of \<^verbatim>\<open>descriptor_type\<close>: the guards are tried in the source's order.\<close>

definition classify_row :: "int \<Rightarrow> u64 \<Rightarrow> DescriptorType option" where
  "classify_row level v =
     (let t = v AND TYPE_MASK in
      if t = TYPE_TABLE \<and> level < LEVEL_MAX then Some Table
      else if t = TYPE_BLOCK \<and> level > 0 then Some Block
      else if t = TYPE_PAGE \<and> level = LEVEL_MAX then Some Page
      else None)"

definition descriptor_type :: "mem \<Rightarrow> row_manager \<Rightarrow> DescriptorType option res" where
  "descriptor_type m r = bind_res (row_value m r) (\<lambda>v. Ok (classify_row (tm_level (row_table r)) v))"

definition write_table :: "row_manager \<Rightarrow> TableDescriptorBuilder \<Rightarrow> mem \<Rightarrow> unit res \<times> mem" where
  "write_table r b m =
     (if tm_level (row_table r) \<ge> LEVEL_MAX then (Err (), m) else row_set_value r (td_pending b) m)"

definition write_block :: "row_manager \<Rightarrow> BlockDescriptorBuilder \<Rightarrow> mem \<Rightarrow> unit res \<times> mem" where
  "write_block r b m =
     (if tm_level (row_table r) \<le> LEVEL_ROOT then (Err (), m) else row_set_value r (bd_pending b) m)"

definition write_page :: "row_manager \<Rightarrow> PageDescriptorBuilder \<Rightarrow> mem \<Rightarrow> unit res \<times> mem" where
  "write_page r b m =
     (if tm_level (row_table r) \<noteq> LEVEL_MAX then (Err (), m) else row_set_value r (pd_pending b) m)"

definition load_table :: "mem \<Rightarrow> row_manager \<Rightarrow> TableDescriptorBuilder res" where
  "load_table m r = bind_res (descriptor_type m r) (\<lambda>t.
     case t of Some Table \<Rightarrow> bind_res (row_value m r) (\<lambda>v. Ok (TableDescriptorBuilder v)) | _ \<Rightarrow> Err ())"

definition load_block :: "mem \<Rightarrow> row_manager \<Rightarrow> BlockDescriptorBuilder res" where
  "load_block m r = bind_res (descriptor_type m r) (\<lambda>t.
     case t of Some Block \<Rightarrow> bind_res (row_value m r) (\<lambda>v. Ok (BlockDescriptorBuilder v)) | _ \<Rightarrow> Err ())"

definition load_page :: "mem \<Rightarrow> row_manager \<Rightarrow> PageDescriptorBuilder res" where
  "load_page m r = bind_res (descriptor_type m r) (\<lambda>t.
     case t of Some Page \<Rightarrow> bind_res (row_value m r) (\<lambda>v. Ok (PageDescriptorBuilder v)) | _ \<Rightarrow> Err ())"

section \<open>Descriptor formats\<close>

lemma and_or_mask:
  fixes a m f :: "'a::len word"
  assumes "a AND NOT m = 0" and "f AND m = 0"
  shows "(f OR a) AND m = a"
  using assms by (auto simp: bit_eq_iff bit_simps)

lemma or_and_disjoint:
  fixes a m :: "'a::len word"
  assumes "a AND NOT m = 0" and "m AND t = 0"
  shows "(f OR a) AND t = f AND t"
  using assms by (auto simp: bit_eq_iff bit_simps)

text \<open>
  What the three builders share: an address field selected by \<open>mask\<close>, the type bits, and other
  flags, none of which overlap. A setter that touches only bits outside the address field
  and the type bits changes neither what \<open>addr\<close> reads back nor how the row is classified.
\<close>

locale descriptor_format =
  fixes new :: "PhysicalAddress \<Rightarrow> 'b res"
    and mk :: "u64 \<Rightarrow> 'b" and pending :: "'b \<Rightarrow> u64"
    and addr :: "'b \<Rightarrow> PhysicalAddress"
    and mask :: u64 and tybits :: u64 and flags :: u64
  assumes new_eq: "new p = (if (address p AND NOT mask) \<noteq> 0 then Err () else Ok (mk (tybits OR flags OR address p)))"
    and addr_eq: "addr b = PhysicalAddress (pending b AND mask)"
    and pending_mk: "pending (mk v) = v"
    and fields: "(tybits OR flags) AND mask = 0" "mask AND TYPE_MASK = 0"
    and tybits_flags: "(tybits OR flags) AND TYPE_MASK = tybits"
begin

lemma new_address:
  assumes "new p = Ok b"
  shows "addr b = p \<and> pending b AND TYPE_MASK = tybits"
proof -
  have ok: "address p AND NOT mask = 0" and b: "b = mk (tybits OR flags OR address p)"
    using assms by (auto simp: new_eq split: if_splits)
  have "addr b = p"
    using and_or_mask [OF ok fields(1)] by (simp add: b addr_eq pending_mk or.assoc)
  moreover have "pending b AND TYPE_MASK = tybits"
    using or_and_disjoint [OF ok fields(2), of "tybits OR flags"]
    by (simp add: b pending_mk tybits_flags or.assoc)
  ultimately show ?thesis by simp
qed

lemma new_error: "new p = Err () \<longleftrightarrow> (address p AND NOT mask) \<noteq> 0"
  by (simp add: new_eq)

lemma setter_keeps:
  assumes "\<And>n. bit (pending b') n \<noteq> bit (pending b) n \<Longrightarrow> \<not> bit mask n \<and> \<not> bit TYPE_MASK n"
  shows "addr b' = addr b \<and> pending b' AND TYPE_MASK = pending b AND TYPE_MASK"
  using assms by (auto simp: addr_eq bit_eq_iff bit_and_iff)

end

interpretation table_desc: descriptor_format table_desc_new TableDescriptorBuilder td_pending
  table_desc_address TABLE_ADDRESS_MASK TYPE_TABLE 0
  by unfold_locales (simp_all add: table_desc_new_def table_desc_address_def consts_defs)

interpretation block_desc: descriptor_format block_desc_new BlockDescriptorBuilder bd_pending
  block_desc_address BLOCK_ADDRESS_MASK TYPE_BLOCK "ACCESS_FLAG OR NOT_GLOBAL"
proof (unfold_locales, goal_cases)
  case (1 p)
  show ?case by (simp add: block_desc_new_def or.assoc)
qed (simp_all add: block_desc_address_def consts_defs)

interpretation page_desc: descriptor_format page_desc_new PageDescriptorBuilder pd_pending
  page_desc_address PAGE_ADDRESS_MASK TYPE_PAGE "ACCESS_FLAG OR NOT_GLOBAL"
proof (unfold_locales, goal_cases)
  case (1 p)
  show ?case by (simp add: page_desc_new_def or.assoc)
qed (simp_all add: page_desc_address_def consts_defs)


text \<open>The setters stay inside their own fields.\<close>

lemma attribute_bits: "bit (push_bit ATTRIBUTE_SHIFT (attribute_index a) :: u64) n \<Longrightarrow> bit ATTRIBUTE_MASK n"
proof -
  assume b: "bit (push_bit ATTRIBUTE_SHIFT (attribute_index a) :: u64) n"
  have "push_bit ATTRIBUTE_SHIFT (attribute_index a) AND ATTRIBUTE_MASK
      = (push_bit ATTRIBUTE_SHIFT (attribute_index a) :: u64)"
    by (cases a) (simp_all add: ATTRIBUTE_SHIFT_def ATTRIBUTE_MASK_def)
  with b show ?thesis by (metis bit_and_iff)
qed

lemma set_attribute_bits:
  fixes v :: u64
  assumes "bit ((v AND NOT ATTRIBUTE_MASK) OR push_bit ATTRIBUTE_SHIFT (attribute_index a)) n \<noteq> bit v n"
  shows "bit ATTRIBUTE_MASK n"
proof -
  have "n < 64" using assms by (auto dest: bit_imp_le_length)
  with assms show ?thesis
    using attribute_bits [of a n] by (auto simp: bit_or_iff bit_and_iff bit_not_iff)
qed

lemma masks_disjoint:
  "ATTRIBUTE_MASK AND PAGE_ADDRESS_MASK = 0" "ATTRIBUTE_MASK AND BLOCK_ADDRESS_MASK = 0"
  "ATTRIBUTE_MASK AND TYPE_MASK = 0"
  "UNPRIVILEGED AND PAGE_ADDRESS_MASK = 0" "UNPRIVILEGED AND TYPE_MASK = 0"
  by (simp_all add: consts_defs)

lemma disjoint_bits: "a AND b = (0 :: u64) \<Longrightarrow> bit a n \<Longrightarrow> \<not> bit b n"
  by (metis bit_and_iff bit_0_eq bot_apply bot_bool_def)

lemma page_desc_set_attribute_keeps:
  "page_desc_address (page_desc_set_attribute a b) = page_desc_address b
   \<and> pd_pending (page_desc_set_attribute a b) AND TYPE_MASK = pd_pending b AND TYPE_MASK"
proof (rule page_desc.setter_keeps)
  fix n assume "bit (pd_pending (page_desc_set_attribute a b)) n \<noteq> bit (pd_pending b) n"
  then have "bit ATTRIBUTE_MASK n"
    by (intro set_attribute_bits [of "pd_pending b" a n]) (simp add: page_desc_set_attribute_def)
  then show "\<not> bit PAGE_ADDRESS_MASK n \<and> \<not> bit TYPE_MASK n"
    using disjoint_bits [OF masks_disjoint(1)] disjoint_bits [OF masks_disjoint(3)] by blast
qed

lemma page_desc_set_unprivileged_keeps:
  "page_desc_address (page_desc_set_unprivileged u b) = page_desc_address b
   \<and> pd_pending (page_desc_set_unprivileged u b) AND TYPE_MASK = pd_pending b AND TYPE_MASK"
proof (rule page_desc.setter_keeps)
  fix n assume d: "bit (pd_pending (page_desc_set_unprivileged u b)) n \<noteq> bit (pd_pending b) n"
  then have "n < 64" by (auto dest: bit_imp_le_length)
  with d have "bit UNPRIVILEGED n"
    by (auto simp: page_desc_set_unprivileged_def bit_or_iff bit_and_iff bit_not_iff split: if_splits)
  then show "\<not> bit PAGE_ADDRESS_MASK n \<and> \<not> bit TYPE_MASK n"
    using disjoint_bits [OF masks_disjoint(4)] disjoint_bits [OF masks_disjoint(5)] by blast
qed

lemma block_desc_set_attribute_keeps:
  "block_desc_address (block_desc_set_attribute a b) = block_desc_address b
   \<and> bd_pending (block_desc_set_attribute a b) AND TYPE_MASK = bd_pending b AND TYPE_MASK"
proof (rule block_desc.setter_keeps)
  fix n assume "bit (bd_pending (block_desc_set_attribute a b)) n \<noteq> bit (bd_pending b) n"
  then have "bit ATTRIBUTE_MASK n"
    by (intro set_attribute_bits [of "bd_pending b" a n]) (simp add: block_desc_set_attribute_def)
  then show "\<not> bit BLOCK_ADDRESS_MASK n \<and> \<not> bit TYPE_MASK n"
    using disjoint_bits [OF masks_disjoint(2)] disjoint_bits [OF masks_disjoint(3)] by blast
qed

section \<open>Rows by address\<close>

text \<open>
  The architecture's view: at level \<open>l\<close> a table covers \<open>2 ^ (48 - 9 l)\<close> bytes, and the row that
  translates an address is selected by nine of its bits.
\<close>

definition row_shift :: "nat \<Rightarrow> nat" where
  "row_shift l = 39 - 9 * l"

definition va_index :: "nat \<Rightarrow> usize \<Rightarrow> nat" where
  "va_index l va = unat va div 2 ^ row_shift l mod 512"

definition va_base :: "nat \<Rightarrow> usize \<Rightarrow> nat" where
  "va_base l va = unat va div 2 ^ (row_shift l + 9) * 2 ^ (row_shift l + 9)"

text \<open>A manager for the level-\<open>l\<close> table on the way to \<open>va\<close>.\<close>

definition tm_on_path :: "table_manager \<Rightarrow> nat \<Rightarrow> usize \<Rightarrow> bool" where
  "tm_on_path t l va \<longleftrightarrow> l \<le> 3 \<and> tm_level t = int l \<and> unat (tm_start t) = va_base l va"

lemma level_cases: "(l :: nat) \<le> 3 \<Longrightarrow> l = 0 \<or> l = 1 \<or> l = 2 \<or> l = 3"
  by auto

lemma unat_tm_len:
  assumes "l \<le> 3" and "tm_level t = int l"
  shows "unat (tm_len t) = 2 ^ (row_shift l + 9)"
  using level_cases [OF assms(1)] assms(2)
  by (auto simp: tm_len_def row_shift_def LEVEL_MAX_def ROW_COUNT_def)

lemma unat_row_size:
  assumes "l \<le> 3" and "tm_level t = int l"
  shows "unat (tm_len t div ROW_COUNT) = 2 ^ row_shift l"
  using unat_tm_len [OF assms]
  by (simp add: unat_div_distrib ROW_COUNT_def power_add)

lemma va_base_bounds:
  assumes "unat va < 2 ^ 48" and "l \<le> 3"
  shows "va_base l va \<le> unat va" and "unat va < va_base l va + 2 ^ (row_shift l + 9)"
    and "va_base l va + 2 ^ (row_shift l + 9) \<le> 2 ^ 48"
    and "unat va - va_base l va = unat va mod 2 ^ (row_shift l + 9)"
proof -
  let ?n = "2 ^ (row_shift l + 9) :: nat"
  show "va_base l va \<le> unat va" by (simp add: va_base_def)
  show "unat va < va_base l va + ?n"
    using dividend_less_div_times [of ?n "unat va"] by (simp add: va_base_def add.commute)
  show "unat va - va_base l va = unat va mod ?n"
    by (simp add: va_base_def minus_div_mult_eq_mod)
  have "row_shift l + 9 + 9 * l = 48" using assms(2) by (simp add: row_shift_def)
  then have "2 ^ 48 = ?n * 2 ^ (9 * l)" by (metis power_add)
  then have "unat va div ?n < 2 ^ (9 * l)"
    using assms(1) by (simp add: less_mult_imp_div_less mult.commute)
  then have "(unat va div ?n + 1) * ?n \<le> 2 ^ (9 * l) * ?n" by (intro mult_le_mono1) simp
  also have "\<dots> = 2 ^ 48" using \<open>2 ^ 48 = ?n * 2 ^ (9 * l)\<close> by (simp add: mult.commute)
  finally show "va_base l va + ?n \<le> 2 ^ 48" by (simp add: va_base_def algebra_simps)
qed

text \<open>The row chosen by \<^verbatim>\<open>row_by_address\<close> is the one the architecture's index bits select.\<close>

lemma row_by_address_on_path:
  assumes t: "tm_on_path t l va" and va: "unat va < 2 ^ 48"
  shows "\<exists>i. row_by_address t va = Ok (tm_row t i) \<and> unat i = va_index l va"
proof -
  have l: "l \<le> 3" "tm_level t = int l" and st: "unat (tm_start t) = va_base l va"
    using t by (simp_all add: tm_on_path_def)
  note b = va_base_bounds [OF va l(1)]
  have en: "unat (tm_start t + tm_len t) = va_base l va + 2 ^ (row_shift l + 9)"
    using b(3) unat_tm_len [OF l] st by (subst unat_add_noof) auto
  have "row_by_address t va = Ok (tm_row t ((va - tm_start t) div (tm_len t div ROW_COUNT)))"
    using b(1,2) en st
    by (auto simp: row_by_address_def Let_def tm_row_def word_less_nat_alt word_le_nat_alt)
  moreover have "unat (va - tm_start t) = unat va mod 2 ^ (row_shift l + 9)"
    using b(1,4) st by (subst unat_sub_noof) auto
  then have "unat ((va - tm_start t) div (tm_len t div ROW_COUNT)) = va_index l va"
    using unat_row_size [OF l]
    by (simp add: unat_div_distrib [of "va - tm_start t"] va_index_def power_add mod_mult2_eq)
  ultimately show ?thesis by blast
qed

lemma row_by_address_outside:
  assumes "2 ^ 48 \<le> unat va"
  shows "row_by_address (table_manager_new table LEVEL_ROOT 0) va = Err ()"
  using assms unat_tm_len [of 0 "table_manager_new table LEVEL_ROOT 0"]
  by (simp add: row_by_address_def table_manager_new_def LEVEL_ROOT_def row_shift_def
      word_less_nat_alt word_le_nat_alt)

text \<open>The row's own range starts where the next level's table does.\<close>

lemma row_start_on_path:
  assumes t: "tm_on_path t l va" and va: "unat va < 2 ^ 48" and i: "unat i = va_index l va" and "l < 3"
  shows "unat (row_start (tm_row t i)) = va_base (Suc l) va"
proof -
  have l: "l \<le> 3" "tm_level t = int l" and st: "unat (tm_start t) = va_base l va"
    using t by (simp_all add: tm_on_path_def)
  note b = va_base_bounds [OF va l(1)]
  let ?s = "2 ^ row_shift l :: nat"
  have s: "row_shift (Suc l) + 9 = row_shift l" using \<open>l < 3\<close> by (simp add: row_shift_def)
  have lt: "va_index l va < 512" by (simp add: va_index_def)
  have "?s * va_index l va < 2 ^ (row_shift l + 9)" using lt by (simp add: power_add)
  then have m: "unat (row_len (tm_row t i) * i) = ?s * va_index l va"
    using unat_row_size [OF l] i b(3)
    by (subst unat_mult_noof) (auto simp: row_len_def tm_row_def)
  have sum: "va_base l va + ?s * va_index l va = va_base (Suc l) va"
  proof -
    have "unat va div ?s = 512 * (unat va div ?s div 512) + unat va div ?s mod 512" by simp
    then have "unat va div ?s * ?s
        = 512 * (unat va div ?s div 512) * ?s + unat va div ?s mod 512 * ?s"
      by (metis add_mult_distrib)
    then show ?thesis
      using s by (simp add: va_base_def va_index_def power_add div_mult2_eq mult.commute mult.left_commute)
  qed
  have "va_base (Suc l) va < 2 ^ 64" using va_base_bounds(1) [OF va, of "Suc l"] va \<open>l < 3\<close> by simp
  then show ?thesis
    using m st sum by (simp add: row_start_def tm_row_def unat_add_noof)
qed

end
