(* ===== verification/Table_Walk.thy ===== *)
theory Table_Walk
  imports Page_Table
begin

unbundle bit_operations_syntax

text \<open>
  An abstract view of a translation-table tree, for reasoning about \<^verbatim>\<open>MemoryContext\<close>. The rows of
  all tables are a function from table pointer and index to descriptor. A table is named
  by the path of row indices that leads to it from the root, an entry by a path of four.
  The walk classifies and decodes rows with the code's own functions.
\<close>

type_synonym rows = "usize \<Rightarrow> nat \<Rightarrow> u64"

definition next_table :: "rows \<Rightarrow> nat \<Rightarrow> usize \<Rightarrow> nat \<Rightarrow> usize option" where
  "next_table R l t i =
     (if classify_row (int l) (R t i) = Some Table
      then Some (virtual_address (table_desc_address (TableDescriptorBuilder (R t i)))) else None)"

fun table_from :: "rows \<Rightarrow> nat \<Rightarrow> usize \<Rightarrow> nat list \<Rightarrow> usize option" where
  "table_from R l t [] = Some t"
| "table_from R l t (i # is) = (case next_table R l t i of None \<Rightarrow> None | Some t' \<Rightarrow> table_from R (Suc l) t' is)"

definition table_at :: "rows \<Rightarrow> usize \<Rightarrow> nat list \<Rightarrow> usize option" where
  "table_at R root p = table_from R 0 root p"

definition page_row :: "rows \<Rightarrow> usize \<Rightarrow> nat \<Rightarrow> u64 option" where
  "page_row R t i = (if classify_row LEVEL_MAX (R t i) = Some Page then Some (R t i) else None)"

text \<open>The page entry at the end of a path of four indices.\<close>

definition entry_at :: "rows \<Rightarrow> usize \<Rightarrow> nat list \<Rightarrow> u64 option" where
  "entry_at R root p = (case table_at R root (butlast p) of None \<Rightarrow> None | Some t \<Rightarrow> page_row R t (last p))"

definition valid_path :: "nat list \<Rightarrow> bool" where
  "valid_path p \<longleftrightarrow> length p \<le> 3 \<and> (\<forall>i \<in> set p. i < 512)"

definition valid_entry_path :: "nat list \<Rightarrow> bool" where
  "valid_entry_path p \<longleftrightarrow> length p = 4 \<and> (\<forall>i \<in> set p. i < 512)"

lemma table_from_append:
  "table_from R l t (p @ q) =
     (case table_from R l t p of None \<Rightarrow> None | Some t' \<Rightarrow> table_from R (l + length p) t' q)"
  by (induction p arbitrary: l t) (auto split: option.splits)

lemma table_at_Nil [simp]: "table_at R root [] = Some root"
  by (simp add: table_at_def)

lemma table_at_snoc:
  "table_at R root (p @ [i]) =
     (case table_at R root p of None \<Rightarrow> None | Some t \<Rightarrow> next_table R (length p) t i)"
  by (auto simp: table_at_def table_from_append split: option.splits)

lemma entry_at_snoc:
  "entry_at R root (p @ [i]) =
     (case table_at R root p of None \<Rightarrow> None | Some t \<Rightarrow> page_row R t i)"
  by (simp add: entry_at_def split: option.split)

lemma valid_path_snocD: "valid_path (p @ [i]) \<Longrightarrow> valid_path p \<and> i < 512 \<and> length p < 3"
  by (auto simp: valid_path_def)

lemma valid_entry_pathE:
  assumes "valid_entry_path p"
  obtains q i where "p = q @ [i]" "valid_path q" "length q = 3" "i < 512"
proof -
  have "p \<noteq> []" using assms by (auto simp: valid_entry_path_def)
  then obtain q i where "p = q @ [i]" by (metis rev_exhaust)
  then show thesis using that assms by (auto simp: valid_entry_path_def valid_path_def)
qed

lemma classify_zero [simp]: "classify_row l 0 = None"
  by (simp add: classify_row_def consts_defs)

text \<open>No two paths lead to the same table.\<close>

definition tree_inj :: "rows \<Rightarrow> usize \<Rightarrow> bool" where
  "tree_inj R root \<longleftrightarrow> (\<forall>p q t. valid_path p \<longrightarrow> valid_path q \<longrightarrow>
     table_at R root p = Some t \<longrightarrow> table_at R root q = Some t \<longrightarrow> p = q)"

definition tables_in :: "rows \<Rightarrow> usize \<Rightarrow> usize set \<Rightarrow> bool" where
  "tables_in R root ts \<longleftrightarrow> (\<forall>p t. valid_path p \<longrightarrow> table_at R root p = Some t \<longrightarrow> t \<in> ts)"

lemma tree_injD:
  "tree_inj R root \<Longrightarrow> valid_path p \<Longrightarrow> valid_path q \<Longrightarrow> table_at R root p = Some t \<Longrightarrow>
     table_at R root q = Some t \<Longrightarrow> p = q"
  by (auto simp: tree_inj_def)

lemma tables_inD: "tables_in R root ts \<Longrightarrow> valid_path p \<Longrightarrow> table_at R root p = Some t \<Longrightarrow> t \<in> ts"
  by (auto simp: tables_in_def)

text \<open>The walk depends only on the rows of the tables it meets.\<close>

lemma walk_cong:
  assumes "tables_in R root ts" and "\<And>t i. t \<in> ts \<Longrightarrow> i < 512 \<Longrightarrow> R' t i = R t i" and "valid_path p"
  shows "table_at R' root p = table_at R root p"
  using assms(3)
proof (induction p rule: rev_induct)
  case Nil
  then show ?case by simp
next
  case (snoc i p)
  then have v: "valid_path p" "i < 512" by (auto dest: valid_path_snocD)
  show ?case
  proof (cases "table_at R root p")
    case None
    then show ?thesis using snoc v by (simp add: table_at_snoc)
  next
    case (Some t)
    then have "R' t i = R t i" using assms(1,2) v by (auto dest: tables_inD)
    then show ?thesis using snoc v Some by (simp add: table_at_snoc next_table_def)
  qed
qed

lemma entry_cong:
  assumes "tables_in R root ts" and "\<And>t i. t \<in> ts \<Longrightarrow> i < 512 \<Longrightarrow> R' t i = R t i" and "valid_entry_path p"
  shows "entry_at R' root p = entry_at R root p"
proof -
  obtain q i where p: "p = q @ [i]" "valid_path q" "i < 512"
    using assms(3) by (rule valid_entry_pathE) blast
  have "table_at R' root q = table_at R root q" by (rule walk_cong [OF assms(1,2) p(2)])
  then show ?thesis
    using assms(1,2) p by (auto simp: entry_at_snoc page_row_def split: option.splits dest: tables_inD)
qed

section \<open>Hanging a new table below a row\<close>

text \<open>
  Row \<open>i\<close> of table \<open>T\<close>, at path \<open>p\<close>, was not a table descriptor; it now points to the zeroed
  page \<open>P\<close>, which was no table before.
\<close>

definition table_inserted ::
    "rows \<Rightarrow> rows \<Rightarrow> usize \<Rightarrow> usize set \<Rightarrow> nat list \<Rightarrow> nat \<Rightarrow> usize \<Rightarrow> usize \<Rightarrow> u64 \<Rightarrow> bool" where
  "table_inserted R R' root ts p i T P v \<longleftrightarrow>
     tree_inj R root \<and> tables_in R root ts
     \<and> valid_path (p @ [i]) \<and> table_at R root p = Some T \<and> P \<notin> ts
     \<and> classify_row (int (length p)) (R T i) \<noteq> Some Table
     \<and> classify_row (int (length p)) v = Some Table
     \<and> virtual_address (table_desc_address (TableDescriptorBuilder v)) = P
     \<and> (\<forall>t \<in> insert P ts. \<forall>j < 512. R' t j = (if t = T \<and> j = i then v else if t = P then 0 else R t j))"

lemma table_insertedD:
  assumes "table_inserted R R' root ts p i T P v"
  shows "tree_inj R root" "tables_in R root ts" "valid_path (p @ [i])" "valid_path p" "length p < 3"
    and "table_at R root p = Some T" "P \<notin> ts" "T \<in> ts" "T \<noteq> P"
    and "table_at R root (p @ [i]) = None"
    and "next_table R' (length p) T i = Some P"
    and "\<And>t j. t \<in> insert P ts \<Longrightarrow> j < 512 \<Longrightarrow>
      R' t j = (if t = T \<and> j = i then v else if t = P then 0 else R t j)"
proof -
  show v: "valid_path (p @ [i])" and "tree_inj R root" and ti: "tables_in R root ts" and P: "P \<notin> ts"
    and T: "table_at R root p = Some T"
    and u: "\<And>t j. t \<in> insert P ts \<Longrightarrow> j < 512 \<Longrightarrow>
      R' t j = (if t = T \<and> j = i then v else if t = P then 0 else R t j)"
    using assms by (auto simp: table_inserted_def)
  show vp: "valid_path p" and "length p < 3" using valid_path_snocD [OF v] by auto
  show T_in: "T \<in> ts" by (rule tables_inD [OF ti vp T])
  then show "T \<noteq> P" using P by auto
  show "table_at R root (p @ [i]) = None"
    using assms T by (simp add: table_at_snoc next_table_def table_inserted_def)
  have "R' T i = v" using u [of T i] T_in valid_path_snocD [OF v] by simp
  then show "next_table R' (length p) T i = Some P"
    using assms by (simp add: next_table_def table_inserted_def)
qed

lemma table_at_insert:
  assumes ins: "table_inserted R R' root ts p i T P v" and "valid_path q"
  shows "table_at R' root q = (if q = p @ [i] then Some P else table_at R root q)"
  using assms(2)
proof (induction q rule: rev_induct)
  case Nil
  then show ?case by simp
next
  case (snoc j q)
  note d = table_insertedD [OF ins]
  have vq: "valid_path q" "j < 512" using snoc.prems by (auto dest: valid_path_snocD)
  note IH = snoc.IH [OF vq(1)]
  show ?case
  proof (cases "q = p @ [i]")
    case True
    have "table_at R root q = None" "table_at R' root q = Some P" "q @ [j] \<noteq> p @ [i]"
      using True d(10) IH by auto
    moreover have "R' P j = 0" using d(12) [of P j] vq(2) d(9) by simp
    ultimately show ?thesis
      by (simp add: table_at_snoc [of _ _ q j] next_table_def)
  next
    case False
    show ?thesis
    proof (cases "table_at R root q")
      case None
      moreover have "q \<noteq> p" using None d(6) by auto
      ultimately show ?thesis using False IH by (simp add: table_at_snoc)
    next
      case (Some t)
      have t: "t \<in> ts" "t \<noteq> P" using d(2,7) vq(1) Some by (auto dest: tables_inD)
      have "t = T \<longleftrightarrow> q = p" using tree_injD [OF d(1) vq(1) d(4)] Some d(6) by auto
      then show ?thesis
        using False IH Some t vq(2) d(12) [of t j] d(6,11)
        by (auto simp: table_at_snoc next_table_def)
    qed
  qed
qed

lemma tree_inj_insert:
  assumes ins: "table_inserted R R' root ts p i T P v"
  shows "tree_inj R' root"
proof -
  note d = table_insertedD [OF ins]
  have "q = q'" if "valid_path q" "valid_path q'" "table_at R' root q = Some t" "table_at R' root q' = Some t"
    for q q' t
  proof (cases "q = p @ [i] \<or> q' = p @ [i]")
    case True
    then show ?thesis
      using that d(2,7) by (auto simp: table_at_insert [OF ins] split: if_splits dest: tables_inD)
  next
    case False
    then show ?thesis using that d(1) by (auto simp: table_at_insert [OF ins] dest: tree_injD)
  qed
  then show ?thesis by (auto simp: tree_inj_def)
qed

lemma tables_in_insert:
  assumes ins: "table_inserted R R' root ts p i T P v"
  shows "tables_in R' root (insert P ts)"
  using table_insertedD(2) [OF ins] by (auto simp: tables_in_def table_at_insert [OF ins])

lemma entry_insert:
  assumes ins: "table_inserted R R' root ts p i T P v" and "valid_entry_path q"
  shows "entry_at R' root q = entry_at R root q"
proof -
  note d = table_insertedD [OF ins]
  obtain r j where q: "q = r @ [j]" "valid_path r" "length r = 3" "j < 512"
    using assms(2) by (rule valid_entry_pathE)
  show ?thesis
  proof (cases "r = p @ [i]")
    case True
    have "table_at R root r = None" "table_at R' root r = Some P"
      using True d(10) table_at_insert [OF ins q(2)] by auto
    moreover have "R' P j = 0" using d(12) [of P j] q(4) d(9) by simp
    ultimately show ?thesis by (simp add: q(1) entry_at_snoc [of _ _ r j] page_row_def)
  next
    case False
    show ?thesis
    proof (cases "table_at R root r")
      case None
      then show ?thesis using False q by (simp add: entry_at_snoc table_at_insert [OF ins])
    next
      case (Some t)
      have "t \<noteq> T" using tree_injD [OF d(1) q(2) d(4) Some] d(5,6) q(3) by auto
      moreover have "t \<in> ts" "t \<noteq> P" using d(2,7) q(2) Some by (auto dest: tables_inD)
      ultimately show ?thesis
        using False q Some d(12) [of t j] by (simp add: entry_at_snoc table_at_insert [OF ins] page_row_def)
    qed
  qed
qed

section \<open>Writing a page row\<close>

text \<open>Row \<open>i\<close> of the last-level table \<open>T\<close> now holds the page descriptor \<open>v\<close>.\<close>

definition page_inserted ::
    "rows \<Rightarrow> rows \<Rightarrow> usize \<Rightarrow> usize set \<Rightarrow> nat list \<Rightarrow> nat \<Rightarrow> usize \<Rightarrow> u64 \<Rightarrow> bool" where
  "page_inserted R R' root ts p i T v \<longleftrightarrow>
     tree_inj R root \<and> tables_in R root ts
     \<and> valid_path p \<and> length p = 3 \<and> i < 512 \<and> table_at R root p = Some T
     \<and> classify_row LEVEL_MAX v = Some Page
     \<and> (\<forall>t \<in> ts. \<forall>j < 512. R' t j = (if t = T \<and> j = i then v else R t j))"

lemma table_at_page:
  assumes ins: "page_inserted R R' root ts p i T v" and "valid_path q"
  shows "table_at R' root q = table_at R root q"
  using assms(2)
proof (induction q rule: rev_induct)
  case Nil
  then show ?case by simp
next
  case (snoc j q)
  have vq: "valid_path q" "j < 512" "length q < 3" using snoc.prems by (auto dest: valid_path_snocD)
  show ?case
  proof (cases "table_at R root q")
    case None
    then show ?thesis using snoc.IH [OF vq(1)] by (simp add: table_at_snoc)
  next
    case (Some t)
    have "t \<noteq> T" using tree_injD [of R root q p t] ins vq Some by (auto simp: page_inserted_def)
    moreover have "t \<in> ts" using ins vq(1) Some by (auto simp: page_inserted_def dest: tables_inD)
    ultimately have "R' t j = R t j" using ins vq(2) by (simp add: page_inserted_def)
    then show ?thesis
      using snoc.IH [OF vq(1)] Some by (simp add: table_at_snoc next_table_def)
  qed
qed

lemma tree_inj_page:
  assumes ins: "page_inserted R R' root ts p i T v"
  shows "tree_inj R' root" and "tables_in R' root ts"
  using ins by (auto simp: tree_inj_def tables_in_def page_inserted_def table_at_page [OF ins])

lemma entry_page:
  assumes ins: "page_inserted R R' root ts p i T v" and "valid_entry_path q"
  shows "entry_at R' root q = (if q = p @ [i] then Some v else entry_at R root q)"
proof -
  obtain r j where q: "q = r @ [j]" "valid_path r" "length r = 3" "j < 512"
    using assms(2) by (rule valid_entry_pathE)
  have T: "table_at R root p = Some T" using ins by (simp add: page_inserted_def)
  show ?thesis
  proof (cases "table_at R root r")
    case None
    then have "r \<noteq> p" using T by auto
    then show ?thesis using None q by (simp add: entry_at_snoc table_at_page [OF ins])
  next
    case (Some t)
    have "t \<in> ts" using ins q(2) Some by (auto simp: page_inserted_def dest: tables_inD)
    then have "R' t j = (if t = T \<and> j = i then v else R t j)" using ins q(4) by (simp add: page_inserted_def)
    moreover have "t = T \<longleftrightarrow> r = p" using tree_injD [of R root r p t] ins q(2) Some T by (auto simp: page_inserted_def)
    ultimately show ?thesis
      using q Some ins by (auto simp: entry_at_snoc table_at_page [OF ins] page_row_def page_inserted_def)
  qed
qed

end
