(* ===== verification/Memory_Context.thy ===== *)
theory Memory_Context
  imports Page_Allocator Table_Walk
begin

unbundle bit_operations_syntax

text \<open>
  The address space of a task (\<^verbatim>\<open>memory/aarch64/memory_context.rs\<close>): its root table, its ASID and
  the pages it owns. The operations run under the context's lock; their state is the memory
  system shared by all tasks together with the context itself. The main result is that
  \<open>alloc_page\<close> implements an update of a finite map from pages of user memory to
  page entries, and leaves every other address space alone.
\<close>

section \<open>State and operations\<close>

record mm_state = kmem_state +
  asid_counter :: u16

record memory_context =
  page_allocations :: "page_allocation list"
  mc_asid :: u16
  table_l0 :: usize

type_synonym mc_state = "mm_state \<times> memory_context"

definition TTBR_EL1_ASID_SHIFT :: nat where
  [consts_defs]: "TTBR_EL1_ASID_SHIFT = 48"

definition asid_next :: "mm_state \<Rightarrow> u16 \<times> mm_state" where
  "asid_next s = (case fetch_add1 (asid_counter s) of (asid, c) \<Rightarrow> (asid, s\<lparr>asid_counter := c\<rparr>))"

definition memory_context_new :: "mm_state \<Rightarrow> memory_context res \<times> mm_state" where
  "memory_context_new s =
     and_then (page_alloc s) (\<lambda>table_l0_page s.
       case asid_next s of (asid, s) \<Rightarrow>
         (Ok \<lparr>page_allocations = [table_l0_page], mc_asid = asid, table_l0 = pa_ptr table_l0_page\<rparr>, s))"

definition mc_ttbr :: "memory_context \<Rightarrow> u64" where
  "mc_ttbr c = push_bit TTBR_EL1_ASID_SHIFT (ucast (mc_asid c)) OR address (physical_address (table_l0 c))"

definition alloc_page_raw :: "mc_state \<Rightarrow> page_allocation res \<times> mc_state" where
  "alloc_page_raw st =
     (case page_alloc (fst st) of
        (Ok p, s) \<Rightarrow> (Ok p, (s, (snd st)\<lparr>page_allocations := page_allocations (snd st) @ [p]\<rparr>))
      | (Err e, s) \<Rightarrow> (Err e, (s, snd st))
      | (Panic, s) \<Rightarrow> (Panic, (s, snd st))
      | (Hang, s) \<Rightarrow> (Hang, (s, snd st)))"

definition alloc_page_unmapped :: "mc_state \<Rightarrow> page_allocation res \<times> mc_state" where
  "alloc_page_unmapped st = alloc_page_raw st"

text \<open>A write through a row manager acts on the memory component of the state.\<close>

definition with_mem :: "(mem \<Rightarrow> 'a res \<times> mem) \<Rightarrow> mc_state \<Rightarrow> 'a res \<times> mc_state" where
  "with_mem f st = (case f (kmem (fst st)) of (r, m) \<Rightarrow> (r, ((fst st)\<lparr>kmem := m\<rparr>, snd st)))"

definition traverse_table_to_table ::
    "table_manager \<Rightarrow> UserAddress \<Rightarrow> mc_state \<Rightarrow> table_manager res \<times> mc_state" where
  "traverse_table_to_table table addr st =
     and_then (row_by_address table (as_ptr addr), st) (\<lambda>row st.
     and_then (descriptor_type (kmem (fst st)) row, st) (\<lambda>dt st.
     and_then
       (case dt of
          Some Table \<Rightarrow> and_then (load_table (kmem (fst st)) row, st) (\<lambda>b st. (Ok (table_desc_address b), st))
        | _ \<Rightarrow>
            and_then (alloc_page_raw st) (\<lambda>allocation st.
            let page = PhysicalAddress_convert (pa_address allocation) in
            and_then (table_desc_new page, st) (\<lambda>table_desc st.
            and_then (with_mem (write_table row table_desc) st) (\<lambda>_ st. (Ok page, st)))))
       (\<lambda>next_table st.
          (Ok (table_manager_new (virtual_address next_table) (tm_level table + 1) (row_start row)), st))))"

definition traverse_table_to_page ::
    "table_manager \<Rightarrow> UserAddress \<Rightarrow> mc_state \<Rightarrow> PhysicalAddress res \<times> mc_state" where
  "traverse_table_to_page table addr st =
     and_then (row_by_address table (as_ptr addr), st) (\<lambda>row st.
     and_then (descriptor_type (kmem (fst st)) row, st) (\<lambda>dt st.
       case dt of
         Some Page \<Rightarrow> and_then (load_page (kmem (fst st)) row, st) (\<lambda>b st. (Ok (page_desc_address b), st))
       | _ \<Rightarrow>
           and_then (alloc_page_raw st) (\<lambda>allocation st.
           let page = PhysicalAddress_convert (pa_address allocation) in
           and_then (page_desc_new page, st) (\<lambda>page_desc0 st.
           let page_desc = page_desc_set_unprivileged True (page_desc_set_attribute Normal page_desc0) in
           and_then (with_mem (write_page row page_desc) st) (\<lambda>_ st. (Ok page, st))))))"

text \<open>The loop of \<^verbatim>\<open>alloc_page\<close>; each step goes one level down.\<close>

lemma and_then_cong [fundef_cong]:
  assumes "m = m'" and "\<And>a s. m' = (Ok a, s) \<Longrightarrow> f a s = g a s"
  shows "and_then m f = and_then m' g"
  using assms by (cases "(m', f)" rule: and_then.cases) auto

lemma traverse_table_to_table_level:
  "traverse_table_to_table table addr st = (Ok table', st') \<Longrightarrow> tm_level table' = tm_level table + 1"
  by (auto simp: traverse_table_to_table_def and_then_Ok_iff table_manager_new_def)

function descend :: "table_manager \<Rightarrow> UserAddress \<Rightarrow> mc_state \<Rightarrow> table_manager res \<times> mc_state" where
  "descend table addr st =
     (if tm_level table < LEVEL_MAX
      then and_then (traverse_table_to_table table addr st) (\<lambda>table' st'. descend table' addr st')
      else (Ok table, st))"
  by pat_completeness auto
termination
  by (relation "measure (\<lambda>(table, addr, st). nat (LEVEL_MAX - tm_level table))")
    (auto dest: traverse_table_to_table_level)

declare descend.simps [simp del]

definition alloc_page :: "UserAddress \<Rightarrow> mc_state \<Rightarrow> PhysicalAddress res \<times> mc_state" where
  "alloc_page addr st =
     and_then (descend (table_manager_new (table_l0 (snd st)) LEVEL_ROOT 0) addr st) (\<lambda>table st.
       traverse_table_to_page table addr st)"

section \<open>Rows and pages in memory\<close>

definition row_addr :: "usize \<Rightarrow> nat \<Rightarrow> u64" where
  "row_addr t i = t + 8 * of_nat i"

definition mem_rows :: "mem \<Rightarrow> rows" where
  "mem_rows m t i = read_u64 m (row_addr t i)"

text \<open>A pointer to a whole page, aligned, with the page below the top of the address space.\<close>

definition page_ptr :: "usize \<Rightarrow> bool" where
  "page_ptr t \<longleftrightarrow> 4096 dvd unat t \<and> unat t + 4096 \<le> 2 ^ 64"

lemma unat_row_addr: "page_ptr t \<Longrightarrow> i < 512 \<Longrightarrow> unat (row_addr t i) = unat t + 8 * i"
proof -
  assume a: "page_ptr t" "i < 512"
  have i: "unat (of_nat i :: u64) = i" using a by (intro unat_of_nat64) simp
  then have "unat (8 * of_nat i :: u64) = 8 * i" using a by (subst unat_mult_noof) auto
  then show ?thesis using a by (simp add: row_addr_def unat_add_noof page_ptr_def)
qed

lemma page_ptr_apart:
  assumes "page_ptr t" "page_ptr t'" "t \<noteq> t'"
  shows "unat t + 4096 \<le> unat t' \<or> unat t' + 4096 \<le> unat t"
proof -
  obtain a b where "unat t = 4096 * a" "unat t' = 4096 * b"
    using assms(1,2) by (auto simp: page_ptr_def dvd_def)
  moreover have "unat t \<noteq> unat t'" using assms(3) by (simp add: word_unat_eq_iff)
  ultimately show ?thesis by auto
qed

lemma rows_disjoint:
  assumes "page_ptr t" "page_ptr t'" "i < 512" "i' < 512" "(t, i) \<noteq> (t', i')"
  shows "disjoint_runs (row_addr t i) 8 (row_addr t' i') 8"
proof (cases "t = t'")
  case True
  then show ?thesis using assms by (auto simp: disjoint_runs_def unat_row_addr page_ptr_def)
next
  case False
  then show ?thesis
    using assms page_ptr_apart [of t t'] by (auto simp: disjoint_runs_def unat_row_addr page_ptr_def)
qed

lemma mem_rows_write:
  assumes "page_ptr t" "page_ptr t'" "i < 512" "i' < 512"
  shows "mem_rows (write_u64 m (row_addr t i) v) t' i' = (if t' = t \<and> i' = i then v else mem_rows m t' i')"
  using rows_disjoint [OF assms] by (auto simp: mem_rows_def read_u64_write_other)

lemma mem_rows_fill:
  assumes "page_ptr t" "page_ptr P" "i < 512"
  shows "mem_rows (fill_bytes m P 0 4096) t i = (if t = P then 0 else mem_rows m t i)"
proof (cases "t = P")
  case True
  then show ?thesis
    using assms by (simp add: mem_rows_def read_u64_fill_zero unat_row_addr page_ptr_def)
next
  case False
  then have "disjoint_runs P 4096 (row_addr t i) 8"
    using assms page_ptr_apart [of t P] by (auto simp: disjoint_runs_def unat_row_addr page_ptr_def)
  then show ?thesis using False by (simp add: mem_rows_def read_u64_fill_other)
qed

lemma row_ptr_addr: "unat i < 512 \<Longrightarrow> row_ptr (tm_row t i) = row_addr (tm_table t) (unat i)"
  by (simp add: row_ptr_def tm_row_def row_addr_def)

section \<open>Well-formed address spaces\<close>

text \<open>The allocator hands out aligned pages below \<open>2 ^ 48\<close>.\<close>

definition mm_wf :: "mm_state \<Rightarrow> bool" where
  "mm_wf s \<longleftrightarrow> 4096 dvd unat (allocated (page_alloc_state s)) \<and> unat (capacity (page_alloc_state s)) \<le> 2 ^ 48"

text \<open>A page that has been handed out.\<close>

definition owned_page :: "mm_state \<Rightarrow> page_allocation \<Rightarrow> bool" where
  "owned_page s a \<longleftrightarrow>
     pa_ptr a = virtual_address (pa_address a)
     \<and> 4096 dvd unat (address (pa_address a))
     \<and> unat (address (pa_address a)) + 4096 \<le> unat (allocated (page_alloc_state s))
     \<and> unat (address (pa_address a)) + 4096 \<le> unat (capacity (page_alloc_state s))"

definition ptrs :: "memory_context \<Rightarrow> usize set" where
  "ptrs c = pa_ptr ` set (page_allocations c)"

abbreviation rows_of :: "mm_state \<Rightarrow> rows" where
  "rows_of s \<equiv> mem_rows (kmem s)"

text \<open>
  The invariant of an address space: it owns pages that were handed out; every table reachable
  from its root is one of them; no table is reached twice.
\<close>

definition ctx_wf :: "mc_state \<Rightarrow> bool" where
  "ctx_wf st \<longleftrightarrow>
     mm_wf (fst st)
     \<and> (\<forall>a \<in> set (page_allocations (snd st)). owned_page (fst st) a)
     \<and> tables_in (rows_of (fst st)) (table_l0 (snd st)) (ptrs (snd st))
     \<and> tree_inj (rows_of (fst st)) (table_l0 (snd st))"

lemma ctx_wfD:
  assumes "ctx_wf (s, c)"
  shows "mm_wf s" "\<And>a. a \<in> set (page_allocations c) \<Longrightarrow> owned_page s a"
    and "tables_in (rows_of s) (table_l0 c) (ptrs c)" "tree_inj (rows_of s) (table_l0 c)"
  using assms by (auto simp: ctx_wf_def)

lemma owned_page_ptr:
  assumes "owned_page s a" "mm_wf s"
  shows "page_ptr (pa_ptr a)" and "unat (pa_ptr a) = unat (address (pa_address a)) + 0xFFFF000000000000"
proof -
  have lt: "unat (address (pa_address a)) + 4096 \<le> 2 ^ 48" using assms by (auto simp: owned_page_def mm_wf_def)
  then show u: "unat (pa_ptr a) = unat (address (pa_address a)) + 0xFFFF000000000000"
    using assms(1) by (simp add: owned_page_def unat_virtual_address)
  have "(4096 :: nat) dvd 0xFFFF000000000000" by simp
  then have "4096 dvd unat (pa_ptr a)" using u assms(1) unfolding owned_page_def by (metis dvd_add)
  then show "page_ptr (pa_ptr a)" using u lt by (simp add: page_ptr_def)
qed

lemma ptrs_page_ptr: "ctx_wf (s, c) \<Longrightarrow> t \<in> ptrs c \<Longrightarrow> page_ptr t"
  by (auto simp: ptrs_def dest: ctx_wfD owned_page_ptr(1))

lemma owned_pages_apart:
  assumes "owned_page s a" "owned_page s b" "mm_wf s" "pa_ptr a \<noteq> pa_ptr b" "unat (x - pa_ptr a) < 4096"
  shows "\<not> unat (x - pa_ptr b) < 4096"
proof -
  have pp: "page_ptr (pa_ptr a)" "page_ptr (pa_ptr b)" using assms by (auto dest: owned_page_ptr(1))
  then have "unat (pa_ptr a) \<le> unat x \<and> unat x < unat (pa_ptr a) + 4096"
    using assms(5) by (subst (asm) word_diff_less_iff) (auto simp: page_ptr_def)
  then show ?thesis
    using pp page_ptr_apart [OF pp assms(4)] by (subst word_diff_less_iff) (auto simp: page_ptr_def)
qed

section \<open>Taking a page from the allocator\<close>

text \<open>
  What an operation on an address space may do to the state: the allocator only moves forward,
  pages it adds were not handed out before, and memory changes only inside the pages
  the address space owns afterwards.
\<close>

definition mc_frame :: "mc_state \<Rightarrow> mc_state \<Rightarrow> bool" where
  "mc_frame st st' \<longleftrightarrow>
     table_l0 (snd st') = table_l0 (snd st) \<and> mc_asid (snd st') = mc_asid (snd st)
     \<and> capacity (page_alloc_state (fst st')) = capacity (page_alloc_state (fst st))
     \<and> unat (allocated (page_alloc_state (fst st))) \<le> unat (allocated (page_alloc_state (fst st')))
     \<and> (\<exists>new. page_allocations (snd st') = page_allocations (snd st) @ new
         \<and> (\<forall>a \<in> set new. unat (allocated (page_alloc_state (fst st))) \<le> unat (address (pa_address a))))
     \<and> (\<forall>x. (\<forall>a \<in> set (page_allocations (snd st')). \<not> unat (x - pa_ptr a) < 4096)
          \<longrightarrow> kmem (fst st') x = kmem (fst st) x)"

lemma mc_frame_refl [simp]: "mc_frame st st"
  by (simp add: mc_frame_def)

lemma mc_frame_trans:
  assumes "mc_frame st1 st2" and "mc_frame st2 st3"
  shows "mc_frame st1 st3"
proof -
  obtain n1 where n1: "page_allocations (snd st2) = page_allocations (snd st1) @ n1"
      "\<forall>a \<in> set n1. unat (allocated (page_alloc_state (fst st1))) \<le> unat (address (pa_address a))"
    using assms(1) by (auto simp: mc_frame_def)
  obtain n2 where n2: "page_allocations (snd st3) = page_allocations (snd st2) @ n2"
      "\<forall>a \<in> set n2. unat (allocated (page_alloc_state (fst st2))) \<le> unat (address (pa_address a))"
    using assms(2) by (auto simp: mc_frame_def)
  have "page_allocations (snd st3) = page_allocations (snd st1) @ (n1 @ n2)"
    "\<forall>a \<in> set (n1 @ n2). unat (allocated (page_alloc_state (fst st1))) \<le> unat (address (pa_address a))"
    using n1 n2 assms(1) by (auto simp: mc_frame_def)
  then show ?thesis using assms n2(1) unfolding mc_frame_def by auto
qed

lemma owned_page_mono:
  assumes "owned_page s a"
    and "unat (allocated (page_alloc_state s)) \<le> unat (allocated (page_alloc_state s'))"
    and "capacity (page_alloc_state s') = capacity (page_alloc_state s)"
  shows "owned_page s' a"
  using assms by (auto simp: owned_page_def)

lemma fresh_owned:
  assumes "fresh_page (page_alloc_state s) (pa_address a) pa" "pa_ptr a = virtual_address (pa_address a)" "mm_wf s"
    and "page_alloc_state s' = pa"
  shows "owned_page s' a \<and> mm_wf s'"
proof -
  have "4096 dvd unat (address (pa_address a))"
    using assms(1,3) unfolding fresh_page_def mm_wf_def by (metis dvd_diffD)
  moreover from this have "4096 dvd unat (allocated pa)"
    using assms(1) by (simp add: fresh_page_def)
  ultimately show ?thesis
    using assms by (auto simp: owned_page_def mm_wf_def fresh_page_def)
qed

lemma alloc_page_raw_cases:
  assumes wf: "ctx_wf (s, c)" and fits: "pa_fits (page_alloc_state s)"
  obtains (page) a pa where
      "alloc_page_raw (s, c) = (Ok a, (s\<lparr>page_alloc_state := pa, kmem := fill_bytes (kmem s) (pa_ptr a) 0 4096\<rparr>,
         c\<lparr>page_allocations := page_allocations c @ [a]\<rparr>))"
      "fresh_page (page_alloc_state s) (pa_address a) pa" "pa_ptr a = virtual_address (pa_address a)"
      "\<And>k. room (Suc k) (page_alloc_state s) \<Longrightarrow> room k pa"
  | (full) pa where
      "alloc_page_raw (s, c) = (Err (), (s\<lparr>page_alloc_state := pa\<rparr>, c))"
      "4096 dvd unat (allocated pa)" "capacity pa = capacity (page_alloc_state s)"
      "unat (allocated (page_alloc_state s)) \<le> unat (allocated pa)" "fst (page_alloc s) = Err ()"
      "\<And>k. \<not> room (Suc k) (page_alloc_state s)"
  using fits
proof (cases rule: page_alloc_cases)
  case (page k b pa)
  have "room j pa" if r: "room (Suc j) (page_alloc_state s)" for j
  proof -
    have "page_alloc_state (snd (page_alloc s)) = pa" using page(1) by simp
    moreover have "page_alloc_state (snd (page_alloc s))
        = (page_alloc_state s)\<lparr>allocated := allocated (page_alloc_state s) + PAGE_SIZE\<rparr>"
      by (simp add: page_alloc_def room_alloc(1) [OF r fits] Let_def)
    ultimately show ?thesis using room_alloc(2) [OF r fits] by simp
  qed
  then show thesis
    using page that(1) [of "\<lparr>pa_address = PhysicalAddress b, pa_ptr = virtual_address (PhysicalAddress b)\<rparr>" pa]
      loop_stops_fresh [OF page(2) fits]
    by (simp add: alloc_page_raw_def)
next
  case (full k pa)
  have eq: "pa = (page_alloc_state s)\<lparr>allocated := allocated pa\<rparr>"
    and al: "unat (allocated pa) = candidate (page_alloc_state s) k + 4096"
    using full(2) by (auto simp: loop_stops_at_def)
  have "4096 dvd unat (allocated pa)"
    using al ctx_wfD(1) [OF wf] by (simp add: candidate_def mm_wf_def)
  moreover have "capacity pa = capacity (page_alloc_state s)" by (subst eq) simp
  moreover have "\<not> room (Suc j) (page_alloc_state s)" for j
  proof
    assume "room (Suc j) (page_alloc_state s)"
    from room_alloc(1) [OF this fits] full(1) show False by (simp add: page_alloc_def Let_def)
  qed
  ultimately show thesis
    using full that(2) [of pa] al by (simp add: alloc_page_raw_def candidate_def)
qed

text \<open>A failed allocation leaves every address space as it was.\<close>

lemma ctx_wf_full:
  assumes "ctx_wf (s, c)" "4096 dvd unat (allocated pa)" "capacity pa = capacity (page_alloc_state s)"
    and "unat (allocated (page_alloc_state s)) \<le> unat (allocated pa)"
  shows "ctx_wf (s\<lparr>page_alloc_state := pa\<rparr>, c)" and "mc_frame (s, c) (s\<lparr>page_alloc_state := pa\<rparr>, c)"
  using assms
  by (auto simp: ctx_wf_def mm_wf_def mc_frame_def intro: owned_page_mono [of s])

text \<open>A page just handed out is none of the pages owned before.\<close>

lemma fresh_not_owned:
  assumes wf: "ctx_wf (s, c)" and a: "fresh_page (page_alloc_state s) (pa_address a) pa"
    and o: "owned_page s' a" "mm_wf s'"
  shows "pa_ptr a \<notin> ptrs c"
proof
  assume "pa_ptr a \<in> ptrs c"
  then obtain b where b: "b \<in> set (page_allocations c)" "pa_ptr b = pa_ptr a" by (auto simp: ptrs_def)
  have "owned_page s b" using ctx_wfD(2) [OF wf b(1)] .
  then have "unat (address (pa_address b)) + 4096 \<le> unat (allocated (page_alloc_state s))"
    by (simp add: owned_page_def)
  moreover have "unat (address (pa_address b)) = unat (address (pa_address a))"
    using owned_page_ptr(2) [OF \<open>owned_page s b\<close> ctx_wfD(1) [OF wf]] owned_page_ptr(2) [OF o] b(2) by simp
  ultimately show False using a by (simp add: fresh_page_def)
qed

text \<open>A descriptor can be built for every page the allocator hands out.\<close>

lemma page_address_field:
  assumes "4096 dvd unat (address p)" "unat (address p) < 2 ^ 48"
  shows "address p AND NOT TABLE_ADDRESS_MASK = 0"
proof -
  have "take_bit 48 (address p) = address p"
    using assms(2) by (simp add: word_unat_eq_iff unsigned_take_bit_eq take_bit_nat_eq_self_iff)
  moreover have "take_bit 12 (address p) = 0"
    using assms(1) by (simp add: word_unat_eq_iff unsigned_take_bit_eq take_bit_eq_mod dvd_eq_mod_eq_0 unat_mod_distrib)
  ultimately have hi: "\<And>n. bit (address p) n \<Longrightarrow> n < 48" and lo: "\<And>n. n < 12 \<Longrightarrow> \<not> bit (address p) n"
    by (metis bit_take_bit_iff, metis bit_take_bit_iff bit_0_eq bot_apply bot_bool_def)
  have m: "TABLE_ADDRESS_MASK = mask 48 AND NOT (mask 12)"
    by (simp add: TABLE_ADDRESS_MASK_def mask_eq_exp_minus_1)
  have "bit TABLE_ADDRESS_MASK n" if "bit (address p) n" for n
  proof -
    have "n < 48" "\<not> n < 12" using hi [OF that] lo [of n] that by auto
    then show ?thesis unfolding m by (simp add: bit_and_iff bit_not_iff bit_mask_iff)
  qed
  then show ?thesis
    by (auto simp: bit_eq_iff bit_and_iff bit_not_iff)
qed


section \<open>Adding a page below a row\<close>

text \<open>
  Both traversals end the same way when the row is empty: a page is taken and zeroed, and a
  descriptor \<open>v\<close> is written to row \<open>i\<close> of an owned table \<open>T\<close>.
\<close>

definition grow :: "mm_state \<Rightarrow> memory_context \<Rightarrow> page_allocation \<Rightarrow> page_allocator \<Rightarrow> usize \<Rightarrow> nat \<Rightarrow> u64 \<Rightarrow> mc_state" where
  "grow s c a pa T i v =
     (s\<lparr>page_alloc_state := pa,
        kmem := write_u64 (fill_bytes (kmem s) (pa_ptr a) 0 4096) (row_addr T i) v\<rparr>,
      c\<lparr>page_allocations := page_allocations c @ [a]\<rparr>)"

lemma grow_simps [simp]:
  "page_alloc_state (fst (grow s c a pa T i v)) = pa"
  "table_l0 (snd (grow s c a pa T i v)) = table_l0 c"
  "mc_asid (snd (grow s c a pa T i v)) = mc_asid c"
  "asid_counter (fst (grow s c a pa T i v)) = asid_counter s"
  "page_allocations (snd (grow s c a pa T i v)) = page_allocations c @ [a]"
  "ptrs (snd (grow s c a pa T i v)) = insert (pa_ptr a) (ptrs c)"
  by (auto simp: grow_def ptrs_def)

lemma row_in_page:
  assumes "unat (x - row_addr t i) < 8" and "i < 512"
  shows "unat (x - t) < 4096"
proof -
  have e: "x - t = (x - row_addr t i) + 8 * of_nat i" by (simp add: row_addr_def)
  have "unat (of_nat i :: u64) = i" using assms(2) by (intro unat_of_nat64) simp
  then have i: "unat (8 * of_nat i :: u64) = 8 * i" using assms(2) by (subst unat_mult_noof) auto
  then have "unat (x - t) = unat (x - row_addr t i) + 8 * i"
    unfolding e using assms by (subst unat_add_noof) auto
  then show ?thesis using assms by simp
qed

definition can_grow :: "mm_state \<Rightarrow> memory_context \<Rightarrow> page_allocation \<Rightarrow> page_allocator \<Rightarrow> usize \<Rightarrow> nat \<Rightarrow> bool" where
  "can_grow s c a pa T i \<longleftrightarrow>
     ctx_wf (s, c) \<and> fresh_page (page_alloc_state s) (pa_address a) pa
     \<and> pa_ptr a = virtual_address (pa_address a) \<and> T \<in> ptrs c \<and> i < 512"

lemma grow_owned:
  assumes "can_grow s c a pa T i"
  shows "mm_wf (fst (grow s c a pa T i v))" "owned_page (fst (grow s c a pa T i v)) a"
    and "b \<in> set (page_allocations c) \<Longrightarrow> owned_page (fst (grow s c a pa T i v)) b"
    and "page_ptr (pa_ptr a)" "pa_ptr a \<notin> ptrs c"
proof -
  have wf: "ctx_wf (s, c)" and fresh: "fresh_page (page_alloc_state s) (pa_address a) pa"
    and ptr: "pa_ptr a = virtual_address (pa_address a)"
    using assms by (simp_all add: can_grow_def)
  show o: "mm_wf (fst (grow s c a pa T i v))" "owned_page (fst (grow s c a pa T i v)) a"
    using fresh_owned [OF fresh ptr ctx_wfD(1) [OF wf] grow_simps(1)] by blast+
  show "owned_page (fst (grow s c a pa T i v)) b" if "b \<in> set (page_allocations c)"
    using fresh by (intro owned_page_mono [OF ctx_wfD(2) [OF wf that]]) (simp_all add: fresh_page_def)
  show "page_ptr (pa_ptr a)" by (rule owned_page_ptr(1) [OF o(2,1)])
  show "pa_ptr a \<notin> ptrs c" by (rule fresh_not_owned [OF wf fresh o(2,1)])
qed

lemma grow_rows:
  assumes g: "can_grow s c a pa T i" and "t \<in> insert (pa_ptr a) (ptrs c)" "j < 512"
  shows "rows_of (fst (grow s c a pa T i v)) t j
    = (if t = T \<and> j = i then v else if t = pa_ptr a then 0 else rows_of s t j)"
proof -
  have wf: "ctx_wf (s, c)" and T: "T \<in> ptrs c" "i < 512" using g by (simp_all add: can_grow_def)
  have "page_ptr t" using assms(2) grow_owned(4) [OF g] ptrs_page_ptr [OF wf] by auto
  moreover have "page_ptr T" using ptrs_page_ptr [OF wf T(1)] .
  ultimately show ?thesis
    using assms(3) T(2) grow_owned(4) [OF g] by (simp add: grow_def mem_rows_write mem_rows_fill)
qed

lemma grow_frame:
  assumes g: "can_grow s c a pa T i"
  shows "mc_frame (s, c) (grow s c a pa T i v)"
proof -
  have T: "T \<in> ptrs c" "i < 512" and fresh: "fresh_page (page_alloc_state s) (pa_address a) pa"
    using g by (simp_all add: can_grow_def)
  have "kmem (fst (grow s c a pa T i v)) x = kmem s x"
    if "\<forall>b \<in> set (page_allocations c @ [a]). \<not> unat (x - pa_ptr b) < 4096" for x
  proof -
    have "\<not> unat (x - pa_ptr a) < 4096" using that by simp
    moreover have "\<not> unat (x - T) < 4096" using that T(1) by (auto simp: ptrs_def)
    then have "\<not> unat (x - row_addr T i) < 8" using row_in_page [OF _ T(2)] by blast
    ultimately show ?thesis
      by (simp add: grow_def write_u64_def write_bytes_at_def fill_bytes_def)
  qed
  then show ?thesis
    using fresh by (simp add: mc_frame_def fresh_page_def)
qed

text \<open>The other pages of the address space are left alone.\<close>

lemma grow_other:
  assumes g: "can_grow s c a pa T i" and b: "b \<in> set (page_allocations c)" "pa_ptr b \<noteq> T" and x: "unat (x - pa_ptr b) < 4096"
  shows "kmem (fst (grow s c a pa T i v)) x = kmem s x"
proof -
  let ?s = "fst (grow s c a pa T i v)"
  note o = grow_owned(1,2,3) [OF g, where v = v]
  obtain d where d: "d \<in> set (page_allocations c)" "pa_ptr d = T" and i: "i < 512" using g by (auto simp: can_grow_def ptrs_def)
  have "pa_ptr b \<noteq> pa_ptr a" using grow_owned(5) [OF g] b(1) unfolding ptrs_def by (metis imageI)
  then have "\<not> unat (x - pa_ptr a) < 4096" using owned_pages_apart [OF o(3) [OF b(1)] o(2,1) _ x] by blast
  moreover have "\<not> unat (x - T) < 4096" using owned_pages_apart [OF o(3) [OF b(1)] o(3) [OF d(1)] o(1) _ x] b(2) d(2) by simp
  then have "\<not> unat (x - row_addr T i) < 8" using row_in_page [OF _ i] by blast
  ultimately show ?thesis by (simp add: grow_def write_u64_def write_bytes_at_def fill_bytes_def)
qed


section \<open>One level down\<close>

definition va_path :: "nat \<Rightarrow> usize \<Rightarrow> nat list" where
  "va_path l va = map (\<lambda>k. va_index k va) [0..<l]"

lemma va_path_Suc [simp]: "va_path (Suc l) va = va_path l va @ [va_index l va]"
  by (simp add: va_path_def)

lemma length_va_path [simp]: "length (va_path l va) = l"
  by (simp add: va_path_def)

lemma va_index_less [simp]: "va_index l va < 512"
  by (simp add: va_index_def)

lemma valid_va_path [simp]: "l \<le> 3 \<Longrightarrow> valid_path (va_path l va)" "valid_entry_path (va_path 4 va)"
  by (auto simp: valid_path_def valid_entry_path_def va_path_def)

text \<open>The page entry for a user address.\<close>

definition user_entry :: "mm_state \<Rightarrow> memory_context \<Rightarrow> usize \<Rightarrow> u64 option" where
  "user_entry s c va = entry_at (rows_of s) (table_l0 c) (va_path 4 va)"

lemma no_table_below:
  "table_at R root (va_path k va) = None \<Longrightarrow> table_at R root (va_path (k + n) va) = None"
  by (induction n) (simp_all add: table_at_snoc)

lemma no_table_no_entry:
  assumes "table_at (rows_of s) (table_l0 c) (va_path k va) = None" "k \<le> 3"
  shows "user_entry s c va = None"
proof -
  have "table_at (rows_of s) (table_l0 c) (va_path 3 va) = None"
    using no_table_below [OF assms(1), of "3 - k"] assms(2) by simp
  then show ?thesis
    using va_path_Suc [of 3 va] by (simp add: user_entry_def entry_at_snoc del: va_path_Suc)
qed

text \<open>Tables are only added, on pages that were not owned before.\<close>

definition tables_grow :: "mc_state \<Rightarrow> mc_state \<Rightarrow> bool" where
  "tables_grow st st' \<longleftrightarrow>
     (\<forall>q t. valid_path q \<longrightarrow> table_at (rows_of (fst st')) (table_l0 (snd st')) q = Some t \<longrightarrow>
        table_at (rows_of (fst st)) (table_l0 (snd st)) q = Some t \<or> t \<notin> ptrs (snd st))"

lemma tables_grow_refl [simp]: "tables_grow st st"
  by (simp add: tables_grow_def)

lemma tables_grow_trans:
  assumes "tables_grow st1 st2" and "tables_grow st2 st3" and "ptrs (snd st1) \<subseteq> ptrs (snd st2)"
  shows "tables_grow st1 st3"
  using assms unfolding tables_grow_def by blast

lemma mc_frame_ptrs: "mc_frame st st' \<Longrightarrow> ptrs (snd st) \<subseteq> ptrs (snd st')"
  by (auto simp: mc_frame_def ptrs_def)

text \<open>Pages that hold no table are left alone.\<close>

definition no_table :: "mc_state \<Rightarrow> usize \<Rightarrow> bool" where
  "no_table st t \<longleftrightarrow> (\<forall>q. valid_path q \<longrightarrow> table_at (rows_of (fst st)) (table_l0 (snd st)) q \<noteq> Some t)"

definition pages_kept :: "mc_state \<Rightarrow> mc_state \<Rightarrow> bool" where
  "pages_kept st st' \<longleftrightarrow>
     (\<forall>a \<in> set (page_allocations (snd st)). no_table st (pa_ptr a) \<longrightarrow>
        (\<forall>x. unat (x - pa_ptr a) < 4096 \<longrightarrow> kmem (fst st') x = kmem (fst st) x))"

lemma pages_kept_refl [simp]: "pages_kept st st"
  by (simp add: pages_kept_def)

lemma no_table_grow:
  assumes "tables_grow st st'" and "a \<in> set (page_allocations (snd st))" and "no_table st (pa_ptr a)"
  shows "no_table st' (pa_ptr a)"
proof -
  have "pa_ptr a \<in> ptrs (snd st)" using assms(2) by (simp add: ptrs_def)
  then show ?thesis using assms(1,3) unfolding tables_grow_def no_table_def by blast
qed

lemma pages_kept_trans:
  assumes "pages_kept st1 st2" and "pages_kept st2 st3" and "tables_grow st1 st2" and "mc_frame st1 st2"
  shows "pages_kept st1 st3"
proof -
  have "kmem (fst st3) x = kmem (fst st1) x"
    if a: "a \<in> set (page_allocations (snd st1))" "no_table st1 (pa_ptr a)" and x: "unat (x - pa_ptr a) < 4096" for a x
  proof -
    have "a \<in> set (page_allocations (snd st2))" using assms(4) a(1) by (auto simp: mc_frame_def)
    moreover have "no_table st2 (pa_ptr a)" by (rule no_table_grow [OF assms(3) a])
    ultimately show ?thesis using assms(1,2) a x unfolding pages_kept_def by metis
  qed
  then show ?thesis by (simp add: pages_kept_def)
qed

text \<open>What an operation on the way down keeps.\<close>

definition keeps_entries :: "mc_state \<Rightarrow> mc_state \<Rightarrow> bool" where
  "keeps_entries st st' \<longleftrightarrow> ctx_wf st' \<and> mc_frame st st' \<and> tables_grow st st' \<and> pages_kept st st'
     \<and> asid_counter (fst st') = asid_counter (fst st)
     \<and> (\<forall>q. valid_entry_path q \<longrightarrow>
          entry_at (rows_of (fst st')) (table_l0 (snd st')) q = entry_at (rows_of (fst st)) (table_l0 (snd st)) q)"

lemma keeps_user_entry:
  "keeps_entries st st' \<Longrightarrow> user_entry (fst st') (snd st') va = user_entry (fst st) (snd st) va"
  by (simp add: keeps_entries_def user_entry_def)

lemma keeps_entries_trans:
  "keeps_entries st1 st2 \<Longrightarrow> keeps_entries st2 st3 \<Longrightarrow> keeps_entries st1 st3"
  by (auto simp: keeps_entries_def intro: mc_frame_trans tables_grow_trans pages_kept_trans dest: mc_frame_ptrs)

text \<open>The manager is at the level-\<open>l\<close> table of the address.\<close>

definition at_level :: "mc_state \<Rightarrow> usize \<Rightarrow> nat \<Rightarrow> table_manager \<Rightarrow> bool" where
  "at_level st va l t \<longleftrightarrow> tm_on_path t l va
     \<and> table_at (rows_of (fst st)) (table_l0 (snd st)) (va_path l va) = Some (tm_table t)"

lemma row_at_level:
  assumes "at_level (s, c) va l t" "unat va < 2 ^ 48"
  obtains i where "row_by_address t va = Ok (tm_row t i)" "unat i = va_index l va"
    and "row_value (kmem s) (tm_row t i) = Ok (rows_of s (tm_table t) (va_index l va))"
    and "row_ptr (tm_row t i) = row_addr (tm_table t) (va_index l va)" "row_index (tm_row t i) < ROW_COUNT"
    and "descriptor_type (kmem s) (tm_row t i) = Ok (classify_row (int l) (rows_of s (tm_table t) (va_index l va)))"
proof -
  have t: "tm_on_path t l va" using assms(1) by (simp add: at_level_def)
  obtain i where i: "row_by_address t va = Ok (tm_row t i)" "unat i = va_index l va"
    using row_by_address_on_path [OF t assms(2)] by blast
  have lt: "unat i < 512" using i(2) by simp
  then have p: "row_ptr (tm_row t i) = row_addr (tm_table t) (va_index l va)"
    using row_ptr_addr [OF lt, of t] i(2) by simp
  have rc: "row_index (tm_row t i) < ROW_COUNT"
    using lt by (simp add: tm_row_def ROW_COUNT_def word_less_nat_alt)
  then have v: "row_value (kmem s) (tm_row t i) = Ok (rows_of s (tm_table t) (va_index l va))"
    using p by (simp add: row_value_def mem_rows_def)
  moreover have "tm_level (row_table (tm_row t i)) = int l" using t by (simp add: tm_on_path_def tm_row_def)
  ultimately show thesis using that i p rc by (simp add: descriptor_type_def)
qed

lemma on_path_next:
  assumes "at_level st va l t" "unat va < 2 ^ 48" "unat i = va_index l va" "l < 3"
  shows "tm_on_path (table_manager_new T (tm_level t + 1) (row_start (tm_row t i))) (Suc l) va"
  using assms row_start_on_path [of t l va i] by (simp add: at_level_def tm_on_path_def table_manager_new_def)

lemma table_desc_of_page:
  assumes "owned_page s a" "mm_wf s" "int l < LEVEL_MAX"
  obtains b where "table_desc_new (pa_address a) = Ok b" "classify_row (int l) (td_pending b) = Some Table"
    "virtual_address (table_desc_address b) = pa_ptr a"
proof -
  have "4096 dvd unat (address (pa_address a))" "unat (address (pa_address a)) < 2 ^ 48"
    using assms(1,2) by (auto simp: owned_page_def mm_wf_def)
  from page_address_field [OF this] obtain b where b: "table_desc_new (pa_address a) = Ok b"
    by (simp add: table_desc_new_def)
  from table_desc.new_address [OF b] show thesis
    using that [OF b] assms(1,3) by (simp add: classify_row_def owned_page_def)
qed

lemma ctx_wf_table_inserted:
  assumes g: "can_grow s c a pa T i"
    and p: "valid_path (p @ [i])" "table_at (rows_of s) (table_l0 c) p = Some T"
    and old: "classify_row (int (length p)) (rows_of s T i) \<noteq> Some Table"
    and new: "classify_row (int (length p)) v = Some Table"
      "virtual_address (table_desc_address (TableDescriptorBuilder v)) = pa_ptr a"
  shows "keeps_entries (s, c) (grow s c a pa T i v)"
    and "table_at (rows_of (fst (grow s c a pa T i v))) (table_l0 c) (p @ [i]) = Some (pa_ptr a)"
proof -
  have wf: "ctx_wf (s, c)" using g by (simp add: can_grow_def)
  have ins: "table_inserted (rows_of s) (rows_of (fst (grow s c a pa T i v))) (table_l0 c) (ptrs c) p i T (pa_ptr a) v"
    using ctx_wfD(3,4) [OF wf] p old new grow_owned(5) [OF g] grow_rows [OF g]
    by (auto simp: table_inserted_def)
  have "ctx_wf (grow s c a pa T i v)"
    using grow_owned(1,2,3) [OF g] tree_inj_insert [OF ins] tables_in_insert [OF ins]
    by (auto simp: ctx_wf_def)
  moreover have "tables_grow (s, c) (grow s c a pa T i v)"
    using table_at_insert [OF ins] grow_owned(5) [OF g] by (simp add: tables_grow_def)
  moreover have "pages_kept (s, c) (grow s c a pa T i v)"
    using grow_other [OF g] table_insertedD(4,6) [OF ins] by (auto simp: pages_kept_def no_table_def)
  ultimately show "keeps_entries (s, c) (grow s c a pa T i v)"
    using grow_frame [OF g] entry_insert [OF ins] by (simp add: keeps_entries_def)
  show "table_at (rows_of (fst (grow s c a pa T i v))) (table_l0 c) (p @ [i]) = Some (pa_ptr a)"
    using table_at_insert [OF ins p(1)] by simp
qed


text \<open>The two ways a traversal step ends: further down, or with the allocator exhausted.\<close>

definition exhausted :: "mc_state \<Rightarrow> bool" where
  "exhausted st \<longleftrightarrow> fst (page_alloc (fst st)) = Err ()"

lemma grow_after_raw:
  assumes "row_ptr row = row_addr T i" "row_index row < ROW_COUNT"
  shows "with_mem (row_set_value row v)
      (s\<lparr>page_alloc_state := pa, kmem := fill_bytes (kmem s) (pa_ptr a) 0 4096\<rparr>,
       c\<lparr>page_allocations := page_allocations c @ [a]\<rparr>) = (Ok (), grow s c a pa T i v)"
  using assms by (simp add: with_mem_def row_set_value_def grow_def)

lemma table_step:
  assumes wf: "ctx_wf (s, c)" and fits: "pa_fits (page_alloc_state s)"
    and lvl: "at_level (s, c) va l t" and va: "unat va < 2 ^ 48" and "l < 3"
  obtains (down) t' st' where
      "traverse_table_to_table t (UserAddress va) (s, c) = (Ok t', st')"
      "keeps_entries (s, c) st'" "at_level st' va (Suc l) t'" "pa_fits (page_alloc_state (fst st'))"
      "\<And>k. room (Suc k) (page_alloc_state s) \<Longrightarrow> room k (page_alloc_state (fst st'))"
  | (full) st' where
      "traverse_table_to_table t (UserAddress va) (s, c) = (Err (), st')"
      "keeps_entries (s, c) st'" "exhausted (s, c)" "user_entry s c va = None"
      "\<And>k. \<not> room (Suc k) (page_alloc_state s)"
proof -
  let ?T = "tm_table t" and ?i = "va_index l va"
  obtain i where i: "row_by_address t va = Ok (tm_row t i)" "unat i = ?i"
    and val: "row_value (kmem s) (tm_row t i) = Ok (rows_of s ?T ?i)"
    and ptr: "row_ptr (tm_row t i) = row_addr ?T ?i" "row_index (tm_row t i) < ROW_COUNT"
    and dt: "descriptor_type (kmem s) (tm_row t i) = Ok (classify_row (int l) (rows_of s ?T ?i))"
    by (rule row_at_level [OF lvl va])
  have tab: "table_at (rows_of s) (table_l0 c) (va_path l va) = Some ?T"
    and lev: "tm_level t = int l" using lvl by (simp_all add: at_level_def tm_on_path_def)
  note next_path = on_path_next [OF lvl va i(2) \<open>l < 3\<close>]
  have vp: "valid_path (va_path l va @ [?i])" using valid_va_path(1) [of "Suc l" va] \<open>l < 3\<close> by simp
  show thesis
  proof (cases "classify_row (int l) (rows_of s ?T ?i) = Some Table")
    case True
    let ?nt = "virtual_address (table_desc_address (TableDescriptorBuilder (rows_of s ?T ?i)))"
    have "traverse_table_to_table t (UserAddress va) (s, c)
        = (Ok (table_manager_new ?nt (tm_level t + 1) (row_start (tm_row t i))), (s, c))"
      using i(1) dt True val by (simp add: traverse_table_to_table_def load_table_def)
    moreover have "at_level (s, c) va (Suc l) (table_manager_new ?nt (tm_level t + 1) (row_start (tm_row t i)))"
      using tab True next_path [of ?nt]
      by (simp add: at_level_def table_at_snoc next_table_def table_manager_new_def)
    moreover have "keeps_entries (s, c) (s, c)" using wf by (simp add: keeps_entries_def)
    ultimately show thesis using down fits room_less by fastforce
  next
    case False
    then have trav: "traverse_table_to_table t (UserAddress va) (s, c) =
        and_then (and_then (alloc_page_raw (s, c)) (\<lambda>allocation st.
            and_then (table_desc_new (pa_address allocation), st) (\<lambda>table_desc st.
            and_then (with_mem (write_table (tm_row t i) table_desc) st) (\<lambda>_ st. (Ok (pa_address allocation), st)))))
          (\<lambda>next_table st. (Ok (table_manager_new (virtual_address next_table) (tm_level t + 1) (row_start (tm_row t i))), st))"
      using i(1) dt by (auto simp: traverse_table_to_table_def Let_def split: option.split DescriptorType.split)
    from wf fits show thesis
    proof (cases rule: alloc_page_raw_cases)
      case (page a pa)
      have T: "?T \<in> ptrs c" using tables_inD [OF ctx_wfD(3) [OF wf] _ tab] \<open>l < 3\<close> by simp
      have g: "can_grow s c a pa ?T ?i" using wf page T by (simp add: can_grow_def)
      have "int l < LEVEL_MAX" using \<open>l < 3\<close> by (simp add: LEVEL_MAX_def)
      then obtain b where b: "table_desc_new (pa_address a) = Ok b"
          "classify_row (int l) (td_pending b) = Some Table" "virtual_address (table_desc_address b) = pa_ptr a"
        using table_desc_of_page [OF grow_owned(2,1) [OF g]] by blast
      let ?st = "grow s c a pa ?T ?i (td_pending b)"
      have "with_mem (write_table (tm_row t i) b)
          (s\<lparr>page_alloc_state := pa, kmem := fill_bytes (kmem s) (pa_ptr a) 0 4096\<rparr>,
           c\<lparr>page_allocations := page_allocations c @ [a]\<rparr>) = (Ok (), ?st)"
        using grow_after_raw [OF ptr, where v = "td_pending b" and s = s and pa = pa and a = a and c = c] lev \<open>int l < LEVEL_MAX\<close>
        by (simp add: with_mem_def write_table_def tm_row_def)
      then have res: "traverse_table_to_table t (UserAddress va) (s, c)
          = (Ok (table_manager_new (pa_ptr a) (tm_level t + 1) (row_start (tm_row t i))), ?st)"
        using trav page b by simp
      note ins = ctx_wf_table_inserted [OF g vp tab, of "td_pending b"]
      have "at_level ?st va (Suc l) (table_manager_new (pa_ptr a) (tm_level t + 1) (row_start (tm_row t i)))"
        using ins(2) False b next_path [of "pa_ptr a"] by (simp add: at_level_def table_manager_new_def)
      moreover have "keeps_entries (s, c) ?st" using ins(1) False b by simp
      ultimately show thesis using down [OF res] fresh_page_fits [OF page(2) fits] page(4) by simp
    next
      case (full pa)
      have "table_at (rows_of s) (table_l0 c) (va_path (Suc l) va) = None"
        using tab False by (simp add: table_at_snoc next_table_def)
      from no_table_no_entry [OF this] have "user_entry s c va = None" using \<open>l < 3\<close> by simp
      then show thesis
        using that(2) [of "(s\<lparr>page_alloc_state := pa\<rparr>, c)"] full trav ctx_wf_full [OF wf full(2,3,4)]
        by (simp add: keeps_entries_def tables_grow_def pages_kept_def exhausted_def)
    qed
  qed
qed

text \<open>The loop reaches the last-level table, or stops because no page is left.\<close>

lemma descend_reaches:
  assumes "ctx_wf st" "pa_fits (page_alloc_state (fst st))" "at_level st va l t" "unat va < 2 ^ 48" "l \<le> 3"
  shows "(\<exists>t' st'. descend t (UserAddress va) st = (Ok t', st') \<and> keeps_entries st st'
            \<and> at_level st' va 3 t' \<and> pa_fits (page_alloc_state (fst st'))
            \<and> (\<forall>k. room (3 - l + k) (page_alloc_state (fst st)) \<longrightarrow> room k (page_alloc_state (fst st'))))
    \<or> (\<exists>st' st''. descend t (UserAddress va) st = (Err (), st'') \<and> keeps_entries st st'' \<and> keeps_entries st st' \<and> exhausted st'
            \<and> user_entry (fst st) (snd st) va = None
            \<and> (\<forall>k. \<not> room (3 - l + k) (page_alloc_state (fst st))))"
  using assms
proof (induction "3 - l" arbitrary: l t st)
  case 0
  then have "tm_level t = 3" by (simp add: at_level_def tm_on_path_def)
  then have "descend t (UserAddress va) st = (Ok t, st)"
    by (subst descend.simps) (simp add: LEVEL_MAX_def)
  moreover have "l = 3" using 0 by simp
  ultimately show ?case using 0 by (auto simp: keeps_entries_def)
next
  case (Suc n)
  then have l: "l < 3" by simp
  have "tm_level t < LEVEL_MAX" using Suc.prems(3) l by (simp add: at_level_def tm_on_path_def LEVEL_MAX_def)
  then have unfold: "descend t (UserAddress va) st
      = and_then (traverse_table_to_table t (UserAddress va) st) (\<lambda>t' st'. descend t' (UserAddress va) st')"
    by (subst descend.simps) simp
  obtain s c where st: "st = (s, c)" by (cases st)
  have keep: "keeps_entries st st" using Suc.prems(1) by (simp add: keeps_entries_def)
  from Suc.prems(1,2,3) st have "ctx_wf (s, c)" "pa_fits (page_alloc_state s)" "at_level (s, c) va l t" by simp_all
  from this Suc.prems(4) l show ?case
  proof (cases rule: table_step)
    case (down t' st')
    have n: "n = 3 - Suc l" and l': "Suc l \<le> 3" using Suc.hyps(2) l by simp_all
    have w: "ctx_wf st'" using down(2) by (simp add: keeps_entries_def)
    have IH: "(\<exists>t2 st2. descend t' (UserAddress va) st' = (Ok t2, st2) \<and> keeps_entries st' st2
            \<and> at_level st2 va 3 t2 \<and> pa_fits (page_alloc_state (fst st2))
            \<and> (\<forall>k. room (n + k) (page_alloc_state (fst st')) \<longrightarrow> room k (page_alloc_state (fst st2))))
      \<or> (\<exists>st2 st3. descend t' (UserAddress va) st' = (Err (), st3) \<and> keeps_entries st' st3 \<and> keeps_entries st' st2 \<and> exhausted st2
            \<and> user_entry (fst st') (snd st') va = None
            \<and> (\<forall>k. \<not> room (n + k) (page_alloc_state (fst st'))))"
      using Suc.hyps(1) [OF n w down(4,3) Suc.prems(4) l'] by (simp only: n [symmetric])
    have run: "descend t (UserAddress va) st = descend t' (UserAddress va) st'"
      using unfold down(1) st by simp
    have tr: "keeps_entries st st2" if "keeps_entries st' st2" for st2
      using keeps_entries_trans [OF _ that] down(2) st by blast
    have ue: "user_entry (fst st') (snd st') va = user_entry (fst st) (snd st) va"
      using keeps_user_entry [OF down(2)] st by simp
    have sum: "3 - l + k = Suc (n + k)" for k using Suc.hyps(2) by simp
    have rm: "room (n + k) (page_alloc_state (fst st'))" if "room (3 - l + k) (page_alloc_state (fst st))" for k
      using down(5) that st sum by simp
    from IH show ?thesis
    proof (elim disjE exE conjE)
      fix t2 st2
      assume "descend t' (UserAddress va) st' = (Ok t2, st2)" "keeps_entries st' st2"
        "at_level st2 va 3 t2" "pa_fits (page_alloc_state (fst st2))"
        "\<forall>k. room (n + k) (page_alloc_state (fst st')) \<longrightarrow> room k (page_alloc_state (fst st2))"
      then show ?thesis using run tr rm by (intro disjI1) auto
    next
      fix st2 st3
      assume "descend t' (UserAddress va) st' = (Err (), st3)" "keeps_entries st' st3" "keeps_entries st' st2"
        "exhausted st2" "user_entry (fst st') (snd st') va = None"
        "\<forall>k. \<not> room (n + k) (page_alloc_state (fst st'))"
      then show ?thesis using run tr rm ue by (intro disjI2) metis
    qed
  next
    case (full st')
    moreover have "3 - l + k = Suc (n + k)" for k using Suc.hyps(2) by simp
    ultimately show ?thesis using unfold st keep by auto
  qed
qed


section \<open>Mapping a page\<close>

text \<open>The entry written for a user page: normal memory, accessible from EL0, not global.\<close>

definition user_page_row :: "PhysicalAddress \<Rightarrow> u64" where
  "user_page_row p = pd_pending (page_desc_set_unprivileged True (page_desc_set_attribute Normal
     (PageDescriptorBuilder (TYPE_PAGE OR ACCESS_FLAG OR NOT_GLOBAL OR address p))))"

lemma page_desc_of_page:
  assumes "owned_page s a" "mm_wf s"
  shows "page_desc_new (pa_address a) = Ok (PageDescriptorBuilder (TYPE_PAGE OR ACCESS_FLAG OR NOT_GLOBAL OR address (pa_address a)))"
    and "classify_row LEVEL_MAX (user_page_row (pa_address a)) = Some Page"
    and "page_desc_address (PageDescriptorBuilder (user_page_row (pa_address a))) = pa_address a"
proof -
  have "4096 dvd unat (address (pa_address a))" "unat (address (pa_address a)) < 2 ^ 48"
    using assms(1,2) by (auto simp: owned_page_def mm_wf_def)
  from page_address_field [OF this]
  show b: "page_desc_new (pa_address a) = Ok (PageDescriptorBuilder (TYPE_PAGE OR ACCESS_FLAG OR NOT_GLOBAL OR address (pa_address a)))"
    by (simp add: page_desc_new_def PAGE_ADDRESS_MASK_def TABLE_ADDRESS_MASK_def)
  let ?b = "page_desc_set_unprivileged True (page_desc_set_attribute Normal
     (PageDescriptorBuilder (TYPE_PAGE OR ACCESS_FLAG OR NOT_GLOBAL OR address (pa_address a))))"
  have "page_desc_address ?b = pa_address a \<and> pd_pending ?b AND TYPE_MASK = TYPE_PAGE"
    using page_desc.new_address [OF b] page_desc_set_attribute_keeps page_desc_set_unprivileged_keeps by metis
  then show "classify_row LEVEL_MAX (user_page_row (pa_address a)) = Some Page"
    and "page_desc_address (PageDescriptorBuilder (user_page_row (pa_address a))) = pa_address a"
    by (simp_all add: user_page_row_def classify_row_def TYPE_PAGE_def TYPE_BLOCK_def)
qed

lemma ctx_wf_page_inserted:
  assumes g: "can_grow s c a pa T i"
    and p: "valid_path p" "length p = 3" "table_at (rows_of s) (table_l0 c) p = Some T"
    and v: "classify_row LEVEL_MAX v = Some Page"
  shows "ctx_wf (grow s c a pa T i v)"
    and "valid_entry_path q \<Longrightarrow> entry_at (rows_of (fst (grow s c a pa T i v))) (table_l0 c) q
      = (if q = p @ [i] then Some v else entry_at (rows_of s) (table_l0 c) q)"
    and "valid_path r \<Longrightarrow> table_at (rows_of (fst (grow s c a pa T i v))) (table_l0 c) r = table_at (rows_of s) (table_l0 c) r"
proof -
  have wf: "ctx_wf (s, c)" and i: "i < 512" using g by (simp_all add: can_grow_def)
  have ins: "page_inserted (rows_of s) (rows_of (fst (grow s c a pa T i v))) (table_l0 c) (ptrs c) p i T v"
    using ctx_wfD(3,4) [OF wf] p v i grow_owned(5) [OF g] grow_rows [OF g]
    by (auto simp: page_inserted_def)
  have "tables_in (rows_of (fst (grow s c a pa T i v))) (table_l0 c) (insert (pa_ptr a) (ptrs c))"
    using tree_inj_page(2) [OF ins] by (auto simp: tables_in_def)
  then show "ctx_wf (grow s c a pa T i v)"
    using grow_owned(1,2,3) [OF g] tree_inj_page(1) [OF ins] by (auto simp: ctx_wf_def)
  show "valid_entry_path q \<Longrightarrow> entry_at (rows_of (fst (grow s c a pa T i v))) (table_l0 c) q
      = (if q = p @ [i] then Some v else entry_at (rows_of s) (table_l0 c) q)"
    by (rule entry_page [OF ins])
  show "valid_path r \<Longrightarrow> table_at (rows_of (fst (grow s c a pa T i v))) (table_l0 c) r = table_at (rows_of s) (table_l0 c) r"
    by (rule table_at_page [OF ins])
qed

lemma grow_zero:
  assumes g: "can_grow s c a pa T i" and x: "unat (x - pa_ptr a) < 4096"
  shows "kmem (fst (grow s c a pa T i v)) x = 0"
proof -
  have wf: "ctx_wf (s, c)" and T: "T \<in> ptrs c" "i < 512" using g by (simp_all add: can_grow_def)
  have pp: "page_ptr T" "page_ptr (pa_ptr a)" "T \<noteq> pa_ptr a"
    using ptrs_page_ptr [OF wf T(1)] grow_owned(4,5) [OF g] T(1) by auto
  have xa: "unat (pa_ptr a) \<le> unat x \<and> unat x < unat (pa_ptr a) + 4096"
    using x pp(2) by (subst (asm) word_diff_less_iff) (auto simp: page_ptr_def)
  have "\<not> unat (x - row_addr T i) < 8"
  proof
    assume "unat (x - row_addr T i) < 8"
    then have "unat (x - T) < 4096" by (rule row_in_page [OF _ T(2)])
    then have "unat T \<le> unat x \<and> unat x < unat T + 4096"
      using pp(1) by (subst (asm) word_diff_less_iff) (auto simp: page_ptr_def)
    then show False using xa page_ptr_apart [OF pp] by auto
  qed
  then show ?thesis
    using x by (simp add: grow_def write_u64_def write_bytes_at_def fill_bytes_def)
qed

text \<open>The last step: the entry is there, or it is made for a fresh page, or no page is left.\<close>

lemma page_step:
  assumes wf: "ctx_wf (s, c)" and fits: "pa_fits (page_alloc_state s)"
    and lvl: "at_level (s, c) va 3 t" and va: "unat va < 2 ^ 48"
  obtains (mapped) e where "user_entry s c va = Some e"
      "traverse_table_to_page t (UserAddress va) (s, c) = (Ok (page_desc_address (PageDescriptorBuilder e)), (s, c))"
  | (fresh) a pa where "user_entry s c va = None" "can_grow s c a pa (tm_table t) (va_index 3 va)"
      "traverse_table_to_page t (UserAddress va) (s, c)
        = (Ok (pa_address a), grow s c a pa (tm_table t) (va_index 3 va) (user_page_row (pa_address a)))"
      "\<And>k. room (Suc k) (page_alloc_state s) \<Longrightarrow> room k pa"
  | (full) st' where "user_entry s c va = None" "keeps_entries (s, c) st'" "exhausted (s, c)"
      "\<And>k. \<not> room (Suc k) (page_alloc_state s)"
      "traverse_table_to_page t (UserAddress va) (s, c) = (Err (), st')"
proof -
  let ?T = "tm_table t" and ?i = "va_index 3 va"
  obtain i where i: "row_by_address t va = Ok (tm_row t i)"
    and val: "row_value (kmem s) (tm_row t i) = Ok (rows_of s ?T ?i)"
    and ptr: "row_ptr (tm_row t i) = row_addr ?T ?i" "row_index (tm_row t i) < ROW_COUNT"
    and dt: "descriptor_type (kmem s) (tm_row t i) = Ok (classify_row (int 3) (rows_of s ?T ?i))"
    by (rule row_at_level [OF lvl va])
  have tab: "table_at (rows_of s) (table_l0 c) (va_path 3 va) = Some ?T"
    and lev: "tm_level t = LEVEL_MAX" using lvl by (simp_all add: at_level_def tm_on_path_def LEVEL_MAX_def)
  have ent: "user_entry s c va = page_row (rows_of s) ?T ?i"
    using tab va_path_Suc [of 3 va] by (simp add: user_entry_def entry_at_snoc del: va_path_Suc)
  have three: "int 3 = LEVEL_MAX" by (simp add: LEVEL_MAX_def)
  show thesis
  proof (cases "classify_row LEVEL_MAX (rows_of s ?T ?i) = Some Page")
    case True
    then show thesis
      using mapped [of "rows_of s ?T ?i"] i dt val ent three
      by (simp add: traverse_table_to_page_def load_page_def page_row_def)
  next
    case False
    then have none: "user_entry s c va = None" using ent by (simp add: page_row_def)
    have trav: "traverse_table_to_page t (UserAddress va) (s, c) =
        and_then (alloc_page_raw (s, c)) (\<lambda>allocation st.
        and_then (page_desc_new (pa_address allocation), st) (\<lambda>page_desc0 st.
        and_then (with_mem (write_page (tm_row t i)
          (page_desc_set_unprivileged True (page_desc_set_attribute Normal page_desc0))) st)
          (\<lambda>_ st. (Ok (pa_address allocation), st))))"
      using i dt False three
      by (auto simp: traverse_table_to_page_def Let_def split: option.split DescriptorType.split)
    from wf fits show thesis
    proof (cases rule: alloc_page_raw_cases)
      case (page a pa)
      have T: "?T \<in> ptrs c" using tables_inD [OF ctx_wfD(3) [OF wf] _ tab] by simp
      have g: "can_grow s c a pa ?T ?i" using wf page T by (simp add: can_grow_def)
      note b = page_desc_of_page(1) [OF grow_owned(2,1) [OF g]]
      have "with_mem (write_page (tm_row t i) (page_desc_set_unprivileged True (page_desc_set_attribute Normal
            (PageDescriptorBuilder (TYPE_PAGE OR ACCESS_FLAG OR NOT_GLOBAL OR address (pa_address a))))))
          (s\<lparr>page_alloc_state := pa, kmem := fill_bytes (kmem s) (pa_ptr a) 0 4096\<rparr>,
           c\<lparr>page_allocations := page_allocations c @ [a]\<rparr>) = (Ok (), grow s c a pa ?T ?i (user_page_row (pa_address a)))"
        using grow_after_raw [OF ptr, where v = "user_page_row (pa_address a)" and s = s and pa = pa and a = a and c = c] lev
        by (simp add: with_mem_def write_page_def tm_row_def user_page_row_def)
      then show thesis using fresh [OF none g _ page(4)] trav page(1) b by simp
    next
      case (full pa)
      then show thesis
        using that(3) [of "(s\<lparr>page_alloc_state := pa\<rparr>, c)"] none full trav ctx_wf_full [OF wf full(2,3,4)]
        by (simp add: keeps_entries_def tables_grow_def pages_kept_def exhausted_def)
    qed
  qed
qed


section \<open>Properties of \<open>alloc_page\<close>\<close>

text \<open>The path of an address is its page number, written in base 512.\<close>

lemma va_path_eq_iff:
  assumes "unat va < 2 ^ 48" "unat va' < 2 ^ 48"
  shows "va_path 4 va = va_path 4 va' \<longleftrightarrow> unat va div 4096 = unat va' div 4096"
proof -
  have digits: "n = 512 ^ 3 * (n div 512 ^ 3 mod 512) + 512 ^ 2 * (n div 512 ^ 2 mod 512)
      + 512 * (n div 512 mod 512) + n mod 512" if "n < 512 ^ 4" for n :: nat
  proof -
    have d: "n div 512 ^ 2 = n div 512 div 512" "n div 512 ^ 3 = n div 512 div 512 div 512"
      by (simp_all add: div_mult2_eq [symmetric])
    have "n div 512 ^ 3 < 512" using that by (simp add: less_mult_imp_div_less)
    then have "n div 512 ^ 3 mod 512 = n div 512 div 512 div 512" by (simp only: d mod_less)
    moreover have "n = 512 * (n div 512) + n mod 512"
      "n div 512 = 512 * (n div 512 div 512) + n div 512 mod 512"
      "n div 512 div 512 = 512 * (n div 512 div 512 div 512) + n div 512 div 512 mod 512"
      by simp_all
    ultimately show ?thesis unfolding d(1) by (simp only: power3_eq_cube power2_eq_square)
  qed
  have path: "va_path 4 w = [unat w div 4096 div 512 ^ 3 mod 512, unat w div 4096 div 512 ^ 2 mod 512,
      unat w div 4096 div 512 mod 512, unat w div 4096 mod 512]" for w
  proof -
    have "[0..<4] = [0, 1, 2, 3 :: nat]" by (simp add: upt_rec)
    then show ?thesis
      by (simp add: va_path_def va_index_def row_shift_def div_mult2_eq [symmetric])
  qed
  define number where "number xs = 512 ^ 3 * xs ! 0 + 512 ^ 2 * xs ! 1 + 512 * xs ! 2 + xs ! 3"
    for xs :: "nat list"
  have num: "number (va_path 4 w) = unat w div 4096" if "unat w < 2 ^ 48" for w
  proof -
    have "unat w div 4096 < 512 ^ 4" using that by (simp add: less_mult_imp_div_less)
    from digits [OF this] show ?thesis by (simp only: path number_def nth_Cons_0 nth_Cons_numeral
        nth_Cons_Suc One_nat_def numeral_2_eq_2 numeral_3_eq_3)
  qed
  show ?thesis
  proof
    assume "va_path 4 va = va_path 4 va'"
    then show "unat va div 4096 = unat va' div 4096" using num [OF assms(1)] num [OF assms(2)] by simp
  next
    assume "unat va div 4096 = unat va' div 4096"
    then show "va_path 4 va = va_path 4 va'" by (simp only: path)
  qed
qed

lemma at_level_root:
  assumes "unat va < 2 ^ 48"
  shows "at_level (s, c) va 0 (table_manager_new (table_l0 c) LEVEL_ROOT 0)"
  using assms by (simp add: at_level_def tm_on_path_def table_manager_new_def LEVEL_ROOT_def va_base_def
      row_shift_def va_path_def)

text \<open>The three ways a call can end.\<close>

lemma alloc_page_cases:
  assumes wf: "ctx_wf (s, c)" and fits: "pa_fits (page_alloc_state s)" and va: "unat va < 2 ^ 48"
  obtains (mapped) e st' where "user_entry s c va = Some e" "keeps_entries (s, c) st'"
      "alloc_page (UserAddress va) (s, c) = (Ok (page_desc_address (PageDescriptorBuilder e)), st')"
      "pa_fits (page_alloc_state (fst st'))"
      "\<And>k. room (4 + k) (page_alloc_state s) \<Longrightarrow> room k (page_alloc_state (fst st'))"
  | (fresh) s1 c1 a pa T where "user_entry s c va = None" "keeps_entries (s, c) (s1, c1)"
      "can_grow s1 c1 a pa T (va_index 3 va)" "table_at (rows_of s1) (table_l0 c1) (va_path 3 va) = Some T"
      "alloc_page (UserAddress va) (s, c)
        = (Ok (pa_address a), grow s1 c1 a pa T (va_index 3 va) (user_page_row (pa_address a)))"
      "pa_fits pa" "\<And>k. room (4 + k) (page_alloc_state s) \<Longrightarrow> room k pa"
  | (full) st1 st' where "user_entry s c va = None" "keeps_entries (s, c) st'" "keeps_entries (s, c) st1"
      "exhausted st1" "alloc_page (UserAddress va) (s, c) = (Err (), st')" "\<not> room 4 (page_alloc_state s)"
proof -
  let ?root = "table_manager_new (table_l0 c) LEVEL_ROOT 0"
  consider (down) t s1 c1 where "descend ?root (UserAddress va) (s, c) = (Ok t, (s1, c1))"
      "keeps_entries (s, c) (s1, c1)" "at_level (s1, c1) va 3 t" "pa_fits (page_alloc_state s1)"
      "\<forall>k. room (3 + k) (page_alloc_state s) \<longrightarrow> room k (page_alloc_state s1)"
    | (stop) st1 st' where "descend ?root (UserAddress va) (s, c) = (Err (), st')" "keeps_entries (s, c) st'"
      "keeps_entries (s, c) st1" "exhausted st1" "user_entry s c va = None"
      "\<forall>k. \<not> room (3 + k) (page_alloc_state s)"
    using descend_reaches [of "(s, c)", OF wf _ at_level_root [OF va] va] fits by auto
  then show thesis
  proof cases
    case down
    have wf1: "ctx_wf (s1, c1)" using down(2) by (simp add: keeps_entries_def)
    have e1: "user_entry s1 c1 va = user_entry s c va" using keeps_user_entry [OF down(2)] by simp
    have run: "alloc_page (UserAddress va) (s, c) = traverse_table_to_page t (UserAddress va) (s1, c1)"
      using down(1) by (simp add: alloc_page_def)
    from wf1 down(4,3) va show thesis
    proof (cases rule: page_step)
      case (mapped e)
      have "room k (page_alloc_state s1)" if "room (4 + k) (page_alloc_state s)" for k
        using down(5) [rule_format, of "Suc k"] that room_less by (simp add: numeral_eq_Suc)
      then show thesis using that(1) mapped down(2,4) e1 run by simp
    next
      case (fresh a pa)
      have "room k pa" if "room (4 + k) (page_alloc_state s)" for k
        using down(5) [rule_format, of "Suc k"] that fresh(4) by (simp add: numeral_eq_Suc)
      moreover have "pa_fits pa"
        using fresh_page_fits [OF _ down(4)] fresh(2) unfolding can_grow_def by blast
      ultimately show thesis using that(2) [of s1 c1 a pa "tm_table t"] fresh down e1 run by (simp add: at_level_def)
    next
      case (full st')
      have "\<not> room 4 (page_alloc_state s)" using down(5) [rule_format, of 1] full(4) [of 0] by auto
      then show thesis
        using that(3) [OF _ keeps_entries_trans [OF down(2) full(2)] down(2)] full e1 run by simp
    qed
  next
    case stop
    have run: "alloc_page (UserAddress va) (s, c) = (Err (), st')" using stop(1) by (simp add: alloc_page_def)
    moreover have "\<not> room 4 (page_alloc_state s)" using stop(6) [rule_format, of 1] by simp
    ultimately show thesis using that(3) stop by blast
  qed
qed


text \<open>An address space as a map from page numbers to entries, and what mapping a page does to it.\<close>

definition user_map :: "mm_state \<Rightarrow> memory_context \<Rightarrow> nat \<Rightarrow> u64 option" where
  "user_map s c n = (if n < 2 ^ 36 then user_entry s c (of_nat (n * 4096)) else None)"

definition spec_map_page :: "nat \<Rightarrow> PhysicalAddress \<Rightarrow> (nat \<Rightarrow> u64 option) \<Rightarrow> (nat \<Rightarrow> u64 option)" where
  "spec_map_page n p m = (case m n of Some e \<Rightarrow> m | None \<Rightarrow> m(n \<mapsto> user_page_row p))"

lemma page_number:
  assumes "n < 2 ^ 36"
  shows "unat (of_nat (n * 4096) :: usize) = n * 4096" "unat (of_nat (n * 4096) :: usize) < 2 ^ 48"
    "unat (of_nat (n * 4096) :: usize) div 4096 = n"
proof -
  show u: "unat (of_nat (n * 4096) :: usize) = n * 4096"
    using assms by (intro unat_of_nat64) simp
  show "unat (of_nat (n * 4096) :: usize) < 2 ^ 48" "unat (of_nat (n * 4096) :: usize) div 4096 = n"
    unfolding u using assms by simp_all
qed

lemma user_map_entry:
  assumes "unat va < 2 ^ 48"
  shows "user_map s c (unat va div 4096) = user_entry s c va"
proof -
  have n: "unat va div 4096 < 2 ^ 36" using assms by (simp add: less_mult_imp_div_less)
  have "va_path 4 (of_nat (unat va div 4096 * 4096)) = va_path 4 va"
    using va_path_eq_iff [OF page_number(2) [OF n] assms] page_number(3) [OF n] by simp
  then show ?thesis using n by (simp add: user_map_def user_entry_def)
qed

lemma keeps_user_map: "keeps_entries (s, c) (s', c') \<Longrightarrow> user_map s' c' = user_map s c"
  by (rule ext) (auto simp: user_map_def dest: keeps_user_entry)

lemma grow_user_map:
  assumes g: "can_grow s c a pa T (va_index 3 va)" and va: "unat va < 2 ^ 48"
    and T: "table_at (rows_of s) (table_l0 c) (va_path 3 va) = Some T"
    and st: "grow s c a pa T (va_index 3 va) (user_page_row (pa_address a)) = (s', c')"
  shows "ctx_wf (s', c')" "user_map s' c' = (user_map s c)(unat va div 4096 \<mapsto> user_page_row (pa_address a))"
proof -
  have v: "classify_row LEVEL_MAX (user_page_row (pa_address a)) = Some Page"
    using page_desc_of_page(2) [OF grow_owned(2,1) [OF g]] .
  note ins = ctx_wf_page_inserted [OF g _ _ T v]
  show "ctx_wf (s', c')" using ins(1) st by simp
  have c': "table_l0 c' = table_l0 c" using st by (metis grow_simps(2) snd_conv)
  have p4: "va_path 4 va = va_path 3 va @ [va_index 3 va]" using va_path_Suc [of 3 va] by simp
  have ent: "entry_at (rows_of s') (table_l0 c') q
      = (if q = va_path 4 va then Some (user_page_row (pa_address a)) else entry_at (rows_of s) (table_l0 c) q)"
    if "valid_entry_path q" for q
    using ins(2) [OF _ _ that] st c' p4 by simp
  show "user_map s' c' = (user_map s c)(unat va div 4096 \<mapsto> user_page_row (pa_address a))"
  proof (rule ext)
    fix n
    have lt: "unat va div 4096 < 2 ^ 36" using va by (simp add: less_mult_imp_div_less)
    show "user_map s' c' n = ((user_map s c)(unat va div 4096 \<mapsto> user_page_row (pa_address a))) n"
    proof (cases "n < 2 ^ 36")
      case True
      have "va_path 4 (of_nat (n * 4096)) = va_path 4 va \<longleftrightarrow> n = unat va div 4096"
        using va_path_eq_iff [OF page_number(2) [OF True] va] page_number(3) [OF True] by simp
      then show ?thesis
        using True ent [OF valid_va_path(2), of "of_nat (n * 4096)"] by (simp add: user_map_def user_entry_def)
    next
      case False
      then show ?thesis using lt by (auto simp: user_map_def)
    qed
  qed
qed

text \<open>
  C5. Mapping a page implements a map update. When \<^verbatim>\<open>alloc_page\<close> succeeds on a well-formed address
  space, the address space stays well-formed; if the page of the address was mapped nothing
  changes and its frame is returned; otherwise exactly that page becomes mapped, to the
  returned frame, as unprivileged normal memory. No other page's entry changes.
\<close>

theorem alloc_page_refines:
  assumes "ctx_wf (s, c)" and "pa_fits (page_alloc_state s)" and "unat va < 2 ^ 48"
    and "alloc_page (UserAddress va) (s, c) = (Ok p, (s', c'))"
  shows "ctx_wf (s', c')
    \<and> user_map s' c' = spec_map_page (unat va div 4096) p (user_map s c)
    \<and> (\<exists>e. user_map s' c' (unat va div 4096) = Some e \<and> page_desc_address (PageDescriptorBuilder e) = p)"
  using assms(1,2,3)
proof (cases rule: alloc_page_cases)
  case (mapped e st')
  then have st': "st' = (s', c')" and p: "p = page_desc_address (PageDescriptorBuilder e)" using assms(4) by auto
  have m: "user_map s' c' = user_map s c" using mapped(2) st' keeps_user_map by simp
  have "user_map s c (unat va div 4096) = Some e" using user_map_entry [OF assms(3)] mapped(1) by simp
  then show ?thesis using m p mapped(2) st' by (simp add: spec_map_page_def keeps_entries_def)
next
  case (fresh s1 c1 a pa T)
  then have st': "grow s1 c1 a pa T (va_index 3 va) (user_page_row (pa_address a)) = (s', c')"
    and p: "p = pa_address a" using assms(4) by auto
  note g = grow_user_map [OF fresh(3) assms(3) fresh(4) st']
  have m: "user_map s1 c1 = user_map s c" using keeps_user_map [OF fresh(2)] .
  have "user_map s c (unat va div 4096) = None" using user_map_entry [OF assms(3)] fresh(1) by simp
  then show ?thesis
    using g m p page_desc_of_page(3) [OF grow_owned(2,1) [OF fresh(3)]] by (simp add: spec_map_page_def)
next
  case (full st1 st')
  then show ?thesis using assms(4) by simp
qed

text \<open>
  A page that \<^verbatim>\<open>alloc_page\<close> maps for the first time is a new one: its frame lies above everything
  handed out before the call, below the counter after it, and all its bytes are zero.
\<close>

lemma alloc_page_new_page:
  assumes "ctx_wf (s, c)" and "pa_fits (page_alloc_state s)" and "unat va < 2 ^ 48"
    and "alloc_page (UserAddress va) (s, c) = (Ok p, (s', c'))" and "user_map s c (unat va div 4096) = None"
  shows "unat (allocated (page_alloc_state s)) \<le> unat (address p)
    \<and> unat (address p) + 4096 \<le> unat (allocated (page_alloc_state s'))
    \<and> (\<forall>x. unat (x - virtual_address p) < 4096 \<longrightarrow> kmem s' x = 0)"
  using assms(1,2,3)
proof (cases rule: alloc_page_cases)
  case (mapped e st')
  then show ?thesis using assms(3,5) by (simp add: user_map_entry)
next
  case (fresh s1 c1 a pa T)
  then have st': "grow s1 c1 a pa T (va_index 3 va) (user_page_row (pa_address a)) = (s', c')"
    and p: "p = pa_address a" using assms(4) by auto
  have fr: "fresh_page (page_alloc_state s1) (pa_address a) pa" and ptr: "pa_ptr a = virtual_address (pa_address a)"
    using fresh(3) by (simp_all add: can_grow_def)
  have "page_alloc_state s' = pa" using st' by (metis fst_conv grow_simps(1))
  moreover have "unat (allocated (page_alloc_state s)) \<le> unat (allocated (page_alloc_state s1))"
    using fresh(2) by (simp add: keeps_entries_def mc_frame_def)
  moreover have "kmem s' x = 0" if "unat (x - pa_ptr a) < 4096" for x
    using grow_zero [OF fresh(3) that] st' by (metis fst_conv)
  ultimately show ?thesis using fr p ptr by (simp add: fresh_page_def)
next
  case (full st1 st')
  then show ?thesis using assms(4) by simp
qed


text \<open>The loop stops at the first level for an address outside the user half.\<close>

lemma alloc_page_outside:
  assumes "2 ^ 48 \<le> unat va"
  shows "alloc_page (UserAddress va) (s, c) = (Err (), (s, c))"
proof -
  let ?root = "table_manager_new (table_l0 c) LEVEL_ROOT 0"
  have "traverse_table_to_table ?root (UserAddress va) (s, c) = (Err (), (s, c))"
    using row_by_address_outside [OF assms] by (simp add: traverse_table_to_table_def)
  moreover have "tm_level ?root < LEVEL_MAX" by (simp add: table_manager_new_def LEVEL_ROOT_def LEVEL_MAX_def)
  ultimately have "descend ?root (UserAddress va) (s, c) = (Err (), (s, c))"
    by (subst descend.simps) simp
  then show ?thesis by (simp add: alloc_page_def)
qed

text \<open>
  C19. \<^verbatim>\<open>alloc_page\<close> always returns, never panics, and fails only for a reason: an address of 48 bits
  or more is refused with nothing changed; for a lower one an error means that the page was
  not mapped, that fewer than four free pages were left, and that the page allocator, at some
  point of the call, had none. A failed call changes no entry and keeps the address space
  well-formed.
\<close>

theorem alloc_page_total:
  assumes "ctx_wf (s, c)" and "pa_fits (page_alloc_state s)"
  shows "(2 ^ 48 \<le> unat va \<and> alloc_page (UserAddress va) (s, c) = (Err (), (s, c)))
    \<or> (unat va < 2 ^ 48 \<and> (\<exists>p s' c'. alloc_page (UserAddress va) (s, c) = (Ok p, (s', c'))))
    \<or> (unat va < 2 ^ 48 \<and> user_map s c (unat va div 4096) = None \<and> \<not> room 4 (page_alloc_state s)
       \<and> (\<exists>s' c'. alloc_page (UserAddress va) (s, c) = (Err (), (s', c'))
            \<and> ctx_wf (s', c') \<and> user_map s' c' = user_map s c)
       \<and> (\<exists>s1 c1. user_map s1 c1 = user_map s c \<and> mc_frame (s, c) (s1, c1) \<and> fst (page_alloc s1) = Err ()))"
proof (cases "2 ^ 48 \<le> unat va")
  case True
  then show ?thesis using alloc_page_outside [OF True] by simp
next
  case False
  then have va: "unat va < 2 ^ 48" by simp
  from assms va show ?thesis
  proof (cases rule: alloc_page_cases)
    case (mapped e st')
    then show ?thesis using va by (cases st') auto
  next
    case (fresh s1 c1 a pa T)
    then show ?thesis using va by (metis prod.collapse)
  next
    case (full st1 st')
    obtain s1 c1 s' c' where st: "st1 = (s1, c1)" "st' = (s', c')" by (cases st1, cases st') auto
    have "user_map s c (unat va div 4096) = None" using full(1) user_map_entry [OF va] by simp
    moreover have "ctx_wf (s', c')" "user_map s' c' = user_map s c"
      using full(2) st keeps_user_map by (simp_all add: keeps_entries_def)
    moreover have "user_map s1 c1 = user_map s c" "mc_frame (s, c) (s1, c1)" "fst (page_alloc s1) = Err ()"
      using full(3,4) st keeps_user_map by (simp_all add: keeps_entries_def exhausted_def)
    ultimately show ?thesis using va full(5,6) st(2) by blast
  qed
qed

section \<open>Isolation of address spaces\<close>

lemma alloc_page_frame:
  assumes "ctx_wf (s, c)" and "pa_fits (page_alloc_state s)" and "alloc_page (UserAddress va) (s, c) = (r, (s', c'))"
  shows "mc_frame (s, c) (s', c') \<and> ctx_wf (s', c')"
proof (cases "2 ^ 48 \<le> unat va")
  case True
  then show ?thesis using alloc_page_outside [OF True] assms by auto
next
  case False
  then have va: "unat va < 2 ^ 48" by simp
  from assms(1,2) va show ?thesis
  proof (cases rule: alloc_page_cases)
    case (mapped e st')
    then show ?thesis using assms(3) by (auto simp: keeps_entries_def)
  next
    case (fresh s1 c1 a pa T)
    then have st': "grow s1 c1 a pa T (va_index 3 va) (user_page_row (pa_address a)) = (s', c')"
      using assms(3) by simp
    have "mc_frame (s, c) (s1, c1)" using fresh(2) by (simp add: keeps_entries_def)
    then have "mc_frame (s, c) (s', c')"
      using mc_frame_trans grow_frame [OF fresh(3)] st' by metis
    then show ?thesis using grow_user_map(1) [OF fresh(3) va fresh(4) st'] by blast
  next
    case (full st1 st')
    then show ?thesis using assms(3) by (auto simp: keeps_entries_def)
  qed
qed

text \<open>Memory owned by one address space is outside what an operation on another may write.\<close>

lemma frame_other_pages:
  assumes fr: "mc_frame (s, c) (s', c')" and wf': "ctx_wf (s', c')"
    and d: "ctx_wf (s, d)" "ptrs c \<inter> ptrs d = {}"
  shows "ptrs c' \<inter> ptrs d = {}"
    and "b \<in> set (page_allocations d) \<Longrightarrow> owned_page s' b"
    and "b \<in> set (page_allocations d) \<Longrightarrow> unat (x - pa_ptr b) < 4096 \<Longrightarrow> kmem s' x = kmem s x"
proof -
  have own: "owned_page s' b" if "b \<in> set (page_allocations d)" for b
    using fr by (intro owned_page_mono [OF ctx_wfD(2) [OF d(1) that]]) (simp_all add: mc_frame_def)
  then show "b \<in> set (page_allocations d) \<Longrightarrow> owned_page s' b" by blast
  have ne: "pa_ptr a \<noteq> pa_ptr b" if a: "a \<in> set (page_allocations c')" and b: "b \<in> set (page_allocations d)" for a b
  proof
    assume eq: "pa_ptr a = pa_ptr b"
    obtain new where new: "page_allocations c' = page_allocations c @ new"
        "\<forall>a \<in> set new. unat (allocated (page_alloc_state s)) \<le> unat (address (pa_address a))"
      using fr by (auto simp: mc_frame_def)
    show False
    proof (cases "a \<in> set (page_allocations c)")
      case True
      then show ?thesis using eq b d(2) by (auto simp: ptrs_def)
    next
      case False
      then have "unat (allocated (page_alloc_state s)) \<le> unat (address (pa_address a))" using a new by auto
      moreover have "unat (address (pa_address b)) + 4096 \<le> unat (allocated (page_alloc_state s))"
        using ctx_wfD(2) [OF d(1) b] by (simp add: owned_page_def)
      moreover have "unat (address (pa_address a)) = unat (address (pa_address b))"
        using owned_page_ptr(2) [OF ctx_wfD(2) [OF wf' a] ctx_wfD(1) [OF wf']]
          owned_page_ptr(2) [OF own [OF b] ctx_wfD(1) [OF wf']] eq by simp
      ultimately show ?thesis by simp
    qed
  qed
  then show "ptrs c' \<inter> ptrs d = {}" by (auto simp: ptrs_def)
  show "kmem s' x = kmem s x" if b: "b \<in> set (page_allocations d)" and x: "unat (x - pa_ptr b) < 4096"
  proof -
    have "\<not> unat (x - pa_ptr a) < 4096" if a: "a \<in> set (page_allocations c')" for a
      using owned_pages_apart [OF own [OF b] ctx_wfD(2) [OF wf' a] ctx_wfD(1) [OF wf'] _ x] ne [OF a b] by metis
    then show ?thesis using fr by (auto simp: mc_frame_def)
  qed
qed

text \<open>Hence it is not affected at all: its tables have the same rows, and walks in them end where they did.\<close>

lemma frame_rows:
  assumes "mc_frame (s, c) (s', c')" and "ctx_wf (s', c')" and "ctx_wf (s, d)" "ptrs c \<inter> ptrs d = {}"
    and t: "t \<in> ptrs d" and i: "i < 512"
  shows "rows_of s' t i = rows_of s t i"
proof -
  obtain b where b: "b \<in> set (page_allocations d)" "t = pa_ptr b" using t by (auto simp: ptrs_def)
  have "kmem s' (row_addr t i + of_nat k) = kmem s (row_addr t i + of_nat k)" if "k < 8" for k
  proof (rule frame_other_pages(3) [OF assms(1-4) b(1)])
    have "unat (row_addr t i + of_nat k - row_addr t i) < 8" using that by (simp add: unat_of_nat64)
    from row_in_page [OF this i] show "unat (row_addr t i + of_nat k - pa_ptr b) < 4096" using b(2) by simp
  qed
  then show ?thesis unfolding mem_rows_def by (rule read_u64_cong)
qed

lemma frame_walks:
  assumes "mc_frame (s, c) (s', c')" and "ctx_wf (s', c')" and d: "ctx_wf (s, d)" "ptrs c \<inter> ptrs d = {}"
  shows "valid_path q \<Longrightarrow> table_at (rows_of s') (table_l0 d) q = table_at (rows_of s) (table_l0 d) q"
    and "valid_entry_path q \<Longrightarrow> entry_at (rows_of s') (table_l0 d) q = entry_at (rows_of s) (table_l0 d) q"
proof -
  note rows = frame_rows [OF assms] and ti = ctx_wfD(3) [OF d(1)]
  show "valid_path q \<Longrightarrow> table_at (rows_of s') (table_l0 d) q = table_at (rows_of s) (table_l0 d) q"
    by (rule walk_cong [OF ti rows])
  show "valid_entry_path q \<Longrightarrow> entry_at (rows_of s') (table_l0 d) q = entry_at (rows_of s) (table_l0 d) q"
    by (rule entry_cong [OF ti rows])
qed

lemma frame_isolates:
  assumes fr: "mc_frame (s, c) (s', c')" and wf': "ctx_wf (s', c')"
    and d: "ctx_wf (s, d)" "ptrs c \<inter> ptrs d = {}"
  shows "ctx_wf (s', d) \<and> user_map s' d = user_map s d \<and> ptrs c' \<inter> ptrs d = {}
    \<and> (\<forall>b \<in> set (page_allocations d). \<forall>x. unat (x - pa_ptr b) < 4096 \<longrightarrow> kmem s' x = kmem s x)"
proof -
  note o = frame_other_pages [OF fr wf' d] and w = frame_walks [OF assms]
  have "tables_in (rows_of s') (table_l0 d) (ptrs d)" "tree_inj (rows_of s') (table_l0 d)"
    using ctx_wfD(3,4) [OF d(1)] w(1) unfolding tables_in_def tree_inj_def by metis+
  then have "ctx_wf (s', d)" using o(2) ctx_wfD(1) [OF wf'] by (simp add: ctx_wf_def)
  moreover have "user_map s' d = user_map s d"
    by (rule ext) (simp add: user_map_def user_entry_def w(2))
  ultimately show ?thesis using o(1,3) by blast
qed

text \<open>
  The contract of an operation on one address space: under its precondition it stays within the frame and keeps
  the invariant. Such an operation does not affect the others.
\<close>

locale space_operation =
  fixes op :: "mc_state \<Rightarrow> 'r \<times> mc_state" and pre :: "mc_state \<Rightarrow> bool"
  assumes op_frame: "ctx_wf (s, c) \<Longrightarrow> pre (s, c) \<Longrightarrow> op (s, c) = (r, (s', c')) \<Longrightarrow> mc_frame (s, c) (s', c') \<and> ctx_wf (s', c')"
begin

lemma isolated:
  assumes "ctx_wf (s, c)" and "pre (s, c)" and "op (s, c) = (r, (s', c'))"
    and "ctx_wf (s, d)" and "ptrs c \<inter> ptrs d = {}"
  shows "ctx_wf (s', d) \<and> user_map s' d = user_map s d \<and> ptrs c' \<inter> ptrs d = {}
    \<and> (\<forall>b \<in> set (page_allocations d). \<forall>x. unat (x - pa_ptr b) < 4096 \<longrightarrow> kmem s' x = kmem s x)"
  using op_frame [OF assms(1-3)] frame_isolates [OF _ _ assms(4,5)] by blast

end

interpretation map_page: space_operation "alloc_page (UserAddress va)" "\<lambda>st. pa_fits (page_alloc_state (fst st))" for va
  by unfold_locales (rule alloc_page_frame, simp_all)

text \<open>
  C14. Address spaces are isolated. Whatever \<^verbatim>\<open>alloc_page\<close> does in one address space, for any address
  and whether it succeeds or fails, every other address space that shares no page with it
  keeps its pages byte for byte, keeps its map, stays well-formed and still shares no page.
\<close>

theorem alloc_page_isolated:
  assumes "ctx_wf (s, c)" and "pa_fits (page_alloc_state s)"
    and "alloc_page (UserAddress va) (s, c) = (r, (s', c'))"
    and "ctx_wf (s, d)" and "ptrs c \<inter> ptrs d = {}"
  shows "ctx_wf (s', d) \<and> user_map s' d = user_map s d \<and> ptrs c' \<inter> ptrs d = {}
    \<and> (\<forall>b \<in> set (page_allocations d). \<forall>x. unat (x - pa_ptr b) < 4096 \<longrightarrow> kmem s' x = kmem s x)"
  using map_page.isolated [OF assms(1) _ assms(3-5)] assms(2) by simp

section \<open>New address spaces\<close>

lemma empty_root:
  assumes "\<And>i. i < 512 \<Longrightarrow> R root i = 0"
  shows "valid_path p \<Longrightarrow> p \<noteq> [] \<Longrightarrow> table_at R root p = None"
    and "valid_entry_path q \<Longrightarrow> entry_at R root q = None"
proof -
  show n: "table_at R root p = None" if p: "valid_path p" "p \<noteq> []" for p
  proof -
    obtain i r where "p = i # r" "i < 512" using p by (cases p) (auto simp: valid_path_def)
    then show ?thesis using assms [of i] by (simp add: table_at_def next_table_def)
  qed
  show "entry_at R root q = None" if vq: "valid_entry_path q"
  proof -
    obtain r i where "q = r @ [i]" "valid_path r" "length r = 3"
      using vq by (rule valid_entry_pathE) blast
    moreover from this have "r \<noteq> []" by auto
    ultimately show ?thesis using n [of r] by (simp add: entry_at_snoc)
  qed
qed

lemma memory_context_new_ok:
  assumes "mm_wf s" and "pa_fits (page_alloc_state s)" and "memory_context_new s = (Ok c, s')"
  shows "ctx_wf (s', c) \<and> user_map s' c = (\<lambda>n. None)
    \<and> mc_frame (s, c\<lparr>page_allocations := []\<rparr>) (s', c)
    \<and> mc_asid c = asid_counter s \<and> asid_counter s' = asid_counter s + 1 \<and> pa_fits (page_alloc_state s')
    \<and> (\<exists>p. table_l0 c = virtual_address p \<and> unat (address p) < 2 ^ 48)"
  using assms(2)
proof (cases rule: page_alloc_cases)
  case (page k b pa)
  define a where "a = \<lparr>pa_address = PhysicalAddress b, pa_ptr = virtual_address (PhysicalAddress b)\<rparr>"
  have fr: "fresh_page (page_alloc_state s) (pa_address a) pa"
    using loop_stops_fresh [OF page(2) assms(2)] by (simp add: a_def)
  have ptr: "pa_ptr a = virtual_address (pa_address a)" by (simp add: a_def)
  have s': "s' = s\<lparr>page_alloc_state := pa, kmem := fill_bytes (kmem s) (pa_ptr a) 0 4096, asid_counter := asid_counter s + 1\<rparr>"
    and c: "c = \<lparr>page_allocations = [a], mc_asid = asid_counter s, table_l0 = pa_ptr a\<rparr>"
    using assms(3) page(1) by (auto simp: memory_context_new_def asid_next_def fetch_add1_def a_def)
  have o: "owned_page s' a" "mm_wf s'" using fresh_owned [OF fr ptr assms(1), of s'] by (simp_all add: s')
  note pp = owned_page_ptr(1) [OF o]
  have z: "rows_of s' (pa_ptr a) i = 0" if "i < 512" for i
    using mem_rows_fill [OF pp pp that] by (simp add: s')
  note e = empty_root [of "rows_of s'" "pa_ptr a", OF z]
  have "tables_in (rows_of s') (pa_ptr a) {pa_ptr a}" "tree_inj (rows_of s') (pa_ptr a)"
    using e(1) unfolding tables_in_def tree_inj_def
    by (metis option.distinct(1) option.inject singletonI table_at_Nil)+
  then have wf: "ctx_wf (s', c)" using o by (simp add: ctx_wf_def c ptrs_def)
  have m: "user_map s' c = (\<lambda>n. None)"
    by (rule ext) (simp add: user_map_def user_entry_def c e(2))
  have f: "mc_frame (s, c\<lparr>page_allocations := []\<rparr>) (s', c)"
    using fr by (simp add: mc_frame_def c s' fill_bytes_def fresh_page_def)
  have "unat (address (pa_address a)) < 2 ^ 48" using o by (auto simp: owned_page_def mm_wf_def)
  then show ?thesis
    using wf m f fresh_page_fits [OF fr assms(2)] ptr by (auto simp: c s')
next
  case (full k pa)
  then show ?thesis
    using assms(3) by (simp add: memory_context_new_def)
qed

text \<open>
  A new address space is well-formed and empty, carries the next ASID, and shares nothing with
  any existing address space, which it leaves unchanged.
\<close>

lemma memory_context_new_spec:
  assumes "mm_wf s" and "pa_fits (page_alloc_state s)" and "memory_context_new s = (Ok c, s')"
  shows "ctx_wf (s', c) \<and> user_map s' c = (\<lambda>n. None)
    \<and> mc_asid c = asid_counter s \<and> asid_counter s' = asid_counter s + 1
    \<and> (\<forall>d. ctx_wf (s, d) \<longrightarrow>
        ctx_wf (s', d) \<and> user_map s' d = user_map s d \<and> ptrs c \<inter> ptrs d = {}
        \<and> (\<forall>b \<in> set (page_allocations d). \<forall>x. unat (x - pa_ptr b) < 4096 \<longrightarrow> kmem s' x = kmem s x))"
proof -
  have fr: "mc_frame (s, c\<lparr>page_allocations := []\<rparr>) (s', c)" and wf': "ctx_wf (s', c)"
    using memory_context_new_ok [OF assms] by blast+
  have "ptrs (c\<lparr>page_allocations := []\<rparr>) \<inter> ptrs d = {}" for d by (simp add: ptrs_def)
  then show ?thesis using memory_context_new_ok [OF assms] frame_isolates [OF fr wf'] by blast
qed

text \<open>A page that is taken but not mapped changes no map.\<close>

lemma alloc_page_unmapped_ok:
  assumes "ctx_wf (s, c)" and "pa_fits (page_alloc_state s)" and "alloc_page_unmapped (s, c) = (Ok a, (s', c'))"
  shows "ctx_wf (s', c') \<and> user_map s' c' = user_map s c \<and> mc_frame (s, c) (s', c')
    \<and> pa_ptr a \<notin> ptrs c \<and> c' = c\<lparr>page_allocations := page_allocations c @ [a]\<rparr>
    \<and> asid_counter s' = asid_counter s \<and> pa_fits (page_alloc_state s')"
proof -
  define d where "d = \<lparr>page_allocations = [a], mc_asid = asid_counter s, table_l0 = pa_ptr a\<rparr>"
  define t where "t = s'\<lparr>asid_counter := asid_counter s + 1\<rparr>"
  obtain r where r: "page_alloc s = (r, s')" "c' = c\<lparr>page_allocations := page_allocations c @ [a]\<rparr>" "r = Ok a"
    using assms(3) by (auto simp: alloc_page_unmapped_def alloc_page_raw_def split: prod.splits outcome.splits)
  have ac: "asid_counter s' = asid_counter s" using assms(2) r(1) by (cases rule: page_alloc_cases) auto
  have new: "memory_context_new s = (Ok d, t)"
    using r ac by (simp add: memory_context_new_def asid_next_def fetch_add1_def d_def t_def)
  have ok: "ctx_wf (t, d)" "mc_frame (s, d\<lparr>page_allocations := []\<rparr>) (t, d)" "pa_fits (page_alloc_state t)"
    using memory_context_new_ok [OF ctx_wfD(1) [OF assms(1)] assms(2) new] by blast+
  have iso: "ctx_wf (t, c)" "user_map t c = user_map s c" "ptrs d \<inter> ptrs c = {}"
    using frame_isolates [OF ok(2,1) assms(1)] by (auto simp: ptrs_def)
  have same: "page_alloc_state t = page_alloc_state s'" "kmem t = kmem s'" by (simp_all add: t_def)
  have "ctx_wf (s', c')"
    using iso(1) ok(1) unfolding ctx_wf_def mm_wf_def owned_page_def tables_in_def fst_conv snd_conv same r(2)
    by (auto simp: d_def ptrs_def)
  moreover have "user_map s' c' = user_map t c"
    by (rule ext) (simp add: user_map_def user_entry_def same r(2))
  then have "user_map s' c' = user_map s c" using iso(2) by simp
  moreover have "mc_frame (s, c) (s', c')"
    using ok(2) by (simp add: mc_frame_def same r(2) d_def)
  ultimately show ?thesis using iso(3) r(2) ac ok(3) same by (auto simp: d_def ptrs_def)
qed

interpretation take_page: space_operation alloc_page_unmapped "\<lambda>st. pa_fits (page_alloc_state (fst st))"
proof
  fix s c r s' c'
  assume wf: "ctx_wf (s, c)" and fits: "pa_fits (page_alloc_state (fst (s, c)))" and run: "alloc_page_unmapped (s, c) = (r, (s', c'))"
  have "pa_fits (page_alloc_state s)" using fits by simp
  with wf show "mc_frame (s, c) (s', c') \<and> ctx_wf (s', c')"
  proof (cases rule: alloc_page_raw_cases)
    case (page a pa)
    then have "r = Ok a" using run by (simp add: alloc_page_unmapped_def)
    then show ?thesis using alloc_page_unmapped_ok [OF wf] fits run unfolding fst_conv by blast
  next
    case (full pa)
    then show ?thesis using run ctx_wf_full [OF wf full(2-4)] by (simp add: alloc_page_unmapped_def)
  qed
qed

interpretation asids: id_source asid_next asid_counter
  by unfold_locales (simp_all add: asid_next_def fetch_add1_def)

lemma mc_ttbr_split:
  assumes "table_l0 c = virtual_address p" and "unat (address p) < 2 ^ 48"
  shows "drop_bit 48 (mc_ttbr c) = ucast (mc_asid c) \<and> take_bit 48 (mc_ttbr c) = address p"
proof -
  have lo: "mc_ttbr c = push_bit 48 (ucast (mc_asid c)) OR address p"
    using physical_virtual_address [OF assms(2)] assms(1) by (simp add: mc_ttbr_def TTBR_EL1_ASID_SHIFT_def)
  have p: "take_bit 48 (address p) = address p"
    using assms(2) by (simp add: word_unat_eq_iff unsigned_take_bit_eq take_bit_nat_eq_self_iff)
  then have hi: "\<not> bit (address p) n" if "48 \<le> n" for n using that by (metis bit_take_bit_iff not_le)
  have "drop_bit 48 (mc_ttbr c) = ucast (mc_asid c)"
    by (rule bit_word_eqI) (auto simp: lo bit_simps hi dest: bit_imp_le_length)
  moreover have "take_bit 48 (mc_ttbr c) = address p"
    using p by (simp add: lo take_bit_push_bit)
  ultimately show ?thesis by simp
qed

section \<open>A concrete address space\<close>

text \<open>
  Five pages above a reserved page, one address space on them: enough for the root, for the three
  tables on the way to one user page, and for that page.
\<close>

definition mm0 :: mm_state where
  "mm0 = \<lparr>page_alloc_state = \<lparr>capacity = 0x6000, reserved_ranges = [(0, 0x1000)], allocated = 0\<rparr>,
          kmem = (\<lambda>_. 0xFF), asid_counter = 1\<rparr>"

definition mm1 :: "mm_state \<times> memory_context" where
  "mm1 = (case memory_context_new mm0 of (Ok c, s) \<Rightarrow> (s, c) | (_, s) \<Rightarrow> undefined)"

lemma mm0_ok: "mm_wf mm0" "pa_fits (page_alloc_state mm0)"
  by (simp_all add: mm0_def mm_wf_def pa_fits_def)

lemma mm0_alloc: "alloc_loop (page_alloc_state mm0)
    = Some (Some 0x1000, \<lparr>capacity = 0x6000, reserved_ranges = [(0, 0x1000)], allocated = 0x2000\<rparr>)"
  by (simp add: mm0_def alloc_loop.simps intersects_reserved_def PAGE_SIZE_def)

lemma mm1_new: "memory_context_new mm0 = (Ok (snd mm1), fst mm1)"
  by (simp add: mm1_def memory_context_new_def page_alloc_def mm0_alloc Let_def asid_next_def fetch_add1_def)

lemma mm1_alloc: "page_alloc_state (fst mm1) = \<lparr>capacity = 0x6000, reserved_ranges = [(0, 0x1000)], allocated = 0x2000\<rparr>"
  by (simp add: mm1_def memory_context_new_def page_alloc_def mm0_alloc Let_def asid_next_def fetch_add1_def)

lemma memory_context_new_spec_witness:
  "memory_context_new mm0 = (Ok (snd mm1), fst mm1) \<and> user_map (fst mm1) (snd mm1) 0x400 = None"
  using memory_context_new_spec [OF mm0_ok mm1_new] mm1_new by simp

lemma mm1_ok: "ctx_wf (fst mm1, snd mm1)" "pa_fits (page_alloc_state (fst mm1))"
  and mm1_empty: "user_map (fst mm1) (snd mm1) n = None"
  using memory_context_new_ok [OF mm0_ok mm1_new] by simp_all

lemma mm1_room: "room 4 (page_alloc_state (fst mm1))"
  by (simp add: mm1_alloc room_def reserved_nonempty_def reserved_bytes_def)

theorem alloc_page_total_witness:
  "\<exists>p s' c'. alloc_page (UserAddress 0x400123) (fst mm1, snd mm1) = (Ok p, (s', c'))"
  using alloc_page_total [OF mm1_ok, where va = "0x400123"] mm1_room by simp

lemma mm1_maps: "\<exists>p s' c'. alloc_page (UserAddress 0x400123) (fst mm1, snd mm1) = (Ok p, (s', c'))"
proof -
  have "unat (0x400123 :: usize) < 2 ^ 48" by simp
  from mm1_ok this show ?thesis
    by (cases rule: alloc_page_cases) (use mm1_room in \<open>auto simp: grow_def\<close>)
qed

theorem alloc_page_refines_witness:
  "\<exists>p s' c'. alloc_page (UserAddress 0x400123) (fst mm1, snd mm1) = (Ok p, (s', c'))
     \<and> user_map s' c' = [0x400 \<mapsto> user_page_row p]"
proof -
  obtain p s' c' where e: "alloc_page (UserAddress 0x400123) (fst mm1, snd mm1) = (Ok p, (s', c'))"
    using mm1_maps by blast
  have "user_map (fst mm1) (snd mm1) = Map.empty" by (rule ext) (rule mm1_empty)
  then show ?thesis
    using alloc_page_refines [OF mm1_ok _ e] e by (auto simp: spec_map_page_def)
qed

text \<open>A second address space in the same memory.\<close>

theorem alloc_page_isolated_witness:
  "\<exists>c s r s' c'. memory_context_new (fst mm1) = (Ok c, s)
     \<and> alloc_page (UserAddress 0x400123) (s, c) = (r, (s', c')) \<and> user_map s' (snd mm1) = Map.empty"
proof -
  have r: "room (Suc 0) (page_alloc_state (fst mm1))"
    by (simp add: mm1_alloc room_def reserved_nonempty_def reserved_bytes_def)
  have w: "mm_wf (fst mm1)" using mm1_ok(1) by (simp add: ctx_wf_def)
  obtain c s where n: "memory_context_new (fst mm1) = (Ok c, s)"
    using room_alloc(1) [OF r mm1_ok(2)]
    by (simp add: memory_context_new_def page_alloc_def Let_def asid_next_def fetch_add1_def)
  have wf: "ctx_wf (s, c)" "pa_fits (page_alloc_state s)"
    and fr: "mc_frame (fst mm1, c\<lparr>page_allocations := []\<rparr>) (s, c)"
    using memory_context_new_ok [OF w mm1_ok(2) n] by blast+
  have d: "ctx_wf (s, snd mm1)" "user_map s (snd mm1) = user_map (fst mm1) (snd mm1)" "ptrs c \<inter> ptrs (snd mm1) = {}"
    using frame_isolates [OF fr wf(1) mm1_ok(1)] by (simp_all add: ptrs_def)
  obtain res s' c' where e: "alloc_page (UserAddress 0x400123) (s, c) = (res, (s', c'))"
    by (metis prod.collapse)
  have "user_map s' (snd mm1) = user_map s (snd mm1)"
    using alloc_page_isolated [OF wf e d(1,3)] by blast
  also have "\<dots> = Map.empty" using d(2) mm1_empty by (intro ext) simp
  finally show ?thesis using n e by blast
qed

end
