(* ===== verification/Scheduler.thy ===== *)
theory Scheduler
  imports Cpu Sync Drivers Memory_Context "HOL-Library.Multiset"
begin

unbundle bit_operations_syntax

text \<open>
  Tasks and the round-robin scheduler (\<^verbatim>\<open>task/task.rs\<close>, \<^verbatim>\<open>task/scheduler.rs\<close>,
  \<^verbatim>\<open>task/aarch64/context.rs\<close>). A call runs on one core, whose registers and timer are part of its
  state, and on the scheduler, which the cores share. \<open>Arc<Task>\<close> is a shared reference, so the
  map \<open>tasks\<close> holds the one copy of every task, and a context switch stores into it.
\<close>

section \<open>Tasks\<close>

type_synonym task_id = u64

datatype ParentTaskId = Root | TaskId task_id

text \<open>\<open>func\<close> is the address of the boxed closure. \<^verbatim>\<open>FsContext\<close> has no fields.\<close>

record task =
  tid :: task_id
  parent_id :: ParentTaskId
  task_name :: string
  func :: "u64 option"
  cpu_context :: registers
  mem_context :: memory_context
  fs_context :: unit

section \<open>Scheduler state\<close>

record scheduler =
  sched_lock :: bool
  tasks :: "task_id \<rightharpoonup> task"
  queue :: "task_id list"
  current_tasks :: "task_id option list"
  quantum :: duration

text \<open>Every core has its own timer registers.\<close>

record core = cpu +
  timer :: timer_hw

type_synonym sched_state = "core \<times> scheduler"

definition scheduler_new :: "usize \<Rightarrow> duration \<Rightarrow> scheduler" where
  "scheduler_new num_cores q =
     \<lparr>sched_lock = lock_new, tasks = Map.empty, queue = [], current_tasks = replicate (unat num_cores) None, quantum = q\<rparr>"

section \<open>Operations\<close>

text \<open>An index into a vector is checked.\<close>

definition index_vec :: "'a list \<Rightarrow> usize \<Rightarrow> 'a res" where
  "index_vec xs i = (if unat i < length xs then Ok (xs ! unat i) else Panic)"

definition assert_that :: "bool \<Rightarrow> unit res" where
  "assert_that b = (if b then Ok () else Panic)"

definition take_lock :: "sched_state \<Rightarrow> unit res \<times> sched_state" where
  "take_lock st = (case lock_loop (sched_lock (snd st)) of (r, l) \<Rightarrow> (r, (fst st, (snd st)\<lparr>sched_lock := l\<rparr>)))"

definition release_lock :: "sched_state \<Rightarrow> sched_state" where
  "release_lock st = (fst st, (snd st)\<lparr>sched_lock := unlock (sched_lock (snd st))\<rparr>)"

definition lock_call :: "(sched_state \<Rightarrow> 'a res \<times> sched_state) \<Rightarrow> sched_state \<Rightarrow> 'a res \<times> sched_state" where
  "lock_call f st = and_then (take_lock st) (\<lambda>_ st. and_then (f st) (\<lambda>r st. (Ok r, release_lock st)))"

text \<open>
  \<^verbatim>\<open>context_switch\<close>: first the address space, then the registers. The tasks are cells of the map.
\<close>

definition memory_context_switch :: "memory_context \<Rightarrow> 'z cpu_scheme \<Rightarrow> 'z cpu_scheme" where
  "memory_context_switch m c = c\<lparr>ttbr0_el1 := mc_ttbr m\<rparr>"

definition save_registers :: "task_id \<Rightarrow> registers \<Rightarrow> scheduler \<Rightarrow> scheduler" where
  "save_registers t r s = s\<lparr>tasks := (tasks s)(t := map_option (\<lambda>x. x\<lparr>cpu_context := r\<rparr>) (tasks s t))\<rparr>"

definition saved_registers :: "task_id \<Rightarrow> scheduler \<Rightarrow> registers" where
  "saved_registers t s = (case tasks s t of Some x \<Rightarrow> cpu_context x | None \<Rightarrow> registers_new)"

definition context_switch :: "task \<Rightarrow> task \<Rightarrow> sched_state \<Rightarrow> sched_state" where
  "context_switch prev next_task st =
     cpu_context_switch (saved_registers (tid next_task)) (save_registers (tid prev))
       (memory_context_switch (mem_context next_task) (fst st), snd st)"

definition after_schedule :: "sched_state \<Rightarrow> sched_state" where
  "after_schedule st =
     (case release_lock st of (c, s) \<Rightarrow>
        (enable_interrupts (c\<lparr>timer := set_duration (quantum s) (timer c)\<rparr>), s))"

definition pop_front :: "sched_state \<Rightarrow> task_id option \<times> sched_state" where
  "pop_front st = (case queue (snd st) of [] \<Rightarrow> (None, st)
     | t # q \<Rightarrow> (Some t, (fst st, (snd st)\<lparr>queue := q\<rparr>)))"

definition schedule :: "sched_state \<Rightarrow> unit res \<times> sched_state" where
  "schedule st =
     (let i = current_core (fst st) in
      and_then (take_lock st) (\<lambda>_ st.
      and_then (index_vec (current_tasks (snd st)) i, st) (\<lambda>cur st.
      and_then (unwrap_opt cur, st) (\<lambda>prev_task_id st.
      case pop_front (fst st, (snd st)\<lparr>queue := queue (snd st) @ [prev_task_id]\<rparr>) of (front, st) \<Rightarrow>
      and_then (unwrap_opt front, st) (\<lambda>next_task_id (c, s).
      let st = (c, s\<lparr>current_tasks := (current_tasks s)[unat i := Some next_task_id]\<rparr>) in
      and_then (unwrap_opt (tasks (snd st) prev_task_id), st) (\<lambda>prev_task st.
      and_then (unwrap_opt (tasks (snd st) next_task_id), st) (\<lambda>next_task st.
        (Ok (), after_schedule (context_switch prev_task next_task st)))))))))"

definition become_kinit :: "task \<Rightarrow> sched_state \<Rightarrow> task_id res \<times> sched_state" where
  "become_kinit task st =
     and_then (critical (lock_call (\<lambda>(c, s).
        and_then (assert_that (tasks s = Map.empty), (c, s)) (\<lambda>_ (c, s).
        let s = s\<lparr>tasks := (tasks s)(tid task \<mapsto> task)\<rparr>; i = current_core c in
        and_then (assert_that (i = 0), (c, s)) (\<lambda>_ (c, s).
        and_then (index_vec (current_tasks s) i, (c, s)) (\<lambda>cur (c, s).
        and_then (assert_that (cur = None), (c, s)) (\<lambda>_ (c, s).
          (Ok (), (c, s\<lparr>current_tasks := (current_tasks s)[unat i := Some (tid task)]\<rparr>)))))))) st)
     (\<lambda>_ st. and_then (schedule st) (\<lambda>_ st. (Ok (tid task), st)))"

definition add_task :: "task \<Rightarrow> sched_state \<Rightarrow> task_id res \<times> sched_state" where
  "add_task task st =
     and_then (critical (lock_call (\<lambda>(c, s).
        (Ok (), (c, s\<lparr>tasks := (tasks s)(tid task \<mapsto> task), queue := queue s @ [tid task]\<rparr>)))) st)
     (\<lambda>_ st. (Ok (tid task), st))"

definition task_lookup :: "task_id \<Rightarrow> sched_state \<Rightarrow> task option res \<times> sched_state" where
  "task_lookup t st = critical (lock_call (\<lambda>st. (Ok (tasks (snd st) t), st))) st"

definition current_task_id :: "sched_state \<Rightarrow> task_id res \<times> sched_state" where
  "current_task_id st = critical (lock_call (\<lambda>st.
     (bind_res (index_vec (current_tasks (snd st)) (current_core (fst st))) unwrap_opt, st))) st"

definition current_task :: "sched_state \<Rightarrow> task res \<times> sched_state" where
  "current_task st =
     and_then (current_task_id st) (\<lambda>t st. and_then (task_lookup t st) (\<lambda>x st. (unwrap_opt x, st)))"

section \<open>The machine\<close>

text \<open>
  Several cores over one scheduler. Besides calls of the scheduler, a core makes progress on the task that runs on it,
  which may leave anything in its registers.
\<close>

record smp =
  cores :: "core list"
  smp_sched :: scheduler

datatype sched_event = Schedule nat | AddTask nat task | Work nat registers

definition on_core :: "nat \<Rightarrow> (sched_state \<Rightarrow> 'a res \<times> sched_state) \<Rightarrow> smp \<Rightarrow> 'a res \<times> smp" where
  "on_core k f m = (case f (cores m ! k, smp_sched m) of (r, (c, s)) \<Rightarrow> (r, \<lparr>cores = (cores m)[k := c], smp_sched = s\<rparr>))"

fun smp_step :: "sched_event \<Rightarrow> smp \<Rightarrow> unit res \<times> smp" where
  "smp_step (Schedule k) m = on_core k schedule m"
| "smp_step (AddTask k t) m = and_then (on_core k (add_task t) m) (\<lambda>_ m. (Ok (), m))"
| "smp_step (Work k r) m = (Ok (), m\<lparr>cores := (cores m)[k := (cores m ! k)\<lparr>regs := r\<rparr>]\<rparr>)"

fun smp_run :: "sched_event list \<Rightarrow> smp \<Rightarrow> unit res \<times> smp" where
  "smp_run [] m = (Ok (), m)"
| "smp_run (e # es) m = and_then (smp_step e m) (\<lambda>_ m. smp_run es m)"

section \<open>Invariant\<close>

fun running :: "task_id option list \<Rightarrow> task_id list" where
  "running [] = []"
| "running (None # xs) = running xs"
| "running (Some t # xs) = t # running xs"

definition occupies :: "scheduler \<Rightarrow> nat \<Rightarrow> task_id \<Rightarrow> bool" where
  "occupies s k t \<longleftrightarrow> k < length (current_tasks s) \<and> current_tasks s ! k = Some t"

definition sched_wf :: "scheduler \<Rightarrow> bool" where
  "sched_wf s \<longleftrightarrow>
     \<not> sched_lock s \<and> distinct (queue s @ running (current_tasks s))
     \<and> set (queue s @ running (current_tasks s)) = dom (tasks s)
     \<and> (\<forall>t x. tasks s t = Some x \<longrightarrow> tid x = t)"

definition smp_wf :: "smp \<Rightarrow> bool" where
  "smp_wf m \<longleftrightarrow>
     sched_wf (smp_sched m) \<and> length (cores m) = length (current_tasks (smp_sched m))
     \<and> (\<forall>k < length (cores m). unat (current_core (cores m ! k)) = k)
     \<and> (\<forall>k t x. occupies (smp_sched m) k t \<longrightarrow> tasks (smp_sched m) t = Some x \<longrightarrow>
          ttbr0_el1 (cores m ! k) = mc_ttbr (mem_context x))"

lemma running_update:
  assumes "k < length xs" and "xs ! k = Some p"
  shows "add_mset p (mset (running (xs[k := Some n]))) = add_mset n (mset (running xs))"
  using assms
proof (induction xs arbitrary: k rule: running.induct)
  case (2 xs)
  then obtain j where "k = Suc j" by (cases k) auto
  with 2 show ?case by simp
next
  case (3 t xs)
  then show ?case by (cases k) (auto simp: add_mset_commute)
qed simp

lemma running_mem: "t \<in> set (running xs) \<longleftrightarrow> Some t \<in> set xs"
  by (induction xs rule: running.induct) auto

lemma occupies_running: "occupies s k t \<Longrightarrow> t \<in> set (running (current_tasks s))"
  by (metis nth_mem occupies_def running_mem)

text \<open>A task runs on one core at a time.\<close>

lemma running_inj:
  assumes "distinct (running xs)" and "i < length xs" "xs ! i = Some t" and "j < length xs" "xs ! j = Some t"
  shows "i = j"
  using assms
proof (induction xs arbitrary: i j rule: running.induct)
  case (2 xs)
  then show ?case by (cases i; cases j) auto
next
  case (3 u xs)
  have "Some t \<notin> set xs" if "u = t" using 3(2) that by (simp add: running_mem)
  then show ?case using 3 by (cases i; cases j) (auto simp: in_set_conv_nth)
qed simp

section \<open>One call of the scheduler\<close>

text \<open>The core and the scheduler after a switch from \<open>p\<close> to \<open>n\<close>.\<close>

definition switched :: "nat \<Rightarrow> task_id \<Rightarrow> task_id \<Rightarrow> task_id list \<Rightarrow> sched_state \<Rightarrow> sched_state" where
  "switched k p n q st =
     (let s = save_registers p (regs (fst st)) (snd st) in
      (enable_interrupts ((fst st)\<lparr>ttbr0_el1 := mc_ttbr (mem_context (the (tasks (snd st) n))), regs := saved_registers n s,
          timer := set_duration (quantum s) (timer (fst st))\<rparr>),
       s\<lparr>sched_lock := False, queue := q, current_tasks := (current_tasks s)[k := Some n]\<rparr>))"

lemma schedule_switched:
  assumes "\<not> sched_lock s" and "occupies s (unat (current_core c)) p" and "queue s @ [p] = n # q"
    and "tasks s p = Some tp" "tid tp = p" and "tasks s n = Some tn" "tid tn = n"
  shows "schedule (c, s) = (Ok (), switched (unat (current_core c)) p n q (c, s))"
proof -
  let ?k = "unat (current_core c)"
  let ?s = "s\<lparr>sched_lock := True, queue := q, current_tasks := (current_tasks s)[?k := Some n]\<rparr>"
  have "take_lock (c, s) = (Ok (), (c, s\<lparr>sched_lock := True\<rparr>))"
    using assms(1) by (simp add: take_lock_def lock_loop_def compare_exchange_def)
  moreover have "index_vec (current_tasks s) (current_core c) = Ok (Some p)"
    using assms(2) by (simp add: index_vec_def occupies_def)
  moreover have "pop_front (c, s\<lparr>sched_lock := True, queue := queue s @ [p]\<rparr>) = (Some n, (c, s\<lparr>sched_lock := True, queue := q\<rparr>))"
    using assms(3) by (simp add: pop_front_def)
  ultimately have "schedule (c, s) = (Ok (), after_schedule (context_switch tp tn (c, ?s)))"
    using assms(4,6) by (simp add: schedule_def)
  also have "after_schedule (context_switch tp tn (c, ?s)) = switched ?k p n q (c, s)"
    using assms(5-7) by (simp add: context_switch_def cpu_context_switch_def memory_context_switch_def after_schedule_def
      release_lock_def unlock_def switched_def save_registers_def saved_registers_def Let_def)
  finally show ?thesis .
qed

lemma schedule_cases:
  assumes "sched_wf s" and "occupies s (unat (current_core c)) p"
  obtains n q where "queue s @ [p] = n # q" "n \<in> dom (tasks s)" "p \<in> dom (tasks s)"
    "schedule (c, s) = (Ok (), switched (unat (current_core c)) p n q (c, s))"
proof -
  obtain n q where q: "queue s @ [p] = n # q" by (cases "queue s") auto
  have d: "set (queue s @ running (current_tasks s)) = dom (tasks s)" and l: "\<not> sched_lock s"
    and i: "\<And>t x. tasks s t = Some x \<Longrightarrow> tid x = t" using assms(1) by (auto simp: sched_wf_def)
  have "p \<in> dom (tasks s)" using d occupies_running [OF assms(2)] by fastforce
  moreover have "n \<in> set (queue s @ [p])" using q by simp
  ultimately have pn: "p \<in> dom (tasks s)" "n \<in> dom (tasks s)" using d by auto
  then obtain tp tn where t: "tasks s p = Some tp" "tasks s n = Some tn" by blast
  have "schedule (c, s) = (Ok (), switched (unat (current_core c)) p n q (c, s))"
    by (rule schedule_switched [OF l assms(2) q t(1) i [OF t(1)] t(2) i [OF t(2)]])
  with q pn show ?thesis using that by blast
qed

lemma switched_mset:
  assumes "queue s @ [p] = n # q" and "occupies s k p"
  shows "mset (queue (snd (switched k p n q (c, s))) @ running (current_tasks (snd (switched k p n q (c, s)))))
    = mset (queue s @ running (current_tasks s))"
proof -
  have "add_mset p (mset (queue s)) = add_mset n (mset q)"
    using arg_cong [OF assms(1), of mset] by simp
  moreover have "add_mset p (mset (running ((current_tasks s)[k := Some n]))) = add_mset n (mset (running (current_tasks s)))"
    using assms(2) by (intro running_update) (auto simp: occupies_def)
  ultimately have "add_mset n (add_mset p (mset q + mset (running ((current_tasks s)[k := Some n]))))
      = add_mset n (add_mset p (mset (queue s) + mset (running (current_tasks s))))"
    by (metis (no_types, lifting) add_mset_commute union_mset_add_mset_left union_mset_add_mset_right)
  then show ?thesis by (simp add: switched_def Let_def save_registers_def)
qed


lemma switched_tasks:
  "tasks (snd (switched k p n q (c, s))) t =
     map_option (\<lambda>x. if t = p then x\<lparr>cpu_context := regs c\<rparr> else x) (tasks s t)"
  by (cases "tasks s t") (auto simp: switched_def save_registers_def Let_def)

lemma switched_simps:
  "queue (snd (switched k p n q (c, s))) = q"
  "current_tasks (snd (switched k p n q (c, s))) = (current_tasks s)[k := Some n]"
  "sched_lock (snd (switched k p n q (c, s))) = False"
  "quantum (snd (switched k p n q (c, s))) = quantum s"
  "mpidr_el1 (fst (switched k p n q (c, s))) = mpidr_el1 c"
  "ttbr0_el1 (fst (switched k p n q (c, s))) = mc_ttbr (mem_context (the (tasks s n)))"
  "regs (fst (switched k p n q (c, s))) = saved_registers n (save_registers p (regs c) s)"
  "interrupts_enabled (fst (switched k p n q (c, s)))"
  "timer (fst (switched k p n q (c, s))) = set_duration (quantum s) (timer c)"
  by (simp_all add: switched_def Let_def) (simp_all add: save_registers_def enable_interrupts_def)

lemma current_core_switched [simp]: "current_core (fst (switched k p n q (c, s))) = current_core c"
  by (simp add: current_core_def switched_simps)

lemma switched_wf:
  assumes "sched_wf s" and "queue s @ [p] = n # q" and "occupies s k p"
  shows "sched_wf (snd (switched k p n q (c, s)))"
proof -
  let ?s = "snd (switched k p n q (c, s))"
  note m = switched_mset [OF assms(2,3), of c]
  have "dom (tasks ?s) = dom (tasks s)" by (auto simp: switched_tasks)
  moreover have "tid x = t" if "tasks ?s t = Some x" for t x
    using that assms(1) by (auto simp: switched_tasks sched_wf_def)
  ultimately show ?thesis
    using assms(1) mset_eq_imp_distinct_iff [OF m] mset_eq_setD [OF m]
    unfolding sched_wf_def by (simp only: switched_simps(3)) blast
qed

section \<open>Tasks as threads of control\<close>

text \<open>
  The registers of a task: those of the core it runs on, or the saved ones. The specification
  gives every task registers of its own; only the work of a task changes them.
\<close>

definition task_regs :: "smp \<Rightarrow> task_id \<Rightarrow> registers option" where
  "task_regs m t =
     (case find (\<lambda>k. current_tasks (smp_sched m) ! k = Some t) [0..<length (current_tasks (smp_sched m))] of
        Some k \<Rightarrow> Some (regs (cores m ! k))
      | None \<Rightarrow> map_option cpu_context (tasks (smp_sched m) t))"

fun spec_step :: "smp \<Rightarrow> sched_event \<Rightarrow> (task_id \<rightharpoonup> registers) \<Rightarrow> (task_id \<rightharpoonup> registers)" where
  "spec_step m (Schedule k) r = r"
| "spec_step m (AddTask k t) r = r(tid t \<mapsto> cpu_context t)"
| "spec_step m (Work k w) r = r(the (current_tasks (smp_sched m) ! k) \<mapsto> w)"

text \<open>The scheduler runs on a core that has a task; a new task has a new identifier.\<close>

fun event_ok :: "smp \<Rightarrow> sched_event \<Rightarrow> bool" where
  "event_ok m (Schedule k) \<longleftrightarrow> k < length (cores m) \<and> current_tasks (smp_sched m) ! k \<noteq> None"
| "event_ok m (AddTask k t) \<longleftrightarrow> k < length (cores m) \<and> tasks (smp_sched m) (tid t) = None"
| "event_ok m (Work k w) \<longleftrightarrow> k < length (cores m) \<and> current_tasks (smp_sched m) ! k \<noteq> None"

lemma task_regs_running:
  assumes "sched_wf (smp_sched m)" and "occupies (smp_sched m) k t"
  shows "task_regs m t = Some (regs (cores m ! k))"
proof -
  let ?xs = "current_tasks (smp_sched m)"
  have k: "k < length ?xs" "?xs ! k = Some t" using assms(2) by (auto simp: occupies_def)
  have d: "distinct (running ?xs)" using assms(1) by (simp add: sched_wf_def)
  obtain j where j: "find (\<lambda>k. ?xs ! k = Some t) [0..<length ?xs] = Some j"
    using k by (cases "find (\<lambda>k. ?xs ! k = Some t) [0..<length ?xs]") (auto simp: find_None_iff)
  then have "j < length ?xs" "?xs ! j = Some t" by (auto simp: find_Some_iff)
  then have "j = k" using running_inj [OF d] k by blast
  then show ?thesis using j by (simp add: task_regs_def)
qed

lemma task_regs_saved:
  assumes "\<And>k. \<not> occupies (smp_sched m) k t"
  shows "task_regs m t = map_option cpu_context (tasks (smp_sched m) t)"
proof -
  have "find (\<lambda>k. current_tasks (smp_sched m) ! k = Some t) [0..<length (current_tasks (smp_sched m))] = None"
    using assms by (auto simp: find_None_iff occupies_def)
  then show ?thesis by (simp add: task_regs_def)
qed

text \<open>A queued task does not run.\<close>

lemma queued_not_running: "sched_wf s \<Longrightarrow> t \<in> set (queue s) \<Longrightarrow> \<not> occupies s k t"
  using occupies_running [of s k t] by (auto simp: sched_wf_def)


definition smp_switched :: "nat \<Rightarrow> task_id \<Rightarrow> task_id \<Rightarrow> task_id list \<Rightarrow> smp \<Rightarrow> smp" where
  "smp_switched k p n q m = \<lparr>cores = (cores m)[k := fst (switched k p n q (cores m ! k, smp_sched m))],
     smp_sched = snd (switched k p n q (cores m ! k, smp_sched m))\<rparr>"

definition can_switch :: "nat \<Rightarrow> task_id \<Rightarrow> task_id \<Rightarrow> task_id list \<Rightarrow> smp \<Rightarrow> bool" where
  "can_switch k p n q m \<longleftrightarrow>
     smp_wf m \<and> occupies (smp_sched m) k p \<and> queue (smp_sched m) @ [p] = n # q
     \<and> n \<in> dom (tasks (smp_sched m)) \<and> p \<in> dom (tasks (smp_sched m))"

lemma smp_schedule:
  assumes "smp_wf m" and "event_ok m (Schedule k)"
  obtains p n q where "can_switch k p n q m" "smp_step (Schedule k) m = (Ok (), smp_switched k p n q m)"
proof -
  have w: "sched_wf (smp_sched m)" "unat (current_core (cores m ! k)) = k"
    and l: "length (cores m) = length (current_tasks (smp_sched m))" using assms by (auto simp: smp_wf_def)
  obtain p where "occupies (smp_sched m) k p" using assms(2) l by (auto simp: occupies_def)
  with w(2) have o: "occupies (smp_sched m) (unat (current_core (cores m ! k))) p" by simp
  from w(1) o show ?thesis
  proof (cases rule: schedule_cases)
    case (1 n q)
    then show ?thesis
      using that [of p n q] o w(2) assms(1) by (simp add: on_core_def split_beta smp_switched_def can_switch_def)
  qed
qed

lemma smp_switched_wf:
  assumes "can_switch k p n q m"
  shows "smp_wf (smp_switched k p n q m)"
proof -
  let ?s = "smp_sched m"
  have w: "smp_wf m" and o: "occupies ?s k p" and q: "queue ?s @ [p] = n # q"
    using assms by (simp_all add: can_switch_def)
  have l: "length (cores m) = length (current_tasks ?s)" "k < length (cores m)"
    using w o by (simp_all add: smp_wf_def occupies_def)
  have "ttbr0_el1 (cores (smp_switched k p n q m) ! j) = mc_ttbr (mem_context x)"
    if j: "occupies (smp_sched (smp_switched k p n q m)) j t" and x: "tasks (smp_sched (smp_switched k p n q m)) t = Some x" for j t x
  proof -
    obtain y where y: "tasks ?s t = Some y" "mem_context x = mem_context y"
      using x by (auto simp: smp_switched_def switched_tasks)
    show ?thesis
    proof (cases "j = k")
      case True
      then show ?thesis using j y l by (simp add: occupies_def smp_switched_def switched_simps)
    next
      case False
      then have "occupies ?s j t" using j by (simp add: occupies_def smp_switched_def switched_simps)
      then show ?thesis using w y False by (simp add: smp_wf_def smp_switched_def)
    qed
  qed
  moreover have "unat (current_core (cores (smp_switched k p n q m) ! j)) = j" if "j < length (cores m)" for j
    using w that by (cases "j = k") (simp_all add: smp_wf_def smp_switched_def)
  moreover have "sched_wf (smp_sched (smp_switched k p n q m))"
    using switched_wf [OF _ q o] w by (simp add: smp_switched_def smp_wf_def)
  ultimately show ?thesis
    using l by (simp add: smp_wf_def smp_switched_def switched_simps)
qed

lemma smp_switched_regs:
  assumes "can_switch k p n q m"
  shows "task_regs (smp_switched k p n q m) t = task_regs m t"
proof -
  let ?s = "smp_sched m" and ?m = "smp_switched k p n q m"
  have w: "smp_wf m" and o: "occupies ?s k p" and q: "queue ?s @ [p] = n # q" and d: "n \<in> dom (tasks ?s)" "p \<in> dom (tasks ?s)"
    using assms by (simp_all add: can_switch_def)
  have l: "length (cores m) = length (current_tasks ?s)" "k < length (cores m)" and sw: "sched_wf ?s"
    using w o by (simp_all add: smp_wf_def occupies_def)
  have w': "sched_wf (smp_sched ?m)" using smp_switched_wf [OF assms] by (simp add: smp_wf_def)
  consider "t = n" | "t = p" "t \<noteq> n" | "t \<noteq> p" "t \<noteq> n" by blast
  then show ?thesis
  proof cases
    case 1
    have "occupies (smp_sched ?m) k n" using l by (simp add: occupies_def smp_switched_def switched_simps)
    then have new: "task_regs ?m n = Some (saved_registers n (save_registers p (regs (cores m ! k)) ?s))"
      using task_regs_running [OF w'] l by (simp add: smp_switched_def switched_simps)
    show ?thesis
    proof (cases "n = p")
      case True
      then show ?thesis
        using new 1 d task_regs_running [OF sw o] by (auto simp: saved_registers_def save_registers_def)
    next
      case False
      then have "n \<in> set (queue ?s)" using q by (cases "queue ?s") auto
      then have "task_regs m n = map_option cpu_context (tasks ?s n)"
        using queued_not_running [OF sw] by (intro task_regs_saved) blast
      then show ?thesis using new 1 d False by (auto simp: saved_registers_def save_registers_def)
    qed
  next
    case 2
    then have "p \<in> set (queue (smp_sched ?m))" using q by (cases "queue ?s") (auto simp: smp_switched_def switched_simps)
    then have "task_regs ?m p = map_option cpu_context (tasks (smp_sched ?m) p)"
      using queued_not_running [OF w'] by (intro task_regs_saved) blast
    then show ?thesis using 2 d task_regs_running [OF sw o] by (auto simp: smp_switched_def switched_tasks)
  next
    case 3
    have same: "occupies (smp_sched ?m) j t \<longleftrightarrow> occupies ?s j t" for j
      using 3 o by (cases "j = k") (auto simp: occupies_def smp_switched_def switched_simps)
    show ?thesis
    proof (cases "\<exists>j. occupies ?s j t")
      case True
      then obtain j where j: "occupies ?s j t" by blast
      with 3 o have "j \<noteq> k" by (auto simp: occupies_def)
      then show ?thesis
        using task_regs_running [OF sw j] task_regs_running [OF w'] same j by (simp add: smp_switched_def)
    next
      case False
      then have "task_regs m t = map_option cpu_context (tasks ?s t)"
        "task_regs ?m t = map_option cpu_context (tasks (smp_sched ?m) t)" using same by (auto intro: task_regs_saved)
      then show ?thesis using 3 by (cases "tasks ?s t") (auto simp: smp_switched_def switched_tasks)
    qed
  qed
qed


lemma add_task_ok:
  assumes "\<not> sched_lock s"
  shows "add_task x (c, s) =
    (Ok (tid x), (c, s\<lparr>tasks := (tasks s)(tid x \<mapsto> x), queue := queue s @ [tid x]\<rparr>))"
proof -
  have s: "s\<lparr>sched_lock := False\<rparr> = s" using assms by (cases s) simp
  have "lock_call (\<lambda>(c, s). (Ok (), (c, s\<lparr>tasks := (tasks s)(tid x \<mapsto> x), queue := queue s @ [tid x]\<rparr>))) (d, s)
      = (Ok (), (d, s\<lparr>sched_lock := False, tasks := (tasks s)(tid x \<mapsto> x), queue := queue s @ [tid x]\<rparr>))" for d
    using assms by (simp add: lock_call_def take_lock_def lock_loop_def compare_exchange_def release_lock_def unlock_def)
  then show ?thesis
    by (simp add: add_task_def critical_ok s) (simp add: disable_interrupts_def)
qed

lemma add_task_wf:
  assumes "smp_wf m" and "tasks (smp_sched m) (tid x) = None"
  shows "smp_wf (m\<lparr>smp_sched := (smp_sched m)\<lparr>tasks := (tasks (smp_sched m))(tid x \<mapsto> x), queue := queue (smp_sched m) @ [tid x]\<rparr>\<rparr>)"
proof -
  let ?s = "smp_sched m"
  have w: "sched_wf ?s" using assms(1) by (simp add: smp_wf_def)
  have new: "tid x \<notin> set (queue ?s @ running (current_tasks ?s))" using w assms(2) by (auto simp: sched_wf_def)
  then have "\<not> occupies ?s k (tid x)" for k using occupies_running [of ?s k "tid x"] by auto
  moreover have "sched_wf (?s\<lparr>tasks := (tasks ?s)(tid x \<mapsto> x), queue := queue ?s @ [tid x]\<rparr>)"
    using w new by (auto simp: sched_wf_def)
  ultimately show ?thesis using assms(1) by (auto simp: smp_wf_def occupies_def)
qed

lemma task_regs_add:
  assumes "smp_wf m" and "tasks (smp_sched m) (tid x) = None"
  shows "task_regs (m\<lparr>smp_sched := (smp_sched m)\<lparr>tasks := (tasks (smp_sched m))(tid x \<mapsto> x), queue := queue (smp_sched m) @ [tid x]\<rparr>\<rparr>)
    = (task_regs m)(tid x \<mapsto> cpu_context x)"
proof -
  let ?s = "smp_sched m"
  have "tid x \<notin> set (running (current_tasks ?s))" using assms by (auto simp: smp_wf_def sched_wf_def)
  then have "find (\<lambda>k. current_tasks ?s ! k = Some (tid x)) [0..<length (current_tasks ?s)] = None"
    by (auto simp: find_None_iff running_mem dest: nth_mem)
  then show ?thesis by (auto simp: task_regs_def fun_eq_iff split: option.splits)
qed

lemma work_step:
  assumes "smp_wf m" and "occupies (smp_sched m) k p" and "m' = m\<lparr>cores := (cores m)[k := (cores m ! k)\<lparr>regs := w\<rparr>]\<rparr>"
  shows "smp_wf m' \<and> task_regs m' = (task_regs m)(p \<mapsto> w)"
proof
  have l: "length (cores m) = length (current_tasks (smp_sched m))" "k < length (cores m)" and s: "sched_wf (smp_sched m)"
    using assms(1,2) by (simp_all add: smp_wf_def occupies_def)
  have c: "mpidr_el1 (cores m' ! j) = mpidr_el1 (cores m ! j)" "ttbr0_el1 (cores m' ! j) = ttbr0_el1 (cores m ! j)" for j
    using assms(3) l by (cases "j = k"; simp)+
  show w': "smp_wf m'" using assms(1) c assms(3) by (simp add: smp_wf_def current_core_def)
  have "task_regs m' t = ((task_regs m)(p \<mapsto> w)) t" for t
  proof (cases "\<exists>j. occupies (smp_sched m) j t")
    case True
    then obtain j where j: "occupies (smp_sched m) j t" by blast
    have "t = p \<longleftrightarrow> j = k"
      using j assms(2) running_inj [of "current_tasks (smp_sched m)" j t k] s by (auto simp: occupies_def sched_wf_def)
    moreover have "task_regs m' t = Some (regs (cores m' ! j))"
      using w' j assms(3) by (intro task_regs_running) (simp_all add: smp_wf_def)
    ultimately show ?thesis
      using task_regs_running [OF s j] l assms(3) by (cases "j = k") simp_all
  next
    case False
    then have "t \<noteq> p" using assms(2) by blast
    moreover have "task_regs m t = map_option cpu_context (tasks (smp_sched m) t)"
      using False by (intro task_regs_saved) blast
    moreover have "task_regs m' t = map_option cpu_context (tasks (smp_sched m') t)"
      using False assms(3) by (intro task_regs_saved) simp
    ultimately show ?thesis using assms(3) by simp
  qed
  then show "task_regs m' = (task_regs m)(p \<mapsto> w)" by (rule ext)
qed

lemma smp_step_ok:
  assumes "smp_wf m" and "event_ok m e"
  shows "\<exists>m'. smp_step e m = (Ok (), m') \<and> smp_wf m' \<and> task_regs m' = spec_step m e (task_regs m)"
proof (cases e)
  case (Schedule k)
  with assms obtain p n q where "can_switch k p n q m" "smp_step e m = (Ok (), smp_switched k p n q m)"
    using smp_schedule [of m k] by blast
  then show ?thesis using smp_switched_wf smp_switched_regs Schedule by fastforce
next
  case (AddTask k x)
  have "\<not> sched_lock (smp_sched m)" using assms(1) by (simp add: smp_wf_def sched_wf_def)
  then have "smp_step e m = (Ok (), m\<lparr>smp_sched := (smp_sched m)\<lparr>tasks := (tasks (smp_sched m))(tid x \<mapsto> x), queue := queue (smp_sched m) @ [tid x]\<rparr>\<rparr>)"
    using AddTask by (simp add: on_core_def add_task_ok)
  then show ?thesis using add_task_wf task_regs_add assms AddTask by simp
next
  case (Work k w)
  then obtain p where "occupies (smp_sched m) k p" "current_tasks (smp_sched m) ! k = Some p"
    using assms by (auto simp: occupies_def smp_wf_def)
  then show ?thesis using work_step [OF assms(1) _ refl, of k p w] Work by simp
qed

fun events_ok :: "sched_event list \<Rightarrow> smp \<Rightarrow> bool" where
  "events_ok [] m = True"
| "events_ok (e # es) m \<longleftrightarrow> event_ok m e \<and> events_ok es (snd (smp_step e m))"

fun spec_run :: "sched_event list \<Rightarrow> smp \<Rightarrow> (task_id \<rightharpoonup> registers) \<Rightarrow> (task_id \<rightharpoonup> registers)" where
  "spec_run [] m r = r"
| "spec_run (e # es) m r = spec_run es (snd (smp_step e m)) (spec_step m e r)"

text \<open>
  C10. Multitasking is invisible to a task. Start from a well-formed machine, with any number of cores: every
  task is either queued or runs on exactly one core, and the table base of a core is that of the
  task that runs there. Any sequence of calls of the scheduler, new tasks and work of tasks, on
  any cores, returns without panic or deadlock, ends in a well-formed machine, and acts on the
  registers of the tasks as on a machine where each task has a processor to itself: a context switch
  changes the registers of no task, a new task starts from its own context, and work of one task
  leaves the registers of the others alone.
\<close>

theorem smp_run_refines:
  assumes "smp_wf m" and "events_ok es m"
  shows "\<exists>m'. smp_run es m = (Ok (), m') \<and> smp_wf m' \<and> task_regs m' = spec_run es m (task_regs m)"
  using assms
proof (induction es arbitrary: m)
  case (Cons e es)
  from Cons.prems obtain m1 where m1: "smp_step e m = (Ok (), m1)" "smp_wf m1" "task_regs m1 = spec_step m e (task_regs m)"
    using smp_step_ok [of m e] by auto
  then show ?case using Cons.IH [of m1] Cons.prems(2) by simp
qed simp

section \<open>Round robin\<close>

text \<open>The tasks that calls of the scheduler put on a core, and the tasks that enter the queue, in order.\<close>

fun dispatched :: "sched_event list \<Rightarrow> smp \<Rightarrow> task_id list" where
  "dispatched [] m = []"
| "dispatched (e # es) m =
     (case e of Schedule k \<Rightarrow> [the (current_tasks (smp_sched (snd (smp_step e m))) ! k)] | _ \<Rightarrow> []) @ dispatched es (snd (smp_step e m))"

fun enqueued :: "sched_event list \<Rightarrow> smp \<Rightarrow> task_id list" where
  "enqueued [] m = []"
| "enqueued (e # es) m =
     (case e of Schedule k \<Rightarrow> [the (current_tasks (smp_sched m) ! k)] | AddTask k x \<Rightarrow> [tid x] | _ \<Rightarrow> [])
     @ enqueued es (snd (smp_step e m))"

fun is_schedule :: "sched_event \<Rightarrow> bool" where
  "is_schedule (Schedule k) = True"
| "is_schedule _ = False"

lemma smp_step_queue:
  assumes "smp_wf m" and "event_ok m e"
  shows "queue (smp_sched m) @ enqueued [e] m = dispatched [e] m @ queue (smp_sched (snd (smp_step e m)))"
proof (cases e)
  case (Schedule k)
  with assms obtain p n q where sw: "can_switch k p n q m" "smp_step e m = (Ok (), smp_switched k p n q m)"
    using smp_schedule [of m k] by blast
  then have "k < length (current_tasks (smp_sched m))" "current_tasks (smp_sched m) ! k = Some p" "queue (smp_sched m) @ [p] = n # q"
    by (simp_all add: can_switch_def occupies_def)
  then show ?thesis using sw(2) Schedule by (simp add: smp_switched_def switched_simps)
next
  case (AddTask k x)
  have "\<not> sched_lock (smp_sched m)" using assms(1) by (simp add: smp_wf_def sched_wf_def)
  then show ?thesis using AddTask by (simp add: on_core_def add_task_ok)
qed simp

lemma smp_run_queue:
  assumes "smp_wf m" and "events_ok es m"
  shows "queue (smp_sched m) @ enqueued es m = dispatched es m @ queue (smp_sched (snd (smp_run es m)))
    \<and> length (dispatched es m) = length (filter is_schedule es)"
  using assms
proof (induction es arbitrary: m)
  case (Cons e es)
  let ?m = "snd (smp_step e m)"
  have s: "smp_step e m = (Ok (), ?m)" "smp_wf ?m" using smp_step_ok [of m e] Cons.prems by auto
  have "queue (smp_sched m) @ enqueued [e] m @ enqueued es ?m = dispatched [e] m @ queue (smp_sched ?m) @ enqueued es ?m"
    using smp_step_queue [of m e] Cons.prems by simp
  also have "\<dots> = dispatched [e] m @ dispatched es ?m @ queue (smp_sched (snd (smp_run es ?m)))"
    using Cons.IH [of ?m] s Cons.prems by simp
  finally have "queue (smp_sched m) @ enqueued (e # es) m = dispatched (e # es) m @ queue (smp_sched (snd (smp_run (e # es) m)))"
    by (subst smp_run.simps, subst s(1)) simp
  moreover have "length (dispatched (e # es) m) = length (filter is_schedule (e # es))"
    using Cons.IH [of ?m] s Cons.prems by (cases e) simp_all
  ultimately show ?case by blast
qed simp

text \<open>
  C26. Round robin is fair. In any run of a well-formed machine, whatever the cores do in between, the call number
  \<open>i\<close> of the scheduler puts on its core the task that stood at position \<open>i\<close> of the queue at the
  start, if there was one; so a task at position \<open>i\<close> waits for exactly \<open>i\<close> other dispatches, and new
  tasks never delay it.
\<close>

theorem round_robin:
  assumes "smp_wf m" and "events_ok es m" and "i < length (queue (smp_sched m))" and "i < length (filter is_schedule es)"
  shows "dispatched es m ! i = queue (smp_sched m) ! i"
proof -
  have q: "queue (smp_sched m) @ enqueued es m = dispatched es m @ queue (smp_sched (snd (smp_run es m)))"
    and l: "length (dispatched es m) = length (filter is_schedule es)" using smp_run_queue [OF assms(1,2)] by blast+
  have "(queue (smp_sched m) @ enqueued es m) ! i = (dispatched es m @ queue (smp_sched (snd (smp_run es m)))) ! i"
    by (simp only: q)
  then show ?thesis using assms(3,4) l by (simp add: nth_append)
qed


section \<open>The first task\<close>

lemma become_kinit_body:
  assumes "current_core c = 0" and "tasks s = Map.empty" and "\<not> sched_lock s" and "current_tasks s = [None]"
  shows "become_kinit x (c, s) = and_then (schedule (c, s\<lparr>tasks := [tid x \<mapsto> x], current_tasks := [Some (tid x)]\<rparr>))
    (\<lambda>_ st. (Ok (tid x), st))"
proof -
  let ?f = "\<lambda>(c, s).
        and_then (assert_that (tasks s = Map.empty), (c, s)) (\<lambda>_ (c, s).
        let s = s\<lparr>tasks := (tasks s)(tid x \<mapsto> x)\<rparr>; i = current_core c in
        and_then (assert_that (i = 0), (c, s)) (\<lambda>_ (c, s).
        and_then (index_vec (current_tasks s) i, (c, s)) (\<lambda>cur (c, s).
        and_then (assert_that (cur = None), (c, s)) (\<lambda>_ (c, s).
          (Ok (), (c, s\<lparr>current_tasks := (current_tasks s)[unat i := Some (tid x)]\<rparr>))))))"
  have s: "s\<lparr>sched_lock := False\<rparr> = s" using assms(3) by (cases s) simp
  have "lock_call ?f (d, s) = (Ok (), (d, s\<lparr>sched_lock := False, tasks := [tid x \<mapsto> x], current_tasks := [Some (tid x)]\<rparr>))"
    if "current_core d = 0" for d
    using assms that by (simp add: lock_call_def take_lock_def lock_loop_def compare_exchange_def release_lock_def
      unlock_def assert_that_def index_vec_def Let_def)
  moreover have "current_core (snd (disable_interrupts c)) = 0"
    using assms(1) by (simp add: disable_interrupts_def current_core_def)
  ultimately have "critical (lock_call ?f) (c, s) = (Ok (), (c, s\<lparr>tasks := [tid x \<mapsto> x], current_tasks := [Some (tid x)]\<rparr>))"
    using critical_ok [of "lock_call ?f" c s "()"] by (simp add: s) (simp add: disable_interrupts_def)
  then show ?thesis by (simp add: become_kinit_def)
qed

text \<open>
  On core 0, with a new scheduler for one core, the caller continues as the first task, with the
  registers it had, and the machine is well-formed.
\<close>

lemma become_kinit_ok:
  assumes "current_core c = 0"
  shows "\<exists>c' s'. become_kinit x (c, scheduler_new 1 d) = (Ok (tid x), (c', s'))
    \<and> smp_wf \<lparr>cores = [c'], smp_sched = s'\<rparr> \<and> current_tasks s' = [Some (tid x)] \<and> queue s' = []
    \<and> tasks s' = [tid x \<mapsto> x\<lparr>cpu_context := regs c\<rparr>]
    \<and> regs c' = regs c \<and> ttbr0_el1 c' = mc_ttbr (mem_context x) \<and> interrupts_enabled c'
    \<and> timer c' = set_duration d (timer c)"
proof -
  let ?s = "(scheduler_new 1 d)\<lparr>tasks := [tid x \<mapsto> x], current_tasks := [Some (tid x)]\<rparr>"
  let ?out = "switched 0 (tid x) (tid x) [] (c, ?s)"
  have n: "tasks (scheduler_new 1 d) = Map.empty" "\<not> sched_lock (scheduler_new 1 d)" "current_tasks (scheduler_new 1 d) = [None]"
    "queue (scheduler_new 1 d) = []" "quantum (scheduler_new 1 d) = d"
    by (simp_all add: scheduler_new_def lock_new_def)
  have w: "sched_wf ?s" using n by (simp add: sched_wf_def)
  have o: "occupies ?s 0 (tid x)" by (simp add: occupies_def)
  have "schedule (c, ?s) = (Ok (), switched (unat (current_core c)) (tid x) (tid x) [] (c, ?s))"
    by (rule schedule_switched) (use assms n o in simp_all)
  then have b: "become_kinit x (c, scheduler_new 1 d) = (Ok (tid x), ?out)"
    using become_kinit_body [OF assms n(1-3)] assms by simp
  have q: "queue ?s @ [tid x] = tid x # []" using n by simp
  have sw: "sched_wf (snd ?out)" by (rule switched_wf [OF w q o])
  have t: "tasks (snd ?out) u = (if u = tid x then Some (x\<lparr>cpu_context := regs c\<rparr>) else None)" for u
    by (simp add: switched_tasks)
  have "smp_wf \<lparr>cores = [fst ?out], smp_sched = snd ?out\<rparr>"
    using sw assms by (auto simp: smp_wf_def switched_simps occupies_def t)
  moreover have "regs (fst ?out) = regs c"
    by (simp add: switched_simps saved_registers_def save_registers_def)
  ultimately show ?thesis
    using b by (intro exI [of _ "fst ?out"] exI [of _ "snd ?out"]) (simp add: switched_simps n t fun_eq_iff)
qed

section \<open>A concrete machine\<close>

definition core0 :: core where
  "core0 = \<lparr>mpidr_el1 = 0x80000000, daif = 0, ttbr0_el1 = 0x1000000001000, regs = registers_new\<lparr>x19 := 7\<rparr>,
     timer = \<lparr>cntfrq_el0 = 62500000, cntpct_el0 = 0, cntp_tval_el0 = 0, cntp_ctl_el0 = 0\<rparr>\<rparr>"

definition task0 :: "u64 \<Rightarrow> task" where
  "task0 t = \<lparr>tid = t, parent_id = Root, task_name = ''kthread'', func = None, cpu_context = registers_new\<lparr>x19 := t\<rparr>,
     mem_context = \<lparr>page_allocations = [], mc_asid = 1, table_l0 = 0xFFFF000000001000\<rparr>, fs_context = ()\<rparr>"

definition machine0 :: smp where
  "machine0 = \<lparr>cores = [core0], smp_sched = \<lparr>sched_lock = False, tasks = [1 \<mapsto> task0 1, 2 \<mapsto> task0 2, 3 \<mapsto> task0 3],
     queue = [2, 3], current_tasks = [Some 1], quantum = 10000000\<rparr>\<rparr>"

lemma ttbr0_task0: "mc_ttbr (mem_context (task0 t)) = 0x1000000001000"
  by (simp add: task0_def mc_ttbr_def TTBR_EL1_ASID_SHIFT_def physical_address_def VA_START_value)

lemma machine0_wf: "smp_wf machine0"
proof -
  have "sched_wf (smp_sched machine0)" by (auto simp: machine0_def sched_wf_def task0_def)
  then show ?thesis
    by (auto simp: smp_wf_def machine0_def core0_def current_core_def AFFINITY0_MASK_def ttbr0_task0 occupies_def)
qed


definition events0 :: "sched_event list" where
  "events0 = [Schedule 0, Work 0 (registers_new\<lparr>x20 := 9\<rparr>), AddTask 0 (task0 4), Schedule 0]"

definition machine1 :: smp where
  "machine1 = snd (on_core 0 schedule machine0)"

lemma machine1_eq: "machine1 = smp_switched 0 1 2 [3, 1] machine0"
proof -
  have "schedule (core0, smp_sched machine0) = (Ok (), switched 0 1 2 [3, 1] (core0, smp_sched machine0))"
    using schedule_switched [of "smp_sched machine0" core0 1 2 "[3, 1]" "task0 1" "task0 2"]
    by (simp add: machine0_def occupies_def core0_def current_core_def AFFINITY0_MASK_def task0_def)
  then show ?thesis
    by (simp add: machine1_def on_core_def smp_switched_def split_beta) (simp add: machine0_def)
qed

lemma machine1_simps:
  "cores machine1 \<noteq> []" "current_tasks (smp_sched machine1) = [Some 2]" "queue (smp_sched machine1) = [3, 1]"
  "\<not> sched_lock (smp_sched machine1)" "tasks (smp_sched machine1) 4 = None"
  by (simp_all add: machine1_eq smp_switched_def switched_simps switched_tasks) (simp_all add: machine0_def)

lemma events0_ok: "events_ok events0 machine0"
  by (simp add: events0_def machine1_def [symmetric]) 
    (simp add: machine0_def machine1_simps on_core_def add_task_ok task0_def)

theorem smp_run_refines_witness:
  "\<exists>m'. smp_run events0 machine0 = (Ok (), m') \<and> smp_wf m'
     \<and> task_regs m' 1 = Some (registers_new\<lparr>x19 := 7\<rparr>) \<and> task_regs m' 2 = Some (registers_new\<lparr>x20 := 9\<rparr>)
     \<and> task_regs m' 4 = Some (registers_new\<lparr>x19 := 4\<rparr>)"
proof -
  have r: "task_regs machine0 1 = Some (registers_new\<lparr>x19 := 7\<rparr>)"
    by (simp add: task_regs_def machine0_def core0_def)
  have "spec_run events0 machine0 r = r(2 \<mapsto> registers_new\<lparr>x20 := 9\<rparr>, 4 \<mapsto> registers_new\<lparr>x19 := 4\<rparr>)" for r
    by (simp add: events0_def machine1_def [symmetric]) (simp add: machine1_simps task0_def)
  then show ?thesis using smp_run_refines [OF machine0_wf events0_ok] r by fastforce
qed

theorem round_robin_witness: "dispatched events0 machine0 ! 0 = 2 \<and> dispatched events0 machine0 ! 1 = 3"
  using round_robin [OF machine0_wf events0_ok, of 0] round_robin [OF machine0_wf events0_ok, of 1]
  by (simp add: machine0_def events0_def)

end
