(* ===== verification/Task_Creation.thy ===== *)
theory Task_Creation
  imports Scheduler
begin

unbundle bit_operations_syntax

text \<open>
  Creation of tasks (\<^verbatim>\<open>task/task.rs\<close>, \<^verbatim>\<open>task/aarch64/task_creation.rs\<close>): identifiers, and the service that
  makes the first task and kernel threads. The state is one core, the scheduler, the memory system
  and the counter of task identifiers. The invariant of this state says that the tasks have
  disjoint address spaces.
\<close>

section \<open>Operations\<close>

record kernel =
  k_core :: core
  k_sched :: scheduler
  k_mm :: mm_state
  task_counter :: u64

definition task_id_next :: "kernel \<Rightarrow> task_id \<times> kernel" where
  "task_id_next k = (case fetch_add1 (task_counter k) of (i, c) \<Rightarrow> (i, k\<lparr>task_counter := c\<rparr>))"

interpretation task_ids: id_source task_id_next task_counter
  by unfold_locales (simp_all add: task_id_next_def fetch_add1_def)

definition fs_context_new :: unit where
  "fs_context_new = ()"

definition task_new :: "ParentTaskId \<Rightarrow> string \<Rightarrow> u64 option \<Rightarrow> registers \<Rightarrow> memory_context \<Rightarrow> unit \<Rightarrow> kernel \<Rightarrow> task \<times> kernel" where
  "task_new parent name f cpu mc fs k =
     (case task_id_next k of (i, k) \<Rightarrow>
        (\<lparr>tid = i, parent_id = parent, task_name = name, func = f, cpu_context = cpu, mem_context = mc, fs_context = fs\<rparr>, k))"

definition on_mm :: "(mm_state \<Rightarrow> 'a res \<times> mm_state) \<Rightarrow> kernel \<Rightarrow> 'a res \<times> kernel" where
  "on_mm f k = (case f (k_mm k) of (r, mm) \<Rightarrow> (r, k\<lparr>k_mm := mm\<rparr>))"

definition on_sched :: "(sched_state \<Rightarrow> 'a res \<times> sched_state) \<Rightarrow> kernel \<Rightarrow> 'a res \<times> kernel" where
  "on_sched f k = (case f (k_core k, k_sched k) of (r, (c, s)) \<Rightarrow> (r, k\<lparr>k_core := c, k_sched := s\<rparr>))"

definition create_and_become_kinit :: "kernel \<Rightarrow> task_id res \<times> kernel" where
  "create_and_become_kinit k =
     and_then (on_mm memory_context_new k) (\<lambda>mc k.
     case task_new Root ''kinit'' None cpu_context_new mc fs_context_new k of (task, k) \<Rightarrow>
       on_sched (become_kinit task) k)"

text \<open>
  The addresses of \<^verbatim>\<open>cpu_context_entry\<close> and of the wrapper, which the linker chooses, and of the boxed
  closure, which the heap chooses, are arguments. The stack pointer is \<^verbatim>\<open>page().add(1)\<close>: one page on.
  When there is no page for the stack, the address space is dropped, which drops its pages.
\<close>

definition memory_context_drop :: "memory_context \<Rightarrow> mm_state \<Rightarrow> mm_state" where
  "memory_context_drop mc mm = fold page_dealloc (page_allocations mc) mm"

definition create_kthread :: "u64 \<Rightarrow> u64 \<Rightarrow> u64 \<Rightarrow> kernel \<Rightarrow> task_id res \<times> kernel" where
  "create_kthread entry wrapper func_box k =
     and_then (on_mm memory_context_new k) (\<lambda>mc k.
     case alloc_page_unmapped (k_mm k, mc) of
       (Err e, (mm, mc)) \<Rightarrow> (Err e, k\<lparr>k_mm := memory_context_drop mc mm\<rparr>)
     | (r, (mm, mc)) \<Rightarrow>
     and_then (r, k\<lparr>k_mm := mm\<rparr>) (\<lambda>kernel_stack k.
     let cpu = set_stack_pointer (pa_ptr kernel_stack + PAGE_SIZE) cpu_context_new;
         cpu = set_link_register entry wrapper func_box cpu
     in case task_new Root ''kthread'' (Some func_box) cpu mc fs_context_new k of (task, k) \<Rightarrow>
       on_sched (add_task task) k))"

section \<open>Invariant\<close>

text \<open>
  Every address space is well-formed, and the address spaces and ASIDs of different tasks are
  disjoint; identifiers in use are below their counters, which are not about to wrap.
\<close>

definition spaces_wf :: "mm_state \<Rightarrow> (task_id \<rightharpoonup> task) \<Rightarrow> bool" where
  "spaces_wf mm ts \<longleftrightarrow>
     (\<forall>t x. ts t = Some x \<longrightarrow> ctx_wf (mm, mem_context x) \<and> unat (mc_asid (mem_context x)) < unat (asid_counter mm))
     \<and> (\<forall>t x u y. ts t = Some x \<longrightarrow> ts u = Some y \<longrightarrow> t \<noteq> u \<longrightarrow>
          ptrs (mem_context x) \<inter> ptrs (mem_context y) = {} \<and> mc_asid (mem_context x) \<noteq> mc_asid (mem_context y))"

definition kernel_wf :: "kernel \<Rightarrow> bool" where
  "kernel_wf k \<longleftrightarrow>
     smp_wf \<lparr>cores = [k_core k], smp_sched = k_sched k\<rparr>
     \<and> mm_wf (k_mm k) \<and> pa_fits (page_alloc_state (k_mm k))
     \<and> (\<forall>t \<in> dom (tasks (k_sched k)). unat t < unat (task_counter k))
     \<and> spaces_wf (k_mm k) (tasks (k_sched k))"

definition task_ids_left :: "kernel \<Rightarrow> bool" where
  "task_ids_left k \<longleftrightarrow> unat (task_counter k) + 1 < 2 ^ 64 \<and> unat (asid_counter (k_mm k)) + 1 < 2 ^ 16"

text \<open>An operation on the memory of one address space keeps the others.\<close>

lemma spaces_frame:
  assumes "spaces_wf mm ts" and "mc_frame (mm, c) (mm', c')" and "ctx_wf (mm', c')"
    and "\<And>t x. ts t = Some x \<Longrightarrow> ptrs c \<inter> ptrs (mem_context x) = {}"
    and "unat (asid_counter mm) \<le> unat (asid_counter mm')" and "mc_asid c' = asid_counter mm"
    and "unat (asid_counter mm) < unat (asid_counter mm')"
    and "ts n = None" and "mem_context z = c'"
  shows "spaces_wf mm' (ts(n \<mapsto> z))"
proof -
  have iso: "ctx_wf (mm', mem_context x) \<and> ptrs c' \<inter> ptrs (mem_context x) = {}
      \<and> unat (mc_asid (mem_context x)) < unat (asid_counter mm)" if "ts t = Some x" for t x
    using frame_isolates [OF assms(2,3)] assms(1) assms(4) [OF that] that by (auto simp: spaces_wf_def)
  then have "mc_asid (mem_context x) \<noteq> mc_asid c'" if "ts t = Some x" for t x using that assms(6) by fastforce
  with iso assms show ?thesis
    unfolding spaces_wf_def by (auto split: if_splits) (metis less_trans | blast)+
qed


section \<open>A new address space with a stack\<close>

definition new_thread_space :: "mm_state \<Rightarrow> memory_context \<Rightarrow> mm_state \<Rightarrow> page_allocation \<Rightarrow> mm_state \<Rightarrow> memory_context \<Rightarrow> bool" where
  "new_thread_space s c s1 a s2 c2 \<longleftrightarrow>
     memory_context_new s = (Ok c, s1) \<and> alloc_page_unmapped (s1, c) = (Ok a, (s2, c2))
     \<and> ctx_wf (s2, c2) \<and> user_map s2 c2 = (\<lambda>n. None) \<and> mc_frame (s, c\<lparr>page_allocations := []\<rparr>) (s2, c2)
     \<and> mc_asid c2 = asid_counter s \<and> asid_counter s2 = asid_counter s + 1 \<and> pa_fits (page_alloc_state s2)
     \<and> a \<in> set (page_allocations c2) \<and> pa_ptr a \<noteq> table_l0 c2"

lemma new_thread_space_ex:
  assumes "mm_wf s" and "pa_fits (page_alloc_state s)" and "room (Suc (Suc n)) (page_alloc_state s)"
  shows "\<exists>c s1 a s2 c2. new_thread_space s c s1 a s2 c2 \<and> room n (page_alloc_state s2)"
proof -
  note r2 = assms(3)
  obtain c s1 where n: "memory_context_new s = (Ok c, s1)" and p1: "page_alloc_state s1
      = (page_alloc_state s)\<lparr>allocated := allocated (page_alloc_state s) + PAGE_SIZE\<rparr>" and t: "table_l0 c \<in> ptrs c"
    using room_alloc(1) [OF r2 assms(2)]
    by (simp add: memory_context_new_def page_alloc_def Let_def asid_next_def fetch_add1_def ptrs_def)
  have ok: "ctx_wf (s1, c)" "user_map s1 c = (\<lambda>n. None)" "mc_frame (s, c\<lparr>page_allocations := []\<rparr>) (s1, c)"
    "mc_asid c = asid_counter s" "asid_counter s1 = asid_counter s + 1" "pa_fits (page_alloc_state s1)"
    using memory_context_new_ok [OF assms(1,2) n] by blast+
  have r1: "room (Suc n) (page_alloc_state s1)" unfolding p1 by (rule room_alloc(2) [OF r2 assms(2)])
  from ok(1,6) obtain a s2 c2 where u: "alloc_page_unmapped (s1, c) = (Ok a, (s2, c2))" and rm: "room n (page_alloc_state s2)"
    by (cases rule: alloc_page_raw_cases) (use r1 in \<open>auto simp: alloc_page_unmapped_def\<close>)
  have "ctx_wf (s2, c2) \<and> user_map s2 c2 = user_map s1 c \<and> mc_frame (s1, c) (s2, c2) \<and> pa_ptr a \<notin> ptrs c
      \<and> c2 = c\<lparr>page_allocations := page_allocations c @ [a]\<rparr> \<and> asid_counter s2 = asid_counter s1 \<and> pa_fits (page_alloc_state s2)"
    by (rule alloc_page_unmapped_ok [OF ok(1,6) u])
  then show ?thesis using n u ok t rm mc_frame_trans [OF ok(3)] unfolding new_thread_space_def by fastforce
qed

lemma spaces_new_thread:
  assumes "spaces_wf s ts" and "new_thread_space s c s1 a s2 c2" and "unat (asid_counter s) + 1 < 2 ^ 16"
    and "ts n = None" and "mem_context z = c2"
  shows "spaces_wf s2 (ts(n \<mapsto> z))"
proof (rule spaces_frame [OF assms(1), where c = "c\<lparr>page_allocations := []\<rparr>" and c' = c2])
  have a: "asid_counter s2 = asid_counter s + 1" using assms(2) by (simp add: new_thread_space_def)
  then have "unat (asid_counter s2) = unat (asid_counter s) + 1" using assms(3) by (simp add: unat_add_noof)
  then show "unat (asid_counter s) \<le> unat (asid_counter s2)" "unat (asid_counter s) < unat (asid_counter s2)" by simp_all
qed (use assms in \<open>auto simp: new_thread_space_def ptrs_def\<close>)


section \<open>Kernel threads\<close>

lemma sched_not_locked: "kernel_wf k \<Longrightarrow> \<not> sched_lock (k_sched k)"
  by (simp add: kernel_wf_def smp_wf_def sched_wf_def)

lemma create_kthread_eq:
  assumes "new_thread_space (k_mm k) c s1 a s2 c2" and "\<not> sched_lock (k_sched k)"
    and "x = \<lparr>tid = task_counter k, parent_id = Root, task_name = ''kthread'', func = Some fb,
       cpu_context = registers_new\<lparr>sp := pa_ptr a + PAGE_SIZE, lr := entry, x19 := wrapper, x20 := fb\<rparr>, mem_context = c2, fs_context = ()\<rparr>"
  shows "create_kthread entry wrapper fb k = (Ok (task_counter k),
    k\<lparr>k_mm := s2, task_counter := task_counter k + 1,
      k_sched := (k_sched k)\<lparr>tasks := (tasks (k_sched k))(task_counter k \<mapsto> x), queue := queue (k_sched k) @ [task_counter k]\<rparr>\<rparr>)"
proof -
  have "memory_context_new (k_mm k) = (Ok c, s1)" "alloc_page_unmapped (s1, c) = (Ok a, (s2, c2))"
    using assms(1) by (simp_all add: new_thread_space_def)
  then show ?thesis
    using assms(2,3) by (simp add: create_kthread_def on_mm_def task_new_def task_id_next_def fetch_add1_def on_sched_def
      set_stack_pointer_def set_link_register_def cpu_context_new_def fs_context_new_def add_task_ok Let_def)
qed

lemma kernel_wf_add:
  assumes "kernel_wf k" and "task_ids_left k" and "new_thread_space (k_mm k) c s1 a s2 c2"
    and "tid x = task_counter k" and "mem_context x = c2"
  shows "kernel_wf (k\<lparr>k_mm := s2, task_counter := task_counter k + 1,
      k_sched := (k_sched k)\<lparr>tasks := (tasks (k_sched k))(task_counter k \<mapsto> x), queue := queue (k_sched k) @ [task_counter k]\<rparr>\<rparr>)"
proof -
  have fresh: "tasks (k_sched k) (task_counter k) = None" using assms(1) by (fastforce simp: kernel_wf_def)
  have "unat (task_counter k + 1) = unat (task_counter k) + 1" using assms(2) by (simp add: task_ids_left_def unat_add_noof)
  then have "\<forall>t \<in> insert (task_counter k) (dom (tasks (k_sched k))). unat t < unat (task_counter k + 1)"
    using assms(1) by (simp add: kernel_wf_def less_SucI)
  moreover have "smp_wf \<lparr>cores = [k_core k], smp_sched = (k_sched k)\<lparr>tasks := (tasks (k_sched k))(task_counter k \<mapsto> x),
      queue := queue (k_sched k) @ [task_counter k]\<rparr>\<rparr>"
    using add_task_wf [of "\<lparr>cores = [k_core k], smp_sched = k_sched k\<rparr>" x] assms(1,4) fresh by (simp add: kernel_wf_def)
  moreover have "spaces_wf s2 ((tasks (k_sched k))(task_counter k \<mapsto> x))"
  proof (rule spaces_new_thread [where ts = "tasks (k_sched k)", OF _ assms(3) _ fresh assms(5)])
    show "spaces_wf (k_mm k) (tasks (k_sched k))" using assms(1) unfolding kernel_wf_def by blast
    show "unat (asid_counter (k_mm k)) + 1 < 2 ^ 16" using assms(2) unfolding task_ids_left_def by blast
  qed
  moreover have "mm_wf s2" "pa_fits (page_alloc_state s2)"
    using assms(3) by (simp_all add: new_thread_space_def ctx_wf_def)
  ultimately show ?thesis by (simp add: kernel_wf_def)
qed

lemma create_kthread_ok:
  assumes "kernel_wf k" and "task_ids_left k" and "room (Suc (Suc n)) (page_alloc_state (k_mm k))"
  shows "\<exists>k' x a. create_kthread entry wrapper fb k = (Ok (task_counter k), k') \<and> kernel_wf k'
    \<and> tasks (k_sched k) (task_counter k) = None
    \<and> tasks (k_sched k') = (tasks (k_sched k))(task_counter k \<mapsto> x)
    \<and> queue (k_sched k') = queue (k_sched k) @ [task_counter k]
    \<and> lr (cpu_context x) = entry \<and> cpu_context_entry_call (cpu_context x) = (wrapper, fb)
    \<and> a \<in> set (page_allocations (mem_context x)) \<and> sp (cpu_context x) = pa_ptr a + 4096
    \<and> user_map (k_mm k') (mem_context x) = Map.empty
    \<and> (\<forall>t y. tasks (k_sched k) t = Some y \<longrightarrow> user_map (k_mm k') (mem_context y) = user_map (k_mm k) (mem_context y))
    \<and> k_core k' = k_core k \<and> current_tasks (k_sched k') = current_tasks (k_sched k)
    \<and> task_counter k' = task_counter k + 1 \<and> asid_counter (k_mm k') = asid_counter (k_mm k) + 1
    \<and> room n (page_alloc_state (k_mm k'))"
proof -
  obtain c s1 a s2 c2 where sp: "new_thread_space (k_mm k) c s1 a s2 c2" and rm: "room n (page_alloc_state s2)"
    using new_thread_space_ex [OF _ _ assms(3)] assms(1) unfolding kernel_wf_def by blast
  define x where "x = \<lparr>tid = task_counter k, parent_id = Root, task_name = ''kthread'', func = Some fb,
       cpu_context = registers_new\<lparr>sp := pa_ptr a + PAGE_SIZE, lr := entry, x19 := wrapper, x20 := fb\<rparr>, mem_context = c2, fs_context = ()\<rparr>"
  let ?k = "k\<lparr>k_mm := s2, task_counter := task_counter k + 1,
      k_sched := (k_sched k)\<lparr>tasks := (tasks (k_sched k))(task_counter k \<mapsto> x), queue := queue (k_sched k) @ [task_counter k]\<rparr>\<rparr>"
  have "create_kthread entry wrapper fb k = (Ok (task_counter k), ?k)"
    by (rule create_kthread_eq [OF sp sched_not_locked [OF assms(1)] x_def])
  moreover have "kernel_wf ?k"
    by (rule kernel_wf_add [OF assms(1,2) sp]) (simp_all add: x_def)
  moreover have "tasks (k_sched k) (task_counter k) = None" using assms(1) by (fastforce simp: kernel_wf_def)
  moreover have "user_map s2 (mem_context y) = user_map (k_mm k) (mem_context y)" if "tasks (k_sched k) t = Some y" for t y
  proof -
    have "ctx_wf (k_mm k, mem_context y)" using assms(1) that unfolding kernel_wf_def spaces_wf_def by blast
    then show ?thesis using frame_isolates [of "k_mm k" "c\<lparr>page_allocations := []\<rparr>" s2 c2 "mem_context y"] sp
      by (auto simp: new_thread_space_def ptrs_def)
  qed
  ultimately show ?thesis using sp rm
    by (intro exI [of _ ?k] exI [of _ x] exI [of _ a])
      (simp add: x_def cpu_context_entry_call_def PAGE_SIZE_def new_thread_space_def)
qed

text \<open>
  C17. A new kernel thread. While two pages and identifiers are left, \<^verbatim>\<open>create_kthread\<close> succeeds with an identifier
  that no task has, puts the thread at the end of the queue and keeps the kernel well-formed:
  in particular the address spaces of all tasks stay disjoint, with different
  ASIDs. The thread will start on top of a stack page that only it owns, by a call of the wrapper on its
  closure; its user memory is empty, and that of every other task is unchanged.
\<close>

theorem create_kthread_spec:
  assumes "kernel_wf k" and "task_ids_left k" and "room 2 (page_alloc_state (k_mm k))"
  shows "\<exists>k' x a. create_kthread entry wrapper fb k = (Ok (task_counter k), k') \<and> kernel_wf k'
    \<and> tasks (k_sched k) (task_counter k) = None
    \<and> tasks (k_sched k') = (tasks (k_sched k))(task_counter k \<mapsto> x)
    \<and> queue (k_sched k') = queue (k_sched k) @ [task_counter k]
    \<and> lr (cpu_context x) = entry \<and> cpu_context_entry_call (cpu_context x) = (wrapper, fb)
    \<and> a \<in> set (page_allocations (mem_context x)) \<and> sp (cpu_context x) = pa_ptr a + 4096
    \<and> user_map (k_mm k') (mem_context x) = Map.empty
    \<and> (\<forall>t y. tasks (k_sched k) t = Some y \<longrightarrow> user_map (k_mm k') (mem_context y) = user_map (k_mm k) (mem_context y))"
proof -
  have "room (Suc (Suc 0)) (page_alloc_state (k_mm k))" using assms(3) by (simp add: numeral_2_eq_2)
  from create_kthread_ok [OF assms(1,2) this, of entry wrapper fb] show ?thesis by blast
qed

section \<open>The first task\<close>

lemma create_and_become_kinit_ok:
  assumes "current_core (k_core k) = 0" and "k_sched k = scheduler_new 1 d" and "task_ids_left k"
    and "mm_wf (k_mm k)" and "pa_fits (page_alloc_state (k_mm k))" and "room (Suc n) (page_alloc_state (k_mm k))"
  shows "\<exists>k' x. create_and_become_kinit k = (Ok (task_counter k), k') \<and> kernel_wf k'
    \<and> current_tasks (k_sched k') = [Some (task_counter k)] \<and> queue (k_sched k') = []
    \<and> tasks (k_sched k') = [task_counter k \<mapsto> x] \<and> user_map (k_mm k') (mem_context x) = Map.empty
    \<and> regs (k_core k') = regs (k_core k) \<and> ttbr0_el1 (k_core k') = mc_ttbr (mem_context x)
    \<and> interrupts_enabled (k_core k') \<and> timer (k_core k') = set_duration d (timer (k_core k))
    \<and> task_counter k' = task_counter k + 1 \<and> asid_counter (k_mm k') = asid_counter (k_mm k) + 1 \<and> tid x = task_counter k
    \<and> room n (page_alloc_state (k_mm k'))"
proof -
  obtain mc mm where n: "memory_context_new (k_mm k) = (Ok mc, mm)" and rm: "room n (page_alloc_state mm)"
    using room_alloc [OF assms(6,5)] by (simp add: memory_context_new_def page_alloc_def Let_def asid_next_def fetch_add1_def)
  have ok: "ctx_wf (mm, mc)" "user_map mm mc = Map.empty" "mc_asid mc = asid_counter (k_mm k)"
    "asid_counter mm = asid_counter (k_mm k) + 1" "pa_fits (page_alloc_state mm)"
    using memory_context_new_ok [OF assms(4,5) n] by blast+
  define x where "x = \<lparr>tid = task_counter k, parent_id = Root, task_name = ''kinit'', func = None,
      cpu_context = cpu_context_new, mem_context = mc, fs_context = ()\<rparr>"
  obtain c s where b: "become_kinit x (k_core k, scheduler_new 1 d) = (Ok (tid x), (c, s))"
    "smp_wf \<lparr>cores = [c], smp_sched = s\<rparr>" "current_tasks s = [Some (tid x)]" "queue s = []"
    "tasks s = [tid x \<mapsto> x\<lparr>cpu_context := regs (k_core k)\<rparr>]"
    "regs c = regs (k_core k)" "ttbr0_el1 c = mc_ttbr (mem_context x)" "interrupts_enabled c"
    "timer c = set_duration d (timer (k_core k))"
    using become_kinit_ok [OF assms(1), of x d] by blast
  let ?k = "k\<lparr>k_mm := mm, task_counter := task_counter k + 1, k_core := c, k_sched := s\<rparr>"
  have "create_and_become_kinit k = (Ok (task_counter k), ?k)"
    using n b(1) assms(2) by (simp add: create_and_become_kinit_def on_mm_def task_new_def task_id_next_def fetch_add1_def
      fs_context_new_def on_sched_def x_def)
  moreover have "unat (task_counter k + 1) = unat (task_counter k) + 1" "unat (asid_counter mm) = unat (asid_counter (k_mm k)) + 1"
    using assms(3) ok(4) by (simp_all add: task_ids_left_def unat_add_noof)
  then have "kernel_wf ?k"
    using b ok ctx_wfD(1) [OF ok(1)] by (auto simp: kernel_wf_def spaces_wf_def x_def)
  ultimately show ?thesis
    using b ok(2,4) rm by (intro exI [of _ ?k] exI [of _ "x\<lparr>cpu_context := regs (k_core k)\<rparr>"]) (simp add: x_def)
qed

text \<open>
  Bootstrapping. On core 0, with a new scheduler for one core, while a page and identifiers are left,
  \<^verbatim>\<open>create_and_become_kinit\<close> succeeds: the code that calls it continues as the first task, with the
  registers it had, in a new and empty address space that is in force on the core, with interrupts
  enabled and the timer set to one quantum, and the kernel is well-formed.
\<close>

lemma create_and_become_kinit_boots:
  assumes "current_core (k_core k) = 0" and "k_sched k = scheduler_new 1 d" and "task_ids_left k"
    and "mm_wf (k_mm k)" and "pa_fits (page_alloc_state (k_mm k))" and "room 1 (page_alloc_state (k_mm k))"
  shows "\<exists>k' x. create_and_become_kinit k = (Ok (task_counter k), k') \<and> kernel_wf k'
    \<and> current_tasks (k_sched k') = [Some (task_counter k)] \<and> queue (k_sched k') = []
    \<and> tasks (k_sched k') = [task_counter k \<mapsto> x] \<and> user_map (k_mm k') (mem_context x) = Map.empty
    \<and> regs (k_core k') = regs (k_core k) \<and> ttbr0_el1 (k_core k') = mc_ttbr (mem_context x)
    \<and> interrupts_enabled (k_core k') \<and> timer (k_core k') = set_duration d (timer (k_core k))"
proof -
  have "room (Suc 0) (page_alloc_state (k_mm k))" using assms(6) by simp
  from create_and_become_kinit_ok [OF assms(1-5) this] show ?thesis by blast
qed

section \<open>A concrete kernel\<close>

definition mm2 :: mm_state where
  "mm2 = \<lparr>page_alloc_state = \<lparr>capacity = 0x6000, reserved_ranges = [(0, 0x1000)], allocated = 0x1000\<rparr>,
          kmem = (\<lambda>_. 0xFF), asid_counter = 1\<rparr>"

definition kernel0 :: kernel where
  "kernel0 = \<lparr>k_core = core0, k_sched = scheduler_new 1 10000000, k_mm = mm2, task_counter = 1\<rparr>"

lemma kernel0_ok:
  "current_core (k_core kernel0) = 0" "k_sched kernel0 = scheduler_new 1 10000000" "task_ids_left kernel0"
  "mm_wf (k_mm kernel0)" "pa_fits (page_alloc_state (k_mm kernel0))" "room 1 (page_alloc_state (k_mm kernel0))"
  by (simp_all add: kernel0_def mm2_def core0_def current_core_def AFFINITY0_MASK_def task_ids_left_def mm_wf_def pa_fits_def
    room_def reserved_nonempty_def reserved_bytes_def)

lemma create_and_become_kinit_boots_witness:
  "\<exists>k'. create_and_become_kinit kernel0 = (Ok 1, k') \<and> current_tasks (k_sched k') = [Some 1] \<and> x19 (regs (k_core k')) = 7"
  using create_and_become_kinit_boots [OF kernel0_ok] by (auto simp: kernel0_def core0_def)

text \<open>One task, in the address space of the example of the memory model, runs on the core.\<close>

definition kernel1 :: kernel where
  "kernel1 = \<lparr>k_core = core0\<lparr>ttbr0_el1 := mc_ttbr (snd mm1)\<rparr>,
     k_sched = \<lparr>sched_lock = False, tasks = [1 \<mapsto> (task0 1)\<lparr>mem_context := snd mm1\<rparr>], queue = [], current_tasks = [Some 1], quantum = 10000000\<rparr>,
     k_mm = fst mm1, task_counter = 2\<rparr>"

lemma mm1_asid: "mc_asid (snd mm1) = 1" "asid_counter (fst mm1) = 2"
  using memory_context_new_ok [OF mm0_ok mm1_new] by (simp_all add: mm0_def)

lemma kernel1_ok: "kernel_wf kernel1" "task_ids_left kernel1" "room 2 (page_alloc_state (k_mm kernel1))"
proof -
  have "smp_wf \<lparr>cores = [k_core kernel1], smp_sched = k_sched kernel1\<rparr>"
    by (auto simp: kernel1_def core0_def task0_def smp_wf_def sched_wf_def current_core_def AFFINITY0_MASK_def occupies_def)
  then show "kernel_wf kernel1"
    using mm1_ok ctx_wfD(1) [OF mm1_ok(1)] mm1_asid by (auto simp: kernel_wf_def spaces_wf_def kernel1_def)
  show "task_ids_left kernel1" by (simp add: kernel1_def task_ids_left_def mm1_asid)
  show "room 2 (page_alloc_state (k_mm kernel1))"
    by (simp add: kernel1_def mm1_alloc room_def reserved_nonempty_def reserved_bytes_def)
qed

theorem create_kthread_spec_witness:
  "\<exists>k'. create_kthread 0x80000 0x81000 0x90000 kernel1 = (Ok 2, k') \<and> queue (k_sched k') = [2] \<and> kernel_wf k'"
proof -
  have "task_counter kernel1 = 2" "queue (k_sched kernel1) = []" by (simp_all add: kernel1_def)
  then show ?thesis using create_kthread_spec [OF kernel1_ok, of "0x80000" "0x81000" "0x90000"] by fastforce
qed

end
