(* ===== verification/User_Memory.thy ===== *)
theory User_Memory
  imports Memory_Context
begin

unbundle bit_operations_syntax

text \<open>
  Access of the kernel to the memory of the running task: \<^verbatim>\<open>copy_to_user\<close> and \<^verbatim>\<open>copy_from_user\<close> of
  \<^verbatim>\<open>memory/aarch64/memory_context.rs\<close>. The kernel uses the user address as it is, so the core translates it
  with the table base in \<^verbatim>\<open>TTBR0_EL1\<close>. The specification sees an address space as a partial map
  from addresses to bytes.
\<close>

section \<open>Access through the MMU\<close>

definition ttbr_root :: "u64 \<Rightarrow> usize" where
  "ttbr_root v = virtual_address (PhysicalAddress (take_bit 48 v))"

text \<open>
  Where the byte at an address is, as an address of the kernel's window on physical memory. The
  lower half goes through the tables of the task; of the upper half the kernel's tables map
  512 GB; any other address faults.
\<close>

definition byte_ptr :: "mem \<Rightarrow> u64 \<Rightarrow> usize \<Rightarrow> usize option" where
  "byte_ptr m ttbr va =
     (if unat va < 2 ^ 48
      then map_option (\<lambda>e. virtual_address (page_desc_address (PageDescriptorBuilder e)) + (va AND 0xFFF))
             (entry_at (mem_rows m) (ttbr_root ttbr) (va_path 4 va))
      else if unat VA_START \<le> unat va \<and> unat va < unat VA_START + 2 ^ 39 then Some va else None)"

text \<open>
  A fault in the kernel ends in \<^verbatim>\<open>vector_sync_el1\<close>, which panics. The kernel's own buffer, a vector
  that the caller has just made or the bytes of a file, is a list.
\<close>

fun load_bytes :: "mem \<Rightarrow> u64 \<Rightarrow> usize \<Rightarrow> nat \<Rightarrow> u8 list res" where
  "load_bytes m ttbr va 0 = Ok []"
| "load_bytes m ttbr va (Suc n) =
     (case byte_ptr m ttbr va of
        None \<Rightarrow> Panic
      | Some p \<Rightarrow> bind_res (load_bytes m ttbr (va + 1) n) (\<lambda>bs. Ok (m p # bs)))"

fun store_bytes :: "u64 \<Rightarrow> usize \<Rightarrow> u8 list \<Rightarrow> mem \<Rightarrow> unit res \<times> mem" where
  "store_bytes ttbr va [] m = (Ok (), m)"
| "store_bytes ttbr va (b # bs) m =
     (case byte_ptr m ttbr va of
        None \<Rightarrow> (Panic, m)
      | Some p \<Rightarrow> store_bytes ttbr (va + 1) bs (m(p := b)))"

definition copy_to_user :: "u64 \<Rightarrow> u8 list \<Rightarrow> UserAddress \<Rightarrow> mm_state \<Rightarrow> unit res \<times> mm_state" where
  "copy_to_user ttbr src dst s =
     (case store_bytes ttbr (as_ptr dst) src (kmem s) of (r, m) \<Rightarrow> (r, s\<lparr>kmem := m\<rparr>))"

definition copy_from_user :: "u64 \<Rightarrow> UserAddress \<Rightarrow> usize \<Rightarrow> mm_state \<Rightarrow> u8 list res" where
  "copy_from_user ttbr src count s = load_bytes (kmem s) ttbr (as_ptr src) (unat count)"

section \<open>The memory of a task\<close>

definition frame_at :: "mm_state \<Rightarrow> memory_context \<Rightarrow> nat \<Rightarrow> usize option" where
  "frame_at s c n = map_option (\<lambda>e. virtual_address (page_desc_address (PageDescriptorBuilder e))) (user_map s c n)"

definition user_mem :: "mm_state \<Rightarrow> memory_context \<Rightarrow> usize \<Rightarrow> u8 option" where
  "user_mem s c va = (if unat va < 2 ^ 48 then map_option (kmem s) (byte_ptr (kmem s) (mc_ttbr c) va) else None)"

text \<open>
  User pages are pages of the address space that hold no table, and no page is mapped twice.
\<close>

definition image_wf :: "mc_state \<Rightarrow> bool" where
  "image_wf st \<longleftrightarrow> ctx_wf st
     \<and> (\<forall>n t. frame_at (fst st) (snd st) n = Some t \<longrightarrow> t \<in> ptrs (snd st) \<and> no_table st t)
     \<and> (\<forall>n n' t. frame_at (fst st) (snd st) n = Some t \<longrightarrow> frame_at (fst st) (snd st) n' = Some t \<longrightarrow> n = n')"

lemma image_wfD:
  assumes "image_wf (s, c)"
  shows "ctx_wf (s, c)" and "frame_at s c n = Some t \<Longrightarrow> t \<in> ptrs c \<and> no_table (s, c) t"
    and "frame_at s c n = Some t \<Longrightarrow> frame_at s c n' = Some t \<Longrightarrow> n = n'"
    and "frame_at s c n = Some t \<Longrightarrow> page_ptr t"
  using assms ptrs_page_ptr [of s c t] by (auto simp: image_wf_def)

lemma ttbr_root_mc:
  assumes "ctx_wf (s, c)"
  shows "ttbr_root (mc_ttbr c) = table_l0 c"
proof -
  have "table_l0 c \<in> ptrs c" using tables_inD [OF ctx_wfD(3) [OF assms], of "[]"] by (simp add: valid_path_def)
  then obtain a where a: "a \<in> set (page_allocations c)" "table_l0 c = pa_ptr a" by (auto simp: ptrs_def)
  have o: "owned_page s a" by (rule ctx_wfD(2) [OF assms a(1)])
  then have v: "table_l0 c = virtual_address (pa_address a)" "unat (address (pa_address a)) < 2 ^ 48"
    using a(2) ctx_wfD(1) [OF assms] by (auto simp: owned_page_def mm_wf_def)
  then show ?thesis using mc_ttbr_split [OF v] by (simp add: ttbr_root_def)
qed

lemma byte_ptr_user:
  assumes "ctx_wf (s, c)" and "unat va < 2 ^ 48"
  shows "byte_ptr (kmem s) (mc_ttbr c) va = map_option (\<lambda>t. t + (va AND 0xFFF)) (frame_at s c (unat va div 4096))"
  using assms(2) user_map_entry [OF assms(2), of s c]
  by (simp add: byte_ptr_def frame_at_def ttbr_root_mc [OF assms(1)] user_entry_def option.map_comp comp_def)

lemma user_mem_frame:
  assumes "ctx_wf (s, c)"
  shows "user_mem s c va = (if unat va < 2 ^ 48
    then map_option (\<lambda>t. kmem s (t + (va AND 0xFFF))) (frame_at s c (unat va div 4096)) else None)"
  by (simp add: user_mem_def byte_ptr_user [OF assms] option.map_comp comp_def)

lemma page_offset_mod: "unat (va AND 0xFFF :: usize) = unat va mod 4096"
proof -
  have m: "(0xFFF :: u64) = mask 12" by (simp add: mask_eq_exp_minus_1)
  show ?thesis by (simp only: m take_bit_eq_mask [symmetric] unsigned_take_bit_eq take_bit_eq_mod unat_mod_distrib) simp
qed

lemma page_offset: "unat ((t :: usize) + (va AND 0xFFF) - t) < 4096"
  using page_offset_mod [of va] by simp

lemma page_offset_inj:
  assumes "t + (va AND 0xFFF) = t' + (va' AND 0xFFF)" and "page_ptr t" and "page_ptr t'"
  shows "t = t' \<and> unat va mod 4096 = unat va' mod 4096"
proof -
  have "unat (t + (va AND 0xFFF)) = unat t + unat va mod 4096" "unat (t' + (va' AND 0xFFF)) = unat t' + unat va' mod 4096"
    using assms(2,3) page_offset_mod [of va] page_offset_mod [of va'] mod_less_divisor [of 4096 "unat va"] mod_less_divisor [of 4096 "unat va'"]
    by (auto simp: page_ptr_def unat_add_noof)
  then have e: "unat t + unat va mod 4096 = unat t' + unat va' mod 4096" using assms(1) by simp
  have "unat va mod 4096 < 4096" "unat va' mod 4096 < 4096" by simp_all
  then have "t = t'" using page_ptr_apart [OF assms(2,3)] e by fastforce
  then show ?thesis using e by simp
qed

section \<open>Storing bytes\<close>

text \<open>A store into a page that holds no table changes no table.\<close>

lemma store_no_table:
  fixes b :: u8
  assumes wf: "ctx_wf (s, c)" and t: "t \<in> ptrs c" "no_table (s, c) t" and x: "unat (p - t) < 4096"
  defines "s' \<equiv> s\<lparr>kmem := (kmem s)(p := b)\<rparr>"
  shows "ctx_wf (s', c)" and "user_map s' c = user_map s c" and "mc_frame (s, c) (s', c)" and "no_table (s', c) u \<longleftrightarrow> no_table (s, c) u"
proof -
  define ts where "ts = {u. \<exists>q. valid_path q \<and> table_at (rows_of s) (table_l0 c) q = Some u}"
  have ti: "tables_in (rows_of s) (table_l0 c) ts" by (auto simp: ts_def tables_in_def)
  obtain a where a: "a \<in> set (page_allocations c)" "t = pa_ptr a" using t(1) by (auto simp: ptrs_def)
  have same: "rows_of s' u i = rows_of s u i" if u: "u \<in> ts" and i: "i < 512" for u i
  proof -
    have "u \<in> ptrs c" using u ctx_wfD(3) [OF wf] by (auto simp: ts_def tables_in_def)
    then obtain d where d: "d \<in> set (page_allocations c)" "u = pa_ptr d" by (auto simp: ptrs_def)
    have "u \<noteq> t" using u t(2) by (auto simp: ts_def no_table_def)
    then have np: "\<not> unat (p - u) < 4096"
      using owned_pages_apart [OF ctx_wfD(2) [OF wf a(1)] ctx_wfD(2) [OF wf d(1)] ctx_wfD(1) [OF wf], of p] x a(2) d(2) by simp
    have "kmem s' (row_addr u i + of_nat k) = kmem s (row_addr u i + of_nat k)" if "k < 8" for k
    proof -
      have "unat (row_addr u i + of_nat k - row_addr u i) < 8" using that by (simp add: unat_of_nat64)
      from row_in_page [OF this i] have "row_addr u i + of_nat k \<noteq> p" using np by auto
      then show ?thesis by (simp add: s'_def)
    qed
    then show ?thesis unfolding mem_rows_def by (rule read_u64_cong)
  qed
  have walk: "table_at (rows_of s') (table_l0 c) q = table_at (rows_of s) (table_l0 c) q" if "valid_path q" for q
    by (rule walk_cong [OF ti same that])
  have ent: "entry_at (rows_of s') (table_l0 c) q = entry_at (rows_of s) (table_l0 c) q" if "valid_entry_path q" for q
    by (rule entry_cong [OF ti same that])
  have "tables_in (rows_of s') (table_l0 c) (ptrs c)" "tree_inj (rows_of s') (table_l0 c)"
    using ctx_wfD(3,4) [OF wf] walk unfolding tables_in_def tree_inj_def by metis+
  moreover have "mm_wf s'" "\<And>a. owned_page s' a \<longleftrightarrow> owned_page s a"
    using ctx_wfD(1) [OF wf] by (simp_all add: s'_def mm_wf_def owned_page_def)
  ultimately show "ctx_wf (s', c)" using wf by (auto simp: ctx_wf_def)
  show "user_map s' c = user_map s c" by (rule ext) (simp add: user_map_def user_entry_def ent)
  show "no_table (s', c) u \<longleftrightarrow> no_table (s, c) u" using walk by (auto simp: no_table_def)
  show "mc_frame (s, c) (s', c)" using a x by (auto simp: mc_frame_def s'_def)
qed

lemma store_byte:
  fixes b :: u8
  assumes wf: "image_wf (s, c)" and va: "unat va < 2 ^ 48" and p: "byte_ptr (kmem s) (mc_ttbr c) va = Some p"
  defines "s' \<equiv> s\<lparr>kmem := (kmem s)(p := b)\<rparr>"
  shows "image_wf (s', c)" and "mc_frame (s, c) (s', c)" and "user_map s' c = user_map s c"
    and "user_mem s' c = (user_mem s c)(va \<mapsto> b)"
proof -
  note cw = image_wfD(1) [OF wf]
  obtain t where t: "frame_at s c (unat va div 4096) = Some t" "p = t + (va AND 0xFFF)"
    using p byte_ptr_user [OF cw va] by auto
  note nt = image_wfD(2) [OF wf t(1)]
  have x: "unat (p - t) < 4096" unfolding t(2) by (rule page_offset)
  note st = store_no_table [OF cw conjunct1 [OF nt] conjunct2 [OF nt] x, where b = b, folded s'_def]
  have fr: "frame_at s' c = frame_at s c" by (rule ext) (simp add: frame_at_def st(2))
  show "user_map s' c = user_map s c" "mc_frame (s, c) (s', c)" by (rule st)+
  show "image_wf (s', c)" using wf st(1,4) by (auto simp: image_wf_def fr)
  show "user_mem s' c = (user_mem s c)(va \<mapsto> b)"
  proof (rule ext)
    fix y
    have "y = va" if "unat y < 2 ^ 48" "frame_at s c (unat y div 4096) = Some u" "u + (y AND 0xFFF) = p" for u
    proof -
      have "u = t \<and> unat y mod 4096 = unat va mod 4096"
        using page_offset_inj [of u y t va] that(3) t(2) image_wfD(4) [OF wf] that(2) t(1) by auto
      moreover have "unat y div 4096 = unat va div 4096"
        using image_wfD(3) [OF wf that(2)] t(1) calculation by simp
      ultimately have "unat y = unat va" by (metis div_mult_mod_eq)
      then show ?thesis by (simp add: word_unat_eq_iff)
    qed
    moreover have "kmem s' = (kmem s)(p := b)" by (simp add: s'_def)
    ultimately show "user_mem s' c y = ((user_mem s c)(va \<mapsto> b)) y"
      unfolding user_mem_frame [OF st(1)] user_mem_frame [OF cw] fr using t va
      by (cases "frame_at s c (unat y div 4096)") auto
  qed
qed

section \<open>Copying\<close>

text \<open>The range of a copy lies in the lower half and is mapped.\<close>

definition user_range :: "mm_state \<Rightarrow> memory_context \<Rightarrow> usize \<Rightarrow> nat \<Rightarrow> bool" where
  "user_range s c va n \<longleftrightarrow> unat va + n \<le> 2 ^ 48 \<and> (\<forall>i < n. user_mem s c (va + of_nat i) \<noteq> None)"

definition spec_copy :: "usize \<Rightarrow> u8 list \<Rightarrow> (usize \<Rightarrow> u8 option) \<Rightarrow> usize \<Rightarrow> u8 option" where
  "spec_copy va bs m = (\<lambda>x. if unat (x - va) < length bs then Some (bs ! unat (x - va)) else m x)"

lemma user_range_Suc:
  assumes "user_range s c va (Suc n)"
  shows "unat va < 2 ^ 48" "user_mem s c va \<noteq> None" "user_range s c (va + 1) n"
proof -
  show va: "unat va < 2 ^ 48" using assms by (simp add: user_range_def)
  show "user_mem s c va \<noteq> None" using assms by (auto simp: user_range_def dest: spec [of _ 0])
  have u: "unat (va + 1) = unat va + 1" using va by (simp add: unat_add_noof)
  have "user_mem s c (va + 1 + of_nat i) \<noteq> None" if "i < n" for i
  proof -
    have "user_mem s c (va + of_nat (Suc i)) \<noteq> None" using assms that unfolding user_range_def by blast
    then show ?thesis by (simp add: add.assoc)
  qed
  then show "user_range s c (va + 1) n" using assms u by (simp add: user_range_def)
qed

lemma spec_copy_Cons:
  assumes "unat va + Suc (length bs) \<le> 2 ^ 48"
  shows "spec_copy (va + 1) bs (m(va \<mapsto> b)) = spec_copy va (b # bs) m"
proof (rule ext)
  fix x :: usize
  have w: "unat va < 2 ^ 48" using assms by simp
  have u: "unat (va + 1) = unat va + 1" using w by (simp add: unat_add_noof)
  have i1: "unat (x - (va + 1)) < length bs \<longleftrightarrow> unat va + 1 \<le> unat x \<and> unat x < unat va + 1 + length bs"
    using assms u by (subst word_diff_less_iff) auto
  have i0: "unat (x - va) < Suc (length bs) \<longleftrightarrow> unat va \<le> unat x \<and> unat x < unat va + Suc (length bs)"
    using assms by (subst word_diff_less_iff) auto
  have ne: "x \<noteq> va \<longleftrightarrow> unat x \<noteq> unat va" by (simp add: word_unat_eq_iff)
  have s1: "unat (x - va) = Suc (unat (x - (va + 1)))" if "unat va + 1 \<le> unat x"
    using that u by (simp add: unat_sub_noof)
  show "spec_copy (va + 1) bs (m(va \<mapsto> b)) x = spec_copy va (b # bs) m x"
    using i0 i1 ne s1 by (auto simp: spec_copy_def)
qed

lemma store_bytes_user:
  assumes "image_wf (s, c)" and "user_range s c va (length bs)"
  shows "\<exists>m. store_bytes (mc_ttbr c) va bs (kmem s) = (Ok (), m)
    \<and> image_wf (s\<lparr>kmem := m\<rparr>, c) \<and> mc_frame (s, c) (s\<lparr>kmem := m\<rparr>, c)
    \<and> user_map (s\<lparr>kmem := m\<rparr>) c = user_map s c
    \<and> user_mem (s\<lparr>kmem := m\<rparr>) c = spec_copy va bs (user_mem s c)"
  using assms
proof (induction bs arbitrary: va s)
  case Nil
  then show ?case by (simp add: spec_copy_def)
next
  case (Cons b bs)
  have r: "user_range s c va (Suc (length bs))" using Cons.prems(2) by simp
  note u = user_range_Suc [OF r]
  obtain p where p: "byte_ptr (kmem s) (mc_ttbr c) va = Some p" using u(1,2) by (auto simp: user_mem_def)
  let ?s = "s\<lparr>kmem := (kmem s)(p := b)\<rparr>"
  note sb = store_byte [OF Cons.prems(1) u(1) p, where b = b]
  have "user_range ?s c (va + 1) (length bs)" using u(3) by (auto simp: user_range_def sb(4))
  note IH = Cons.IH [OF sb(1) this]
  have k: "kmem ?s = (kmem s)(p := b)" and o: "\<And>m. ?s\<lparr>kmem := m\<rparr> = s\<lparr>kmem := m\<rparr>" by simp_all
  obtain m where
    "store_bytes (mc_ttbr c) (va + 1) bs ((kmem s)(p := b)) = (Ok (), m)"
    "image_wf (s\<lparr>kmem := m\<rparr>, c)" "mc_frame (?s, c) (s\<lparr>kmem := m\<rparr>, c)" "user_map (s\<lparr>kmem := m\<rparr>) c = user_map ?s c"
    "user_mem (s\<lparr>kmem := m\<rparr>) c = spec_copy (va + 1) bs (user_mem ?s c)"
    using IH unfolding k o by blast
  moreover have "spec_copy (va + 1) bs (user_mem ?s c) = spec_copy va (b # bs) (user_mem s c)"
    using spec_copy_Cons r by (simp add: sb(4) user_range_def)
  ultimately show ?case using p sb(3) mc_frame_trans [OF sb(2)] by auto
qed

lemma load_bytes_user:
  assumes "ctx_wf (s, c)" and "user_range s c va n"
  shows "load_bytes (kmem s) (mc_ttbr c) va n = Ok (map (\<lambda>i. the (user_mem s c (va + of_nat i))) [0..<n])"
  using assms(2)
proof (induction n arbitrary: va)
  case (Suc n)
  note u = user_range_Suc [OF Suc.prems]
  obtain p where p: "byte_ptr (kmem s) (mc_ttbr c) va = Some p" "user_mem s c va = Some (kmem s p)"
    using u(1,2) by (auto simp: user_mem_def)
  show ?case
    using Suc.IH [OF u(3)] p by (simp add: upt_0_Suc comp_def add.assoc del: upt_Suc)
qed simp

lemma copy_to_user_image:
  assumes "image_wf (s, c)" and "user_range s c va (length bs)"
  shows "\<exists>m. copy_to_user (mc_ttbr c) bs (UserAddress va) s = (Ok (), s\<lparr>kmem := m\<rparr>)
    \<and> image_wf (s\<lparr>kmem := m\<rparr>, c) \<and> mc_frame (s, c) (s\<lparr>kmem := m\<rparr>, c)
    \<and> user_map (s\<lparr>kmem := m\<rparr>) c = user_map s c
    \<and> user_mem (s\<lparr>kmem := m\<rparr>) c = spec_copy va bs (user_mem s c)"
proof -
  obtain m where "store_bytes (mc_ttbr c) va bs (kmem s) = (Ok (), m)"
    "image_wf (s\<lparr>kmem := m\<rparr>, c) \<and> mc_frame (s, c) (s\<lparr>kmem := m\<rparr>, c)
    \<and> user_map (s\<lparr>kmem := m\<rparr>) c = user_map s c \<and> user_mem (s\<lparr>kmem := m\<rparr>) c = spec_copy va bs (user_mem s c)"
    using store_bytes_user [OF assms] by blast
  then show ?thesis by (intro exI [of _ m]) (simp add: copy_to_user_def)
qed

definition copy_to_space :: "u8 list \<Rightarrow> UserAddress \<Rightarrow> mc_state \<Rightarrow> unit res \<times> mc_state" where
  "copy_to_space src dst st = (case copy_to_user (mc_ttbr (snd st)) src dst (fst st) of (r, s) \<Rightarrow> (r, (s, snd st)))"

interpretation user_copy: space_operation "copy_to_space src dst"
  "\<lambda>(s, c). image_wf (s, c) \<and> user_range s c (as_ptr dst) (length src)" for src dst
proof
  fix s c r s' c'
  assume "case (s, c) of (s, c) \<Rightarrow> image_wf (s, c) \<and> user_range s c (as_ptr dst) (length src)"
    and run: "copy_to_space src dst (s, c) = (r, (s', c'))"
  then obtain m where m: "copy_to_user (mc_ttbr c) src dst s = (Ok (), s\<lparr>kmem := m\<rparr>)"
      "image_wf (s\<lparr>kmem := m\<rparr>, c)" "mc_frame (s, c) (s\<lparr>kmem := m\<rparr>, c)"
    using copy_to_user_image [of s c "as_ptr dst" src] by auto
  have "s' = s\<lparr>kmem := m\<rparr>" "c' = c" using run m(1) by (simp_all add: copy_to_space_def)
  then show "mc_frame (s, c) (s', c') \<and> ctx_wf (s', c')" using m(2,3) image_wfD(1) by blast
qed

text \<open>
  C22. Copies between the kernel and the running task. Into a mapped range of the lower half,
  \<^verbatim>\<open>copy_to_user\<close> succeeds, changes exactly the bytes of that range and no entry, keeps the invariant, and leaves
  every address space that shares no page with this one alone; \<^verbatim>\<open>copy_from_user\<close> on the range then returns the same bytes.
\<close>

theorem copy_user_roundtrip:
  assumes "image_wf (s, c)" and "user_range s c va (length bs)"
  shows "\<exists>s'. copy_to_user (mc_ttbr c) bs (UserAddress va) s = (Ok (), s')
    \<and> image_wf (s', c) \<and> user_map s' c = user_map s c \<and> user_mem s' c = spec_copy va bs (user_mem s c)
    \<and> copy_from_user (mc_ttbr c) (UserAddress va) (of_nat (length bs)) s' = Ok bs
    \<and> (\<forall>d. ctx_wf (s, d) \<longrightarrow> ptrs c \<inter> ptrs d = {} \<longrightarrow>
         ctx_wf (s', d) \<and> user_map s' d = user_map s d
         \<and> (\<forall>b \<in> set (page_allocations d). \<forall>x. unat (x - pa_ptr b) < 4096 \<longrightarrow> kmem s' x = kmem s x))"
proof -
  obtain s' where s': "copy_to_user (mc_ttbr c) bs (UserAddress va) s = (Ok (), s')" "image_wf (s', c)"
      "user_map s' c = user_map s c" "user_mem s' c = spec_copy va bs (user_mem s c)"
    using copy_to_user_image [OF assms] by blast
  have n: "length bs < 2 ^ 64" and lo: "unat va + length bs \<le> 2 ^ 48" using assms(2) by (simp_all add: user_range_def)
  have i: "unat (va + of_nat i - va) = i" if "i < length bs" for i using that n by (simp add: unat_of_nat64)
  then have mem: "user_mem s' c (va + of_nat i) = Some (bs ! i)" if "i < length bs" for i
    using that by (simp add: s'(4) spec_copy_def)
  have "user_range s' c va (length bs)" using lo mem by (simp add: user_range_def)
  from load_bytes_user [OF image_wfD(1) [OF s'(2)] this]
  have "copy_from_user (mc_ttbr c) (UserAddress va) (of_nat (length bs)) s' = Ok (map (\<lambda>i. bs ! i) [0..<length bs])"
    using mem n by (simp add: copy_from_user_def unat_of_nat64)
  then have rd: "copy_from_user (mc_ttbr c) (UserAddress va) (of_nat (length bs)) s' = Ok bs" by (simp add: map_nth)
  have run: "copy_to_space bs (UserAddress va) (s, c) = (Ok (), (s', c))" using s'(1) by (simp add: copy_to_space_def)
  have "case (s, c) of (s, c) \<Rightarrow> image_wf (s, c) \<and> user_range s c (as_ptr (UserAddress va)) (length bs)" using assms by simp
  note iso = user_copy.isolated [OF image_wfD(1) [OF assms(1)] this run]
  show ?thesis by (rule exI [of _ s'], intro conjI allI impI) (use s' rd iso in blast)+
qed

section \<open>Mapping pages\<close>

text \<open>A page of zeros, where the page was not there.\<close>

definition spec_zero_page :: "nat \<Rightarrow> (usize \<Rightarrow> u8 option) \<Rightarrow> usize \<Rightarrow> u8 option" where
  "spec_zero_page n m = (\<lambda>x. if unat x div 4096 = n then Some (case m x of None \<Rightarrow> 0 | Some b \<Rightarrow> b) else m x)"

lemma same_page_lower:
  assumes "unat (x :: usize) div 4096 = unat (va :: usize) div 4096" and "unat va < 2 ^ 48"
  shows "unat x < 2 ^ 48"
proof -
  have "unat va div 4096 < 2 ^ 36" using assms(2) by (simp add: div_less_iff_less_mult)
  then have "unat x div 4096 < 2 ^ 36" using assms(1) by simp
  then show ?thesis by (subst (asm) div_less_iff_less_mult) simp_all
qed

lemma keeps_image:
  assumes wf: "image_wf (s, c)" and k: "keeps_entries (s, c) (s', c')"
  shows "image_wf (s', c')" and "user_mem s' c' = user_mem s c"
proof -
  have k': "ctx_wf (s', c')" "mc_frame (s, c) (s', c')" "tables_grow (s, c) (s', c')" "pages_kept (s, c) (s', c')"
    using k by (simp_all add: keeps_entries_def)
  have fr: "frame_at s' c' = frame_at s c" by (rule ext) (simp add: frame_at_def keeps_user_map [OF k])
  have page: "t \<in> ptrs c' \<and> no_table (s', c') t \<and> (\<forall>x. unat (x - t) < 4096 \<longrightarrow> kmem s' x = kmem s x)"
    if f: "frame_at s c n = Some t" for n t
  proof -
    have t: "t \<in> ptrs c" "no_table (s, c) t" using image_wfD(2) [OF wf f] by auto
    then obtain a where a: "a \<in> set (page_allocations c)" "t = pa_ptr a" by (auto simp: ptrs_def)
    have "no_table (s', c') t" using no_table_grow [OF k'(3)] a t(2) by simp
    then show ?thesis using t a k'(4) mc_frame_ptrs [OF k'(2)] unfolding pages_kept_def by auto
  qed
  then show "image_wf (s', c')" using wf k'(1) by (auto simp: image_wf_def fr)
  show "user_mem s' c' = user_mem s c"
  proof (rule ext)
    fix x :: usize
    show "user_mem s' c' x = user_mem s c x"
      unfolding user_mem_frame [OF k'(1)] user_mem_frame [OF image_wfD(1) [OF wf]] fr
      using page [of "unat x div 4096"] page_offset by (cases "frame_at s c (unat x div 4096)") auto
  qed
qed

lemma grow_image:
  assumes wf: "image_wf (s, c)" and g: "can_grow s c a pa T (va_index 3 va)" and va: "unat va < 2 ^ 48"
    and T: "table_at (rows_of s) (table_l0 c) (va_path 3 va) = Some T"
    and st: "grow s c a pa T (va_index 3 va) (user_page_row (pa_address a)) = (s', c')"
    and new: "user_map s c (unat va div 4096) = None"
  shows "image_wf (s', c')" and "user_mem s' c' = spec_zero_page (unat va div 4096) (user_mem s c)"
proof -
  let ?n = "unat va div 4096"
  note gm = grow_user_map [OF g va T st]
  have pd: "classify_row LEVEL_MAX (user_page_row (pa_address a)) = Some Page"
    "page_desc_address (PageDescriptorBuilder (user_page_row (pa_address a))) = pa_address a"
    using page_desc_of_page(2,3) [OF grow_owned(2,1) [OF g]] .
  have fr: "frame_at s' c' = (frame_at s c)(?n \<mapsto> pa_ptr a)"
    using g by (intro ext) (simp add: frame_at_def gm(2) pd(2) can_grow_def)
  have s': "s' = fst (grow s c a pa T (va_index 3 va) (user_page_row (pa_address a)))"
    and c': "ptrs c' = insert (pa_ptr a) (ptrs c)" "table_l0 c' = table_l0 c" using st by (metis fst_conv, metis grow_simps snd_conv, metis grow_simps(2) snd_conv)
  have walk: "table_at (rows_of s') (table_l0 c') q = table_at (rows_of s) (table_l0 c) q" if "valid_path q" for q
    using ctx_wf_page_inserted(3) [OF g _ _ T pd(1) that] unfolding s' c'(2) by simp
  have nt: "no_table (s', c') t \<longleftrightarrow> no_table (s, c) t" for t using walk by (simp add: no_table_def)
  have fresh: "pa_ptr a \<notin> ptrs c" by (rule grow_owned(5) [OF g])
  then have "no_table (s, c) (pa_ptr a)"
    using ctx_wfD(3) [OF image_wfD(1) [OF wf]] by (auto simp: no_table_def tables_in_def)
  moreover have "frame_at s c n \<noteq> Some (pa_ptr a)" for n using image_wfD(2) [OF wf] fresh by blast
  ultimately show "image_wf (s', c')"
    using wf gm(1) by (auto simp: image_wf_def fr nt c'(1) split: if_splits)
  have keep: "kmem s' x = kmem s x" if "frame_at s c n = Some t" "unat (x - t) < 4096" for n t x
  proof -
    have t: "t \<in> ptrs c" "no_table (s, c) t" using image_wfD(2) [OF wf that(1)] by auto
    then obtain b where b: "b \<in> set (page_allocations c)" "t = pa_ptr b" by (auto simp: ptrs_def)
    have "t \<noteq> T" using t(2) T valid_va_path(1) [of 3 va] by (auto simp: no_table_def)
    then show ?thesis unfolding s' using grow_other [OF g b(1)] b(2) that(2) by simp
  qed
  have zero: "kmem s' x = 0" if "unat (x - pa_ptr a) < 4096" for x
    using grow_zero [OF g that] unfolding s' .
  have n0: "frame_at s c ?n = None" using new by (simp add: frame_at_def)
  show "user_mem s' c' = spec_zero_page ?n (user_mem s c)"
  proof (rule ext)
    fix x :: usize
    have lt: "unat x < 2 ^ 48" if "unat x div 4096 = ?n" by (rule same_page_lower [OF that va])
    show "user_mem s' c' x = spec_zero_page ?n (user_mem s c) x"
    proof (cases "unat x div 4096 = ?n")
      case True
      then show ?thesis using lt zero [OF page_offset] n0
        by (simp add: user_mem_frame [OF gm(1)] user_mem_frame [OF image_wfD(1) [OF wf]] fr spec_zero_page_def)
    next
      case False
      then show ?thesis using keep [OF _ page_offset]
        by (cases "frame_at s c (unat x div 4096)") (simp_all add: user_mem_frame [OF gm(1)] user_mem_frame [OF image_wfD(1) [OF wf]] fr spec_zero_page_def)
    qed
  qed
qed

lemma user_mem_mapped:
  fixes va :: usize
  assumes "ctx_wf (s, c)" and "user_map s c (unat va div 4096) = Some e" and "unat va < 2 ^ 48"
  shows "spec_zero_page (unat va div 4096) (user_mem s c) = user_mem s c"
proof (rule ext)
  fix x :: usize
  show "spec_zero_page (unat va div 4096) (user_mem s c) x = user_mem s c x"
  proof (cases "unat x div 4096 = unat va div 4096")
    case True
    then have "unat x < 2 ^ 48" by (rule same_page_lower [OF _ assms(3)])
    then show ?thesis using True assms(2) by (simp add: spec_zero_page_def user_mem_frame [OF assms(1)] frame_at_def)
  qed (simp add: spec_zero_page_def)
qed

text \<open>What a call of \<^verbatim>\<open>alloc_page\<close> does to the memory of the task.\<close>

lemma alloc_page_image:
  assumes wf: "image_wf (s, c)" and fits: "pa_fits (page_alloc_state s)" and va: "unat va < 2 ^ 48"
    and run: "alloc_page (UserAddress va) (s, c) = (r, (s', c'))"
  shows "image_wf (s', c')" and "r = Ok p \<Longrightarrow> user_mem s' c' = spec_zero_page (unat va div 4096) (user_mem s c)"
    and "r \<noteq> Ok p \<Longrightarrow> r = Err () \<Longrightarrow> user_mem s' c' = user_mem s c"
    and "r = Ok p \<Longrightarrow> pa_fits (page_alloc_state s')" and "asid_counter s' = asid_counter s"
    and "r = Ok p \<Longrightarrow> room (4 + k) (page_alloc_state s) \<Longrightarrow> room k (page_alloc_state s')"
    and "room 4 (page_alloc_state s) \<Longrightarrow> \<exists>p. r = Ok p"
proof -
  have "image_wf (s', c') \<and> (r = Ok p \<longrightarrow> user_mem s' c' = spec_zero_page (unat va div 4096) (user_mem s c))
      \<and> (r = Err () \<longrightarrow> user_mem s' c' = user_mem s c) \<and> (r = Ok p \<longrightarrow> pa_fits (page_alloc_state s'))
      \<and> asid_counter s' = asid_counter s \<and> (r = Ok p \<longrightarrow> room (4 + k) (page_alloc_state s) \<longrightarrow> room k (page_alloc_state s'))
      \<and> (room 4 (page_alloc_state s) \<longrightarrow> (\<exists>p. r = Ok p))" for k
    using image_wfD(1) [OF wf] fits va
  proof (cases rule: alloc_page_cases)
    case (mapped e st')
    have st: "st' = (s', c')" and r: "r = Ok (page_desc_address (PageDescriptorBuilder e))" using mapped(3) run by simp_all
    have m: "user_map s c (unat va div 4096) = Some e" using user_map_entry [OF va] mapped(1) by simp
    note k = keeps_image [OF wf mapped(2) [unfolded st]]
    show ?thesis
      using k user_mem_mapped [OF image_wfD(1) [OF wf] m va] mapped(2,4,5) r st by (simp add: keeps_entries_def)
  next
    case (fresh s1 c1 a pa T)
    have st: "grow s1 c1 a pa T (va_index 3 va) (user_page_row (pa_address a)) = (s', c')" and r: "r = Ok (pa_address a)"
      using fresh(5) run by simp_all
    have n: "user_map s1 c1 (unat va div 4096) = None"
      using user_map_entry [OF va] fresh(1) keeps_user_map [OF fresh(2)] by simp
    note k = keeps_image [OF wf fresh(2)]
    note g = grow_image [OF k(1) fresh(3) va fresh(4) st n]
    have "page_alloc_state s' = pa" "asid_counter s' = asid_counter s1"
      using st grow_simps(1,4) by (metis fst_conv)+
    then show ?thesis using g k(2) r fresh(2,6,7) by (simp add: keeps_entries_def)
  next
    case (full st1 st')
    have st: "st' = (s', c')" and r: "r = Err ()" using full(5) run by simp_all
    show ?thesis using keeps_image [OF wf full(2) [unfolded st]] full(2,6) r st by (simp add: keeps_entries_def)
  qed
  then show "image_wf (s', c')" "r = Ok p \<Longrightarrow> user_mem s' c' = spec_zero_page (unat va div 4096) (user_mem s c)"
    "r \<noteq> Ok p \<Longrightarrow> r = Err () \<Longrightarrow> user_mem s' c' = user_mem s c"
    "r = Ok p \<Longrightarrow> pa_fits (page_alloc_state s')" "asid_counter s' = asid_counter s"
    "r = Ok p \<Longrightarrow> room (4 + k) (page_alloc_state s) \<Longrightarrow> room k (page_alloc_state s')"
    "room 4 (page_alloc_state s) \<Longrightarrow> \<exists>p. r = Ok p" by blast+
qed

text \<open>A new address space is an empty memory.\<close>

lemma image_wf_empty:
  assumes "ctx_wf (s, c)" and "user_map s c = (\<lambda>n. None)"
  shows "image_wf (s, c)" and "user_mem s c = Map.empty"
  using assms by (auto simp: image_wf_def frame_at_def user_mem_frame)

text \<open>An operation on another address space leaves the memory of this one alone.\<close>

lemma frame_image:
  assumes "mc_frame (s, c) (s', c')" and "ctx_wf (s', c')" and "image_wf (s, d)" "ptrs c \<inter> ptrs d = {}"
  shows "image_wf (s', d)" and "user_mem s' d = user_mem s d"
proof -
  note cw = image_wfD(1) [OF assms(3)]
  note i = frame_isolates [OF assms(1,2) cw assms(4)]
  then have cw': "ctx_wf (s', d)" by blast
  have fr: "frame_at s' d = frame_at s d" using i by (intro ext) (simp add: frame_at_def)
  have "no_table (s', d) t \<longleftrightarrow> no_table (s, d) t" for t
    using frame_walks(1) [OF assms(1,2) cw assms(4)] by (simp add: no_table_def)
  then show "image_wf (s', d)" using assms(3) cw' by (simp add: image_wf_def fr)
  show "user_mem s' d = user_mem s d"
  proof (rule ext)
    fix x :: usize
    have "kmem s' (t + (x AND 0xFFF)) = kmem s (t + (x AND 0xFFF))" if f: "frame_at s d (unat x div 4096) = Some t" for t
    proof -
      obtain b where "b \<in> set (page_allocations d)" "t = pa_ptr b"
        using image_wfD(2) [OF assms(3) f] by (auto simp: ptrs_def)
      then show ?thesis using i page_offset [of t x] by blast
    qed
    then show "user_mem s' d x = user_mem s d x"
      unfolding user_mem_frame [OF cw'] user_mem_frame [OF cw] fr by (cases "frame_at s d (unat x div 4096)") auto
  qed
qed

section \<open>A concrete copy\<close>

theorem copy_user_roundtrip_witness:
  "\<exists>p s c s'. alloc_page (UserAddress 0x400123) (fst mm1, snd mm1) = (Ok p, (s, c))
     \<and> copy_to_user (mc_ttbr c) [1, 2, 3] (UserAddress 0x400200) s = (Ok (), s')
     \<and> copy_from_user (mc_ttbr c) (UserAddress 0x400200) 3 s' = Ok [1, 2, 3]"
proof -
  obtain p s c where e: "alloc_page (UserAddress 0x400123) (fst mm1, snd mm1) = (Ok p, (s, c))"
    using mm1_maps by blast
  have w: "image_wf (fst mm1, snd mm1)" "user_mem (fst mm1) (snd mm1) = Map.empty"
    using image_wf_empty [OF mm1_ok(1)] mm1_empty by auto
  note a = alloc_page_image [OF w(1) mm1_ok(2) _ e]
  have m: "user_mem s c = spec_zero_page 0x400 Map.empty" and wf: "image_wf (s, c)" using a(1,2) w(2) by simp_all
  have "user_mem s c (0x400200 + of_nat i) \<noteq> None" if "i < 3" for i
  proof -
    have "i = 0 \<or> i = 1 \<or> i = 2" using that by linarith
    then show ?thesis by (elim disjE) (simp_all add: m spec_zero_page_def)
  qed
  then have "user_range s c 0x400200 (length [1, 2, 3 :: u8])" by (simp add: user_range_def)
  from copy_user_roundtrip [OF wf this] show ?thesis using e by auto
qed

end
