(* ===== verification/Log.thy ===== *)
theory Log
  imports Drivers Sync
begin

unbundle bit_operations_syntax

text \<open>
  The kernel log (\<^verbatim>\<open>log.rs\<close>): a write-once device and a write-once clock, and the two print functions. A format
  call is the list of the pieces that \<^verbatim>\<open>core::fmt\<close> hands to \<^verbatim>\<open>write_str\<close> one after the other; the numbers
  that the kernel prints are formatted here, as are byte strings that may not be UTF-8
  (\<^verbatim>\<open>String::from_utf8_lossy\<close>).
\<close>

section \<open>Formatting\<close>

type_synonym bytes = "u8 list"

definition ascii :: "string \<Rightarrow> bytes" where
  "ascii s = map (\<lambda>c. of_char c) s"

fun digits :: "nat \<Rightarrow> nat \<Rightarrow> nat list" where
  "digits b n = (if b < 2 \<or> n < b then [n] else digits b (n div b) @ [n mod b])"

declare digits.simps [simp del]

definition digit_char :: "nat \<Rightarrow> u8" where
  "digit_char d = of_nat (if d < 10 then 48 + d else 87 + d)"

text \<open>\<^verbatim>\<open>{}\<close>, \<^verbatim>\<open>{:w}\<close> (padded with spaces), \<^verbatim>\<open>{:0w}\<close> (padded with zeros) and \<^verbatim>\<open>{:#x}\<close>.\<close>

definition fmt_dec :: "nat \<Rightarrow> bytes" where
  "fmt_dec n = map digit_char (digits 10 n)"

definition fmt_pad :: "u8 \<Rightarrow> nat \<Rightarrow> nat \<Rightarrow> bytes" where
  "fmt_pad c w n = replicate (w - length (fmt_dec n)) c @ fmt_dec n"

definition fmt_hex :: "nat \<Rightarrow> bytes" where
  "fmt_hex n = ascii ''0x'' @ map digit_char (digits 16 n)"

section \<open>Lossy decoding of UTF-8\<close>

text \<open>
  The standard library walks over the bytes; an ill-formed sequence is replaced, up to the byte that makes it
  ill-formed, by the encoding of U+FFFD. A missing byte counts as zero, which continues nothing.
\<close>

definition REPLACEMENT :: bytes where
  "REPLACEMENT = [0xEF, 0xBF, 0xBD]"

definition continuation :: "u8 \<Rightarrow> bool" where
  "continuation b \<longleftrightarrow> 0x80 \<le> b \<and> b \<le> 0xBF"

fun utf8_width :: "u8 \<Rightarrow> nat" where
  "utf8_width b =
     (if b < 0x80 then 1
      else if 0xC2 \<le> b \<and> b \<le> 0xDF then 2
      else if 0xE0 \<le> b \<and> b \<le> 0xEF then 3
      else if 0xF0 \<le> b \<and> b \<le> 0xF4 then 4
      else 0)"

fun second_ok :: "u8 \<Rightarrow> u8 \<Rightarrow> bool" where
  "second_ok b c =
     (if b = 0xE0 then 0xA0 \<le> c \<and> c \<le> 0xBF
      else if b = 0xED then 0x80 \<le> c \<and> c \<le> 0x9F
      else if b = 0xF0 then 0x90 \<le> c \<and> c \<le> 0xBF
      else if b = 0xF4 then 0x80 \<le> c \<and> c \<le> 0x8F
      else continuation c)"

declare utf8_width.simps [simp del] second_ok.simps [simp del]

definition byte_at :: "bytes \<Rightarrow> nat \<Rightarrow> u8" where
  "byte_at bs i = (if i < length bs then bs ! i else 0)"

text \<open>How many bytes the next step takes, and whether they are a character.\<close>

definition utf8_next :: "bytes \<Rightarrow> bool \<times> nat" where
  "utf8_next bs =
     (let b = byte_at bs 0; w = utf8_width b in
      if w = 1 then (True, 1)
      else if w = 0 \<or> \<not> second_ok b (byte_at bs 1) then (False, 1)
      else if w = 2 then (True, 2)
      else if \<not> continuation (byte_at bs 2) then (False, 2)
      else if w = 3 then (True, 3)
      else if \<not> continuation (byte_at bs 3) then (False, 3)
      else (True, 4))"

lemma utf8_next_pos: "0 < snd (utf8_next bs)"
  by (simp add: utf8_next_def Let_def)

function from_utf8_lossy :: "bytes \<Rightarrow> bytes" where
  "from_utf8_lossy bs =
     (if bs = [] then []
      else case utf8_next bs of (valid, n) \<Rightarrow>
        (if valid then take n bs else REPLACEMENT) @ from_utf8_lossy (drop n bs))"
  by pat_completeness auto
termination
proof (relation "measure length", goal_cases)
  case (2 bs v n)
  have "0 < n" using utf8_next_pos [of bs] 2(2) by (metis snd_conv)
  with 2(1) show ?case by simp
qed simp

declare from_utf8_lossy.simps [simp del]

lemma from_utf8_lossy_Nil [simp]: "from_utf8_lossy [] = []"
  by (simp add: from_utf8_lossy.simps)

text \<open>Whether a byte string is well-formed UTF-8.\<close>

function utf8_valid :: "bytes \<Rightarrow> bool" where
  "utf8_valid bs = (if bs = [] then True else fst (utf8_next bs) \<and> utf8_valid (drop (snd (utf8_next bs)) bs))"
  by pat_completeness auto
termination
proof (relation "measure length", goal_cases)
  case (2 bs)
  then show ?case using utf8_next_pos [of bs] by (cases bs) simp_all
qed simp

declare utf8_valid.simps [simp del]

lemma utf8_valid_Nil [simp]: "utf8_valid []"
  by (simp add: utf8_valid.simps)

lemma in_range:
  "continuation (byte_at bs i) \<Longrightarrow> i < length bs" "second_ok b (byte_at bs i) \<Longrightarrow> i < length bs"
  by (simp_all add: byte_at_def continuation_def second_ok.simps split: if_splits)

lemma utf8_next_length:
  assumes "bs \<noteq> []" and "utf8_next bs = (True, n)"
  shows "n \<le> length bs"
proof (cases "utf8_width (byte_at bs 0) = 1")
  case True
  then show ?thesis using assms by (cases bs) (auto simp: utf8_next_def)
next
  case False
  then show ?thesis
    using assms(2) in_range(1) [of bs 2] in_range(1) [of bs 3] in_range(2) [of "byte_at bs 0" bs 1]
    unfolding utf8_next_def Let_def by (auto split: if_splits)
qed

text \<open>A character is recognised by its own bytes.\<close>

lemma utf8_next_append:
  assumes "bs \<noteq> []" and "utf8_next bs = (True, n)"
  shows "utf8_next (take n bs @ cs) = (True, n)"
proof -
  have n: "n \<le> length bs" "0 < n" using utf8_next_length [OF assms] utf8_next_pos [of bs] assms(2) by auto
  have at: "byte_at (take n bs @ cs) i = byte_at bs i" if "i < n" for i
    using that n(1) by (simp add: byte_at_def nth_append)
  show ?thesis
  proof (cases "utf8_width (byte_at bs 0) = 1")
    case True
    then show ?thesis using assms(2) at [OF n(2)] by (simp add: utf8_next_def)
  next
    case False
    then show ?thesis
      using assms(2) at [OF n(2)] at [of 1] at [of 2] at [of 3] unfolding utf8_next_def Let_def by (auto split: if_splits)
  qed
qed

lemma lossy_step:
  "bs \<noteq> [] \<Longrightarrow> from_utf8_lossy bs
     = (if fst (utf8_next bs) then take (snd (utf8_next bs)) bs else REPLACEMENT) @ from_utf8_lossy (drop (snd (utf8_next bs)) bs)"
  by (subst from_utf8_lossy.simps) (simp add: split_beta)

text \<open>What is printed is always well-formed, and well-formed text is printed as it is.\<close>

lemma lossy_valid: "utf8_valid (from_utf8_lossy bs)"
proof (induction bs rule: from_utf8_lossy.induct)
  case (1 bs)
  show ?case
  proof (cases "bs = []")
    case False
    let ?n = "snd (utf8_next bs)" and ?cs = "from_utf8_lossy (drop (snd (utf8_next bs)) bs)"
    have ih: "utf8_valid ?cs" using 1 [OF False, of "fst (utf8_next bs)" "snd (utf8_next bs)"] by simp
    show ?thesis
    proof (cases "fst (utf8_next bs)")
      case True
      then have u: "utf8_next bs = (True, ?n)" by (metis prod.collapse)
      then have n: "0 < ?n" "?n \<le> length bs" using utf8_next_pos [of bs] utf8_next_length [OF False u] by auto
      have "utf8_next (take ?n bs @ ?cs) = (True, ?n)" by (rule utf8_next_append [OF False u])
      then show ?thesis using ih True False n by (subst utf8_valid.simps) (simp add: lossy_step)
    next
      case bad: False
      have "utf8_next (REPLACEMENT @ ?cs) = (True, 3)"
        by (simp add: utf8_next_def REPLACEMENT_def byte_at_def utf8_width.simps second_ok.simps continuation_def)
      then show ?thesis using ih bad False by (subst utf8_valid.simps) (simp add: lossy_step REPLACEMENT_def)
    qed
  qed simp
qed

lemma lossy_id: "utf8_valid bs \<Longrightarrow> from_utf8_lossy bs = bs"
proof (induction bs rule: utf8_valid.induct)
  case (1 bs)
  show ?case
  proof (cases "bs = []")
    case False
    then have "fst (utf8_next bs)" "utf8_valid (drop (snd (utf8_next bs)) bs)"
      using 1(2) by (subst (asm) utf8_valid.simps, simp)+
    then show ?thesis using 1(1) [OF False] False by (simp add: lossy_step)
  qed simp
qed

lemma ascii_valid: "\<forall>b \<in> set bs. b < 0x80 \<Longrightarrow> utf8_valid bs"
proof (induction bs)
  case (Cons b bs)
  then have "utf8_next (b # bs) = (True, 1)" by (simp add: utf8_next_def byte_at_def utf8_width.simps)
  then show ?case using Cons by (subst utf8_valid.simps) simp
qed simp

section \<open>The log\<close>

text \<open>
  \<open>'d\<close> is the state of the devices, \<open>'c\<close> that of the clock; a clock is its method \<^verbatim>\<open>monotonic\<close>.
\<close>

record ('d, 'c) logger =
  log_device :: "'d char_device once_lock"
  log_monotonic :: "('c \<Rightarrow> duration res) once_lock"

definition logger_new :: "('d, 'c) logger" where
  "logger_new = \<lparr>log_device = once_lock_new, log_monotonic = once_lock_new\<rparr>"

fun map_err_unit :: "(unit, 'e) outcome \<Rightarrow> unit res" where
  "map_err_unit (Ok u) = Ok u"
| "map_err_unit (Err e) = Err ()"
| "map_err_unit Panic = Panic"
| "map_err_unit Hang = Hang"

definition set_character_device :: "'d char_device \<Rightarrow> ('d, 'c) logger \<Rightarrow> unit res \<times> ('d, 'c) logger" where
  "set_character_device dev g =
     (case once_lock_set dev (log_device g) of (r, l) \<Rightarrow> (map_err_unit r, g\<lparr>log_device := l\<rparr>))"

definition set_monotonic :: "('c \<Rightarrow> duration res) \<Rightarrow> ('d, 'c) logger \<Rightarrow> unit res \<times> ('d, 'c) logger" where
  "set_monotonic meter g =
     (case once_lock_set meter (log_monotonic g) of (r, l) \<Rightarrow> (map_err_unit r, g\<lparr>log_monotonic := l\<rparr>))"

text \<open>\<^verbatim>\<open>Writer::write_str\<close>: an error of the device is dropped, a panic is not.\<close>

definition write_str :: "('d, 'c) logger \<Rightarrow> bytes \<Rightarrow> 'd \<Rightarrow> unit res \<times> 'd" where
  "write_str g s d =
     (case once_lock_get (log_device g) of
        Ok (Some dev) \<Rightarrow> (case cd_write dev s d of (Panic, d') \<Rightarrow> (Panic, d') | (Hang, d') \<Rightarrow> (Hang, d') | (_, d') \<Rightarrow> (Ok (), d'))
      | Ok None \<Rightarrow> (Ok (), d)
      | Hang \<Rightarrow> (Hang, d)
      | _ \<Rightarrow> (Panic, d))"

fun print_pieces :: "('d, 'c) logger \<Rightarrow> bytes list \<Rightarrow> 'd \<Rightarrow> unit res \<times> 'd" where
  "print_pieces g [] d = (Ok (), d)"
| "print_pieces g (s # ss) d = and_then (write_str g s d) (\<lambda>_ d. print_pieces g ss d)"

text \<open>A duration in nanoseconds, as seconds and milliseconds.\<close>

definition timestamp :: "duration \<Rightarrow> bytes list" where
  "timestamp uptime = [ascii ''['', fmt_pad 32 5 (uptime div 10 ^ 9), ascii ''.'',
     fmt_pad 48 3 (uptime mod 10 ^ 9 div 10 ^ 6), ascii ''] '']"

definition println_pieces :: "('d, 'c) logger \<Rightarrow> 'c \<Rightarrow> bytes list \<Rightarrow> 'd \<Rightarrow> unit res \<times> 'd" where
  "println_pieces g clock ss d =
     and_then (case once_lock_get (log_monotonic g) of
          Ok (Some meter) \<Rightarrow> and_then (meter clock, d) (\<lambda>uptime d. print_pieces g (timestamp uptime) d)
        | Ok None \<Rightarrow> (Ok (), d)
        | Hang \<Rightarrow> (Hang, d)
        | _ \<Rightarrow> (Panic, d))
     (\<lambda>_ d. print_pieces g ss d)"

section \<open>What is printed\<close>

text \<open>A log on the serial port, with a clock on the timer of the core.\<close>

definition serial_log :: "(uart, timer_hw) logger" where
  "serial_log = \<lparr>log_device = \<lparr>ol_once = \<lparr>completed = True\<rparr>, ol_data = Some serial_device\<rparr>,
     log_monotonic = \<lparr>ol_once = \<lparr>completed = True\<rparr>, ol_data = Some monotonic\<rparr>\<rparr>"

lemma serial_log_set:
  "set_character_device serial_device logger_new = (Ok (), logger_new\<lparr>log_device := log_device serial_log\<rparr>)"
  "set_monotonic monotonic (logger_new\<lparr>log_device := log_device serial_log\<rparr>) = (Ok (), serial_log)"
  by (simp_all add: set_character_device_def set_monotonic_def logger_new_def serial_log_def once_lock_set_def get_or_init_def
    call_once_def once_lock_new_def once_new_def)

lemma serial_log_get [simp]:
  "once_lock_get (log_device serial_log) = Ok (Some serial_device)" "once_lock_get (log_monotonic serial_log) = Ok (Some monotonic)"
  by (simp_all add: serial_log_def once_lock_get_def is_completed_def)

lemma uart_ready_update [simp]: "uart_ready (u\<lparr>lsr_reads := j, tx := t\<rparr>) \<longleftrightarrow> uart_ready u"
  by (simp add: uart_ready_def tx_fair_def)

lemma write_str_serial:
  assumes "uart_ready u"
  shows "\<exists>j. write_str serial_log s u = (Ok (), u\<lparr>lsr_reads := j, tx := tx u @ s\<rparr>)"
proof -
  obtain j where "write_loop s u = (Ok (), u\<lparr>lsr_reads := j, tx := tx u @ s\<rparr>)" using write_loop_fair [OF assms] by blast
  then show ?thesis
    by (auto simp: write_str_def serial_device_def serial_write_def)
qed

lemma print_serial:
  assumes "uart_ready u"
  shows "\<exists>j. print_pieces serial_log ss u = (Ok (), u\<lparr>lsr_reads := j, tx := tx u @ concat ss\<rparr>)"
  using assms
proof (induction ss arbitrary: u)
  case Nil
  show ?case by (rule exI [of _ "lsr_reads u"]) simp
next
  case (Cons s ss)
  obtain i where i: "write_str serial_log s u = (Ok (), u\<lparr>lsr_reads := i, tx := tx u @ s\<rparr>)" using write_str_serial [OF Cons.prems] by blast
  let ?u = "u\<lparr>lsr_reads := i, tx := tx u @ s\<rparr>"
  obtain j where "print_pieces serial_log ss ?u = (Ok (), ?u\<lparr>lsr_reads := j, tx := tx ?u @ concat ss\<rparr>)"
    using Cons.IH [of ?u] Cons.prems by auto
  then show ?case using i by auto
qed

lemma println_serial:
  assumes "uart_ready u" and "monotonic h = Ok t"
  shows "\<exists>j. println_pieces serial_log h ss u = (Ok (), u\<lparr>lsr_reads := j, tx := tx u @ concat (timestamp t) @ concat ss\<rparr>)"
proof -
  obtain i where i: "print_pieces serial_log (timestamp t) u = (Ok (), u\<lparr>lsr_reads := i, tx := tx u @ concat (timestamp t)\<rparr>)"
    using print_serial [OF assms(1)] by blast
  let ?u = "u\<lparr>lsr_reads := i, tx := tx u @ concat (timestamp t)\<rparr>"
  obtain j where "print_pieces serial_log ss ?u = (Ok (), ?u\<lparr>lsr_reads := j, tx := tx ?u @ concat ss\<rparr>)"
    using print_serial [of ?u] assms(1) by auto
  then show ?thesis using i assms(2) by (auto simp: println_pieces_def)
qed

end
