(* ===== verification/Heap.thy ===== *)
theory Heap
  imports Linear_Allocator
begin

unbundle bit_operations_syntax

text \<open>
  The global heap allocator of \<^verbatim>\<open>memory/heap.rs\<close>. The byte array \<^verbatim>\<open>heap\<close> is its starting address;
  \<^verbatim>\<open>N\<close> is the const parameter of \<^verbatim>\<open>Allocator<N>\<close>. The lock makes each call atomic. The null
  pointer is address 0.
\<close>

record layout =
  layout_size :: usize
  layout_align :: usize

record heap =
  heap_start :: usize
  heap_allocated :: usize

definition HEAP_N :: usize where
  [consts_defs]: "HEAP_N = 4 * 1024 * 1024"

definition heap_new :: "usize \<Rightarrow> heap" where
  "heap_new start = \<lparr>heap_start = start, heap_allocated = 0\<rparr>"

text \<open>\<^verbatim>\<open><*mut u8>::align_offset\<close>: the least number of bytes to the next multiple of the alignment.\<close>

definition align_offset :: "usize \<Rightarrow> usize \<Rightarrow> usize" where
  "align_offset p a = (- p) mod a"

definition heap_alloc :: "usize \<Rightarrow> layout \<Rightarrow> heap \<Rightarrow> usize \<times> heap" where
  "heap_alloc N l h =
     (let start = heap_start h;
          offset = align_offset (start + heap_allocated h) (layout_align l);
          allocated1 = heap_allocated h + offset;
          alloc_start = start + allocated1;
          allocated2 = allocated1 + layout_size l;
          h' = h\<lparr>heap_allocated := allocated2\<rparr>
      in if N < allocated2 then (0, h') else (alloc_start, h'))"

definition heap_dealloc :: "usize \<Rightarrow> layout \<Rightarrow> mem \<Rightarrow> mem" where
  "heap_dealloc ptr l m = fill_bytes m ptr 0 (unat (layout_size l))"

section \<open>Alignment\<close>

text \<open>What \<^verbatim>\<open>core::alloc::Layout\<close> guarantees of an alignment: it is a power of two.\<close>

definition layout_ok :: "layout \<Rightarrow> bool" where
  "layout_ok l \<longleftrightarrow> (\<exists>k < 64. unat (layout_align l) = 2 ^ k)"

lemma align_dvd:
  assumes "layout_ok l"
  shows "unat (layout_align l) dvd 2 ^ 64" and "0 < unat (layout_align l)"
proof -
  obtain k where k: "k < 64" "unat (layout_align l) = 2 ^ k" using assms by (auto simp: layout_ok_def)
  then show "unat (layout_align l) dvd 2 ^ 64" using le_imp_power_dvd [of k 64 "2 :: nat"] by simp
  show "0 < unat (layout_align l)" using k by simp
qed

lemma align_offset_less: "layout_ok l \<Longrightarrow> unat (align_offset p (layout_align l)) < unat (layout_align l)"
  by (simp add: align_offset_def unat_mod_distrib align_dvd)

lemma align_offset_aligns:
  assumes "layout_ok l"
  shows "(unat p + unat (align_offset p (layout_align l))) mod unat (layout_align l) = 0"
proof -
  let ?a = "unat (layout_align l)"
  have "unat (- p) mod ?a = (2 ^ 64 - unat p) mod ?a"
  proof (cases "p = 0")
    case True
    then show ?thesis using align_dvd(1) [OF assms] by (simp add: dvd_eq_mod_eq_0)
  next
    case False
    then show ?thesis using unat_sub_if_size [of 0 p] by (simp add: word_size unat_eq_0)
  qed
  then have "(unat p + unat (align_offset p (layout_align l))) mod ?a = (unat p + (2 ^ 64 - unat p)) mod ?a"
    by (simp add: align_offset_def unat_mod_distrib mod_add_right_eq)
  also have "\<dots> = 2 ^ 64 mod ?a" using u64_lt [of p] by simp
  also have "\<dots> = 0" using align_dvd(1) [OF assms] by (simp add: dvd_eq_mod_eq_0)
  finally show ?thesis .
qed

section \<open>The contract of \<open>heap_alloc\<close>\<close>

text \<open>The call does not wrap the counter, and the heap array lies inside the address space.\<close>

definition heap_fits :: "usize \<Rightarrow> layout \<Rightarrow> heap \<Rightarrow> bool" where
  "heap_fits N l h \<longleftrightarrow> layout_ok l
     \<and> unat (heap_allocated h) + unat (layout_align l) + unat (layout_size l) < 2 ^ 64
     \<and> heap_start h \<noteq> 0 \<and> unat (heap_start h) + unat N < 2 ^ 64"

lemma heap_alloc_steps:
  assumes "heap_fits N l h"
  defines "offset \<equiv> align_offset (heap_start h + heap_allocated h) (layout_align l)"
  shows "unat (heap_allocated (snd (heap_alloc N l h)))
      = unat (heap_allocated h) + unat offset + unat (layout_size l)"
    and "fst (heap_alloc N l h)
      = (if unat N < unat (heap_allocated h) + unat offset + unat (layout_size l) then 0
         else heap_start h + (heap_allocated h + offset))"
    and "heap_start (snd (heap_alloc N l h)) = heap_start h"
proof -
  have o: "unat offset < unat (layout_align l)"
    using assms(1) align_offset_less by (simp add: offset_def heap_fits_def)
  then have 1: "unat (heap_allocated h + offset) = unat (heap_allocated h) + unat offset"
    using assms(1) by (subst unat_add_noof) (auto simp: heap_fits_def)
  then have 2: "unat (heap_allocated h + offset + layout_size l)
      = unat (heap_allocated h) + unat offset + unat (layout_size l)"
    using assms(1) o by (subst unat_add_noof) (auto simp: heap_fits_def)
  show "unat (heap_allocated (snd (heap_alloc N l h)))
      = unat (heap_allocated h) + unat offset + unat (layout_size l)"
    using 2 by (simp add: heap_alloc_def Let_def offset_def)
  show "fst (heap_alloc N l h)
      = (if unat N < unat (heap_allocated h) + unat offset + unat (layout_size l) then 0
         else heap_start h + (heap_allocated h + offset))"
    using 2 by (simp add: heap_alloc_def Let_def offset_def word_less_nat_alt)
  show "heap_start (snd (heap_alloc N l h)) = heap_start h"
    by (simp add: heap_alloc_def Let_def)
qed

text \<open>Where a block lies.\<close>

lemma heap_alloc_block:
  assumes "heap_fits N l h" and "heap_alloc N l h = (p, h')"
  shows "(p = 0 \<longleftrightarrow> unat N < unat (heap_allocated h')) \<and>
    (p \<noteq> 0 \<longrightarrow> unat p mod unat (layout_align l) = 0
      \<and> unat (heap_start h) + unat (heap_allocated h) \<le> unat p
      \<and> unat p + unat (layout_size l) = unat (heap_start h) + unat (heap_allocated h')
      \<and> unat p + unat (layout_size l) \<le> unat (heap_start h) + unat N
      \<and> unat p < unat (heap_start h) + unat (heap_allocated h) + unat (layout_align l))"
proof -
  define offset where "offset = align_offset (heap_start h + heap_allocated h) (layout_align l)"
  let ?new = "unat (heap_allocated h) + unat offset + unat (layout_size l)"
  have new: "unat (heap_allocated h') = ?new"
    and p: "p = (if unat N < ?new then 0 else heap_start h + (heap_allocated h + offset))"
    using heap_alloc_steps(1,2) [OF assms(1)] assms(2) by (simp_all add: offset_def)
  have o: "unat offset < unat (layout_align l)" and ok: "layout_ok l"
    using assms(1) align_offset_less by (simp_all add: offset_def heap_fits_def)
  show ?thesis
  proof (cases "unat N < ?new")
    case True
    then show ?thesis using new p by simp
  next
    case False
    have base: "unat (heap_start h + heap_allocated h) = unat (heap_start h) + unat (heap_allocated h)"
      using assms(1) False by (subst unat_add_noof) (auto simp: heap_fits_def)
    have up: "unat p = unat (heap_start h) + unat (heap_allocated h) + unat offset"
    proof -
      have "p = (heap_start h + heap_allocated h) + offset" using p False by (simp add: add.assoc)
      then show ?thesis
        using assms(1) False base by (simp add: unat_add_noof heap_fits_def)
    qed
    have "0 < unat (heap_start h)" using assms(1) by (simp add: heap_fits_def unat_gt_0)
    then have "p \<noteq> 0" using up by auto
    moreover have "unat p mod unat (layout_align l) = 0"
      using align_offset_aligns [OF ok, of "heap_start h + heap_allocated h"] up base
      by (simp add: offset_def)
    ultimately show ?thesis using up new False o by simp
  qed
qed

text \<open>
  What \<^verbatim>\<open>Layout\<close> guarantees: the alignment is a power of two, and the size rounded up to it is at most \<^verbatim>\<open>isize::MAX\<close>. The heap
  that the kernel has: an array of \<open>HEAP_N\<close> bytes in the address space, no more than all of it handed out.
\<close>

definition layout_valid :: "layout \<Rightarrow> bool" where
  "layout_valid l \<longleftrightarrow> layout_ok l
     \<and> (unat (layout_size l) + unat (layout_align l) - 1) div unat (layout_align l) * unat (layout_align l) < 2 ^ 63"

definition heap_sound :: "heap \<Rightarrow> bool" where
  "heap_sound h \<longleftrightarrow> heap_start h \<noteq> 0 \<and> unat (heap_start h) + unat HEAP_N < 2 ^ 64 \<and> unat (heap_allocated h) \<le> unat HEAP_N"

lemma heap_sound_fits:
  assumes "heap_sound h" and "layout_valid l"
  shows "heap_fits HEAP_N l h"
proof -
  let ?a = "unat (layout_align l)" and ?n = "unat (layout_size l)"
  obtain k where k: "k < 64" "?a = 2 ^ k" using assms(2) by (auto simp: layout_valid_def layout_ok_def)
  let ?r = "(?n + ?a - 1) div ?a * ?a"
  have r: "?r < 2 ^ 63" using assms(2) by (simp add: layout_valid_def)
  have up: "?n \<le> ?r"
  proof -
    have "?n + ?a - 1 < ?a + ?r" using dividend_less_div_times [of ?a "?n + ?a - 1"] k(2) by simp
    then show ?thesis using k(2) by linarith
  qed
  have "?a + ?n \<le> 2 ^ 62 + 2 ^ 63"
  proof (cases "?n = 0")
    case True
    have "(2 :: nat) ^ k \<le> 2 ^ 63" using k(1) by (intro power_increasing) simp_all
    then show ?thesis using True k(2) by simp
  next
    case False
    define q where "q = (?n + ?a - 1) div ?a"
    have "q \<noteq> 0"
    proof
      assume "q = 0"
      then show False using up False by (simp only: q_def mult_zero_left)
    qed
    then have "?a \<le> q * ?a" by simp
    then have "?a \<le> ?r" by (simp only: q_def)
    then have "?a < 2 ^ 63" using r by (rule le_less_trans)
    then have "(2 :: nat) ^ k < 2 ^ 63" by (simp only: k(2))
    then have "k < 63" by (rule power_less_imp_less_exp [rotated]) simp
    then have "k \<le> 62" by simp
    then have "(2 :: nat) ^ k \<le> 2 ^ 62" by (intro power_increasing) simp_all
    then show ?thesis using up r k(2) by simp
  qed
  moreover have "unat HEAP_N = 4194304" by (simp add: HEAP_N_def)
  ultimately show ?thesis using assms by (simp add: heap_fits_def heap_sound_def layout_valid_def)
qed

text \<open>
  C18. What the heap allocator returns, and when. For every valid layout, on a heap on which no request has been refused yet: let \<open>pad\<close> be the
  number of bytes, less than the alignment, from the end of the last block to the next multiple of the alignment. The counter advances by
  \<open>pad\<close> and the size. If it is then at most the size of the array, the result is the address \<open>pad\<close> bytes after the last block, which is aligned
  and not null, and the block ends inside the array; otherwise the result is the null pointer.
\<close>

theorem heap_alloc_spec:
  assumes "heap_sound h" and "layout_valid l" and "heap_alloc HEAP_N l h = (p, h')"
  shows "\<exists>pad < unat (layout_align l).
    (unat (heap_start h) + unat (heap_allocated h) + pad) mod unat (layout_align l) = 0
    \<and> heap_start h' = heap_start h
    \<and> unat (heap_allocated h') = unat (heap_allocated h) + pad + unat (layout_size l)
    \<and> (if unat (heap_allocated h) + pad + unat (layout_size l) \<le> unat HEAP_N
       then p \<noteq> 0 \<and> unat p = unat (heap_start h) + unat (heap_allocated h) + pad
         \<and> unat p + unat (layout_size l) \<le> unat (heap_start h) + unat HEAP_N
       else p = 0)"
proof -
  let ?pad = "unat (align_offset (heap_start h + heap_allocated h) (layout_align l))"
  note f = heap_sound_fits [OF assms(1,2)]
  have ok: "layout_ok l" using assms(2) by (simp add: layout_valid_def)
  have base: "unat (heap_start h + heap_allocated h) = unat (heap_start h) + unat (heap_allocated h)"
    using assms(1) by (subst unat_add_noof) (simp_all add: heap_sound_def)
  note st = heap_alloc_steps [OF f, unfolded assms(3) fst_conv snd_conv] and bl = heap_alloc_block [OF f assms(3)]
  have "(unat (heap_start h) + unat (heap_allocated h) + ?pad) mod unat (layout_align l) = 0"
    using align_offset_aligns [OF ok, of "heap_start h + heap_allocated h"] base by simp
  moreover have "?pad < unat (layout_align l)" by (rule align_offset_less [OF ok])
  ultimately show ?thesis using st bl by (intro exI [of _ ?pad]) auto
qed

theorem heap_alloc_spec_witness:
  "heap_alloc HEAP_N \<lparr>layout_size = 24, layout_align = 16\<rparr> \<lparr>heap_start = 0xFFFF000000100008, heap_allocated = 3\<rparr>
     = (0xFFFF000000100010, \<lparr>heap_start = 0xFFFF000000100008, heap_allocated = 32\<rparr>)
   \<and> (\<exists>pad < 16. unat (0xFFFF000000100010 :: usize) = unat (0xFFFF000000100008 :: usize) + 3 + pad \<and> 32 = 3 + pad + 24)"
proof -
  let ?l = "\<lparr>layout_size = 24, layout_align = 16\<rparr>"
  let ?h = "\<lparr>heap_start = 0xFFFF000000100008, heap_allocated = 3\<rparr>"
  have "unat (layout_align ?l) = 2 ^ 4" by simp
  then have "layout_ok ?l" unfolding layout_ok_def by (intro exI [of _ 4]) simp
  then have v: "layout_valid ?l" by (simp add: layout_valid_def)
  have h: "heap_sound ?h" by (simp add: heap_sound_def HEAP_N_def)
  have e: "heap_alloc HEAP_N ?l ?h = (0xFFFF000000100010, \<lparr>heap_start = 0xFFFF000000100008, heap_allocated = 32\<rparr>)"
    by (simp add: heap_alloc_def align_offset_def HEAP_N_def)
  show ?thesis using heap_alloc_spec [OF h v e] e by (auto simp: HEAP_N_def)
qed

section \<open>Runs of allocations\<close>

definition heap_alloc_opt :: "usize \<Rightarrow> layout \<Rightarrow> heap \<Rightarrow> usize option \<times> heap" where
  "heap_alloc_opt N l h = (case heap_alloc N l h of (p, h') \<Rightarrow> (if p = 0 then None else Some p, h'))"

interpretation heap_blocks: linear_allocator "heap_alloc_opt N" "heap_fits N"
  "\<lambda>h. unat (heap_start h) + unat (heap_allocated h)" "\<lambda>l p. unat p" "\<lambda>l p. unat p + unat (layout_size l)"
proof unfold_locales
  fix l h assume "heap_fits N l h"
  from heap_alloc_steps(1,3) [OF this]
  show "unat (heap_start h) + unat (heap_allocated h)
      \<le> unat (heap_start (snd (heap_alloc_opt N l h))) + unat (heap_allocated (snd (heap_alloc_opt N l h)))"
    by (simp add: heap_alloc_opt_def case_prod_unfold)
next
  fix l h p h' assume f: "heap_fits N l h" and a: "heap_alloc_opt N l h = (Some p, h')"
  then have e: "heap_alloc N l h = (p, h')" and "p \<noteq> 0"
    by (auto simp: heap_alloc_opt_def split: prod.splits if_splits)
  then show "unat (heap_start h) + unat (heap_allocated h) \<le> unat p
      \<and> unat p + unat (layout_size l) \<le> unat (heap_start h') + unat (heap_allocated h')"
    using heap_alloc_block [OF f e] heap_alloc_steps(3) [OF f] by simp
qed

text \<open>
  A run of requests of the kernel: its code does not survive a null pointer (\<^verbatim>\<open>alloc::alloc::handle_alloc_error\<close> aborts), so the run ends at
  the first refused request. The blocks handed out, oldest first.
\<close>

fun heap_run :: "layout list \<Rightarrow> heap \<Rightarrow> (layout \<times> usize) list" where
  "heap_run [] h = []"
| "heap_run (l # ls) h = (case heap_alloc HEAP_N l h of (p, h') \<Rightarrow> if p = 0 then [] else (l, p) # heap_run ls h')"

lemma heap_run_prefix:
  assumes "heap_sound h" and "\<forall>l \<in> set ls. layout_valid l"
  shows "\<exists>k. heap_blocks.run_fits HEAP_N (take k ls) h \<and> fst (heap_blocks.run_allocs HEAP_N (take k ls) h) = heap_run ls h
    \<and> (\<forall>(l, p) \<in> set (heap_run ls h). unat (heap_start h) \<le> unat p \<and> unat p + unat (layout_size l) \<le> unat (heap_start h) + unat HEAP_N)"
  using assms
proof (induction ls arbitrary: h)
  case (Cons l ls)
  obtain p h' where a: "heap_alloc HEAP_N l h = (p, h')" by (cases "heap_alloc HEAP_N l h") auto
  note f = heap_sound_fits [OF Cons.prems(1), of l] and st = heap_alloc_steps(3) [of HEAP_N l h]
  have fits: "heap_fits HEAP_N l h" using f Cons.prems(2) by simp
  show ?case
  proof (cases "p = 0")
    case True
    then show ?thesis using a by (intro exI [of _ 0]) simp
  next
    case False
    note bl = heap_alloc_block [OF fits a]
    have start: "heap_start h' = heap_start h" using st [OF fits] a by simp
    have "heap_sound h'" using Cons.prems(1) bl False start by (simp add: heap_sound_def)
    note IH = Cons.IH [OF this]
    have "\<forall>l \<in> set ls. layout_valid l" using Cons.prems(2) by simp
    then obtain k where k: "heap_blocks.run_fits HEAP_N (take k ls) h'"
        "fst (heap_blocks.run_allocs HEAP_N (take k ls) h') = heap_run ls h'"
        "\<forall>(l, p) \<in> set (heap_run ls h'). unat (heap_start h') \<le> unat p \<and> unat p + unat (layout_size l) \<le> unat (heap_start h') + unat HEAP_N"
      using IH by blast
    have opt: "heap_alloc_opt HEAP_N l h = (Some p, h')" using a False by (simp add: heap_alloc_opt_def)
    show ?thesis
    proof (intro exI conjI)
      show "heap_blocks.run_fits HEAP_N (take (Suc k) (l # ls)) h" using fits k(1) opt by simp
      show "fst (heap_blocks.run_allocs HEAP_N (take (Suc k) (l # ls)) h) = heap_run (l # ls) h"
        using k(2) opt a False by (simp add: case_prod_unfold)
      show "\<forall>(l, p) \<in> set (heap_run (l # ls) h). unat (heap_start h) \<le> unat p \<and> unat p + unat (layout_size l) \<le> unat (heap_start h) + unat HEAP_N"
        using k(3) a False bl start by auto
    qed
  qed
qed (intro exI [of _ 0], simp)

text \<open>
  C29. Heap blocks never overlap. Whatever valid layouts are asked for, one after the other, up to the first request that is refused, where
  the kernel aborts: the blocks handed out lie inside the heap array, in increasing address order, and each ends before the next starts.
\<close>

theorem heap_blocks_disjoint:
  assumes "heap_sound h" and "\<forall>l \<in> set ls. layout_valid l"
  shows "sorted_wrt (\<lambda>(l, p) (l', p'). unat p + unat (layout_size l) \<le> unat p') (heap_run ls h)
    \<and> (\<forall>(l, p) \<in> set (heap_run ls h). unat (heap_start h) \<le> unat p \<and> unat p + unat (layout_size l) \<le> unat (heap_start h) + unat HEAP_N)"
proof -
  obtain k where k: "heap_blocks.run_fits HEAP_N (take k ls) h" "fst (heap_blocks.run_allocs HEAP_N (take k ls) h) = heap_run ls h"
      "\<forall>(l, p) \<in> set (heap_run ls h). unat (heap_start h) \<le> unat p \<and> unat p + unat (layout_size l) \<le> unat (heap_start h) + unat HEAP_N"
    using heap_run_prefix [OF assms] by blast
  then show ?thesis using heap_blocks.run_allocs_ordered [OF k(1) surjective_pairing] by simp
qed

theorem heap_blocks_disjoint_witness:
  "\<exists>p q. heap_run [\<lparr>layout_size = 5, layout_align = 1\<rparr>, \<lparr>layout_size = 24, layout_align = 8\<rparr>, \<lparr>layout_size = 0x400000, layout_align = 1\<rparr>]
       (heap_new 0xFFFF000000100000) = [(\<lparr>layout_size = 5, layout_align = 1\<rparr>, p), (\<lparr>layout_size = 24, layout_align = 8\<rparr>, q)]
     \<and> unat p + 5 \<le> unat q"
proof -
  let ?ls = "[\<lparr>layout_size = 5, layout_align = 1\<rparr>, \<lparr>layout_size = 24, layout_align = 8\<rparr>, \<lparr>layout_size = 0x400000, layout_align = 1\<rparr>]"
    and ?h = "heap_new 0xFFFF000000100000"
  have "layout_ok \<lparr>layout_size = n, layout_align = 1\<rparr>" for n unfolding layout_ok_def by (intro exI [of _ 0]) simp
  moreover have "layout_ok \<lparr>layout_size = 24, layout_align = 8\<rparr>" unfolding layout_ok_def by (intro exI [of _ 3]) simp
  ultimately have v: "\<forall>l \<in> set ?ls. layout_valid l" by (simp add: layout_valid_def)
  have h: "heap_sound ?h" by (simp add: heap_sound_def heap_new_def HEAP_N_def)
  have "heap_run ?ls ?h = [(\<lparr>layout_size = 5, layout_align = 1\<rparr>, 0xFFFF000000100000), (\<lparr>layout_size = 24, layout_align = 8\<rparr>, 0xFFFF000000100008)]"
    by (simp add: heap_new_def HEAP_N_def heap_alloc_def align_offset_def)
  then show ?thesis using heap_blocks_disjoint [OF h v] by simp
qed

text \<open>
  A refused request still moves the counter, so code that went on after a null pointer could wrap it: after one block
  of 64 bytes and two failing-sized requests (each within what \<^verbatim>\<open>Layout\<close> allows), the second
  of those is answered with a pointer outside the heap, and the next request is answered with
  a block inside the first one.
\<close>

lemma heap_counter_wraps:
  "\<exists>h1 h2 h3 h4 p.
     heap_alloc HEAP_N \<lparr>layout_size = 64, layout_align = 8\<rparr> (heap_new 0xFFFF000000100000)
        = (0xFFFF000000100000, h1)
   \<and> heap_alloc HEAP_N \<lparr>layout_size = 0x7FFFFFFFFFFFFFF8, layout_align = 8\<rparr> h1 = (0, h2)
   \<and> heap_alloc HEAP_N \<lparr>layout_size = 0x7FFFFFFFFFFFFFF8, layout_align = 8\<rparr> h2 = (p, h3) \<and> p \<noteq> 0
   \<and> heap_alloc HEAP_N \<lparr>layout_size = 8, layout_align = 8\<rparr> h3 = (0xFFFF000000100030, h4)"
  by (simp add: heap_alloc_def heap_new_def align_offset_def HEAP_N_def)

end
