(* ===== verification/Machine.thy ===== *)
theory Machine
  imports Task_Creation User_Memory Log Heap
begin

text \<open>
  The state that the entry points of the kernel work on: the kernel proper with its one core, the devices, the heap, and the
  statics \<^verbatim>\<open>DEVICE\<close> and \<^verbatim>\<open>MONOTONIC\<close> of \<^verbatim>\<open>log.rs\<close> and \<^verbatim>\<open>SCHEDULER\<close> of \<^verbatim>\<open>task/scheduler.rs\<close>. The scheduler that
  \<^verbatim>\<open>SCHEDULER\<close> refers to is the one of the kernel, so the cell says only whether it is set.
\<close>

record machine =
  m_kernel :: kernel
  m_uart :: uart
  m_intc :: intc_hw
  m_log :: "(uart, timer_hw) logger"
  m_scheduler :: "unit once_lock"
  m_heap :: heap

definition on_kernel :: "(kernel \<Rightarrow> 'a res \<times> kernel) \<Rightarrow> machine \<Rightarrow> 'a res \<times> machine" where
  "on_kernel f m = (case f (m_kernel m) of (r, k) \<Rightarrow> (r, m\<lparr>m_kernel := k\<rparr>))"

definition print :: "bytes list \<Rightarrow> machine \<Rightarrow> unit res \<times> machine" where
  "print ss m = (case print_pieces (m_log m) ss (m_uart m) of (r, u) \<Rightarrow> (r, m\<lparr>m_uart := u\<rparr>))"

text \<open>\<^verbatim>\<open>println!\<close> adds a newline to the pieces.\<close>

definition println :: "bytes list \<Rightarrow> machine \<Rightarrow> unit res \<times> machine" where
  "println ss m =
     (case println_pieces (m_log m) (timer (k_core (m_kernel m))) (ss @ [ascii [CHR 0x0A]]) (m_uart m) of (r, u) \<Rightarrow> (r, m\<lparr>m_uart := u\<rparr>))"

definition set_scheduler :: "machine \<Rightarrow> unit res \<times> machine" where
  "set_scheduler m = (case once_lock_set () (m_scheduler m) of (r, l) \<Rightarrow> (map_err_unit r, m\<lparr>m_scheduler := l\<rparr>))"

definition the_current_task :: "machine \<Rightarrow> task res \<times> machine" where
  "the_current_task m =
     and_then (bind_res (once_lock_get (m_scheduler m)) unwrap_opt, m) (\<lambda>_ m. on_kernel (on_sched current_task) m)"

text \<open>
  \<^verbatim>\<open>vec![0; count]\<close> of bytes: no allocation for none, a panic when the size is not a valid layout or when the heap returns
  the null pointer.
\<close>

definition vec_zeroed :: "usize \<Rightarrow> machine \<Rightarrow> u8 list res \<times> machine" where
  "vec_zeroed len m =
     (if 2 ^ 63 \<le> unat len then (Panic, m)
      else if len = 0 then (Ok [], m)
      else case heap_alloc HEAP_N \<lparr>layout_size = len, layout_align = 1\<rparr> (m_heap m) of (p, h) \<Rightarrow>
        (if p = 0 then Panic else Ok (replicate (unat len) 0), m\<lparr>m_heap := h\<rparr>))"

section \<open>A running machine\<close>

text \<open>The kernel is in a consistent state with task \<open>x\<close> on its core, and the log goes to a port that keeps sending.\<close>

definition runs_task :: "machine \<Rightarrow> task \<Rightarrow> bool" where
  "runs_task m x \<longleftrightarrow> kernel_wf (m_kernel m)
     \<and> current_tasks (k_sched (m_kernel m)) = [Some (tid x)] \<and> tasks (k_sched (m_kernel m)) (tid x) = Some x
     \<and> once_lock_get (m_scheduler m) = Ok (Some ())
     \<and> m_log m = serial_log \<and> uart_ready (m_uart m)"

text \<open>The output of the machine.\<close>

abbreviation sent :: "machine \<Rightarrow> bytes" where
  "sent m \<equiv> tx (m_uart m)"

text \<open>Two states that differ in the log only.\<close>

definition printed :: "bytes \<Rightarrow> machine \<Rightarrow> machine \<Rightarrow> bool" where
  "printed bs m m' \<longleftrightarrow> (\<exists>j. m' = m\<lparr>m_uart := (m_uart m)\<lparr>lsr_reads := j, tx := tx (m_uart m) @ bs\<rparr>\<rparr>)"

lemma printedD:
  assumes "printed bs m m'"
  shows "m_kernel m' = m_kernel m" "sent m' = sent m @ bs" "m_intc m' = m_intc m" "m_log m' = m_log m"
    "m_scheduler m' = m_scheduler m" "m_heap m' = m_heap m" "uart_ready (m_uart m') \<longleftrightarrow> uart_ready (m_uart m)"
  using assms by (auto simp: printed_def)

lemma printed_runs: "printed bs m m' \<Longrightarrow> runs_task m' x \<longleftrightarrow> runs_task m x"
  by (auto simp: runs_task_def printedD)

lemma print_printed:
  assumes "m_log m = serial_log" and "uart_ready (m_uart m)"
  shows "\<exists>m'. print ss m = (Ok (), m') \<and> printed (concat ss) m m'"
  using print_serial [OF assms(2), of ss] assms(1) by (auto simp: print_def printed_def)

lemma println_printed:
  assumes "m_log m = serial_log" and "uart_ready (m_uart m)" and "monotonic (timer (k_core (m_kernel m))) = Ok t"
  shows "\<exists>m'. println ss m = (Ok (), m') \<and> printed (concat (timestamp t) @ concat ss @ ascii [CHR 0x0A]) m m'"
  using println_serial [OF assms(2,3), of "ss @ [ascii [CHR 0x0A]]"] assms(1) by (auto simp: println_def printed_def)

lemma current_task_runs:
  assumes "sched_wf s" and "occupies s (unat (current_core c)) t" and "tasks s t = Some x"
  shows "current_task (c, s) = (Ok x, (c, s))"
proof -
  have l: "\<not> sched_lock s" using assms(1) by (simp add: sched_wf_def)
  have i: "bind_res (index_vec (current_tasks s) (current_core c)) unwrap_opt = Ok t"
    using assms(2) by (simp add: index_vec_def occupies_def)
  have "c\<lparr>daif := daif c\<rparr> = c" by simp
  then show ?thesis
    using l i assms(3)
    by (simp add: current_task_def current_task_id_def task_lookup_def critical_def disable_interrupts_def restore_interrupts_def
      lock_call_def take_lock_def release_lock_def lock_loop_def compare_exchange_def unlock_def current_core_def)
qed

lemma the_current_task_runs:
  assumes "runs_task m x"
  shows "the_current_task m = (Ok x, m)"
proof -
  let ?k = "m_kernel m"
  have w: "smp_wf \<lparr>cores = [k_core ?k], smp_sched = k_sched ?k\<rparr>" and t: "tasks (k_sched ?k) (tid x) = Some x"
    and cur: "current_tasks (k_sched ?k) = [Some (tid x)]" using assms by (simp_all add: runs_task_def kernel_wf_def)
  have "unat (current_core (k_core ?k)) = 0" using w by (auto simp: smp_wf_def)
  then have "occupies (k_sched ?k) (unat (current_core (k_core ?k))) (tid x)" using cur by (simp add: occupies_def)
  then have "current_task (k_core ?k, k_sched ?k) = (Ok x, (k_core ?k, k_sched ?k))"
    using w t by (intro current_task_runs) (simp_all add: smp_wf_def)
  then show ?thesis using assms by (simp add: the_current_task_def on_kernel_def on_sched_def runs_task_def)
qed

text \<open>The core translates with the tables of the running task.\<close>

lemma runs_task_space:
  assumes "runs_task m x"
  shows "ttbr0_el1 (k_core (m_kernel m)) = mc_ttbr (mem_context x)" "ctx_wf (k_mm (m_kernel m), mem_context x)"
proof -
  let ?k = "m_kernel m"
  have w: "smp_wf \<lparr>cores = [k_core ?k], smp_sched = k_sched ?k\<rparr>" and t: "tasks (k_sched ?k) (tid x) = Some x"
    and cur: "current_tasks (k_sched ?k) = [Some (tid x)]" and sp: "spaces_wf (k_mm ?k) (tasks (k_sched ?k))"
    using assms by (simp_all add: runs_task_def kernel_wf_def)
  show "ctx_wf (k_mm ?k, mem_context x)" using sp t by (auto simp: spaces_wf_def)
  have "occupies (k_sched ?k) 0 (tid x)" using cur by (simp add: occupies_def)
  then show "ttbr0_el1 (k_core ?k) = mc_ttbr (mem_context x)"
    using w t unfolding smp_wf_def smp.simps by (metis nth_Cons_0)
qed

section \<open>Memory of the tasks\<close>

text \<open>What a task sees at each address of the lower half.\<close>

definition task_mem :: "kernel \<Rightarrow> task_id \<Rightarrow> usize \<Rightarrow> u8 option" where
  "task_mem k t = (case tasks (k_sched k) t of Some x \<Rightarrow> user_mem (k_mm k) (mem_context x) | None \<Rightarrow> Map.empty)"

definition images_wf :: "kernel \<Rightarrow> bool" where
  "images_wf k \<longleftrightarrow> (\<forall>t x. tasks (k_sched k) t = Some x \<longrightarrow> image_wf (k_mm k, mem_context x))"

text \<open>A change of the memory of one task does not reach the others.\<close>

lemma frame_tasks:
  assumes "kernel_wf k" and "images_wf k" and "tasks (k_sched k) t = Some x" and "mc_frame (k_mm k, mem_context x) (s', c')" and "ctx_wf (s', c')"
    and "tasks (k_sched k) u = Some y" "u \<noteq> t"
  shows "image_wf (s', mem_context y)" and "user_mem s' (mem_context y) = user_mem (k_mm k) (mem_context y)"
proof -
  have "ptrs (mem_context x) \<inter> ptrs (mem_context y) = {}" using assms(1,3,6,7) by (auto simp: kernel_wf_def spaces_wf_def)
  moreover have "image_wf (k_mm k, mem_context y)" using assms(2,6) by (simp add: images_wf_def)
  ultimately show "image_wf (s', mem_context y)" "user_mem s' (mem_context y) = user_mem (k_mm k) (mem_context y)"
    using frame_image [OF assms(4,5)] by blast+
qed

text \<open>The heap has \<open>n\<close> bytes left; the array does not start at address zero and ends below the top of memory.\<close>

definition heap_left :: "nat \<Rightarrow> heap \<Rightarrow> bool" where
  "heap_left n h \<longleftrightarrow> heap_start h \<noteq> 0 \<and> unat (heap_start h) + unat HEAP_N < 2 ^ 64 \<and> unat (heap_allocated h) + n \<le> unat HEAP_N"

lemma vec_zeroed_cases:
  assumes "heap_start (m_heap m) \<noteq> 0" and "unat (heap_start (m_heap m)) + unat HEAP_N < 2 ^ 64"
    and "unat (heap_allocated (m_heap m)) \<le> unat HEAP_N"
  shows "heap_left (unat len) (m_heap m) \<Longrightarrow>
      vec_zeroed len m = (Ok (replicate (unat len) 0), m\<lparr>m_heap := (m_heap m)\<lparr>heap_allocated := heap_allocated (m_heap m) + len\<rparr>\<rparr>)"
    and "\<not> heap_left (unat len) (m_heap m) \<Longrightarrow> fst (vec_zeroed len m) = Panic"
proof -
  let ?h = "m_heap m"
  have N: "unat HEAP_N = 4194304" by (simp add: HEAP_N_def)
  have a: "align_offset p 1 = 0" for p by (simp add: align_offset_def)
  have sum: "unat (heap_allocated ?h + len) = unat (heap_allocated ?h) + unat len" if "unat len < 2 ^ 63"
    using that assms(3) N by (simp add: unat_add_noof)
  have ne: "heap_start ?h + heap_allocated ?h \<noteq> 0"
  proof
    assume "heap_start ?h + heap_allocated ?h = 0"
    moreover have "unat (heap_start ?h + heap_allocated ?h) = unat (heap_start ?h) + unat (heap_allocated ?h)"
      using assms(2,3) by (simp add: unat_add_noof)
    ultimately show False using assms(1) by (simp add: unat_eq_0)
  qed
  show "vec_zeroed len m = (Ok (replicate (unat len) 0), m\<lparr>m_heap := ?h\<lparr>heap_allocated := heap_allocated ?h + len\<rparr>\<rparr>)"
    if "heap_left (unat len) ?h"
    using that ne N sum by (auto simp: vec_zeroed_def heap_left_def heap_alloc_def a word_less_nat_alt Let_def)
  show "fst (vec_zeroed len m) = Panic" if "\<not> heap_left (unat len) ?h"
    using that assms sum N by (auto simp: vec_zeroed_def heap_left_def heap_alloc_def a word_less_nat_alt Let_def)
qed

section \<open>Preemption\<close>

lemma kernel_schedule:
  assumes "kernel_wf k" and "current_tasks (k_sched k) = [Some p]"
  obtains n q where "queue (k_sched k) @ [p] = n # q" "n \<in> dom (tasks (k_sched k))"
    "on_sched schedule k = (Ok (), k\<lparr>k_core := fst (switched 0 p n q (k_core k, k_sched k)), k_sched := snd (switched 0 p n q (k_core k, k_sched k))\<rparr>)"
    "kernel_wf (k\<lparr>k_core := fst (switched 0 p n q (k_core k, k_sched k)), k_sched := snd (switched 0 p n q (k_core k, k_sched k))\<rparr>)"
    "task_regs \<lparr>cores = [fst (switched 0 p n q (k_core k, k_sched k))], smp_sched = snd (switched 0 p n q (k_core k, k_sched k))\<rparr>
      = task_regs \<lparr>cores = [k_core k], smp_sched = k_sched k\<rparr>"
proof -
  let ?m = "\<lparr>cores = [k_core k], smp_sched = k_sched k\<rparr>"
  have w: "smp_wf ?m" and sp: "spaces_wf (k_mm k) (tasks (k_sched k))" using assms(1) by (simp_all add: kernel_wf_def)
  have sw: "sched_wf (k_sched k)" and z: "unat (current_core (k_core k)) = 0" using w by (auto simp: smp_wf_def)
  have o: "occupies (k_sched k) (unat (current_core (k_core k))) p" using assms(2) z by (simp add: occupies_def)
  from sw o obtain n q where q: "queue (k_sched k) @ [p] = n # q" "n \<in> dom (tasks (k_sched k))" "p \<in> dom (tasks (k_sched k))"
    and run: "schedule (k_core k, k_sched k) = (Ok (), switched 0 p n q (k_core k, k_sched k))"
    by (cases rule: schedule_cases) (auto simp: z)
  let ?st = "switched 0 p n q (k_core k, k_sched k)"
  have c: "can_switch 0 p n q ?m" using w o z q by (simp add: can_switch_def)
  have m': "smp_switched 0 p n q ?m = \<lparr>cores = [fst ?st], smp_sched = snd ?st\<rparr>" by (simp add: smp_switched_def)
  have "smp_wf \<lparr>cores = [fst ?st], smp_sched = snd ?st\<rparr>" using smp_switched_wf [OF c] m' by simp
  moreover have "dom (tasks (snd ?st)) = dom (tasks (k_sched k))" by (auto simp: switched_tasks)
  moreover have "spaces_wf (k_mm k) (tasks (snd ?st))"
  proof -
    have old: "\<exists>y. tasks (k_sched k) t = Some y \<and> mem_context x = mem_context y" if "tasks (snd ?st) t = Some x" for t x
      using that by (auto simp: switched_tasks)
    show ?thesis unfolding spaces_wf_def using sp unfolding spaces_wf_def by (metis old)
  qed
  ultimately have "kernel_wf (k\<lparr>k_core := fst ?st, k_sched := snd ?st\<rparr>)" using assms(1) by (simp add: kernel_wf_def)
  moreover have "on_sched schedule k = (Ok (), k\<lparr>k_core := fst ?st, k_sched := snd ?st\<rparr>)"
    using run by (simp add: on_sched_def split_beta)
  moreover have "task_regs \<lparr>cores = [fst ?st], smp_sched = snd ?st\<rparr> = task_regs ?m"
    using smp_switched_regs [OF c] m' by auto
  ultimately show thesis using that q by blast
qed

section \<open>A concrete machine\<close>

text \<open>One task on an address space \<open>(s, c)\<close>, a port that is always ready, and a heap of which nothing is used.\<close>

definition uart0 :: uart where
  "uart0 = \<lparr>uart_lock = False, regs8 = \<lambda>_. 0, regs16 = \<lambda>_. 0, regs32 = \<lambda>_. 0, lsr = \<lambda>_. 0x20, lsr_reads = 0, rx = \<lambda>_. 0, rx_reads = 0, tx = []\<rparr>"

definition task_of :: "memory_context \<Rightarrow> task" where
  "task_of c = (task0 1)\<lparr>mem_context := c\<rparr>"

definition machine_of :: "mm_state \<Rightarrow> memory_context \<Rightarrow> machine" where
  "machine_of s c =
     \<lparr>m_kernel = \<lparr>k_core = core0\<lparr>ttbr0_el1 := mc_ttbr c\<rparr>,
        k_sched = \<lparr>sched_lock = False, tasks = [1 \<mapsto> task_of c], queue = [], current_tasks = [Some 1], quantum = 10000000\<rparr>,
        k_mm = s, task_counter = 2\<rparr>,
      m_uart = uart0, m_intc = \<lparr>core0_timer_irqcntl = 2, core0_irq = 2\<rparr>, m_log = serial_log,
      m_scheduler = \<lparr>ol_once = \<lparr>completed = True\<rparr>, ol_data = Some ()\<rparr>, m_heap = heap_new 0xFFFF000000100000\<rparr>"

lemma machine_of_runs:
  assumes "ctx_wf (s, c)" and "pa_fits (page_alloc_state s)" and "unat (mc_asid c) < unat (asid_counter s)"
  shows "runs_task (machine_of s c) (task_of c)"
proof -
  let ?k = "m_kernel (machine_of s c)"
  have "smp_wf \<lparr>cores = [k_core ?k], smp_sched = k_sched ?k\<rparr>"
    by (auto simp: machine_of_def task_of_def core0_def task0_def smp_wf_def sched_wf_def current_core_def AFFINITY0_MASK_def occupies_def)
  moreover have "spaces_wf s [1 \<mapsto> task_of c]" using assms(1,3) by (auto simp: spaces_wf_def task_of_def)
  ultimately have "kernel_wf ?k" using assms(2) ctx_wfD(1) [OF assms(1)] by (auto simp: kernel_wf_def machine_of_def)
  moreover have "uart_ready uart0" by (auto simp: uart_ready_def tx_fair_def uart0_def AUX_MU_LSR_TX_EMPTY_def)
  ultimately show ?thesis
    by (simp add: runs_task_def machine_of_def task_of_def task0_def once_lock_get_def is_completed_def)
qed

end
