(* ===== verification/Elf.thy ===== *)
theory Elf
  imports File_System Address Page_Allocator
begin

text \<open>
  The reader of executables (\<^verbatim>\<open>task/elf.rs\<close>): decoding of the two headers at their
  \<^verbatim>\<open>repr(C)\<close> offsets, the reader, and the iterator over page-sized chunks. The file is shared, so
  its position and the file systems are the state of every operation. The main results
  say that the chunks of a segment partition it at page boundaries and that their
  contents, put together, are the segment's image: the file's bytes followed by zeros.
\<close>

section \<open>Headers\<close>

definition HEADER_IDENT_CLASS_64_BIT :: u8 where
  [consts_defs]: "HEADER_IDENT_CLASS_64_BIT = 0x02"

definition HEADER_IDENT_DATA_LE :: u8 where
  [consts_defs]: "HEADER_IDENT_DATA_LE = 0x01"

definition HEADER_IDENT_VERSION_ORIGINAL :: u8 where
  [consts_defs]: "HEADER_IDENT_VERSION_ORIGINAL = 0x01"

definition HEADER_IDENT_ABI_SYSTEM_V :: u8 where
  [consts_defs]: "HEADER_IDENT_ABI_SYSTEM_V = 0x00"

definition HEADER_OBJECT_TYPE_EXECUTABLE :: u16 where
  [consts_defs]: "HEADER_OBJECT_TYPE_EXECUTABLE = 0x0002"

definition HEADER_MACHINE_AARCH64 :: u16 where
  [consts_defs]: "HEADER_MACHINE_AARCH64 = 0x00B7"

definition HEADER_VERSION_ORIGINAL :: u32 where
  [consts_defs]: "HEADER_VERSION_ORIGINAL = 0x00000001"

definition PROGRAM_HEADER_TYPE_LOAD :: u32 where
  [consts_defs]: "PROGRAM_HEADER_TYPE_LOAD = 0x00000001"

record elf64_header =
  ident_magic :: "u8 list"
  ident_class :: u8
  ident_data :: u8
  ident_version :: u8
  ident_abi :: u8
  ident_abi_version :: u8
  ident_pad :: "u8 list"
  object_type :: u16
  machine :: u16
  eh_version :: u32
  eh_entry_point :: u64
  program_header_offset :: u64
  section_header_offset :: u64
  eh_flags :: u32
  header_size :: u16
  program_header_entry_size :: u16
  program_header_entry_count :: u16
  section_header_entry_size :: u16
  section_header_entry_count :: u16
  section_header_string_index :: u16

record elf64_program_header =
  segment_type :: u32
  ph_flags :: u32
  file_offset :: u64
  ph_virtual_address :: u64
  ph_physical_address :: u64
  file_size :: u64
  memory_size :: u64
  alignment :: u64

definition SIZE_HEADER :: nat where
  [consts_defs]: "SIZE_HEADER = 64"

definition SIZE_PROGRAM_HEADER :: nat where
  [consts_defs]: "SIZE_PROGRAM_HEADER = 56"

definition bytes_at :: "u8 list \<Rightarrow> nat \<Rightarrow> nat \<Rightarrow> u8 list" where
  "bytes_at bs off n = take n (drop off bs)"

definition field :: "u8 list \<Rightarrow> nat \<Rightarrow> nat \<Rightarrow> 'a::len word" where
  "field bs off n = le_word (bytes_at bs off n)"

definition header_from :: "u8 list \<Rightarrow> elf64_header" where
  "header_from bs =
     \<lparr>ident_magic = bytes_at bs 0 4, ident_class = field bs 4 1, ident_data = field bs 5 1,
      ident_version = field bs 6 1, ident_abi = field bs 7 1, ident_abi_version = field bs 8 1,
      ident_pad = bytes_at bs 9 7, object_type = field bs 16 2, machine = field bs 18 2,
      eh_version = field bs 20 4, eh_entry_point = field bs 24 8, program_header_offset = field bs 32 8,
      section_header_offset = field bs 40 8, eh_flags = field bs 48 4, header_size = field bs 52 2,
      program_header_entry_size = field bs 54 2, program_header_entry_count = field bs 56 2,
      section_header_entry_size = field bs 58 2, section_header_entry_count = field bs 60 2,
      section_header_string_index = field bs 62 2\<rparr>"

definition program_header_from :: "u8 list \<Rightarrow> elf64_program_header" where
  "program_header_from bs =
     \<lparr>segment_type = field bs 0 4, ph_flags = field bs 4 4, file_offset = field bs 8 8,
      ph_virtual_address = field bs 16 8, ph_physical_address = field bs 24 8, file_size = field bs 32 8,
      memory_size = field bs 40 8, alignment = field bs 48 8\<rparr>"

text \<open>\<^verbatim>\<open>first_chunk\<close> and the conversions from slices.\<close>

definition header_try_from :: "u8 list \<Rightarrow> elf64_header res" where
  "header_try_from bs = (if SIZE_HEADER \<le> length bs then Ok (header_from (take SIZE_HEADER bs)) else Err ())"

definition program_header_try_from :: "u8 list \<Rightarrow> elf64_program_header res" where
  "program_header_try_from bs =
     (if SIZE_PROGRAM_HEADER \<le> length bs then Ok (program_header_from (take SIZE_PROGRAM_HEADER bs)) else Err ())"

definition is_valid :: "elf64_header \<Rightarrow> bool" where
  "is_valid h \<longleftrightarrow> ident_magic h = [0x7F, 0x45, 0x4C, 0x46]
     \<and> ident_class h = HEADER_IDENT_CLASS_64_BIT
     \<and> ident_data h = HEADER_IDENT_DATA_LE
     \<and> ident_version h = HEADER_IDENT_VERSION_ORIGINAL
     \<and> ident_abi h = HEADER_IDENT_ABI_SYSTEM_V
     \<and> object_type h = HEADER_OBJECT_TYPE_EXECUTABLE
     \<and> eh_version h = HEADER_VERSION_ORIGINAL
     \<and> (ucast (program_header_entry_size h) :: usize) = of_nat SIZE_PROGRAM_HEADER"

definition is_aarch64 :: "elf64_header \<Rightarrow> bool" where
  "is_aarch64 h \<longleftrightarrow> machine h = HEADER_MACHINE_AARCH64"

section \<open>The reader\<close>

type_synonym 'd file_state = "open_file \<times> 'd fs_world"

record elf64_reader =
  er_header :: elf64_header
  er_program_headers :: "elf64_program_header list"

definition seek_in :: "usize \<Rightarrow> 'd file_state \<Rightarrow> unit res \<times> 'd file_state" where
  "seek_in pos st = (case file_seek pos (snd st) (fst st) of (r, f) \<Rightarrow> (r, (f, snd st)))"

fun read_program_headers :: "nat \<Rightarrow> 'd file_state \<Rightarrow> elf64_program_header list res \<times> 'd file_state" where
  "read_program_headers 0 st = (Ok [], st)"
| "read_program_headers (Suc n) st =
     and_then (file_read (of_nat SIZE_PROGRAM_HEADER) st) (\<lambda>buf st.
     and_then (program_header_try_from buf, st) (\<lambda>ph st.
     and_then (read_program_headers n st) (\<lambda>phs st. (Ok (ph # phs), st))))"

definition elf64_reader_new :: "'d file_state \<Rightarrow> elf64_reader res \<times> 'd file_state" where
  "elf64_reader_new st =
     and_then (file_read (of_nat SIZE_HEADER) st) (\<lambda>buf st.
     and_then (header_try_from buf, st) (\<lambda>header st.
       if \<not> is_valid header then (Err (), st)
       else if \<not> is_aarch64 header then (Err (), st)
       else
         and_then (seek_in (program_header_offset header) st) (\<lambda>_ st.
         and_then (read_program_headers (unat (program_header_entry_count header)) st) (\<lambda>phs st.
           (Ok \<lparr>er_header = header, er_program_headers = phs\<rparr>, st)))))"

definition entry_point :: "elf64_reader \<Rightarrow> usize" where
  "entry_point r = eh_entry_point (er_header r)"

section \<open>Loadable pages\<close>

text \<open>
  \<^verbatim>\<open>LoadablePages::range\<close>: the file range and the address range of page \<open>page_index\<close> of a
  segment. All arithmetic wraps.
\<close>

definition page_range :: "elf64_program_header \<Rightarrow> usize \<Rightarrow> (range \<times> range) option" where
  "page_range ph page_index =
     (if segment_type ph \<noteq> PROGRAM_HEADER_TYPE_LOAD then None
      else
        let va = ph_virtual_address ph;
            foff = file_offset ph;
            offset_start0 = page_index * PAGE_SIZE;
            offset_end0 = offset_start0 + PAGE_SIZE;
            alignment_offset = va mod PAGE_SIZE;
            offset_start = (if page_index \<noteq> 0 then offset_start0 - alignment_offset else offset_start0);
            offset_end = offset_end0 - alignment_offset;
            fsize = file_size ph;
            file_offset_start = foff + min offset_start fsize;
            file_offset_end = foff + min offset_end fsize;
            msize = memory_size ph;
            va_start = va + min offset_start msize;
            va_end = va + min offset_end msize
        in if va_start = va_end then None
           else Some ((file_offset_start, file_offset_end), (va_start, va_end)))"

text \<open>
  Before it returns a range, \<^verbatim>\<open>range\<close> prints the addresses. The log is the caller's: a function on the state of the devices.
\<close>

type_synonym 'd range_log = "usize \<Rightarrow> usize \<Rightarrow> 'd \<Rightarrow> unit res \<times> 'd"

definition loadable_range :: "'d range_log \<Rightarrow> elf64_program_header \<Rightarrow> usize \<Rightarrow> 'd file_state
    \<Rightarrow> (range \<times> range) option res \<times> 'd file_state" where
  "loadable_range say ph page_index st =
     (case page_range ph page_index of
        None \<Rightarrow> (Ok None, st)
      | Some (frange, vrange) \<Rightarrow>
          (case say (fst vrange) (snd vrange) (device_state (snd st)) of
             (r, d) \<Rightarrow> and_then (r, (fst st, (snd st)\<lparr>device_state := d\<rparr>)) (\<lambda>_ st. (Ok (Some (frange, vrange)), st))))"

text \<open>\<^verbatim>\<open>Range<usize>::len\<close>.\<close>

definition range_len :: "range \<Rightarrow> usize" where
  "range_len r = (if fst r < snd r then snd r - fst r else 0)"

record loadable_page =
  lp_address :: UserAddress
  lp_bytes :: "u8 list"

record loadable_pages =
  program_header_index :: nat
  page_index :: usize

definition loadable_pages_new :: loadable_pages where
  "loadable_pages_new = \<lparr>program_header_index = 0, page_index = 0\<rparr>"

text \<open>
  One call of \<^verbatim>\<open>next\<close>. The header index counts the entries of a vector, so it is a natural number.
  An error of the file ends the iteration; \<^verbatim>\<open>resize_with\<close> panics above \<^verbatim>\<open>isize::MAX\<close>.
\<close>

function pages_next :: "'d range_log \<Rightarrow> elf64_program_header list \<Rightarrow> loadable_pages \<Rightarrow> 'd file_state \<Rightarrow>
    (loadable_page option \<times> loadable_pages) res \<times> 'd file_state" where
  "pages_next say phs it st =
     (if program_header_index it < length phs
      then
        (case loadable_range say (phs ! program_header_index it) (page_index it) st of
           (Ok None, st) \<Rightarrow> pages_next say phs \<lparr>program_header_index = Suc (program_header_index it), page_index = 0\<rparr> st
         | (Err e, st) \<Rightarrow> (Err e, st)
         | (Panic, st) \<Rightarrow> (Panic, st)
         | (Hang, st) \<Rightarrow> (Hang, st)
         | (Ok (Some (frange, vrange)), st) \<Rightarrow>
             (case seek_in (fst frange) st of
                (Ok _, st) \<Rightarrow>
                  (case file_read (range_len frange) st of
                     (Ok bytes, st) \<Rightarrow>
                       if 2 ^ 63 \<le> unat (range_len vrange) then (Panic, st)
                       else (Ok (Some \<lparr>lp_address = UserAddress (fst vrange),
                                       lp_bytes = resize_with (unat (range_len vrange)) 0 bytes\<rparr>,
                                 it\<lparr>page_index := page_index it + 1\<rparr>), st)
                   | (Err _, st) \<Rightarrow> (Ok (None, it), st)
                   | (Panic, st) \<Rightarrow> (Panic, st)
                   | (Hang, st) \<Rightarrow> (Hang, st))
              | (Err _, st) \<Rightarrow> (Ok (None, it), st)
              | (Panic, st) \<Rightarrow> (Panic, st)
              | (Hang, st) \<Rightarrow> (Hang, st)))
      else (Ok (None, it), st))"
  by pat_completeness auto
termination
  by (relation "measure (\<lambda>(say, phs, it, st). length phs - program_header_index it)") auto

declare pages_next.simps [simp del]

section \<open>The pages of a segment\<close>

text \<open>
  Offsets into a segment at which its pages start: 0, then every page boundary of its addresses, up to
  its size in memory; and the number of its pages.
\<close>

definition raw_off :: "elf64_program_header \<Rightarrow> nat \<Rightarrow> nat" where
  "raw_off ph k = (if k = 0 then 0 else 4096 * k - unat (ph_virtual_address ph) mod 4096)"

definition seg_off :: "elf64_program_header \<Rightarrow> nat \<Rightarrow> nat" where
  "seg_off ph k = min (raw_off ph k) (unat (memory_size ph))"

definition seg_pages :: "elf64_program_header \<Rightarrow> nat" where
  "seg_pages ph = (if memory_size ph = 0 then 0
     else (unat (ph_virtual_address ph) mod 4096 + unat (memory_size ph) + 4095) div 4096)"

text \<open>A loadable segment whose addresses and file offsets do not wrap.\<close>

definition segment_ok :: "elf64_program_header \<Rightarrow> bool" where
  "segment_ok ph \<longleftrightarrow> segment_type ph = PROGRAM_HEADER_TYPE_LOAD
     \<and> unat (ph_virtual_address ph) + unat (memory_size ph) + 8192 \<le> 2 ^ 64
     \<and> unat (file_offset ph) + unat (file_size ph) < 2 ^ 64"

lemma min_of_nat:
  assumes "n < 2 ^ 64"
  shows "min (of_nat n) (w :: u64) = of_nat (min n (unat w))"
proof -
  have "unat (min (of_nat n) w) = unat (of_nat (min n (unat w)) :: u64)"
    using assms unsigned_less [of w] by (simp add: unat_min unat_of_nat64)
  then show ?thesis by (simp add: word_unat_eq_iff)
qed

lemma of_nat_eq64: "a < 2 ^ 64 \<Longrightarrow> b < 2 ^ 64 \<Longrightarrow> (of_nat a :: u64) = of_nat b \<longleftrightarrow> a = b"
  by (metis unat_of_nat64)

lemma page_offsets:
  fixes va :: u64
  assumes k: "4096 * Suc k < 2 ^ 64"
  shows "(if of_nat k \<noteq> (0 :: u64) then of_nat k * PAGE_SIZE - va mod PAGE_SIZE else of_nat k * PAGE_SIZE)
      = of_nat (if k = 0 then 0 else 4096 * k - unat va mod 4096)" (is ?low)
    and "of_nat k * PAGE_SIZE + PAGE_SIZE - va mod PAGE_SIZE = of_nat (4096 * Suc k - unat va mod 4096)" (is ?high)
proof -
  have m: "unat va mod 4096 < 4096" by simp
  have v: "va mod PAGE_SIZE = of_nat (unat va mod 4096)"
    by (simp add: word_unat_eq_iff unat_mod_distrib PAGE_SIZE_def unat_of_nat)
  have z: "of_nat k = (0 :: u64) \<longleftrightarrow> k = 0" using of_nat_eq64 [of k 0] k by simp
  have "k \<noteq> 0 \<Longrightarrow> unat va mod 4096 \<le> 4096 * k" using m by simp
  then show ?low unfolding v using z by (simp add: PAGE_SIZE_def of_nat_diff mult.commute)
  have "unat va mod 4096 \<le> 4096 * Suc k" using m by simp
  then show ?high unfolding v by (simp add: PAGE_SIZE_def of_nat_diff algebra_simps)
qed

lemma page_range_eq:
  assumes ok: "segment_ok ph" and k: "4096 * Suc k < 2 ^ 64"
  shows "page_range ph (of_nat k) =
    (if seg_off ph k = seg_off ph (Suc k) then None
     else Some ((file_offset ph + of_nat (min (raw_off ph k) (unat (file_size ph))),
                 file_offset ph + of_nat (min (raw_off ph (Suc k)) (unat (file_size ph)))),
                (ph_virtual_address ph + of_nat (seg_off ph k), ph_virtual_address ph + of_nat (seg_off ph (Suc k)))))"
proof -
  have raw: "raw_off ph k < 2 ^ 64" "raw_off ph (Suc k) < 2 ^ 64" using k by (auto simp: raw_off_def)
  have load: "segment_type ph = PROGRAM_HEADER_TYPE_LOAD" using ok by (simp add: segment_ok_def)
  have s: "seg_off ph k < 2 ^ 64" "seg_off ph (Suc k) < 2 ^ 64" using raw by (auto simp: seg_off_def)
  have e1: "(if of_nat k \<noteq> (0 :: u64) then of_nat k * PAGE_SIZE - ph_virtual_address ph mod PAGE_SIZE else of_nat k * PAGE_SIZE)
      = of_nat (raw_off ph k)"
    and e2: "of_nat k * PAGE_SIZE + PAGE_SIZE - ph_virtual_address ph mod PAGE_SIZE = of_nat (raw_off ph (Suc k))"
    using page_offsets [OF k, of "ph_virtual_address ph"] by (simp_all add: raw_off_def)
  show ?thesis
    unfolding page_range_def Let_def e1 e2 min_of_nat [OF raw(1)] min_of_nat [OF raw(2)]
    using load of_nat_eq64 [OF s] by (simp add: seg_off_def)
qed

text \<open>Arithmetic of page counts, with the offset in the first page as a variable.\<close>

lemma page_arith:
  fixes a m n v q k :: nat
  shows "a + m \<le> 4096 * n \<Longrightarrow> m \<le> 4096 * n - a \<and> m \<le> 4096 * Suc n - a"
    and "4096 * n \<le> a + m + 4095 \<Longrightarrow> a \<le> v \<Longrightarrow> k \<le> n \<Longrightarrow> v + m + 8192 \<le> x \<Longrightarrow> 4096 * Suc k < x"
    and "v = 4096 * q + a \<Longrightarrow> a < 4096 \<Longrightarrow> 4096 * (q + k) \<le> v + (if k = 0 then 0 else 4096 * k - a)"
    and "v = 4096 * q + a \<Longrightarrow> a < 4096 \<Longrightarrow> v + (4096 * Suc k - a) = 4096 * (q + k) + 4096"
  by (auto simp: less_eq_Suc_le)

lemma seg_pages_bounds:
  assumes "k < seg_pages ph"
  shows "raw_off ph k < unat (memory_size ph)" and "raw_off ph k < raw_off ph (Suc k)"
    and "4096 * k \<le> unat (ph_virtual_address ph) mod 4096 + unat (memory_size ph)"
proof -
  have m: "memory_size ph \<noteq> 0" and n: "k < (unat (ph_virtual_address ph) mod 4096 + unat (memory_size ph) + 4095) div 4096"
    using assms by (auto simp: seg_pages_def split: if_splits)
  have pos: "0 < unat (memory_size ph)" using m by (simp add: unat_gt_0)
  have a: "unat (ph_virtual_address ph) mod 4096 < 4096" by simp
  have n': "4096 * Suc k \<le> unat (ph_virtual_address ph) mod 4096 + unat (memory_size ph) + 4095"
    using n by (simp add: less_eq_div_iff_mult_less_eq Suc_le_eq [symmetric] mult.commute del: mult_Suc_right)
  show "raw_off ph k < unat (memory_size ph)" using n' pos a by (auto simp: raw_off_def)
  show "raw_off ph k < raw_off ph (Suc k)" using a by (auto simp: raw_off_def)
  show "4096 * k \<le> unat (ph_virtual_address ph) mod 4096 + unat (memory_size ph)" using n' by simp
qed

lemma seg_off_less: "k < seg_pages ph \<Longrightarrow> seg_off ph k < seg_off ph (Suc k)"
  using seg_pages_bounds [of k ph] by (simp add: seg_off_def)

lemma seg_off_end: "seg_off ph (seg_pages ph) = unat (memory_size ph)" "seg_off ph (Suc (seg_pages ph)) = unat (memory_size ph)"
proof -
  let ?a = "unat (ph_virtual_address ph) mod 4096" and ?m = "unat (memory_size ph)"
  have "?m \<le> raw_off ph (seg_pages ph) \<and> ?m \<le> raw_off ph (Suc (seg_pages ph))"
  proof (cases "memory_size ph = 0")
    case False
    then have p: "seg_pages ph = (?a + ?m + 4095) div 4096" by (simp add: seg_pages_def)
    have "0 < ?m" using False by (simp add: unat_gt_0)
    then have "?a + ?m \<le> 4096 * seg_pages ph" "seg_pages ph \<noteq> 0" unfolding p by (auto simp: div_eq_0_iff)
    then have "?m \<le> 4096 * seg_pages ph - ?a" "?m \<le> 4096 * Suc (seg_pages ph) - ?a" using page_arith(1) by blast+
    then show ?thesis using \<open>seg_pages ph \<noteq> 0\<close> by (simp add: raw_off_def)
  qed simp
  then show "seg_off ph (seg_pages ph) = ?m" "seg_off ph (Suc (seg_pages ph)) = ?m"
    by (simp_all add: seg_off_def)
qed

lemma segment_page_fits:
  assumes "segment_ok ph" and "k \<le> seg_pages ph"
  shows "4096 * Suc k < 2 ^ 64"
proof -
  have "4096 * seg_pages ph \<le> unat (ph_virtual_address ph) mod 4096 + unat (memory_size ph) + 4095"
    by (auto simp: seg_pages_def)
  moreover have "unat (ph_virtual_address ph) mod 4096 \<le> unat (ph_virtual_address ph)" by simp
  moreover have "unat (ph_virtual_address ph) + unat (memory_size ph) + 8192 \<le> 18446744073709551616"
    using assms(1) by (simp add: segment_ok_def)
  ultimately have "4096 * Suc k < 18446744073709551616" using page_arith(2) assms(2) by blast
  then show ?thesis by simp
qed

lemma seg_page_number:
  assumes "k < seg_pages ph"
  defines "va \<equiv> unat (ph_virtual_address ph)"
  shows "(va + seg_off ph k) div 4096 = va div 4096 + k"
    and "(va + seg_off ph (Suc k) - 1) div 4096 = va div 4096 + k"
proof -
  let ?q = "va div 4096" and ?a = "va mod 4096"
  have va: "va = 4096 * ?q + ?a" "?a < 4096" by simp_all
  have lo: "4096 * (?q + k) \<le> va + raw_off ph k" "va + raw_off ph (Suc k) = 4096 * (?q + k) + 4096"
  proof -
    have raw: "raw_off ph j = (if j = 0 then 0 else 4096 * j - ?a)" for j by (simp add: raw_off_def va_def)
    show "4096 * (?q + k) \<le> va + raw_off ph k" unfolding raw by (rule page_arith(3) [OF va])
    show "va + raw_off ph (Suc k) = 4096 * (?q + k) + 4096"
      using page_arith(4) [OF va, of k] by (simp only: raw nat.distinct if_False)
  qed
  have off: "seg_off ph k = raw_off ph k" "seg_off ph k < seg_off ph (Suc k)" "seg_off ph (Suc k) \<le> raw_off ph (Suc k)"
    using seg_pages_bounds(1) [OF assms(1)] seg_off_less [OF assms(1)] by (simp_all add: seg_off_def)
  have div: "x div 4096 = ?q + k" if "4096 * (?q + k) \<le> x" "x < 4096 * (?q + k) + 4096" for x
    using that by (intro div_nat_eqI) simp_all
  show "(va + seg_off ph k) div 4096 = ?q + k" by (rule div) (use lo off in linarith)+
  show "(va + seg_off ph (Suc k) - 1) div 4096 = ?q + k" by (rule div) (use lo off in linarith)+
qed

lemma unat_va_off:
  assumes "segment_ok ph"
  shows "unat (ph_virtual_address ph + of_nat (seg_off ph k)) = unat (ph_virtual_address ph) + seg_off ph k"
proof -
  have "seg_off ph k \<le> unat (memory_size ph)" by (simp add: seg_off_def)
  then have "unat (ph_virtual_address ph) + seg_off ph k < 2 ^ 64" using assms by (simp add: segment_ok_def)
  moreover from this have "unat (of_nat (seg_off ph k) :: u64) = seg_off ph k" by (intro unat_of_nat64) simp
  ultimately show ?thesis by (subst unat_add_noof) simp_all
qed

text \<open>
  C38. The page ranges of a loadable segment partition it at page boundaries. There are \<open>seg_pages\<close>
  of them; each is non-empty, starts where the one before ends, and lies in one page, the
  next page each time; the first starts at the segment's address, the last ends at the end of its
  size in memory, and the index after the last gives no range.
\<close>

theorem page_range_partition:
  assumes "segment_ok ph"
  shows "seg_off ph 0 = 0 \<and> seg_off ph (seg_pages ph) = unat (memory_size ph)
    \<and> page_range ph (of_nat (seg_pages ph)) = None
    \<and> (\<forall>k < seg_pages ph. \<exists>frange va_start va_end.
         page_range ph (of_nat k) = Some (frange, (va_start, va_end)) \<and> va_start < va_end
       \<and> unat va_start = unat (ph_virtual_address ph) + seg_off ph k
       \<and> unat va_end = unat (ph_virtual_address ph) + seg_off ph (Suc k)
       \<and> unat va_start div 4096 = unat (ph_virtual_address ph) div 4096 + k
       \<and> (unat va_end - 1) div 4096 = unat (ph_virtual_address ph) div 4096 + k)"
proof (intro conjI allI impI)
  show "seg_off ph 0 = 0" by (simp add: seg_off_def raw_off_def)
  show "seg_off ph (seg_pages ph) = unat (memory_size ph)" by (rule seg_off_end)
  show "page_range ph (of_nat (seg_pages ph)) = None"
    using page_range_eq [OF assms segment_page_fits [OF assms order_refl]] seg_off_end by simp
  fix k assume k: "k < seg_pages ph"
  have ne: "seg_off ph k < seg_off ph (Suc k)" using k by (rule seg_off_less)
  then show "\<exists>frange va_start va_end.
         page_range ph (of_nat k) = Some (frange, (va_start, va_end)) \<and> va_start < va_end
       \<and> unat va_start = unat (ph_virtual_address ph) + seg_off ph k
       \<and> unat va_end = unat (ph_virtual_address ph) + seg_off ph (Suc k)
       \<and> unat va_start div 4096 = unat (ph_virtual_address ph) div 4096 + k
       \<and> (unat va_end - 1) div 4096 = unat (ph_virtual_address ph) div 4096 + k"
    using page_range_eq [OF assms segment_page_fits [OF assms less_imp_le [OF k]]] unat_va_off [OF assms]
      seg_page_number [OF k] by (simp add: word_less_nat_alt)
qed

section \<open>The image of a segment\<close>

text \<open>A file of a temporary file system with the given contents, on which the reader works.\<close>

definition reads :: "'d file_state \<Rightarrow> u8 list \<Rightarrow> bool" where
  "reads st bytes \<longleftrightarrow> world_wf (snd st) \<and> file_bytes (snd st) (fst st) = Some bytes"

lemma reads_vec_ok: "reads st bytes \<Longrightarrow> vec_ok bytes"
  using world_wfD wf_rest(2)
  by (fastforce simp: reads_def file_bytes_def split: option.splits fs_object.splits)

lemma seek_in_reads:
  assumes "reads st bytes"
  shows "seek_in pos st = (Ok (), ((fst st)\<lparr>file_position := pos\<rparr>, snd st))"
    and "reads ((fst st)\<lparr>file_position := pos\<rparr>, snd st) bytes"
proof -
  obtain t where "store (snd st) (node_fs (file_node (fst st))) = Some (TmpfsObj t)"
    using assms by (auto simp: reads_def file_bytes_def split: option.splits fs_object.splits)
  then show "seek_in pos st = (Ok (), ((fst st)\<lparr>file_position := pos\<rparr>, snd st))"
    by (simp add: seek_in_def file_seek_def fs_seek_def tmpfs_seek_def)
  show "reads ((fst st)\<lparr>file_position := pos\<rparr>, snd st) bytes" using assms by (simp add: reads_def)
qed

lemma spec_read_take: "spec_read p n (abs_bytes bytes) = take n (drop p bytes)"
proof -
  have "take (m - p) (drop p bytes) = map (\<lambda>i. if i < length bytes then bytes ! i else 0) [p..<m]"
    if "m \<le> length bytes" for m
    using that by (intro nth_equalityI) auto
  from this [of "min (p + n) (length bytes)"]
  have "spec_read p n (abs_bytes bytes) = take (min (p + n) (length bytes) - p) (drop p bytes)"
    by (simp add: spec_read_def abs_bytes_def)
  also have "\<dots> = take n (drop p bytes)" by (simp add: min_def take_all)
  finally show ?thesis .
qed

lemma file_read_reads:
  assumes "reads st bytes" and "unat (file_position (fst st)) + unat count < 2 ^ 64"
  shows "file_read count st = (if unat (file_position (fst st)) \<le> length bytes
    then (Ok (take (unat count) (drop (unat (file_position (fst st))) bytes)),
          ((fst st)\<lparr>file_position := file_position (fst st)
             + vec_len (take (unat count) (drop (unat (file_position (fst st))) bytes))\<rparr>, snd st))
    else (Panic, st))"
proof -
  obtain t where t: "store (snd st) (node_fs (file_node (fst st))) = Some (TmpfsObj t)"
    "files t (node_id (file_node (fst st))) = Some bytes"
    using assms(1) by (auto simp: reads_def file_bytes_def split: option.splits fs_object.splits)
  then show ?thesis
    using tmpfs_read_eq [OF t(2) reads_vec_ok [OF assms(1)] assms(2)]
    by (cases st) (simp add: file_read_def fs_read_def spec_read_take)
qed

text \<open>The image: byte \<open>i\<close> of a segment is byte \<open>i\<close> of its part of the file, or zero past that part.\<close>

definition seg_byte :: "elf64_program_header \<Rightarrow> u8 list \<Rightarrow> nat \<Rightarrow> u8" where
  "seg_byte ph bytes i = (if i < unat (file_size ph) then bytes ! (unat (file_offset ph) + i) else 0)"

definition seg_page :: "elf64_program_header \<Rightarrow> u8 list \<Rightarrow> nat \<Rightarrow> loadable_page" where
  "seg_page ph bytes k =
     \<lparr>lp_address = UserAddress (ph_virtual_address ph + of_nat (seg_off ph k)),
      lp_bytes = map (seg_byte ph bytes) [seg_off ph k..<seg_off ph (Suc k)]\<rparr>"

lemma chunk_image:
  assumes len: "off + fsz \<le> length bytes" and s: "s < e" and em: "e = min e' m" and ss: "s < m"
  shows "resize_with (e - s) 0 (take (min e' fsz - min s fsz) (drop (off + min s fsz) bytes))
    = map (\<lambda>i. if i < fsz then bytes ! (off + i) else 0) [s..<e]"
proof (rule nth_equalityI)
  let ?file = "take (min e' fsz - min s fsz) (drop (off + min s fsz) bytes)"
  fix i assume "i < length (resize_with (e - s) 0 ?file)"
  then have i: "i < e - s" by simp
  have e: "s + i < e'" using i em by linarith
  show "resize_with (e - s) 0 ?file ! i = map (\<lambda>i. if i < fsz then bytes ! (off + i) else 0) [s..<e] ! i"
  proof (cases "s + i < fsz")
    case True
    then have "min s fsz = s" "i < length ?file" using e len by (simp_all add: min_def) linarith
    then show ?thesis using i True len by (simp add: nth_resize_with add.assoc)
  next
    case False
    then have "\<not> i < length ?file" by (simp add: min_def) linarith
    then show ?thesis using i False by (auto simp: nth_resize_with)
  qed
qed simp

lemma unat_file_off:
  assumes "segment_ok ph"
  shows "unat (file_offset ph + of_nat (min x (unat (file_size ph)))) = unat (file_offset ph) + min x (unat (file_size ph))"
proof -
  have "unat (file_offset ph) + unat (file_size ph) < 2 ^ 64" using assms by (simp add: segment_ok_def)
  then have "unat (file_offset ph) + min x (unat (file_size ph)) < 2 ^ 64" by linarith
  moreover from this have "unat (of_nat (min x (unat (file_size ph))) :: u64) = min x (unat (file_size ph))"
    by (intro unat_of_nat64) simp
  ultimately show ?thesis by (subst unat_add_noof) simp_all
qed

lemma range_len_unat: "unat (range_len r) = unat (snd r) - unat (fst r)"
  by (auto simp: range_len_def word_less_nat_alt unat_sub_noof)

text \<open>Where page \<open>k\<close> of a segment starts in memory.\<close>

definition page_start :: "elf64_program_header \<Rightarrow> nat \<Rightarrow> usize" where
  "page_start ph k = ph_virtual_address ph + of_nat (seg_off ph k)"

lemma reads_device [simp]: "reads (f, w\<lparr>device_state := d\<rparr>) bytes \<longleftrightarrow> reads (f, w) bytes"
  by (simp add: reads_def)

lemma pages_next_page:
  assumes r: "reads st bytes" and i: "program_header_index it < length phs" "phs ! program_header_index it = ph"
    and ok: "segment_ok ph" and k: "page_index it = of_nat k" "k < seg_pages ph"
    and len: "unat (file_offset ph) + unat (file_size ph) \<le> length bytes"
    and say: "say (page_start ph k) (page_start ph (Suc k)) (device_state (snd st)) = (Ok (), d)"
  shows "\<exists>st'. pages_next say phs it st = (Ok (Some (seg_page ph bytes k), it\<lparr>page_index := of_nat (Suc k)\<rparr>), st')
    \<and> reads st' bytes \<and> snd st' = (snd st)\<lparr>device_state := d\<rparr>"
proof -
  let ?fs = "min (raw_off ph k) (unat (file_size ph))" and ?fe = "min (raw_off ph (Suc k)) (unat (file_size ph))"
  let ?va = "ph_virtual_address ph" and ?fo = "file_offset ph"
  have ne: "seg_off ph k < seg_off ph (Suc k)" using k(2) by (rule seg_off_less)
  have raw: "raw_off ph k < unat (memory_size ph)" "raw_off ph k < raw_off ph (Suc k)"
    using seg_pages_bounds [OF k(2)] by simp_all
  have so: "seg_off ph k = raw_off ph k" using raw by (simp add: seg_off_def)
  define frange where "frange = (?fo + of_nat ?fs, ?fo + of_nat ?fe)"
  define vrange where "vrange = (?va + of_nat (seg_off ph k), ?va + of_nat (seg_off ph (Suc k)))"
  have pr: "page_range ph (page_index it) = Some (frange, vrange)"
    using page_range_eq [OF ok segment_page_fits [OF ok less_imp_le [OF k(2)]]] ne k(1)
    by (simp add: frange_def vrange_def)
  have fl: "unat (fst frange) = unat ?fo + ?fs" "unat (range_len frange) = ?fe - ?fs"
    using unat_file_off [OF ok] by (simp_all add: frange_def range_len_unat)
  have vl: "unat (range_len vrange) = seg_off ph (Suc k) - seg_off ph k"
    using unat_va_off [OF ok] by (simp add: vrange_def range_len_unat)
  have small: "unat (range_len vrange) < 2 ^ 63"
  proof -
    have "seg_off ph (Suc k) \<le> raw_off ph (Suc k)" by (simp add: seg_off_def)
    moreover have "raw_off ph (Suc k) \<le> raw_off ph k + 4096" by (auto simp: raw_off_def)
    ultimately show ?thesis using so vl by simp
  qed
  let ?st0 = "(fst st, (snd st)\<lparr>device_state := d\<rparr>)"
  let ?st1 = "((fst st)\<lparr>file_position := fst frange\<rparr>, (snd st)\<lparr>device_state := d\<rparr>)"
  have r0: "reads ?st0 bytes" using r by simp
  have lr: "loadable_range say ph (page_index it) st = (Ok (Some (frange, vrange)), ?st0)"
    using pr say by (simp add: loadable_range_def vrange_def page_start_def)
  have r1: "seek_in (fst frange) ?st0 = (Ok (), ?st1)" "reads ?st1 bytes"
    using seek_in_reads [OF r0, of "fst frange"] by simp_all
  have inb: "unat (fst frange) \<le> length bytes" using fl(1) len by simp
  have noof: "unat (file_position (fst ?st1)) + unat (range_len frange) < 2 ^ 64"
  proof -
    have "?fs \<le> ?fe" using raw by simp
    then have "unat (fst frange) + unat (range_len frange) = unat ?fo + ?fe" using fl by simp
    moreover have "unat ?fo + ?fe < 2 ^ 64" using unat_file_off [OF ok, of "raw_off ph (Suc k)"] u64_lt [of "?fo + of_nat ?fe"] by simp
    ultimately show ?thesis by simp
  qed
  obtain st2 where rd: "file_read (range_len frange) ?st1
      = (Ok (take (?fe - ?fs) (drop (unat ?fo + ?fs) bytes)), st2)" and r2: "reads st2 bytes" "snd st2 = (snd st)\<lparr>device_state := d\<rparr>"
    using file_read_reads [OF r1(2) noof] inb fl r1(2) by (auto simp: reads_def)
  have img: "resize_with (seg_off ph (Suc k) - seg_off ph k) 0 (take (?fe - ?fs) (drop (unat ?fo + ?fs) bytes))
      = map (seg_byte ph bytes) [seg_off ph k..<seg_off ph (Suc k)]"
    using chunk_image [OF len ne, of "raw_off ph (Suc k)" "unat (memory_size ph)"] so raw
    by (simp add: seg_off_def seg_byte_def [abs_def])
  have "pages_next say phs it st = (Ok (Some (seg_page ph bytes k), it\<lparr>page_index := of_nat (Suc k)\<rparr>), st2)"
    using i lr r1(1) rd small vl img k(1)
    by (subst pages_next.simps) (simp add: seg_page_def vrange_def add.commute)
  then show ?thesis using r2 by blast
qed

lemma pages_next_skip:
  assumes "program_header_index it < length phs" and "page_range (phs ! program_header_index it) (page_index it) = None"
  shows "pages_next say phs it st = pages_next say phs \<lparr>program_header_index = Suc (program_header_index it), page_index = 0\<rparr> st"
  using assms by (subst pages_next.simps) (simp add: loadable_range_def)

text \<open>A number of calls of \<^verbatim>\<open>next\<close>, each of which must give a page.\<close>

fun take_pages :: "'d range_log \<Rightarrow> nat \<Rightarrow> elf64_program_header list \<Rightarrow> loadable_pages \<Rightarrow> 'd file_state \<Rightarrow>
    (loadable_page list \<times> loadable_pages \<times> 'd file_state) option" where
  "take_pages say 0 phs it st = Some ([], it, st)"
| "take_pages say (Suc n) phs it st =
     (case pages_next say phs it st of
        (Ok (Some p, it'), st') \<Rightarrow> map_option (\<lambda>(ps, r). (p # ps, r)) (take_pages say n phs it' st')
      | _ \<Rightarrow> None)"

text \<open>A log that always prints, in the states of the devices that satisfy \<open>ready\<close>.\<close>

definition range_log_ok :: "'d range_log \<Rightarrow> ('d \<Rightarrow> bool) \<Rightarrow> bool" where
  "range_log_ok say ready \<longleftrightarrow> (\<forall>a b d. ready d \<longrightarrow> (\<exists>d'. say a b d = (Ok (), d') \<and> ready d'))"

lemma take_pages_segment:
  assumes log: "range_log_ok say ready" and "ready (device_state (snd st))" and "reads st bytes" and "program_header_index it < length phs" "phs ! program_header_index it = ph"
    and "segment_ok ph" and "page_index it = of_nat k" "k + n \<le> seg_pages ph"
    and "unat (file_offset ph) + unat (file_size ph) \<le> length bytes"
  shows "\<exists>st'. take_pages say n phs it st = Some (map (seg_page ph bytes) [k..<k + n], it\<lparr>page_index := of_nat (k + n)\<rparr>, st')
    \<and> reads st' bytes"
  using assms(2-)
proof (induction n arbitrary: it st k)
  case 0
  then show ?case by (cases it) simp
next
  case (Suc n)
  obtain d where d: "say (page_start ph k) (page_start ph (Suc k)) (device_state (snd st)) = (Ok (), d)" "ready d"
    using log Suc.prems(1) unfolding range_log_ok_def by blast
  have k: "k < seg_pages ph" using Suc.prems(7) by simp
  obtain st1 where st1: "pages_next say phs it st = (Ok (Some (seg_page ph bytes k), it\<lparr>page_index := of_nat (Suc k)\<rparr>), st1)"
    "reads st1 bytes" and "snd st1 = (snd st)\<lparr>device_state := d\<rparr>"
    using pages_next_page [OF Suc.prems(2-6) k Suc.prems(8), of say d] d(1) by blast
  then have rd: "ready (device_state (snd st1))" using d(2) by simp
  obtain st2 where st2: "take_pages say n phs (it\<lparr>page_index := of_nat (Suc k)\<rparr>) st1
      = Some (map (seg_page ph bytes) [Suc k..<Suc k + n], it\<lparr>page_index := of_nat (Suc k + n)\<rparr>, st2)" "reads st2 bytes"
    using Suc.IH [OF rd st1(2), of "it\<lparr>page_index := of_nat (Suc k)\<rparr>" "Suc k"] Suc.prems by fastforce
  have "[k..<k + Suc n] = k # [Suc k..<Suc k + n]" by (simp add: upt_conv_Cons)
  then show ?case using st1 st2 by (simp del: upt_Suc)
qed

lemma concat_pages:
  "concat (map (\<lambda>k. map f [g k..<g (Suc k)]) [0..<n]) = map f [g 0..<g n]" if "\<And>k. k < n \<Longrightarrow> g k \<le> g (Suc k)"
  for g :: "nat \<Rightarrow> nat"
  using that
proof (induction n)
  case (Suc n)
  have "g 0 \<le> g n" using Suc.prems by (induction n) (auto intro: le_trans)
  then have "[g 0..<g (Suc n)] = [g 0..<g n] @ [g n..<g (Suc n)]"
    using Suc.prems [of n] upt_add_eq_append [of "g 0" "g n" "g (Suc n) - g n"] by simp
  then show ?case using Suc by simp
qed simp

text \<open>
  C24. Loading a segment yields its image. From the start of a loadable segment whose part of the file
  exists, the iterator gives exactly \<open>seg_pages\<close> pages; their addresses are the starts
  of the page ranges, their contents together are the segment's bytes in the file followed
  by zeros up to its size in memory, and the next call goes on with the next header.
\<close>

theorem segment_image:
  assumes log: "range_log_ok say ready" "ready (device_state (snd st))" and "reads st bytes" and "i < length phs" "phs ! i = ph" and "segment_ok ph"
    and "unat (file_offset ph) + unat (file_size ph) \<le> length bytes"
  shows "\<exists>ps it' st'. take_pages say (seg_pages ph) phs \<lparr>program_header_index = i, page_index = 0\<rparr> st = Some (ps, it', st')
    \<and> map (\<lambda>p. unat (as_ptr (lp_address p))) ps = map (\<lambda>k. unat (ph_virtual_address ph) + seg_off ph k) [0..<seg_pages ph]
    \<and> concat (map lp_bytes ps) = map (seg_byte ph bytes) [0..<unat (memory_size ph)]
    \<and> pages_next say phs it' st' = pages_next say phs \<lparr>program_header_index = Suc i, page_index = 0\<rparr> st'"
proof -
  let ?it = "\<lparr>program_header_index = i, page_index = 0\<rparr>" and ?n = "seg_pages ph"
  obtain st' where st': "take_pages say ?n phs ?it st
      = Some (map (seg_page ph bytes) [0..<?n], ?it\<lparr>page_index := of_nat ?n\<rparr>, st')"
    using take_pages_segment [OF assms(1-3), of ?it phs ph 0 ?n] assms(4-7) by auto
  have "concat (map lp_bytes (map (seg_page ph bytes) [0..<?n]))
      = concat (map (\<lambda>k. map (seg_byte ph bytes) [seg_off ph k..<seg_off ph (Suc k)]) [0..<?n])"
    by (simp add: seg_page_def comp_def)
  also have "\<dots> = map (seg_byte ph bytes) [seg_off ph 0..<seg_off ph ?n]"
    by (rule concat_pages) (simp add: seg_off_less less_imp_le)
  also have "\<dots> = map (seg_byte ph bytes) [0..<unat (memory_size ph)]"
    by (simp add: seg_off_end) (simp add: seg_off_def raw_off_def)
  finally have img: "concat (map lp_bytes (map (seg_page ph bytes) [0..<?n])) = map (seg_byte ph bytes) [0..<unat (memory_size ph)]" .
  have "page_range ph (of_nat ?n) = None"
    using page_range_eq [OF assms(6) segment_page_fits [OF assms(6) order_refl]] seg_off_end by simp
  then have "pages_next say phs (?it\<lparr>page_index := of_nat ?n\<rparr>) st' = pages_next say phs \<lparr>program_header_index = Suc i, page_index = 0\<rparr> st'"
    using pages_next_skip [of "?it\<lparr>page_index := of_nat ?n\<rparr>" phs say st'] assms(4,5) by simp
  then show ?thesis
    using st' img unat_va_off [OF assms(6)] by (auto simp: seg_page_def)
qed

text \<open>
  A segment whose file offset lies past the end of the file makes the iterator panic: the seek
  succeeds and the read of the temporary file system slices out of range. A program file can
  so bring down the kernel.
\<close>

lemma segment_offset_panics:
  assumes log: "range_log_ok say ready" "ready (device_state (snd st))" and "reads st bytes" and "i < length phs" "phs ! i = ph" and "segment_ok ph" and "memory_size ph \<noteq> 0"
    and "length bytes < unat (file_offset ph)"
  shows "fst (pages_next say phs \<lparr>program_header_index = i, page_index = 0\<rparr> st) = Panic"
proof -
  let ?fo = "file_offset ph" and ?fe = "min (raw_off ph 1) (unat (file_size ph))"
  have "0 < seg_pages ph"
  proof -
    have "4096 \<le> unat (ph_virtual_address ph) mod 4096 + unat (memory_size ph) + 4095"
      using assms(7) by (simp add: unat_gt_0 Suc_leI le_add2 trans_le_add2)
    then show ?thesis using assms(7) by (simp add: seg_pages_def div_greater_zero_iff)
  qed
  then have ne: "seg_off ph 0 < seg_off ph (Suc 0)" by (rule seg_off_less)
  obtain vrange where pr: "page_range ph 0 = Some ((?fo, ?fo + of_nat ?fe), vrange)"
    using page_range_eq [OF assms(6), of 0] ne by (simp add: raw_off_def)
  obtain d where d: "say (fst vrange) (snd vrange) (device_state (snd st)) = (Ok (), d)"
    using log unfolding range_log_ok_def by blast
  let ?st0 = "(fst st, (snd st)\<lparr>device_state := d\<rparr>)"
  let ?st1 = "((fst st)\<lparr>file_position := ?fo\<rparr>, (snd st)\<lparr>device_state := d\<rparr>)"
  have r0: "reads ?st0 bytes" using assms(3) by simp
  have "unat ?fo + unat (range_len (?fo, ?fo + of_nat ?fe)) < 2 ^ 64"
    using unat_file_off [OF assms(6), of "raw_off ph 1"] u64_lt [of "?fo + of_nat ?fe"] by (simp add: range_len_unat)
  then have "file_read (range_len (?fo, ?fo + of_nat ?fe)) ?st1 = (Panic, ?st1)"
    using file_read_reads [OF seek_in_reads(2) [OF r0, of ?fo]] assms(8) by simp
  then show ?thesis
    using assms(4,5) pr d seek_in_reads(1) [OF r0, of ?fo] by (subst pages_next.simps) (simp add: loadable_range_def)
qed

section \<open>Decoding headers\<close>

text \<open>The encoding that the decoders invert: the fields in order, integers in little-endian bytes.\<close>

definition encode_header :: "elf64_header \<Rightarrow> u8 list" where
  "encode_header h = ident_magic h
     @ [ident_class h, ident_data h, ident_version h, ident_abi h, ident_abi_version h] @ ident_pad h
     @ word_le 2 (object_type h) @ word_le 2 (machine h) @ word_le 4 (eh_version h)
     @ word_le 8 (eh_entry_point h) @ word_le 8 (program_header_offset h) @ word_le 8 (section_header_offset h)
     @ word_le 4 (eh_flags h) @ word_le 2 (header_size h)
     @ word_le 2 (program_header_entry_size h) @ word_le 2 (program_header_entry_count h)
     @ word_le 2 (section_header_entry_size h) @ word_le 2 (section_header_entry_count h)
     @ word_le 2 (section_header_string_index h)"

definition encode_program_header :: "elf64_program_header \<Rightarrow> u8 list" where
  "encode_program_header ph = word_le 4 (segment_type ph) @ word_le 4 (ph_flags ph)
     @ word_le 8 (file_offset ph) @ word_le 8 (ph_virtual_address ph) @ word_le 8 (ph_physical_address ph)
     @ word_le 8 (file_size ph) @ word_le 8 (memory_size ph) @ word_le 8 (alignment ph)"

lemma bytes_at_skip: "length xs \<le> off \<Longrightarrow> bytes_at (xs @ ys) off n = bytes_at ys (off - length xs) n"
  by (simp add: bytes_at_def)

lemma bytes_at_here: "length xs = n \<Longrightarrow> bytes_at (xs @ ys) 0 n = xs"
  by (simp add: bytes_at_def)

lemma le_word_1: "le_word [b :: u8] = b"
  by simp

lemma bytes_at_Cons: "0 < off \<Longrightarrow> bytes_at (x # ys) off n = bytes_at ys (off - 1) n"
  by (cases off) (simp_all add: bytes_at_def)

lemma bytes_at_first: "bytes_at (x # ys) 0 (Suc 0) = [x]"
  by (simp add: bytes_at_def)

lemma bytes_at_last: "length xs = n \<Longrightarrow> bytes_at xs 0 n = xs"
  by (simp add: bytes_at_def)

lemmas decode_simps = field_def bytes_at_skip bytes_at_here bytes_at_Cons bytes_at_first bytes_at_last
  le_word_word_le le_word_1

lemma header_from_encode:
  assumes l: "length (ident_magic h) = 4" "length (ident_pad h) = 7"
  shows "length (encode_header h) = 64" and "header_from (encode_header h) = h"
proof -
  show "length (encode_header h) = 64" using l by (simp add: encode_header_def)
  show "header_from (encode_header h) = h"
    unfolding header_from_def encode_header_def using l
    by (cases h) (simp add: decode_simps del: le_word.simps)
qed

lemma program_header_from_encode: "program_header_from (encode_program_header ph) = ph"
  unfolding program_header_from_def encode_program_header_def
  by (cases ph) (simp add: decode_simps)

text \<open>
  Decoding inverts encoding for both headers: every field is read from its own bytes. So a
  header that a linker wrote is the header the kernel sees.
\<close>

lemma elf_decode_encode:
  "(\<forall>h. length (ident_magic h) = 4 \<longrightarrow> length (ident_pad h) = 7 \<longrightarrow>
      header_try_from (encode_header h) = Ok h)
   \<and> (\<forall>ph. program_header_try_from (encode_program_header ph) = Ok ph)"
proof (intro conjI allI impI)
  fix h :: elf64_header assume l: "length (ident_magic h) = 4" "length (ident_pad h) = 7"
  show "header_try_from (encode_header h) = Ok h"
    using header_from_encode [OF l] by (simp add: header_try_from_def SIZE_HEADER_def)
next
  fix ph :: elf64_program_header
  have "length (encode_program_header ph) = 56" by (simp add: encode_program_header_def)
  then show "program_header_try_from (encode_program_header ph) = Ok ph"
    using program_header_from_encode by (simp add: program_header_try_from_def SIZE_PROGRAM_HEADER_def)
qed

section \<open>Creating a reader\<close>

lemma reads_position: "reads st bytes \<Longrightarrow> reads ((fst st)\<lparr>file_position := p\<rparr>, snd st) bytes"
  by (simp add: reads_def)

lemma read_program_headers_ok:
  assumes "reads st bytes" and "unat (file_position (fst st)) + 56 * n \<le> length bytes"
  shows "\<exists>st'. read_program_headers n st
      = (Ok (map (\<lambda>i. program_header_from (bytes_at bytes (unat (file_position (fst st)) + 56 * i) 56)) [0..<n]), st')
    \<and> reads st' bytes \<and> snd st' = snd st"
  using assms
proof (induction n arbitrary: st)
  case 0
  then show ?case by auto
next
  case (Suc n)
  let ?p = "file_position (fst st)"
  let ?buf = "take 56 (drop (unat ?p) bytes)"
  have lb: "length bytes < 2 ^ 63" using reads_vec_ok [OF Suc.prems(1)] by (simp add: vec_ok_def)
  have len: "length ?buf = 56" using Suc.prems(2) by simp
  let ?st1 = "((fst st)\<lparr>file_position := ?p + 56\<rparr>, snd st)"
  have rd: "file_read 56 st = (Ok ?buf, ?st1)"
    using file_read_reads [OF Suc.prems(1), of 56] Suc.prems(2) lb len by (simp add: vec_len_def)
  have pos: "unat (?p + 56) = unat ?p + 56" using Suc.prems(2) lb by (simp add: unat_add_noof)
  obtain st2 where st2: "read_program_headers n ?st1
      = (Ok (map (\<lambda>i. program_header_from (bytes_at bytes (unat (?p + 56) + 56 * i) 56)) [0..<n]), st2)" "reads st2 bytes" "snd st2 = snd st"
    using Suc.IH [OF reads_position [OF Suc.prems(1)], of "?p + 56"] Suc.prems(2) pos by auto
  have "[0..<Suc n] = 0 # map Suc [0..<n]" by (rule upt_0_Suc)
  then show ?case
    using rd len st2 pos
    by (simp add: program_header_try_from_def SIZE_PROGRAM_HEADER_def bytes_at_def comp_def add.assoc del: upt_Suc)
qed

lemma elf64_reader_new_long:
  assumes "reads st bytes" and "file_position (fst st) = 0" and "64 \<le> length bytes"
  defines "h \<equiv> header_from (take 64 bytes)"
  shows "elf64_reader_new st =
      (if \<not> is_valid h \<or> \<not> is_aarch64 h then (Err (), ((fst st)\<lparr>file_position := vec_len (take 64 bytes)\<rparr>, snd st))
       else and_then (read_program_headers (unat (program_header_entry_count h)) ((fst st)\<lparr>file_position := program_header_offset h\<rparr>, snd st))
           (\<lambda>phs st. (Ok \<lparr>er_header = h, er_program_headers = phs\<rparr>, st)))"
proof -
  let ?buf = "take 64 bytes"
  have rd: "file_read 64 st = (Ok ?buf, ((fst st)\<lparr>file_position := vec_len ?buf\<rparr>, snd st))"
    using file_read_reads [OF assms(1), of 64] assms(2) by simp
  have seek: "seek_in (program_header_offset h) ((fst st)\<lparr>file_position := vec_len ?buf\<rparr>, snd st)
      = (Ok (), ((fst st)\<lparr>file_position := program_header_offset h\<rparr>, snd st))"
    using seek_in_reads(1) [OF reads_position [OF assms(1)], of "program_header_offset h" "vec_len ?buf"] by simp
  show ?thesis
    using assms(3) rd seek by (simp add: elf64_reader_new_def header_try_from_def SIZE_HEADER_def h_def min_def)
qed

text \<open>An executable: its header, and a table of program headers inside the file.\<close>

definition elf_header :: "u8 list \<Rightarrow> elf64_header" where
  "elf_header bytes = header_from (take 64 bytes)"

definition elf_program_headers :: "u8 list \<Rightarrow> elf64_program_header list" where
  "elf_program_headers bytes =
     map (\<lambda>i. program_header_from (bytes_at bytes (unat (program_header_offset (elf_header bytes)) + 56 * i) 56))
       [0..<unat (program_header_entry_count (elf_header bytes))]"

definition elf_ok :: "u8 list \<Rightarrow> bool" where
  "elf_ok bytes \<longleftrightarrow> 64 \<le> length bytes \<and> is_valid (elf_header bytes) \<and> is_aarch64 (elf_header bytes)
     \<and> unat (program_header_offset (elf_header bytes)) + 56 * unat (program_header_entry_count (elf_header bytes)) \<le> length bytes"

lemma elf64_reader_new_ok:
  assumes "reads st bytes" and "file_position (fst st) = 0" and "elf_ok bytes"
  shows "\<exists>st'. elf64_reader_new st = (Ok \<lparr>er_header = elf_header bytes, er_program_headers = elf_program_headers bytes\<rparr>, st')
    \<and> reads st' bytes \<and> snd st' = snd st"
proof -
  let ?h = "elf_header bytes"
  let ?st2 = "((fst st)\<lparr>file_position := program_header_offset ?h\<rparr>, snd st)"
  have a: "64 \<le> length bytes" "is_valid ?h" "is_aarch64 ?h"
    and t: "unat (program_header_offset ?h) + 56 * unat (program_header_entry_count ?h) \<le> length bytes"
    using assms(3) by (simp_all add: elf_ok_def)
  obtain st' where "read_program_headers (unat (program_header_entry_count ?h)) ?st2 = (Ok (elf_program_headers bytes), st')"
      "reads st' bytes" "snd st' = snd st"
    using read_program_headers_ok [OF reads_position [OF assms(1), of "program_header_offset ?h"],
        of "unat (program_header_entry_count ?h)"] t by (auto simp: elf_program_headers_def)
  then show ?thesis
    using elf64_reader_new_long [OF assms(1,2) a(1), folded elf_header_def] a by simp
qed

text \<open>
  What creating a reader does with a freshly opened file. It fails without a panic when the file
  is shorter than a header or its header is not that of a 64-bit little-endian AArch64
  executable. Otherwise, when the program header table lies inside the file, the result is
  a reader with the header and every entry of the table, decoded from its place in the file.
  When the table starts past the end of the file and has entries, the kernel panics.
\<close>

lemma elf64_reader_new_spec:
  assumes "reads st bytes" and "file_position (fst st) = 0"
  defines "h \<equiv> elf_header bytes"
  shows "(length bytes < 64 \<or> \<not> is_valid h \<or> \<not> is_aarch64 h \<longrightarrow> fst (elf64_reader_new st) = Err ())
    \<and> (elf_ok bytes \<longrightarrow> fst (elf64_reader_new st) = Ok \<lparr>er_header = h, er_program_headers = elf_program_headers bytes\<rparr>
       \<and> reads (snd (elf64_reader_new st)) bytes)
    \<and> (64 \<le> length bytes \<and> is_valid h \<and> is_aarch64 h \<and> program_header_entry_count h \<noteq> 0
         \<and> length bytes < unat (program_header_offset h) \<and> unat (program_header_offset h) + 56 < 2 ^ 64 \<longrightarrow>
       fst (elf64_reader_new st) = Panic)"
proof (intro conjI impI)
  note long = elf64_reader_new_long [OF assms(1,2), folded elf_header_def, folded h_def]
  {
    assume a: "length bytes < 64 \<or> \<not> is_valid h \<or> \<not> is_aarch64 h"
    show "fst (elf64_reader_new st) = Err ()"
    proof (cases "length bytes < 64")
      case True
      then show ?thesis
        using file_read_reads [OF assms(1), of 64] assms(2) by (simp add: elf64_reader_new_def header_try_from_def SIZE_HEADER_def)
    next
      case False
      then show ?thesis using long a by auto
    qed
  next
    assume "elf_ok bytes"
    from elf64_reader_new_ok [OF assms(1,2) this]
    show "fst (elf64_reader_new st) = Ok \<lparr>er_header = h, er_program_headers = elf_program_headers bytes\<rparr>"
      "reads (snd (elf64_reader_new st)) bytes" by (auto simp: h_def)
  next
    assume a: "64 \<le> length bytes \<and> is_valid h \<and> is_aarch64 h \<and> program_header_entry_count h \<noteq> 0
         \<and> length bytes < unat (program_header_offset h) \<and> unat (program_header_offset h) + 56 < 2 ^ 64"
    let ?st2 = "((fst st)\<lparr>file_position := program_header_offset h\<rparr>, snd st)"
    obtain n where n: "unat (program_header_entry_count h) = Suc n" using a unat_eq_0 not0_implies_Suc by metis
    have "file_read 56 ?st2 = (Panic, ?st2)"
      using file_read_reads [OF reads_position [OF assms(1)], of "program_header_offset h" 56] a by simp
    then show "fst (elf64_reader_new st) = Panic" using a long n by (simp add: SIZE_PROGRAM_HEADER_def)
  }
qed

section \<open>A concrete executable\<close>

text \<open>A file with the given bytes, freshly opened, in a file system of its own.\<close>

definition state_of :: "u8 list \<Rightarrow> unit file_state" where
  "state_of bytes = (file_new \<lparr>node_fs = 7, node_id = 1, node_type = File\<rparr>,
     \<lparr>store = [7 \<mapsto> TmpfsObj ((tmpfs_one 7)\<lparr>files := (files (tmpfs_one 7))(1 \<mapsto> bytes)\<rparr>)], device_state = ()\<rparr>)"

lemma state_of_reads:
  assumes "vec_ok bytes"
  shows "reads (state_of bytes) bytes" and "file_position (fst (state_of bytes)) = 0"
proof -
  have "tmpfs_wf 7 ((tmpfs_one 7)\<lparr>files := (files (tmpfs_one 7))(1 \<mapsto> bytes)\<rparr>)"
    by (rule tmpfs_set_file_wf [OF tmpfs_one_wf _ assms]) (simp add: tmpfs_one_files)
  then show "reads (state_of bytes) bytes"
    by (auto simp: reads_def state_of_def world_wf_def file_bytes_def file_new_def split: if_splits)
  show "file_position (fst (state_of bytes)) = 0" by (simp add: state_of_def file_new_def)
qed

text \<open>Three bytes of a file, loaded two bytes before a page boundary, and zeros up to 4100 bytes: three pages.\<close>

definition ph0 :: elf64_program_header where
  "ph0 = \<lparr>segment_type = 1, ph_flags = 5, file_offset = 2, ph_virtual_address = 0x400FFE, ph_physical_address = 0,
     file_size = 3, memory_size = 0x1004, alignment = 0x1000\<rparr>"

lemma ph0_ok: "segment_ok ph0" "seg_pages ph0 = 3"
  by (simp_all add: ph0_def segment_ok_def seg_pages_def PROGRAM_HEADER_TYPE_LOAD_def)

lemma quiet_log: "range_log_ok (\<lambda>a b d. (Ok (), d)) (\<lambda>d. True)"
  by (simp add: range_log_ok_def)

theorem page_range_partition_witness:
  "\<exists>frange va_start va_end. page_range ph0 1 = Some (frange, (va_start, va_end)) \<and> unat va_start = 0x401000"
proof -
  have "seg_off ph0 1 = 2" by (simp add: seg_off_def raw_off_def ph0_def)
  moreover have "\<forall>k < seg_pages ph0. \<exists>frange va_start va_end.
      page_range ph0 (of_nat k) = Some (frange, (va_start, va_end))
      \<and> unat va_start = unat (ph_virtual_address ph0) + seg_off ph0 k"
    using page_range_partition [OF ph0_ok(1)] by blast
  from this [rule_format, of 1] have "\<exists>frange va_start va_end. page_range ph0 1 = Some (frange, (va_start, va_end))
      \<and> unat va_start = unat (ph_virtual_address ph0) + seg_off ph0 1"
    using ph0_ok(2) by simp
  ultimately show ?thesis by (simp add: ph0_def)
qed

theorem segment_image_witness:
  "\<exists>ps it' st'. take_pages (\<lambda>a b d. (Ok (), d)) 3 [ph0] \<lparr>program_header_index = 0, page_index = 0\<rparr> (state_of [1, 2, 3, 4, 5]) = Some (ps, it', st')
     \<and> concat (map lp_bytes ps) = map (seg_byte ph0 [1, 2, 3, 4, 5]) [0..<0x1004]"
proof -
  have "vec_ok [1 :: u8, 2, 3, 4, 5]" by (simp add: vec_ok_def)
  from segment_image [OF quiet_log TrueI state_of_reads(1) [OF this] _ _ ph0_ok(1), of 0 "[ph0]"]
  show ?thesis using ph0_ok(2) by (fastforce simp: ph0_def)
qed

lemma segment_offset_panics_witness:
  "fst (pages_next (\<lambda>a b d. (Ok (), d)) [ph0] \<lparr>program_header_index = 0, page_index = 0\<rparr> (state_of [9])) = Panic"
proof -
  have "vec_ok [9 :: u8]" by (simp add: vec_ok_def)
  from segment_offset_panics [OF quiet_log TrueI state_of_reads(1) [OF this] _ _ ph0_ok(1), of 0 "[ph0]"]
  show ?thesis by (simp add: ph0_def)
qed

definition header0 :: elf64_header where
  "header0 = \<lparr>ident_magic = [0x7F, 0x45, 0x4C, 0x46], ident_class = 2, ident_data = 1, ident_version = 1, ident_abi = 0,
     ident_abi_version = 0, ident_pad = replicate 7 0, object_type = 2, machine = 0xB7, eh_version = 1,
     eh_entry_point = 0x400000, program_header_offset = 64, section_header_offset = 0, eh_flags = 0, header_size = 64,
     program_header_entry_size = 56, program_header_entry_count = 1, section_header_entry_size = 64,
     section_header_entry_count = 0, section_header_string_index = 0\<rparr>"

lemma elf_decode_encode_witness: "header_try_from (encode_header header0) = Ok header0"
  using elf_decode_encode by (simp add: header0_def)

definition elf0 :: "u8 list" where
  "elf0 = encode_header header0 @ encode_program_header ph0"

lemma elf0_header: "elf_header elf0 = header0" "length elf0 = 120"
  using header_from_encode [of header0] by (simp_all add: elf_header_def elf0_def header0_def encode_program_header_def)

lemma elf0_ok: "elf_ok elf0" "elf_program_headers elf0 = [ph0]" "vec_ok elf0"
proof -
  have h: "program_header_offset header0 = 64" "program_header_entry_count header0 = 1" by (simp_all add: header0_def)
  have "is_valid header0" "is_aarch64 header0" by (simp_all add: is_valid_def is_aarch64_def header0_def consts_defs)
  then show "elf_ok elf0" using elf0_header h by (simp add: elf_ok_def)
  have l: "length (encode_header header0) = 64" using header_from_encode(1) [of header0] by (simp add: header0_def)
  have "bytes_at elf0 64 56 = encode_program_header ph0"
    using l by (simp add: bytes_at_def elf0_def encode_program_header_def)
  moreover have "program_header_from (encode_program_header ph0) = ph0"
    using program_header_from_encode by simp
  ultimately show "elf_program_headers elf0 = [ph0]" by (simp add: elf_program_headers_def elf0_header h)
  show "vec_ok elf0" by (simp add: vec_ok_def elf0_header)
qed

lemma elf64_reader_new_spec_witness:
  "\<exists>r. fst (elf64_reader_new (state_of elf0)) = Ok r \<and> er_header r = header0 \<and> er_program_headers r = [ph0]"
  using elf64_reader_new_spec [OF state_of_reads [OF elf0_ok(3)]] elf0_ok elf0_header by simp

end
