(* ===== verification/Task_Execution.thy ===== *)
theory Task_Execution
  imports Machine Elf File_Manager
begin

unbundle bit_operations_syntax

text \<open>
  Execution of a program (\<^verbatim>\<open>task/aarch64/task_execution.rs\<close>): the file is opened and read as an executable, its pages are mapped
  into the current task and filled, a stack is mapped, and the core drops to EL0. The state adds the file systems to
  the machine. The result is that the memory of the task becomes the image that the program headers describe.
\<close>

section \<open>State\<close>

text \<open>The devices of the file systems are those of the machine.\<close>

record system =
  sys_machine :: machine
  sys_vfs :: vfs
  sys_store :: "fs_id \<Rightarrow> uart fs_object option"

definition sys_world :: "system \<Rightarrow> uart fs_world" where
  "sys_world sys = \<lparr>store = sys_store sys, device_state = m_uart (sys_machine sys)\<rparr>"

definition put_world :: "uart fs_world \<Rightarrow> system \<Rightarrow> system" where
  "put_world w sys = sys\<lparr>sys_store := store w, sys_machine := (sys_machine sys)\<lparr>m_uart := device_state w\<rparr>\<rparr>"

definition on_file :: "(uart file_state \<Rightarrow> 'a res \<times> uart file_state) \<Rightarrow> open_file \<times> system \<Rightarrow> 'a res \<times> (open_file \<times> system)" where
  "on_file f st = (case f (fst st, sys_world (snd st)) of (r, (file, w)) \<Rightarrow> (r, (file, put_world w (snd st))))"

definition on_machine :: "(machine \<Rightarrow> 'a res \<times> machine) \<Rightarrow> system \<Rightarrow> 'a res \<times> system" where
  "on_machine f sys = (case f (sys_machine sys) of (r, m) \<Rightarrow> (r, sys\<lparr>sys_machine := m\<rparr>))"

text \<open>The address space of a task is a field of the task, which the scheduler holds.\<close>

definition set_space :: "task_id \<Rightarrow> mm_state \<Rightarrow> memory_context \<Rightarrow> kernel \<Rightarrow> kernel" where
  "set_space t s c k = k\<lparr>k_mm := s,
     k_sched := (k_sched k)\<lparr>tasks := (tasks (k_sched k))(t := map_option (\<lambda>x. x\<lparr>mem_context := c\<rparr>) (tasks (k_sched k) t))\<rparr>\<rparr>"

definition on_space :: "task_id \<Rightarrow> (mc_state \<Rightarrow> 'a res \<times> mc_state) \<Rightarrow> kernel \<Rightarrow> 'a res \<times> kernel" where
  "on_space t f k =
     (case tasks (k_sched k) t of
        None \<Rightarrow> (Panic, k)
      | Some x \<Rightarrow> (case f (k_mm k, mem_context x) of (r, (s, c)) \<Rightarrow> (r, set_space t s c k)))"

section \<open>Operations\<close>

definition SPSR_EL1_M_EL0T :: u64 where
  [consts_defs]: "SPSR_EL1_M_EL0T = 0b0000"

definition SPSR_EL1_INIT_EL0 :: u64 where
  [consts_defs]: "SPSR_EL1_INIT_EL0 = SPSR_EL1_M_EL0T"

definition STACK_INIT :: usize where
  [consts_defs]: "STACK_INIT = 0x80000000"

text \<open>
  \<^verbatim>\<open>execute\<close> does not return when it succeeds: the result is then what the registers are at the \<^verbatim>\<open>eret\<close> of \<^verbatim>\<open>enter_el0\<close>.
\<close>

record user_entry =
  ue_elr_el1 :: u64
  ue_spsr_el1 :: u64
  ue_sp_el0 :: u64

definition enter_el0 :: "u64 \<Rightarrow> u64 \<Rightarrow> user_entry" where
  "enter_el0 entry stack = \<lparr>ue_elr_el1 = entry, ue_spsr_el1 = SPSR_EL1_INIT_EL0, ue_sp_el0 = stack\<rparr>"

definition copy_to_current :: "u8 list \<Rightarrow> UserAddress \<Rightarrow> kernel \<Rightarrow> unit res \<times> kernel" where
  "copy_to_current src dst k = (case copy_to_user (ttbr0_el1 (k_core k)) src dst (k_mm k) of (r, s) \<Rightarrow> (r, k\<lparr>k_mm := s\<rparr>))"

text \<open>The line that the iterator prints for a page, on the log of the machine.\<close>

definition log_range :: "machine \<Rightarrow> uart range_log" where
  "log_range m a b u = println_pieces (m_log m) (timer (k_core (m_kernel m)))
     [fmt_hex (unat a), ascii ''..'', fmt_hex (unat b), ascii [CHR 0x0A]] u"

text \<open>The body of the loop, and the loop.\<close>

definition load_user_page :: "task_id \<Rightarrow> loadable_page \<Rightarrow> kernel \<Rightarrow> unit res \<times> kernel" where
  "load_user_page t p k =
     and_then (on_space t (alloc_page (lp_address p)) k) (\<lambda>_ k. copy_to_current (lp_bytes p) (lp_address p) k)"

partial_function (option) load_loop :: "task_id \<Rightarrow> elf64_program_header list \<Rightarrow> loadable_pages \<Rightarrow> open_file \<times> system
    \<Rightarrow> (unit res \<times> (open_file \<times> system)) option" where
  "load_loop t phs it st =
     (case on_file (pages_next (log_range (sys_machine (snd st))) phs it) st of
        (Ok (None, it'), st) \<Rightarrow> Some (Ok (), st)
      | (Ok (Some p, it'), st) \<Rightarrow>
          (case on_machine (on_kernel (load_user_page t p)) (snd st) of
             (Ok _, sys) \<Rightarrow> load_loop t phs it' (fst st, sys)
           | (r, sys) \<Rightarrow> Some (r, (fst st, sys)))
      | (Err e, st) \<Rightarrow> Some (Err e, st)
      | (Panic, st) \<Rightarrow> Some (Panic, st)
      | (Hang, st) \<Rightarrow> Some (Hang, st))"

declare load_loop.simps [code]

definition run_loop :: "(unit res \<times> 's) option \<Rightarrow> 's \<Rightarrow> unit res \<times> 's" where
  "run_loop r st = (case r of None \<Rightarrow> (Hang, st) | Some x \<Rightarrow> x)"

definition execute_file :: "task \<Rightarrow> open_file \<times> system \<Rightarrow> user_entry res \<times> (open_file \<times> system)" where
  "execute_file task st =
     and_then (on_file elf64_reader_new st) (\<lambda>reader st.
     and_then (run_loop (load_loop (tid task) (er_program_headers reader) loadable_pages_new st) st) (\<lambda>_ st.
     case on_machine (on_kernel (on_space (tid task) (alloc_page (UserAddress_sub PAGE_SIZE (UserAddress STACK_INIT) 1)))) (snd st) of
       (r, sys) \<Rightarrow> and_then (r, (fst st, sys)) (\<lambda>_ st. (Ok (enter_el0 (entry_point reader) STACK_INIT), st))))"

definition execute :: "path_info \<Rightarrow> system \<Rightarrow> user_entry res \<times> system" where
  "execute path sys =
     and_then (on_machine the_current_task sys) (\<lambda>task sys.
     and_then (fm_open (sys_vfs sys) (sys_world sys) path, sys) (\<lambda>file sys.
       case execute_file task (file, sys) of (r, (_, sys)) \<Rightarrow> (r, sys)))"

section \<open>One page\<close>

lemma set_space_simps [simp]:
  "k_mm (set_space t s c k) = s" "k_core (set_space t s c k) = k_core k" "task_counter (set_space t s c k) = task_counter k"
  "set_space t s' c' (set_space t s c k) = set_space t s' c' k"
  "(set_space t s c k)\<lparr>k_mm := s'\<rparr> = set_space t s' c k"
  by (simp_all add: set_space_def option.map_comp comp_def)

lemma on_space_set:
  assumes "tasks (k_sched k) t = Some x"
  shows "on_space t f (set_space t s c k) = (case f (s, c) of (r, (s, c)) \<Rightarrow> (r, set_space t s c k))"
proof -
  have "tasks (k_sched (set_space t s c k)) t = Some (x\<lparr>mem_context := c\<rparr>)" using assms by (simp add: set_space_def)
  then show ?thesis by (simp add: on_space_def)
qed

text \<open>What loading a page does to the memory of the task.\<close>

definition spec_load_page :: "loadable_page \<Rightarrow> (usize \<Rightarrow> u8 option) \<Rightarrow> usize \<Rightarrow> u8 option" where
  "spec_load_page p m = spec_copy (as_ptr (lp_address p)) (lp_bytes p) (spec_zero_page (unat (as_ptr (lp_address p)) div 4096) m)"

text \<open>The chunk lies in one page of the lower half.\<close>

definition page_chunk :: "loadable_page \<Rightarrow> bool" where
  "page_chunk p \<longleftrightarrow> unat (as_ptr (lp_address p)) < 2 ^ 48
     \<and> unat (as_ptr (lp_address p)) mod 4096 + length (lp_bytes p) \<le> 4096"

lemma page_chunk_range:
  assumes "page_chunk p"
  shows "unat (as_ptr (lp_address p)) + length (lp_bytes p) \<le> 2 ^ 48"
    and "i < length (lp_bytes p) \<Longrightarrow> unat (as_ptr (lp_address p) + of_nat i) div 4096 = unat (as_ptr (lp_address p)) div 4096"
proof -
  let ?v = "unat (as_ptr (lp_address p))"
  have v: "?v < 2 ^ 48" "?v mod 4096 + length (lp_bytes p) \<le> 4096" using assms by (simp_all add: page_chunk_def)
  have d: "?v = 4096 * (?v div 4096) + ?v mod 4096" by simp
  have "?v div 4096 < 2 ^ 36" using v(1) by (simp add: div_less_iff_less_mult)
  then have "4096 * (?v div 4096) + 4096 \<le> 2 ^ 48" by simp
  then show le: "?v + length (lp_bytes p) \<le> 2 ^ 48" using v(2) d by linarith
  show "unat (as_ptr (lp_address p) + of_nat i) div 4096 = ?v div 4096" if "i < length (lp_bytes p)"
  proof -
    have "unat (as_ptr (lp_address p) + of_nat i) = ?v + i" using that le by (simp add: unat_add_noof unat_of_nat64)
    moreover have "?v mod 4096 + i < 4096" using that v(2) by simp
    moreover have "?v + i = 4096 * (?v div 4096) + (?v mod 4096 + i)" using d by linarith
    moreover have "(4096 * q + r) div 4096 = q" if "r < 4096" for q r :: nat using that by simp
    ultimately show ?thesis by (simp only:)
  qed
qed

text \<open>The address space while a program is loaded: well-formed, with room for \<open>n\<close> more pages.\<close>

definition loading :: "nat \<Rightarrow> mc_state \<Rightarrow> bool" where
  "loading n st \<longleftrightarrow> image_wf st \<and> pa_fits (page_alloc_state (fst st)) \<and> room n (page_alloc_state (fst st))"

definition space_step :: "mc_state \<Rightarrow> mc_state \<Rightarrow> bool" where
  "space_step st st' \<longleftrightarrow> mc_frame st st' \<and> asid_counter (fst st') = asid_counter (fst st)"

lemma space_step_trans: "space_step a b \<Longrightarrow> space_step b c \<Longrightarrow> space_step a c"
  by (auto simp: space_step_def intro: mc_frame_trans)

lemma space_step_refl [simp]: "space_step a a"
  by (simp add: space_step_def)

lemma space_step_ttbr: "space_step (s, c) (s', c') \<Longrightarrow> mc_ttbr c' = mc_ttbr c"
  by (simp add: space_step_def mc_frame_def mc_ttbr_def)

lemma alloc_page_loading:
  assumes "loading (4 + n) (s, c)" and "unat va < 2 ^ 48"
  obtains p s' c' where "alloc_page (UserAddress va) (s, c) = (Ok p, (s', c'))" "loading n (s', c')"
    "space_step (s, c) (s', c')" "user_mem s' c' = spec_zero_page (unat va div 4096) (user_mem s c)"
proof -
  have w: "image_wf (s, c)" "pa_fits (page_alloc_state s)" "room (4 + n) (page_alloc_state s)"
    using assms(1) by (simp_all add: loading_def)
  obtain r s' c' where e: "alloc_page (UserAddress va) (s, c) = (r, (s', c'))" by (metis prod.collapse)
  note a = alloc_page_image [OF w(1,2) assms(2) e]
  have "room 4 (page_alloc_state s)" using w(3) by (fastforce simp: room_def)
  from a(7) [OF this] obtain p where r: "r = Ok p" by blast
  have "mc_frame (s, c) (s', c')" using alloc_page_frame [OF image_wfD(1) [OF w(1)] w(2) e] by blast
  then show thesis using that [of p s' c'] e r a(1,2,4,5,6) w(3) by (simp add: loading_def space_step_def)
qed

lemma load_user_page_ok:
  assumes "tasks (k_sched k) t = Some x" and "loading (4 + n) (s, c)" and "page_chunk p" and "ttbr0_el1 (k_core k) = mc_ttbr c"
  shows "\<exists>s' c'. load_user_page t p (set_space t s c k) = (Ok (), set_space t s' c' k) \<and> loading n (s', c')
    \<and> space_step (s, c) (s', c') \<and> user_mem s' c' = spec_load_page p (user_mem s c)"
proof -
  let ?va = "as_ptr (lp_address p)"
  have va: "unat ?va < 2 ^ 48" using assms(3) by (simp add: page_chunk_def)
  obtain q s1 c1 where a: "alloc_page (UserAddress ?va) (s, c) = (Ok q, (s1, c1))" "loading n (s1, c1)" "space_step (s, c) (s1, c1)"
      "user_mem s1 c1 = spec_zero_page (unat ?va div 4096) (user_mem s c)"
    by (rule alloc_page_loading [OF assms(2) va])
  have "user_range s1 c1 ?va (length (lp_bytes p))"
    using page_chunk_range [OF assms(3)] by (simp add: user_range_def a(4) spec_zero_page_def)
  then obtain m where m: "copy_to_user (mc_ttbr c1) (lp_bytes p) (UserAddress ?va) s1 = (Ok (), s1\<lparr>kmem := m\<rparr>)"
      "image_wf (s1\<lparr>kmem := m\<rparr>, c1)" "mc_frame (s1, c1) (s1\<lparr>kmem := m\<rparr>, c1)"
      "user_mem (s1\<lparr>kmem := m\<rparr>) c1 = spec_copy ?va (lp_bytes p) (user_mem s1 c1)"
    using copy_to_user_image [of s1 c1 ?va "lp_bytes p"] a(2) by (auto simp: loading_def)
  have "load_user_page t p (set_space t s c k) = (Ok (), set_space t (s1\<lparr>kmem := m\<rparr>) c1 k)"
    using a(1) m(1) space_step_ttbr [OF a(3)] assms(4)
    by (simp add: load_user_page_def on_space_set [OF assms(1)] copy_to_current_def)
  moreover have "loading n (s1\<lparr>kmem := m\<rparr>, c1)" using a(2) m(2) by (simp add: loading_def)
  moreover have "space_step (s, c) (s1\<lparr>kmem := m\<rparr>, c1)"
    using a(3) m(3) by (auto simp: space_step_def intro: mc_frame_trans)
  ultimately show ?thesis using m(4) a(4) by (auto simp: spec_load_page_def)
qed

section \<open>One segment\<close>

text \<open>
  What loading a segment does to the memory of the task: its bytes are there, from the file or zero, and the rest of the
  pages it touches, where there was nothing, is zero.
\<close>

definition segment_prefix :: "u8 list \<Rightarrow> elf64_program_header \<Rightarrow> nat \<Rightarrow> (usize \<Rightarrow> u8 option) \<Rightarrow> usize \<Rightarrow> u8 option" where
  "segment_prefix bytes ph k m = (\<lambda>x.
     let va = unat (ph_virtual_address ph) in
     if va \<le> unat x \<and> unat x < va + seg_off ph k then Some (seg_byte ph bytes (unat x - va))
     else if va div 4096 \<le> unat x div 4096 \<and> unat x div 4096 < va div 4096 + k then Some (case m x of None \<Rightarrow> 0 | Some b \<Rightarrow> b)
     else m x)"

definition spec_load_segment :: "u8 list \<Rightarrow> elf64_program_header \<Rightarrow> (usize \<Rightarrow> u8 option) \<Rightarrow> usize \<Rightarrow> u8 option" where
  "spec_load_segment bytes ph m = segment_prefix bytes ph (seg_pages ph) m"

lemma seg_prefix_page:
  assumes "k \<le> seg_pages ph" and "unat (ph_virtual_address ph) \<le> x" and "x < unat (ph_virtual_address ph) + seg_off ph k"
  shows "x div 4096 < unat (ph_virtual_address ph) div 4096 + k"
proof (cases k)
  case 0
  then show ?thesis using assms(3) by (simp add: seg_off_def raw_off_def assms(2) leD)
next
  case (Suc j)
  have "x div 4096 \<le> (unat (ph_virtual_address ph) + seg_off ph (Suc j) - 1) div 4096"
    using assms(3) Suc by (intro div_le_mono) simp
  also have "\<dots> = unat (ph_virtual_address ph) div 4096 + j" using assms(1) Suc by (intro seg_page_number(2)) simp
  finally show ?thesis using Suc by simp
qed

lemma segment_prefix_Suc:
  assumes ok: "segment_ok ph" and k: "k < seg_pages ph"
  shows "spec_load_page (seg_page ph bytes k) (segment_prefix bytes ph k m) = segment_prefix bytes ph (Suc k) m"
proof (rule ext)
  fix x :: usize
  let ?v = "unat (ph_virtual_address ph)" and ?p = "seg_page ph bytes k"
  let ?s = "seg_off ph k" and ?e = "seg_off ph (Suc k)"
  have lt: "?s < ?e" by (rule seg_off_less [OF k])
  have va: "unat (as_ptr (lp_address ?p)) = ?v + ?s" using unat_va_off [OF ok] by (simp add: seg_page_def)
  have pg: "(?v + ?s) div 4096 = ?v div 4096 + k" by (rule seg_page_number(1) [OF k])
  have fit: "?v + ?e < 2 ^ 64" using unat_va_off [OF ok, of "Suc k"] u64_lt [of "ph_virtual_address ph + of_nat ?e"] by simp
  have len: "length (lp_bytes ?p) = ?e - ?s" by (simp add: seg_page_def)
  have rng: "unat (x - as_ptr (lp_address ?p)) < ?e - ?s \<longleftrightarrow> ?v + ?s \<le> unat x \<and> unat x < ?v + ?e"
    using va fit lt by (subst word_diff_less_iff) auto
  have off: "unat (x - as_ptr (lp_address ?p)) = unat x - (?v + ?s)" if "?v + ?s \<le> unat x"
    using that va by (simp add: unat_sub_noof)
  show "spec_load_page ?p (segment_prefix bytes ph k m) x = segment_prefix bytes ph (Suc k) m x"
  proof (cases "?v + ?s \<le> unat x \<and> unat x < ?v + ?e")
    case True
    then have i: "unat x - (?v + ?s) < ?e - ?s" by linarith
    have "lp_bytes ?p ! (unat x - (?v + ?s)) = seg_byte ph bytes (unat x - ?v)"
      using i True by (simp add: seg_page_def)
    then show ?thesis using True rng off len by (simp add: spec_load_page_def spec_copy_def segment_prefix_def Let_def)
  next
    case out: False
    then have copy: "spec_load_page ?p (segment_prefix bytes ph k m) x = spec_zero_page (?v div 4096 + k) (segment_prefix bytes ph k m) x"
      using rng len va pg by (auto simp: spec_load_page_def spec_copy_def)
    show ?thesis
    proof (cases "?v \<le> unat x \<and> unat x < ?v + ?s")
      case True
      then have "unat x div 4096 < ?v div 4096 + k" by (intro seg_prefix_page) (use k in auto)
      then show ?thesis using True lt unfolding copy by (simp add: spec_zero_page_def segment_prefix_def Let_def)
    next
      case False
      then have "\<not> (?v \<le> unat x \<and> unat x < ?v + ?e)" using out by linarith
      then show ?thesis using False unfolding copy by (auto simp: spec_zero_page_def segment_prefix_def Let_def)
    qed
  qed
qed

lemma segment_pages_fold:
  assumes "segment_ok ph"
  shows "k \<le> seg_pages ph \<Longrightarrow> fold spec_load_page (map (seg_page ph bytes) [0..<k]) m = segment_prefix bytes ph k m"
proof (induction k)
  case 0
  show ?case by (rule ext) (auto simp: segment_prefix_def Let_def seg_off_def raw_off_def)
next
  case (Suc k)
  then show ?case using segment_prefix_Suc [OF assms, of k] by simp
qed

text \<open>A segment that can be loaded: well-formed, in the lower half, with its bytes in the file.\<close>

definition seg_loadable :: "u8 list \<Rightarrow> elf64_program_header \<Rightarrow> bool" where
  "seg_loadable bytes ph \<longleftrightarrow> segment_ok ph \<and> unat (ph_virtual_address ph) + unat (memory_size ph) \<le> 2 ^ 48
     \<and> unat (file_offset ph) + unat (file_size ph) \<le> length bytes"

lemma seg_page_chunk:
  assumes "seg_loadable bytes ph" and k: "k < seg_pages ph"
  shows "page_chunk (seg_page ph bytes k)"
proof -
  let ?v = "unat (ph_virtual_address ph)" and ?s = "seg_off ph k" and ?e = "seg_off ph (Suc k)"
  have ok: "segment_ok ph" and lo: "?v + unat (memory_size ph) \<le> 2 ^ 48" using assms(1) by (simp_all add: seg_loadable_def)
  have lt: "?s < ?e" by (rule seg_off_less [OF k])
  have e: "?e \<le> unat (memory_size ph)" by (simp add: seg_off_def)
  have va: "unat (as_ptr (lp_address (seg_page ph bytes k))) = ?v + ?s" using unat_va_off [OF ok] by (simp add: seg_page_def)
  have d: "(?v + ?s) div 4096 = (?v + ?e - 1) div 4096" using seg_page_number [OF k] by simp
  have "?v + ?e - 1 < 4096 * ((?v + ?e - 1) div 4096) + 4096"
    using mod_less_divisor [of 4096 "?v + ?e - 1"] by (simp add: mult_div_mod_eq [symmetric, of "?v + ?e - 1" 4096])
  moreover have "?v + ?s = 4096 * ((?v + ?s) div 4096) + (?v + ?s) mod 4096" by simp
  ultimately have "(?v + ?s) mod 4096 + (?e - ?s) \<le> 4096" using d lt by linarith
  then show ?thesis using va lo lt e by (simp add: page_chunk_def seg_page_def)
qed

section \<open>All segments\<close>

definition at_space :: "system \<Rightarrow> task_id \<Rightarrow> mm_state \<Rightarrow> memory_context \<Rightarrow> system" where
  "at_space sys t s c = sys\<lparr>sys_machine := (sys_machine sys)\<lparr>m_kernel := set_space t s c (m_kernel (sys_machine sys))\<rparr>\<rparr>"

lemma at_space_simps [simp]:
  "sys_world (at_space sys t s c) = sys_world sys" "put_world (sys_world sys) (at_space sys t s c) = at_space sys t s c"
  "m_kernel (sys_machine (at_space sys t s c)) = set_space t s c (m_kernel (sys_machine sys))"
  "sys_vfs (at_space sys t s c) = sys_vfs sys"
  by (simp_all add: sys_world_def put_world_def at_space_def)

lemma on_machine_space:
  "on_machine (on_kernel f) (at_space sys t s c)
     = (case f (set_space t s c (m_kernel (sys_machine sys))) of (r, k) \<Rightarrow> (r, sys\<lparr>sys_machine := (sys_machine sys)\<lparr>m_kernel := k\<rparr>\<rparr>))"
  by (simp add: on_machine_def on_kernel_def at_space_def split: prod.split)

text \<open>Two systems that differ in the output only.\<close>

definition sys_printed :: "bytes \<Rightarrow> system \<Rightarrow> system \<Rightarrow> bool" where
  "sys_printed bs sys sys' \<longleftrightarrow> (\<exists>m'. printed bs (sys_machine sys) m' \<and> sys' = sys\<lparr>sys_machine := m'\<rparr>)"

lemma sys_printedD:
  assumes "sys_printed bs sys sys'"
  shows "m_kernel (sys_machine sys') = m_kernel (sys_machine sys)" "sent (sys_machine sys') = sent (sys_machine sys) @ bs"
    "runs_task (sys_machine sys') x \<longleftrightarrow> runs_task (sys_machine sys) x"
    "sys_vfs sys' = sys_vfs sys" "sys_store sys' = sys_store sys"
    "m_log (sys_machine sys') = m_log (sys_machine sys)" "uart_ready (m_uart (sys_machine sys')) = uart_ready (m_uart (sys_machine sys))"
    "m_heap (sys_machine sys') = m_heap (sys_machine sys)" "m_intc (sys_machine sys') = m_intc (sys_machine sys)"
  using assms printedD printed_runs by (auto simp: sys_printed_def)

lemma sys_printed_refl: "sys_printed [] sys sys"
proof -
  have "printed [] (sys_machine sys) (sys_machine sys)" by (auto simp: printed_def intro!: exI [of _ "lsr_reads (m_uart (sys_machine sys))"])
  then show ?thesis by (auto simp: sys_printed_def intro!: exI [of _ "sys_machine sys"])
qed

lemma sys_printed_trans: "sys_printed as r s \<Longrightarrow> sys_printed bs s t \<Longrightarrow> sys_printed (as @ bs) r t"
  by (auto simp: sys_printed_def printed_def)

text \<open>The fixed part of a run of the loader: the task runs, and the log works and shows time \<open>tm\<close>.\<close>

definition loader :: "system \<Rightarrow> task \<Rightarrow> duration \<Rightarrow> bool" where
  "loader sys x tm \<longleftrightarrow> tasks (k_sched (m_kernel (sys_machine sys))) (tid x) = Some x
     \<and> ttbr0_el1 (k_core (m_kernel (sys_machine sys))) = mc_ttbr (mem_context x)
     \<and> m_log (sys_machine sys) = serial_log \<and> uart_ready (m_uart (sys_machine sys))
     \<and> monotonic (timer (k_core (m_kernel (sys_machine sys)))) = Ok tm"

lemma loader_printed: "sys_printed bs sys sys' \<Longrightarrow> loader sys' x tm \<longleftrightarrow> loader sys x tm"
  by (simp add: loader_def sys_printedD)

text \<open>What is printed for a page, and for a list of segments.\<close>

definition range_line :: "duration \<Rightarrow> elf64_program_header \<Rightarrow> nat \<Rightarrow> bytes" where
  "range_line tm ph k = concat (timestamp tm) @ fmt_hex (unat (page_start ph k)) @ ascii ''..'' @ fmt_hex (unat (page_start ph (Suc k)))
     @ ascii [CHR 0x0A]"

definition segment_lines :: "duration \<Rightarrow> elf64_program_header \<Rightarrow> bytes" where
  "segment_lines tm ph = concat (map (range_line tm ph) [0..<seg_pages ph])"

lemma log_range_prints:
  assumes "loader sys x tm"
  shows "\<exists>u sys'. log_range (sys_machine (at_space sys t s c)) (page_start ph k) (page_start ph (Suc k)) (device_state (sys_world sys)) = (Ok (), u)
    \<and> sys_printed (range_line tm ph k) sys sys' \<and> sys_world sys' = (sys_world sys)\<lparr>device_state := u\<rparr>
    \<and> (\<forall>s' c'. put_world ((sys_world sys)\<lparr>device_state := u\<rparr>) (at_space sys t s' c') = at_space sys' t s' c')"
proof -
  let ?u = "m_uart (sys_machine sys)"
  have l: "m_log (sys_machine sys) = serial_log" "uart_ready ?u" "monotonic (timer (k_core (m_kernel (sys_machine sys)))) = Ok tm"
    using assms by (simp_all add: loader_def)
  obtain j where j: "println_pieces serial_log (timer (k_core (m_kernel (sys_machine sys))))
      [fmt_hex (unat (page_start ph k)), ascii ''..'', fmt_hex (unat (page_start ph (Suc k))), ascii [CHR 0x0A]] ?u
      = (Ok (), ?u\<lparr>lsr_reads := j, tx := tx ?u @ range_line tm ph k\<rparr>)"
    using println_serial [OF l(2,3), of "[fmt_hex (unat (page_start ph k)), ascii ''..'', fmt_hex (unat (page_start ph (Suc k))), ascii [CHR 0x0A]]"]
    by (auto simp: range_line_def)
  let ?v = "?u\<lparr>lsr_reads := j, tx := tx ?u @ range_line tm ph k\<rparr>"
  let ?sys = "sys\<lparr>sys_machine := (sys_machine sys)\<lparr>m_uart := ?v\<rparr>\<rparr>"
  have "log_range (sys_machine (at_space sys t s c)) (page_start ph k) (page_start ph (Suc k)) (device_state (sys_world sys)) = (Ok (), ?v)"
    using j l(1) by (simp add: log_range_def at_space_def set_space_def sys_world_def)
  moreover have "sys_printed (range_line tm ph k) sys ?sys" by (auto simp: sys_printed_def printed_def)
  moreover have "sys_world ?sys = (sys_world sys)\<lparr>device_state := ?v\<rparr>" by (simp add: sys_world_def)
  moreover have "put_world ((sys_world sys)\<lparr>device_state := ?v\<rparr>) (at_space sys t s' c') = at_space ?sys t s' c'" for s' c'
    by (simp add: put_world_def sys_world_def at_space_def)
  ultimately show ?thesis by blast
qed

text \<open>A state of the loader, with room for \<open>n\<close> pages.\<close>

definition loaded :: "system \<Rightarrow> task \<Rightarrow> u8 list \<Rightarrow> nat \<Rightarrow> open_file \<Rightarrow> mm_state \<Rightarrow> memory_context \<Rightarrow> bool" where
  "loaded sys x bytes n f s c \<longleftrightarrow> reads (f, sys_world sys) bytes \<and> loading n (s, c)
     \<and> space_step (k_mm (m_kernel (sys_machine sys)), mem_context x) (s, c)"

lemma load_loop_skip:
  assumes "i < length phs" and "page_range (phs ! i) k = None"
  shows "load_loop t phs \<lparr>program_header_index = i, page_index = k\<rparr> st = load_loop t phs \<lparr>program_header_index = Suc i, page_index = 0\<rparr> st"
proof -
  have "pages_next say phs \<lparr>program_header_index = i, page_index = k\<rparr>
      = (pages_next say phs \<lparr>program_header_index = Suc i, page_index = 0\<rparr> :: uart file_state \<Rightarrow> _)" for say
    using pages_next_skip [of "\<lparr>program_header_index = i, page_index = k\<rparr>" phs say] assms by (intro ext) simp
  then show ?thesis by (subst (1 2) load_loop.simps) (simp only:)
qed

text \<open>One state of the loader goes on from another: it has printed \<open>bs\<close>, and the loop is where the iterator says.\<close>

definition loop_goes_on :: "task \<Rightarrow> elf64_program_header list \<Rightarrow> u8 list \<Rightarrow> nat \<Rightarrow> loadable_pages \<Rightarrow> system \<Rightarrow> open_file \<Rightarrow> mm_state \<Rightarrow> memory_context
    \<Rightarrow> loadable_pages \<Rightarrow> bytes \<Rightarrow> system \<Rightarrow> open_file \<Rightarrow> mm_state \<Rightarrow> memory_context \<Rightarrow> bool" where
  "loop_goes_on x phs bytes n it sys f s c it' bs sys' f' s' c' \<longleftrightarrow>
     load_loop (tid x) phs it (f, at_space sys (tid x) s c) = load_loop (tid x) phs it' (f', at_space sys' (tid x) s' c')
     \<and> sys_printed bs sys sys' \<and> loaded sys' x bytes n f' s' c'"

lemma load_loop_page:
  assumes ld: "loader sys x tm" and l: "loaded sys x bytes (4 + n) f s c"
    and i: "i < length phs" "phs ! i = ph" and ok: "seg_loadable bytes ph" and k: "k < seg_pages ph"
  shows "\<exists>sys' f' s' c'. loop_goes_on x phs bytes n \<lparr>program_header_index = i, page_index = of_nat k\<rparr> sys f s c
      \<lparr>program_header_index = i, page_index = of_nat (Suc k)\<rparr> (range_line tm ph k) sys' f' s' c'
    \<and> user_mem s' c' = spec_load_page (seg_page ph bytes k) (user_mem s c)"
proof -
  let ?it = "\<lparr>program_header_index = i, page_index = of_nat k\<rparr>" and ?k = "m_kernel (sys_machine sys)"
  have r: "reads (f, sys_world sys) bytes" and lg: "loading (4 + n) (s, c)" and st: "space_step (k_mm ?k, mem_context x) (s, c)"
    using l by (simp_all add: loaded_def)
  have so: "segment_ok ph" "unat (file_offset ph) + unat (file_size ph) \<le> length bytes" using ok by (simp_all add: seg_loadable_def)
  let ?say = "log_range (sys_machine (at_space sys (tid x) s c))"
  obtain u sys' where say: "?say (page_start ph k) (page_start ph (Suc k)) (device_state (sys_world sys)) = (Ok (), u)"
      and sp: "sys_printed (range_line tm ph k) sys sys'" "sys_world sys' = (sys_world sys)\<lparr>device_state := u\<rparr>"
      and pw: "\<And>s' c'. put_world ((sys_world sys)\<lparr>device_state := u\<rparr>) (at_space sys (tid x) s' c') = at_space sys' (tid x) s' c'"
    using log_range_prints [OF ld] by blast
  obtain st' where p: "pages_next ?say phs ?it (f, sys_world sys) = (Ok (Some (seg_page ph bytes k), ?it\<lparr>page_index := of_nat (Suc k)\<rparr>), st')"
      "reads st' bytes" "snd st' = (sys_world sys)\<lparr>device_state := u\<rparr>"
    using pages_next_page [OF r, of ?it phs ph k ?say u] i so k say by auto
  note kn = sys_printedD(1) [OF sp(1)]
  have t: "tasks (k_sched ?k) (tid x) = Some x" and tt: "ttbr0_el1 (k_core ?k) = mc_ttbr c"
    using ld space_step_ttbr [OF st] by (simp_all add: loader_def)
  obtain s' c' where lp: "load_user_page (tid x) (seg_page ph bytes k) (set_space (tid x) s c ?k) = (Ok (), set_space (tid x) s' c' ?k)"
      "loading n (s', c')" "space_step (s, c) (s', c')" "user_mem s' c' = spec_load_page (seg_page ph bytes k) (user_mem s c)"
    using load_user_page_ok [OF t lg seg_page_chunk [OF ok k] tt] by blast
  have of: "on_file (pages_next ?say phs ?it) (f, at_space sys (tid x) s c)
      = (Ok (Some (seg_page ph bytes k), ?it\<lparr>page_index := of_nat (Suc k)\<rparr>), (fst st', at_space sys' (tid x) s c))"
    using p(1,3) pw by (cases st') (simp add: on_file_def)
  have om: "on_machine (on_kernel (load_user_page (tid x) (seg_page ph bytes k))) (at_space sys' (tid x) s c) = (Ok (), at_space sys' (tid x) s' c')"
    unfolding on_machine_space kn lp(1) by (simp add: at_space_def kn)
  have "load_loop (tid x) phs ?it (f, at_space sys (tid x) s c)
      = load_loop (tid x) phs (?it\<lparr>page_index := of_nat (Suc k)\<rparr>) (fst st', at_space sys' (tid x) s' c')"
    by (subst load_loop.simps) (simp add: of om)
  moreover have "loaded sys' x bytes n (fst st') s' c'"
    using p(2,3) lp(2) space_step_trans [OF st lp(3)] sp(2) kn by (cases st') (simp add: loaded_def)
  ultimately show ?thesis using lp(4) sp(1) unfolding loop_goes_on_def by auto
qed

lemma load_loop_segment:
  assumes i: "i < length phs" "phs ! i = ph" and ok: "seg_loadable bytes ph"
  shows "k \<le> seg_pages ph \<Longrightarrow> loader sys x tm \<Longrightarrow> loaded sys x bytes (4 * (seg_pages ph - k) + n) f s c \<Longrightarrow>
    \<exists>sys' f' s' c'. loop_goes_on x phs bytes n \<lparr>program_header_index = i, page_index = of_nat k\<rparr> sys f s c
      \<lparr>program_header_index = Suc i, page_index = 0\<rparr> (concat (map (range_line tm ph) [k..<seg_pages ph])) sys' f' s' c'
    \<and> user_mem s' c' = fold spec_load_page (map (seg_page ph bytes) [k..<seg_pages ph]) (user_mem s c)"
proof (induction "seg_pages ph - k" arbitrary: k sys f s c)
  case 0
  then have k: "k = seg_pages ph" by simp
  have so: "segment_ok ph" using ok by (simp add: seg_loadable_def)
  have "page_range ph (of_nat k) = None"
    using page_range_eq [OF so segment_page_fits [OF so]] seg_off_end k by simp
  then show ?case using load_loop_skip [of i phs "of_nat k"] i 0 k sys_printed_refl [of sys] unfolding loop_goes_on_def
    by (intro exI [of _ sys] exI [of _ f] exI [of _ s] exI [of _ c]) simp
next
  case (Suc j)
  have k: "k < seg_pages ph" and j: "j = seg_pages ph - Suc k" using Suc.hyps(2) by simp_all
  have l: "loaded sys x bytes (4 + (4 * (seg_pages ph - Suc k) + n)) f s c"
  proof -
    have "4 * (seg_pages ph - k) + n = 4 + (4 * (seg_pages ph - Suc k) + n)" using k by simp
    then show ?thesis using Suc.prems(3) by metis
  qed
  obtain sys1 f1 s1 c1 where 1: "loop_goes_on x phs bytes (4 * (seg_pages ph - Suc k) + n) \<lparr>program_header_index = i, page_index = of_nat k\<rparr> sys f s c
      \<lparr>program_header_index = i, page_index = of_nat (Suc k)\<rparr> (range_line tm ph k) sys1 f1 s1 c1"
      "user_mem s1 c1 = spec_load_page (seg_page ph bytes k) (user_mem s c)"
    using load_loop_page [OF Suc.prems(2) l i ok k] by blast
  have l1: "loader sys1 x tm" "loaded sys1 x bytes (4 * (seg_pages ph - Suc k) + n) f1 s1 c1"
    using 1(1) Suc.prems(2) loader_printed by (auto simp: loop_goes_on_def)
  obtain sys2 f2 s2 c2 where 2: "loop_goes_on x phs bytes n \<lparr>program_header_index = i, page_index = of_nat (Suc k)\<rparr> sys1 f1 s1 c1
      \<lparr>program_header_index = Suc i, page_index = 0\<rparr> (concat (map (range_line tm ph) [Suc k..<seg_pages ph])) sys2 f2 s2 c2"
      "user_mem s2 c2 = fold spec_load_page (map (seg_page ph bytes) [Suc k..<seg_pages ph]) (user_mem s1 c1)"
    using Suc.hyps(1) [OF j _ l1] k by auto
  have u: "[k..<seg_pages ph] = k # [Suc k..<seg_pages ph]" using k by (rule upt_conv_Cons)
  have "loop_goes_on x phs bytes n \<lparr>program_header_index = i, page_index = of_nat k\<rparr> sys f s c
      \<lparr>program_header_index = Suc i, page_index = 0\<rparr> (concat (map (range_line tm ph) [k..<seg_pages ph])) sys2 f2 s2 c2"
    using 1(1) 2(1) sys_printed_trans unfolding loop_goes_on_def u by (auto simp del: upt_Suc)
  then show ?case using 1(2) 2(2) unfolding u by auto
qed

text \<open>The segments to load, and the pages they take.\<close>

definition loads :: "elf64_program_header list \<Rightarrow> elf64_program_header list" where
  "loads phs = filter (\<lambda>ph. segment_type ph = PROGRAM_HEADER_TYPE_LOAD) phs"

definition load_pages_count :: "elf64_program_header list \<Rightarrow> nat" where
  "load_pages_count phs = sum_list (map seg_pages (loads phs))"

lemma load_loop_all:
  assumes ok: "\<forall>ph \<in> set (loads phs). seg_loadable bytes ph"
  shows "i \<le> length phs \<Longrightarrow> loader sys x tm \<Longrightarrow> loaded sys x bytes (4 * load_pages_count (drop i phs) + n) f s c \<Longrightarrow>
    \<exists>sys' f' s' c'. load_loop (tid x) phs \<lparr>program_header_index = i, page_index = 0\<rparr> (f, at_space sys (tid x) s c)
      = Some (Ok (), (f', at_space sys' (tid x) s' c'))
    \<and> sys_printed (concat (map (segment_lines tm) (loads (drop i phs)))) sys sys'
    \<and> loaded sys' x bytes n f' s' c' \<and> user_mem s' c' = fold (spec_load_segment bytes) (loads (drop i phs)) (user_mem s c)"
proof (induction "length phs - i" arbitrary: i sys f s c)
  case 0
  then have "pages_next say phs \<lparr>program_header_index = i, page_index = 0\<rparr> (f, sys_world sys)
      = (Ok (None, \<lparr>program_header_index = i, page_index = 0\<rparr>), (f, sys_world sys))" for say by (subst pages_next.simps) simp
  then have "load_loop (tid x) phs \<lparr>program_header_index = i, page_index = 0\<rparr> (f, at_space sys (tid x) s c) = Some (Ok (), (f, at_space sys (tid x) s c))"
    by (subst load_loop.simps) (simp add: on_file_def)
  then show ?case
    using 0 sys_printed_refl [of sys] by (intro exI [of _ sys] exI [of _ f] exI [of _ s] exI [of _ c]) (simp add: loads_def load_pages_count_def)
next
  case (Suc j)
  then have i: "i < length phs" and j: "j = length phs - Suc i" by simp_all
  have d: "drop i phs = phs ! i # drop (Suc i) phs" using i by (simp add: Cons_nth_drop_Suc)
  let ?ph = "phs ! i"
  show ?case
  proof (cases "segment_type ?ph = PROGRAM_HEADER_TYPE_LOAD")
    case True
    then have sl: "seg_loadable bytes ?ph" and ls: "loads (drop i phs) = ?ph # loads (drop (Suc i) phs)"
      using ok i by (simp_all add: loads_def d)
    have l: "loaded sys x bytes (4 * (seg_pages ?ph - 0) + (4 * load_pages_count (drop (Suc i) phs) + n)) f s c"
      using Suc.prems(3) by (simp add: load_pages_count_def ls algebra_simps)
    obtain sys1 f1 s1 c1 where 1: "loop_goes_on x phs bytes (4 * load_pages_count (drop (Suc i) phs) + n) \<lparr>program_header_index = i, page_index = 0\<rparr> sys f s c
        \<lparr>program_header_index = Suc i, page_index = 0\<rparr> (segment_lines tm ?ph) sys1 f1 s1 c1"
        "user_mem s1 c1 = fold spec_load_page (map (seg_page ?ph bytes) [0..<seg_pages ?ph]) (user_mem s c)"
      using load_loop_segment [OF i refl sl _ Suc.prems(2) l] by (auto simp: segment_lines_def)
    have "user_mem s1 c1 = spec_load_segment bytes ?ph (user_mem s c)"
      unfolding 1(2) spec_load_segment_def using sl by (intro segment_pages_fold) (simp_all add: seg_loadable_def)
    moreover note g = 1(1) [unfolded loop_goes_on_def]
    moreover have "loader sys1 x tm" using g Suc.prems(2) loader_printed by blast
    ultimately show ?thesis using Suc.hyps(1) [OF j _ _ conjunct2 [OF conjunct2 [OF g]]] i sys_printed_trans unfolding ls by fastforce
  next
    case False
    then have ls: "loads (drop i phs) = loads (drop (Suc i) phs)" by (simp add: loads_def d)
    have "page_range ?ph 0 = None" using False by (simp add: page_range_def)
    then show ?thesis
      using Suc.hyps(1) [OF j _ Suc.prems(2), of f s c] Suc.prems(3) i load_loop_skip [of i phs 0] ls by (simp add: load_pages_count_def)
  qed
qed

section \<open>The kernel around it\<close>

text \<open>A step in the address space of one task keeps the invariant of the kernel.\<close>

lemma spaces_step:
  assumes sp: "spaces_wf mm ts" and t: "ts t = Some x" and st: "space_step (mm, mem_context x) (s', c')" and wf: "ctx_wf (s', c')"
  shows "spaces_wf s' (ts(t \<mapsto> x\<lparr>mem_context := c'\<rparr>))"
proof -
  have fr: "mc_frame (mm, mem_context x) (s', c')" and ac: "asid_counter s' = asid_counter mm" using st by (simp_all add: space_step_def)
  have id: "mc_asid c' = mc_asid (mem_context x)" using fr by (simp add: mc_frame_def)
  have other: "ctx_wf (s', mem_context y) \<and> ptrs c' \<inter> ptrs (mem_context y) = {}" if "ts u = Some y" "u \<noteq> t" for u y
  proof -
    have "ctx_wf (mm, mem_context y)" "ptrs (mem_context x) \<inter> ptrs (mem_context y) = {}"
      using sp t that by (auto simp: spaces_wf_def)
    then show ?thesis using frame_isolates [OF fr wf] by blast
  qed
  let ?ts = "ts(t \<mapsto> x\<lparr>mem_context := c'\<rparr>)"
  have "ctx_wf (s', mem_context y) \<and> unat (mc_asid (mem_context y)) < unat (asid_counter s')" if "?ts u = Some y" for u y
    using that sp t wf other id by (cases "u = t") (auto simp: spaces_wf_def ac)
  moreover have "ptrs (mem_context y) \<inter> ptrs (mem_context z) = {} \<and> mc_asid (mem_context y) \<noteq> mc_asid (mem_context z)"
    if "?ts u = Some y" "?ts v = Some z" "u \<noteq> v" for u y v z
  proof -
    have old: "ptrs (mem_context y) \<inter> ptrs (mem_context z) = {} \<and> mc_asid (mem_context y) \<noteq> mc_asid (mem_context z)"
      if "ts u = Some y" "ts v = Some z" "u \<noteq> v" for u v y z using sp that by (auto simp: spaces_wf_def)
    show ?thesis
    proof (cases "u = t \<or> v = t")
      case True
      then consider (1) "u = t" "v \<noteq> t" | (2) "v = t" "u \<noteq> t" using \<open>u \<noteq> v\<close> by blast
      then show ?thesis
      proof cases
        case 1
        then have v: "ts v = Some z" and y: "mem_context y = c'" using that by auto
        show ?thesis using other [OF v 1(2)] old [OF t v] 1 id by (simp add: y)
      next
        case 2
        then have u: "ts u = Some y" and z: "mem_context z = c'" using that by auto
        show ?thesis using other [OF u 2(2)] old [OF t u] 2 id by (simp add: z Int_commute) metis
      qed
    next
      case False
      then show ?thesis using that old [of u y v z] by simp
    qed
  qed
  ultimately show ?thesis unfolding spaces_wf_def by blast
qed

lemma space_step_others:
  assumes sp: "spaces_wf mm ts" and t: "ts t = Some x" and st: "space_step (mm, mem_context x) (s', c')" and wf: "ctx_wf (s', c')"
    and u: "ts u = Some y" "u \<noteq> t"
  shows "user_map s' (mem_context y) = user_map mm (mem_context y)
    \<and> (\<forall>b \<in> set (page_allocations (mem_context y)). \<forall>z. unat (z - pa_ptr b) < 4096 \<longrightarrow> kmem s' z = kmem mm z)"
proof -
  have fr: "mc_frame (mm, mem_context x) (s', c')" using st by (simp add: space_step_def)
  have "ctx_wf (mm, mem_context y)" "ptrs (mem_context x) \<inter> ptrs (mem_context y) = {}"
    using sp t u by (auto simp: spaces_wf_def)
  then show ?thesis using frame_isolates [OF fr wf] by blast
qed

lemma kernel_wf_space:
  assumes k: "kernel_wf k" and t: "tasks (k_sched k) t = Some x" and st: "space_step (k_mm k, mem_context x) (s', c')"
    and wf: "ctx_wf (s', c')" and fits: "pa_fits (page_alloc_state s')"
  shows "kernel_wf (set_space t s' c' k)"
proof -
  have ts: "tasks (k_sched (set_space t s' c' k)) = (tasks (k_sched k))(t \<mapsto> x\<lparr>mem_context := c'\<rparr>)"
    and s: "queue (k_sched (set_space t s' c' k)) = queue (k_sched k)" "current_tasks (k_sched (set_space t s' c' k)) = current_tasks (k_sched k)"
      "sched_lock (k_sched (set_space t s' c' k)) = sched_lock (k_sched k)"
    using t by (simp_all add: set_space_def)
  have w: "smp_wf \<lparr>cores = [k_core k], smp_sched = k_sched k\<rparr>" using k by (simp add: kernel_wf_def)
  have idx: "tid x = t" using w t by (auto simp: smp_wf_def sched_wf_def)
  have sw: "sched_wf (k_sched (set_space t s' c' k))"
    using w t idx by (auto simp: smp_wf_def sched_wf_def ts s)
  have tt: "mc_ttbr c' = mc_ttbr (mem_context x)" by (rule space_step_ttbr [OF st])
  have "ttbr0_el1 ([k_core k] ! j) = mc_ttbr (mem_context y)"
    if o: "occupies (k_sched (set_space t s' c' k)) j u" and y: "tasks (k_sched (set_space t s' c' k)) u = Some y" for j u y
  proof -
    have o': "occupies (k_sched k) j u" using o by (simp add: occupies_def s)
    obtain z where z: "tasks (k_sched k) u = Some z" "mc_ttbr (mem_context y) = mc_ttbr (mem_context z)"
      using y t tt by (cases "u = t") (auto simp: ts)
    then show ?thesis using w o' unfolding smp_wf_def smp.simps by metis
  qed
  then have "smp_wf \<lparr>cores = [k_core k], smp_sched = k_sched (set_space t s' c' k)\<rparr>"
    using w sw unfolding smp_wf_def smp.simps s by blast
  moreover have "spaces_wf s' (tasks (k_sched (set_space t s' c' k)))"
    unfolding ts using k by (intro spaces_step [where ts = "tasks (k_sched k)", OF _ t st wf]) (simp add: kernel_wf_def)
  moreover have "dom (tasks (k_sched (set_space t s' c' k))) = dom (tasks (k_sched k))" using t by (auto simp: ts)
  ultimately show ?thesis using k ctx_wfD(1) [OF wf] fits by (simp add: kernel_wf_def)
qed

lemma runs_task_space_step:
  assumes "runs_task (sys_machine sys) x" and "space_step (k_mm (m_kernel (sys_machine sys)), mem_context x) (s', c')"
    and "loading n (s', c')"
  shows "runs_task (sys_machine (at_space sys (tid x) s' c')) (x\<lparr>mem_context := c'\<rparr>)"
proof -
  have t: "tasks (k_sched (m_kernel (sys_machine sys))) (tid x) = Some x" and k: "kernel_wf (m_kernel (sys_machine sys))"
    using assms(1) by (simp_all add: runs_task_def)
  have "kernel_wf (set_space (tid x) s' c' (m_kernel (sys_machine sys)))"
    using assms(3) image_wfD(1) by (intro kernel_wf_space [OF k t assms(2)]) (auto simp: loading_def)
  then show ?thesis using assms(1) t by (simp add: runs_task_def at_space_def set_space_def)
qed

lemma fm_open_position: "fm_open v w path = Ok f \<Longrightarrow> file_position f = 0"
  by (auto simp: fm_open_def vfs_open_def bind_res_Ok_iff file_new_def split: prod.splits if_splits)

lemma at_space_self:
  assumes "tasks (k_sched (m_kernel (sys_machine sys))) (tid x) = Some x"
  shows "at_space sys (tid x) (k_mm (m_kernel (sys_machine sys))) (mem_context x) = sys"
  using assms by (simp add: at_space_def set_space_def fun_upd_idem)

lemma stack_page: "UserAddress_sub PAGE_SIZE (UserAddress STACK_INIT) 1 = UserAddress 0x7FFFF000"
  by (simp add: UserAddress_sub_def consts_defs PAGE_SIZE_def)

text \<open>The whole service, after the file is open.\<close>

lemma execute_file_ok:
  assumes run: "runs_task (sys_machine sys) x" and img: "image_wf (k_mm (m_kernel (sys_machine sys)), mem_context x)"
    and tm: "monotonic (timer (k_core (m_kernel (sys_machine sys)))) = Ok tm"
    and f: "reads (f, sys_world sys) bytes" "file_position f = 0" and ok: "elf_ok bytes"
    and ph: "\<forall>ph \<in> set (loads (elf_program_headers bytes)). seg_loadable bytes ph"
    and room: "room (4 * load_pages_count (elf_program_headers bytes) + 4) (page_alloc_state (k_mm (m_kernel (sys_machine sys))))"
  shows "\<exists>sys' f' s' c'. execute_file x (f, sys) = (Ok (enter_el0 (eh_entry_point (elf_header bytes)) STACK_INIT), (f', at_space sys' (tid x) s' c'))
    \<and> sys_printed (concat (map (segment_lines tm) (loads (elf_program_headers bytes)))) sys sys'
    \<and> loading 0 (s', c') \<and> space_step (k_mm (m_kernel (sys_machine sys)), mem_context x) (s', c')
    \<and> user_mem s' c' = spec_zero_page 0x7FFFF (fold (spec_load_segment bytes) (loads (elf_program_headers bytes))
        (user_mem (k_mm (m_kernel (sys_machine sys))) (mem_context x)))"
proof -
  let ?k = "m_kernel (sys_machine sys)" and ?phs = "elf_program_headers bytes"
  let ?s = "k_mm ?k" and ?c = "mem_context x"
  have t: "tasks (k_sched ?k) (tid x) = Some x" using run by (simp add: runs_task_def)
  have self: "at_space sys (tid x) ?s ?c = sys" by (rule at_space_self [OF t])
  have ld: "loader sys x tm" using t tm run runs_task_space(1) [OF run] by (simp add: loader_def runs_task_def)
  obtain st1 where rd: "elf64_reader_new (f, sys_world sys) = (Ok \<lparr>er_header = elf_header bytes, er_program_headers = ?phs\<rparr>, st1)"
      "reads st1 bytes" "snd st1 = sys_world sys"
    using elf64_reader_new_ok [OF f(1) _ ok] f(2) by auto
  have pw: "put_world (sys_world sys) sys = sys" by (simp add: put_world_def sys_world_def)
  have fitss: "pa_fits (page_alloc_state ?s)" using run by (simp add: runs_task_def kernel_wf_def)
  have "loaded sys x bytes (4 * load_pages_count (drop 0 ?phs) + 4) (fst st1) ?s ?c"
    using rd(2,3) img fitss room by (cases st1) (simp add: loaded_def loading_def)
  from load_loop_all [OF ph _ ld this] obtain sys2 f2 s2 c2 where
      2: "load_loop (tid x) ?phs loadable_pages_new (fst st1, sys) = Some (Ok (), (f2, at_space sys2 (tid x) s2 c2))"
      "sys_printed (concat (map (segment_lines tm) (loads ?phs))) sys sys2"
      "loaded sys2 x bytes 4 f2 s2 c2" "user_mem s2 c2 = fold (spec_load_segment bytes) (loads ?phs) (user_mem ?s ?c)"
    unfolding loadable_pages_new_def self by auto
  note kn = sys_printedD(1) [OF 2(2)]
  have l4: "loading (4 + 0) (s2, c2)" and step2: "space_step (?s, ?c) (s2, c2)" using 2(3) by (simp_all add: loaded_def kn)
  obtain p s3 c3 where 3: "alloc_page (UserAddress 0x7FFFF000) (s2, c2) = (Ok p, (s3, c3))" "loading 0 (s3, c3)"
      "space_step (s2, c2) (s3, c3)" and 4: "user_mem s3 c3 = spec_zero_page (unat (0x7FFFF000 :: usize) div 4096) (user_mem s2 c2)"
    by (rule alloc_page_loading [OF l4, of "0x7FFFF000"]) simp_all
  have "on_machine (on_kernel (on_space (tid x) (alloc_page (UserAddress 0x7FFFF000)))) (at_space sys2 (tid x) s2 c2)
      = (Ok p, at_space sys2 (tid x) s3 c3)"
    unfolding on_machine_space kn on_space_set [OF t] using 3(1) by (simp add: at_space_def kn)
  then have "execute_file x (f, sys) = (Ok (enter_el0 (eh_entry_point (elf_header bytes)) STACK_INIT), (f2, at_space sys2 (tid x) s3 c3))"
    using rd 2(1) pw unfolding execute_file_def stack_page by (cases st1) (simp add: on_file_def run_loop_def entry_point_def)
  moreover have "space_step (?s, ?c) (s3, c3)" by (rule space_step_trans [OF step2 3(3)])
  moreover have "user_mem s3 c3 = spec_zero_page 0x7FFFF (fold (spec_load_segment bytes) (loads ?phs) (user_mem ?s ?c))"
    using 4 2(4) by simp
  ultimately show ?thesis using 3(2) 2(2) by blast
qed

lemma execute_ok:
  assumes run: "runs_task (sys_machine sys) x" and img: "image_wf (k_mm (m_kernel (sys_machine sys)), mem_context x)"
    and tm: "monotonic (timer (k_core (m_kernel (sys_machine sys)))) = Ok tm"
    and op: "fm_open (sys_vfs sys) (sys_world sys) path = Ok f" and f: "reads (f, sys_world sys) bytes" and ok: "elf_ok bytes"
    and ph: "\<forall>ph \<in> set (loads (elf_program_headers bytes)). seg_loadable bytes ph"
    and room: "room (4 * load_pages_count (elf_program_headers bytes) + 4) (page_alloc_state (k_mm (m_kernel (sys_machine sys))))"
  shows "\<exists>sys' s' c'. execute path sys
        = (Ok \<lparr>ue_elr_el1 = eh_entry_point (elf_header bytes), ue_spsr_el1 = 0, ue_sp_el0 = 0x80000000\<rparr>, at_space sys' (tid x) s' c')
    \<and> sys_printed (concat (map (segment_lines tm) (loads (elf_program_headers bytes)))) sys sys'
    \<and> runs_task (sys_machine (at_space sys' (tid x) s' c')) (x\<lparr>mem_context := c'\<rparr>)
    \<and> user_mem s' c' = spec_zero_page 0x7FFFF (fold (spec_load_segment bytes) (loads (elf_program_headers bytes))
        (user_mem (k_mm (m_kernel (sys_machine sys))) (mem_context x)))
    \<and> (\<forall>t y. tasks (k_sched (m_kernel (sys_machine sys))) t = Some y \<longrightarrow> t \<noteq> tid x \<longrightarrow>
        user_map s' (mem_context y) = user_map (k_mm (m_kernel (sys_machine sys))) (mem_context y)
        \<and> (\<forall>b \<in> set (page_allocations (mem_context y)). \<forall>z. unat (z - pa_ptr b) < 4096 \<longrightarrow>
             kmem s' z = kmem (k_mm (m_kernel (sys_machine sys))) z))
    \<and> image_wf (s', c') \<and> mc_frame (k_mm (m_kernel (sys_machine sys)), mem_context x) (s', c')"
proof -
  let ?k = "m_kernel (sys_machine sys)"
  have t: "tasks (k_sched ?k) (tid x) = Some x" using run by (simp add: runs_task_def)
  obtain sys' f' s' c' where e: "execute_file x (f, sys) = (Ok (enter_el0 (eh_entry_point (elf_header bytes)) STACK_INIT), (f', at_space sys' (tid x) s' c'))"
      "loading 0 (s', c')" "space_step (k_mm ?k, mem_context x) (s', c')"
      and pr: "sys_printed (concat (map (segment_lines tm) (loads (elf_program_headers bytes)))) sys sys'"
      and m: "user_mem s' c' = spec_zero_page 0x7FFFF (fold (spec_load_segment bytes) (loads (elf_program_headers bytes))
        (user_mem (k_mm ?k) (mem_context x)))"
    using execute_file_ok [OF run img tm f fm_open_position [OF op] ok ph room] by blast
  have ct: "on_machine the_current_task sys = (Ok x, sys)"
    using the_current_task_runs [OF run] by (simp add: on_machine_def)
  have "execute path sys = (Ok \<lparr>ue_elr_el1 = eh_entry_point (elf_header bytes), ue_spsr_el1 = 0, ue_sp_el0 = 0x80000000\<rparr>, at_space sys' (tid x) s' c')"
    unfolding execute_def ct using op e(1) by (simp add: enter_el0_def consts_defs)
  moreover have "user_map s' (mem_context y) = user_map (k_mm ?k) (mem_context y)
      \<and> (\<forall>b \<in> set (page_allocations (mem_context y)). \<forall>z. unat (z - pa_ptr b) < 4096 \<longrightarrow> kmem s' z = kmem (k_mm ?k) z)"
    if "tasks (k_sched ?k) u = Some y" "u \<noteq> tid x" for u y
    by (rule space_step_others [OF _ t e(3) _ that]) (use run e(2) image_wfD(1) in \<open>auto simp: runs_task_def kernel_wf_def loading_def\<close>)
  moreover have "runs_task (sys_machine (at_space sys' (tid x) s' c')) (x\<lparr>mem_context := c'\<rparr>)"
    using runs_task_space_step [of sys' x s' c' 0] run e(2,3) by (simp add: sys_printedD [OF pr])
  moreover have "image_wf (s', c')" "mc_frame (k_mm ?k, mem_context x) (s', c')"
    using e(2,3) by (simp_all add: loading_def space_step_def)
  ultimately show ?thesis using m pr by blast
qed

text \<open>
  C9. Executing a file. When the current task executes a well-formed executable whose segments fit their file and the
  lower half, and enough pages are left, the service returns neither an error nor a panic and its loop ends: the
  core enters EL0 at the entry point of the file, with the stack pointer at the top of a new zeroed page; the memory
  of the task is byte for byte the old one with every loadable segment laid over it in order, the bytes of the file
  first and zeros up to the size in memory; one line of output per loaded page gives its addresses; the kernel stays
  well-formed with the same task running; and every other task keeps its map and every byte of its pages.
\<close>

theorem execute_loads:
  assumes run: "runs_task (sys_machine sys) x" and img: "image_wf (k_mm (m_kernel (sys_machine sys)), mem_context x)"
    and tm: "monotonic (timer (k_core (m_kernel (sys_machine sys)))) = Ok tm"
    and op: "fm_open (sys_vfs sys) (sys_world sys) path = Ok f" and f: "reads (f, sys_world sys) bytes" and ok: "elf_ok bytes"
    and ph: "\<forall>ph \<in> set (loads (elf_program_headers bytes)). seg_loadable bytes ph"
    and room: "room (4 * load_pages_count (elf_program_headers bytes) + 4) (page_alloc_state (k_mm (m_kernel (sys_machine sys))))"
  shows "\<exists>sys' s' c'. execute path sys
        = (Ok \<lparr>ue_elr_el1 = eh_entry_point (elf_header bytes), ue_spsr_el1 = 0, ue_sp_el0 = 0x80000000\<rparr>, at_space sys' (tid x) s' c')
    \<and> sys_printed (concat (map (segment_lines tm) (loads (elf_program_headers bytes)))) sys sys'
    \<and> runs_task (sys_machine (at_space sys' (tid x) s' c')) (x\<lparr>mem_context := c'\<rparr>)
    \<and> user_mem s' c' = spec_zero_page 0x7FFFF (fold (spec_load_segment bytes) (loads (elf_program_headers bytes))
        (user_mem (k_mm (m_kernel (sys_machine sys))) (mem_context x)))
    \<and> (\<forall>t y. tasks (k_sched (m_kernel (sys_machine sys))) t = Some y \<longrightarrow> t \<noteq> tid x \<longrightarrow>
        user_map s' (mem_context y) = user_map (k_mm (m_kernel (sys_machine sys))) (mem_context y)
        \<and> (\<forall>b \<in> set (page_allocations (mem_context y)). \<forall>z. unat (z - pa_ptr b) < 4096 \<longrightarrow>
             kmem s' z = kmem (k_mm (m_kernel (sys_machine sys))) z))"
  using execute_ok [OF assms] by blast

section \<open>A concrete execution\<close>

text \<open>A task on an empty address space with thirty pages left, and the executable of the ELF reader's example.\<close>

definition big_mm :: mm_state where
  "big_mm = \<lparr>page_alloc_state = \<lparr>capacity = 0x20000, reserved_ranges = [(0, 0x1000)], allocated = 0\<rparr>,
          kmem = (\<lambda>_. 0xFF), asid_counter = 1\<rparr>"

definition node7 :: node where
  "node7 = \<lparr>node_fs = 7, node_id = 1, node_type = File\<rparr>"

definition system_of :: "u8 list \<Rightarrow> mm_state \<Rightarrow> memory_context \<Rightarrow> system" where
  "system_of bytes s c = \<lparr>sys_machine = machine_of s c, sys_vfs = \<lparr>root_file_system = 7, mounts = []\<rparr>,
     sys_store = [7 \<mapsto> TmpfsObj ((tmpfs_one 7)\<lparr>files := (files (tmpfs_one 7))(1 \<mapsto> bytes)\<rparr>)]\<rparr>"

lemma system_of_file:
  assumes "vec_ok bytes"
  shows "fm_open (sys_vfs (system_of bytes s c)) (sys_world (system_of bytes s c)) \<lparr>path_tokens = [], path_start = Node node7\<rparr> = Ok (file_new node7)"
    and "reads (file_new node7, sys_world (system_of bytes s c)) bytes"
proof -
  show "fm_open (sys_vfs (system_of bytes s c)) (sys_world (system_of bytes s c)) \<lparr>path_tokens = [], path_start = Node node7\<rparr> = Ok (file_new node7)"
    by (simp add: fm_open_def fm_walk_def vfs_open_def vfs_eval system_of_def sys_world_def node7_def fs_open_def tmpfs_open_def mounted_on_def node_eq_def)
  have "tmpfs_wf 7 ((tmpfs_one 7)\<lparr>files := (files (tmpfs_one 7))(1 \<mapsto> bytes)\<rparr>)"
    by (rule tmpfs_set_file_wf [OF tmpfs_one_wf _ assms]) (simp add: tmpfs_one_files)
  then show "reads (file_new node7, sys_world (system_of bytes s c)) bytes"
    by (auto simp: reads_def system_of_def sys_world_def node7_def world_wf_def file_bytes_def file_new_def split: if_splits)
qed

lemma big_mm_ok: "mm_wf big_mm" "pa_fits (page_alloc_state big_mm)"
  by (simp_all add: big_mm_def mm_wf_def pa_fits_def)

lemma big_mm_alloc: "alloc_loop (page_alloc_state big_mm)
    = Some (Some 0x1000, \<lparr>capacity = 0x20000, reserved_ranges = [(0, 0x1000)], allocated = 0x2000\<rparr>)"
  by (simp add: big_mm_def alloc_loop.simps intersects_reserved_def PAGE_SIZE_def)

lemma big_mm_space:
  obtains s c where "memory_context_new big_mm = (Ok c, s)" "image_wf (s, c)" "user_mem s c = Map.empty"
    "room 16 (page_alloc_state s)" "runs_task (machine_of s c) (task_of c)"
proof -
  obtain s c where n: "memory_context_new big_mm = (Ok c, s)"
      "page_alloc_state s = \<lparr>capacity = 0x20000, reserved_ranges = [(0, 0x1000)], allocated = 0x2000\<rparr>"
    by (simp add: memory_context_new_def page_alloc_def big_mm_alloc Let_def asid_next_def fetch_add1_def)
  note ok = memory_context_new_ok [OF big_mm_ok n(1)]
  have r: "room 16 (page_alloc_state s)" by (simp add: n(2) room_def reserved_nonempty_def reserved_bytes_def)
  have i: "image_wf (s, c)" "user_mem s c = Map.empty" using image_wf_empty [of s c] ok by auto
  have "runs_task (machine_of s c) (task_of c)" using ok by (intro machine_of_runs) (simp_all add: big_mm_def)
  then show thesis using that n(1) i r by blast
qed

lemma ph0_loads: "loads [ph0] = [ph0]" "load_pages_count [ph0] = 3" "seg_loadable elf0 ph0"
  using ph0_ok by (simp_all add: load_pages_count_def loads_def ph0_def PROGRAM_HEADER_TYPE_LOAD_def seg_loadable_def elf0_header)

theorem execute_loads_witness:
  "\<exists>s c sys' s' c'. memory_context_new big_mm = (Ok c, s)
    \<and> execute \<lparr>path_tokens = [], path_start = Node node7\<rparr> (system_of elf0 s c)
      = (Ok \<lparr>ue_elr_el1 = 0x400000, ue_spsr_el1 = 0, ue_sp_el0 = 0x80000000\<rparr>, at_space sys' 1 s' c')
    \<and> user_mem s' c' = spec_zero_page 0x7FFFF (spec_load_segment elf0 ph0 Map.empty)"
proof -
  obtain s c where n: "memory_context_new big_mm = (Ok c, s)" and i: "image_wf (s, c)" "user_mem s c = Map.empty"
    "room 16 (page_alloc_state s)" "runs_task (machine_of s c) (task_of c)" by (rule big_mm_space)
  have x: "mem_context (task_of c) = c" "tid (task_of c) = 1" by (simp_all add: task_of_def task0_def)
  have pre: "runs_task (sys_machine (system_of elf0 s c)) (task_of c)"
    "image_wf (k_mm (m_kernel (sys_machine (system_of elf0 s c))), mem_context (task_of c))"
    "room (4 * load_pages_count (elf_program_headers elf0) + 4) (page_alloc_state (k_mm (m_kernel (sys_machine (system_of elf0 s c)))))"
    using i x elf0_ok(2) ph0_loads by (simp_all add: system_of_def machine_of_def)
  have tm: "monotonic (timer (k_core (m_kernel (sys_machine (system_of elf0 s c))))) = Ok 0"
    by (simp add: system_of_def machine_of_def core0_def monotonic_def timer_frequency_def timer_count_def)
  note e = execute_loads [OF pre(1,2) tm system_of_file [OF elf0_ok(3)] elf0_ok(1) _ pre(3)]
  have k: "k_mm (m_kernel (sys_machine (system_of elf0 s c))) = s" by (simp add: system_of_def machine_of_def)
  have h: "eh_entry_point header0 = 0x400000" by (simp add: header0_def)
  have "\<forall>ph \<in> set (loads (elf_program_headers elf0)). seg_loadable elf0 ph" using ph0_loads elf0_ok(2) by simp
  from e [OF this] show ?thesis unfolding elf0_ok(2) elf0_header(1) ph0_loads(1) k x i(2) h using n by auto
qed

end
