(* ===== verification/Interrupts.thy ===== *)
theory Interrupts
  imports Machine
begin

text \<open>
  The interrupt router (\<^verbatim>\<open>abi/interrupt_router.rs\<close>) over the trait \<^verbatim>\<open>InterruptController\<close>. A controller is its three
  methods on a state; a handler, the function and its data, is a transition of that state. The router is generic; the
  controller of the machine is the one of \<^verbatim>\<open>bcm2837_interrupt.rs\<close>.
\<close>

record 's interrupt_controller =
  ic_enable :: "u64 \<Rightarrow> 's \<Rightarrow> 's"
  ic_is_pending :: "u64 \<Rightarrow> 's \<Rightarrow> bool"
  ic_clear :: "u64 \<Rightarrow> 's \<Rightarrow> 's"

type_synonym 's handler_fn = "'s \<Rightarrow> unit res \<times> 's"

record 's interrupt =
  controller :: "'s interrupt_controller"
  number :: u64
  handler :: "'s handler_fn"

text \<open>\<^verbatim>\<open>Mutex<Vec<Interrupt>>\<close>: the flag of the lock, and the data.\<close>

record 's interrupt_router =
  ir_lock :: bool
  interrupts :: "'s interrupt list"

definition router_new :: "'s interrupt_router" where
  "router_new = \<lparr>ir_lock = lock_new, interrupts = []\<rparr>"

definition router_lock :: "'s interrupt_router \<times> 's \<Rightarrow> unit res \<times> ('s interrupt_router \<times> 's)" where
  "router_lock st = (case lock_loop (ir_lock (fst st)) of (r, l) \<Rightarrow> (r, ((fst st)\<lparr>ir_lock := l\<rparr>, snd st)))"

definition router_unlock :: "'s interrupt_router \<times> 's \<Rightarrow> 's interrupt_router \<times> 's" where
  "router_unlock st = ((fst st)\<lparr>ir_lock := unlock (ir_lock (fst st))\<rparr>, snd st)"

definition router_enable :: "'s interrupt_controller \<Rightarrow> u64 \<Rightarrow> 's handler_fn \<Rightarrow> 's interrupt_router \<times> 's
    \<Rightarrow> unit res \<times> ('s interrupt_router \<times> 's)" where
  "router_enable c n h st =
     and_then (router_lock st) (\<lambda>_ (r, s).
       (Ok (), router_unlock (r\<lparr>interrupts := interrupts r @ [\<lparr>controller = c, number = n, handler = h\<rparr>]\<rparr>, ic_enable c n s)))"

text \<open>The loop of \<^verbatim>\<open>handle\<close>, which stops at the first pending interrupt and clears it.\<close>

fun find_pending :: "'s interrupt list \<Rightarrow> 's \<Rightarrow> 's handler_fn option \<times> 's" where
  "find_pending [] s = (None, s)"
| "find_pending (i # is) s =
     (if ic_is_pending (controller i) (number i) s
      then (Some (handler i), ic_clear (controller i) (number i) s)
      else find_pending is s)"

definition router_find :: "'s interrupt_router \<times> 's \<Rightarrow> 's handler_fn option res \<times> ('s interrupt_router \<times> 's)" where
  "router_find st =
     and_then (router_lock st) (\<lambda>_ (r, s).
       case find_pending (interrupts r) s of (h, s) \<Rightarrow> (Ok h, router_unlock (r, s)))"

definition router_handle :: "'s interrupt_router \<times> 's \<Rightarrow> unit res \<times> ('s interrupt_router \<times> 's)" where
  "router_handle st =
     and_then (router_find st) (\<lambda>h (r, s).
       case h of
         Some f \<Rightarrow> (case f s of (x, s) \<Rightarrow> (x, (r, s)))
       | None \<Rightarrow> (Ok (), (r, s)))"

section \<open>The contract of a controller\<close>

text \<open>
  Interrupt numbers name lines. Clearing a number clears its line and no other, and enabling a number clears nothing.
\<close>

locale interrupt_lines =
  fixes ctrl :: "'s interrupt_controller" and line :: "u64 \<Rightarrow> nat"
  assumes clear_pending: "ic_is_pending ctrl k (ic_clear ctrl n s) \<longleftrightarrow> ic_is_pending ctrl k s \<and> line k \<noteq> line n"
    and enable_pending: "ic_is_pending ctrl k (ic_enable ctrl n s) \<longleftrightarrow> ic_is_pending ctrl k s"
begin

definition served :: "'s interrupt list \<Rightarrow> bool" where
  "served is \<longleftrightarrow> (\<forall>i \<in> set is. controller i = ctrl) \<and> distinct (map (\<lambda>i. line (number i)) is)"

text \<open>The first pending interrupt is chosen, its line is cleared, and the others stay pending.\<close>

lemma find_first:
  assumes "served (pre @ i # post)" and "\<And>j. j \<in> set pre \<Longrightarrow> \<not> ic_is_pending ctrl (number j) s" and "ic_is_pending ctrl (number i) s"
  shows "find_pending (pre @ i # post) s = (Some (handler i), ic_clear ctrl (number i) s)"
    and "\<not> ic_is_pending ctrl (number i) (ic_clear ctrl (number i) s)"
    and "j \<in> set (pre @ post) \<Longrightarrow> ic_is_pending ctrl (number j) (ic_clear ctrl (number i) s) \<longleftrightarrow> ic_is_pending ctrl (number j) s"
proof -
  show "find_pending (pre @ i # post) s = (Some (handler i), ic_clear ctrl (number i) s)"
    using assms by (induction pre) (auto simp: served_def)
  show "\<not> ic_is_pending ctrl (number i) (ic_clear ctrl (number i) s)" by (simp add: clear_pending)
  have "line (number j) \<noteq> line (number i)" if "j \<in> set (pre @ post)"
    using assms(1) that by (auto simp: served_def) (metis image_eqI)+
  then show "j \<in> set (pre @ post) \<Longrightarrow> ic_is_pending ctrl (number j) (ic_clear ctrl (number i) s) \<longleftrightarrow> ic_is_pending ctrl (number j) s"
    by (simp add: clear_pending)
qed

lemma find_none:
  assumes "\<And>j. j \<in> set is \<Longrightarrow> controller j = ctrl \<and> \<not> ic_is_pending ctrl (number j) s"
  shows "find_pending is s = (None, s)"
  using assms by (induction "is") auto

text \<open>The handler runs with the line cleared and the lock of the router released.\<close>

lemma handle_first:
  assumes "served (pre @ i # post)" and "\<And>j. j \<in> set pre \<Longrightarrow> \<not> ic_is_pending ctrl (number j) s" and "ic_is_pending ctrl (number i) s"
    and "interrupts r = pre @ i # post" and "\<not> ir_lock r"
  shows "router_find (r, s) = (Ok (Some (handler i)), (r, ic_clear ctrl (number i) s))"
    and "router_handle (r, s) = (case handler i (ic_clear ctrl (number i) s) of (x, s') \<Rightarrow> (x, (r, s')))"
proof -
  have "r\<lparr>ir_lock := False\<rparr> = r" using assms(5) by simp
  then show f: "router_find (r, s) = (Ok (Some (handler i)), (r, ic_clear ctrl (number i) s))"
    using assms(4,5) find_first(1) [OF assms(1-3)]
    by (simp add: router_find_def router_lock_def router_unlock_def lock_loop_def compare_exchange_def unlock_def)
  then show "router_handle (r, s) = (case handler i (ic_clear ctrl (number i) s) of (x, s') \<Rightarrow> (x, (r, s')))"
    by (simp add: router_handle_def)
qed

lemma handle_none:
  assumes "\<And>j. j \<in> set (interrupts r) \<Longrightarrow> controller j = ctrl \<and> \<not> ic_is_pending ctrl (number j) s" and "\<not> ir_lock r"
  shows "router_handle (r, s) = (Ok (), (r, s))"
proof -
  have "r\<lparr>ir_lock := False\<rparr> = r" using assms(2) by simp
  then show ?thesis
    using assms(2) find_none [OF assms(1)]
    by (simp add: router_handle_def router_find_def router_lock_def router_unlock_def lock_loop_def compare_exchange_def unlock_def)
qed

end

section \<open>The controller of the machine\<close>

definition bcm2837_controller :: "machine interrupt_controller" where
  "bcm2837_controller = \<lparr>ic_enable = (\<lambda>n m. m\<lparr>m_intc := intc_enable n (m_intc m)\<rparr>),
     ic_is_pending = (\<lambda>n m. intc_is_pending n (m_intc m)),
     ic_clear = (\<lambda>n m. m\<lparr>m_intc := intc_clear n (m_intc m)\<rparr>)\<rparr>"

definition irq_line :: "u64 \<Rightarrow> nat" where
  "irq_line n = unat (ucast n :: u32) mod 32"

interpretation bcm2837: interrupt_lines bcm2837_controller irq_line
proof
  show "ic_is_pending bcm2837_controller k (ic_clear bcm2837_controller n s) \<longleftrightarrow>
      ic_is_pending bcm2837_controller k s \<and> irq_line k \<noteq> irq_line n" for k n s
    by (simp add: bcm2837_controller_def intc_clear_pending irq_line_def)
  show "ic_is_pending bcm2837_controller k (ic_enable bcm2837_controller n s) \<longleftrightarrow> ic_is_pending bcm2837_controller k s" for k n s
    by (simp add: bcm2837_controller_def intc_enable_def intc_is_pending_def)
qed

end
