(* ===== verification/System_Calls.thy ===== *)
theory System_Calls
  imports Machine
begin

text \<open>
  System calls: the router (\<^verbatim>\<open>abi/system_call_router.rs\<close>), numbers and errors (\<^verbatim>\<open>abi/aarch64/system_calls.rs\<close>,
  \<^verbatim>\<open>abi/system_calls/mod.rs\<close>), and the one call there is, \<^verbatim>\<open>write\<close> (\<^verbatim>\<open>abi/system_calls/write.rs\<close>).
\<close>

section \<open>Numbers, errors, calls\<close>

datatype SystemCallNumber = Write

fun system_call_number :: "SystemCallNumber \<Rightarrow> usize" where
  "system_call_number Write = 64"

datatype SystemCallError = BadFileNumber | BadAddress | FunctionNotImplemented

fun system_call_error :: "SystemCallError \<Rightarrow> u64" where
  "system_call_error BadFileNumber = 9"
| "system_call_error BadAddress = 14"
| "system_call_error FunctionNotImplemented = 38"

record args =
  arg0 :: usize
  arg1 :: usize
  arg2 :: usize
  arg3 :: usize
  arg4 :: usize
  arg5 :: usize

text \<open>The trait \<^verbatim>\<open>SystemCall\<close>.\<close>

record system_call =
  sc_number :: SystemCallNumber
  sc_call :: "args \<Rightarrow> machine \<Rightarrow> (usize, SystemCallError) outcome \<times> machine"

section \<open>Router\<close>

type_synonym system_call_router = "system_call option list"

definition sc_index :: "system_call \<Rightarrow> nat" where
  "sc_index h = unat (system_call_number (sc_number h))"

fun index_handlers :: "system_call list \<Rightarrow> system_call_router \<Rightarrow> system_call_router res" where
  "index_handlers [] t = Ok t"
| "index_handlers (h # hs) t = (if sc_index h < length t then index_handlers hs (t[sc_index h := Some h]) else Panic)"

definition system_call_router_new :: "system_call list \<Rightarrow> system_call_router res" where
  "system_call_router_new hs =
     (let max_number = fold (\<lambda>h n. max n (sc_index h)) hs 0
      in index_handlers hs (replicate (max_number + 1) None))"

text \<open>An \<^verbatim>\<open>isize\<close> is its 64 bits. \<^verbatim>\<open>handle\<close> turns an error into the negative of its code.\<close>

definition router_get :: "system_call_router \<Rightarrow> usize \<Rightarrow> system_call option" where
  "router_get t num = (if unat num < length t then t ! unat num else None)"

definition system_call_handle :: "system_call_router \<Rightarrow> usize \<Rightarrow> args \<Rightarrow> machine \<Rightarrow> u64 res \<times> machine" where
  "system_call_handle t num a m =
     (case router_get t num of
        Some h \<Rightarrow>
          (case sc_call h a m of
             (Ok val, m) \<Rightarrow> (Ok val, m)
           | (Err val, m) \<Rightarrow> (Ok (- system_call_error val), m)
           | (Panic, m) \<Rightarrow> (Panic, m)
           | (Hang, m) \<Rightarrow> (Hang, m))
      | None \<Rightarrow>
          and_then (println [ascii ''not implemented: system call '', fmt_dec (unat num), ascii '' ('', fmt_hex (unat num), ascii '')''] m)
            (\<lambda>_ m. (Ok (- system_call_error FunctionNotImplemented), m)))"

section \<open>Write\<close>

fun map_err :: "('e \<Rightarrow> 'f) \<Rightarrow> ('a, 'e) outcome \<Rightarrow> ('a, 'f) outcome" where
  "map_err f (Ok a) = Ok a"
| "map_err f (Err e) = Err (f e)"
| "map_err f Panic = Panic"
| "map_err f Hang = Hang"

text \<open>A call of a function that does not return a \<^verbatim>\<open>Result\<close> has no error to pass on.\<close>

fun no_err :: "('a, 'e) outcome \<Rightarrow> ('a, 'f) outcome" where
  "no_err (Ok a) = Ok a"
| "no_err Hang = Hang"
| "no_err _ = Panic"

definition sys_write_call :: "args \<Rightarrow> machine \<Rightarrow> (usize, SystemCallError) outcome \<times> machine" where
  "sys_write_call a m =
     (let fd = arg0 a; buf = UserAddress (arg1 a); len = arg2 a in
      if fd \<noteq> 1 then (Err BadFileNumber, m)
      else
        and_then (apfst no_err (the_current_task m)) (\<lambda>task m.
        and_then (apfst no_err (vec_zeroed len m)) (\<lambda>k_buf m.
        and_then (map_err (\<lambda>_. BadAddress) (copy_from_user (ttbr0_el1 (k_core (m_kernel m))) buf len (k_mm (m_kernel m))), m) (\<lambda>k_buf m.
        and_then (apfst no_err (print [from_utf8_lossy k_buf] m)) (\<lambda>_ m.
          (Ok len, m))))))"

definition sys_write :: system_call where
  "sys_write = \<lparr>sc_number = Write, sc_call = sys_write_call\<rparr>"

section \<open>The table of handlers\<close>

lemma index_handlers_ok:
  assumes "\<forall>h \<in> set hs. sc_index h < length t"
  shows "\<exists>t'. index_handlers hs t = Ok t' \<and> length t' = length t
    \<and> (\<forall>n < length t. t' ! n = (case find (\<lambda>h. sc_index h = n) (rev hs) of Some h \<Rightarrow> Some h | None \<Rightarrow> t ! n))"
  using assms
proof (induction hs arbitrary: t)
  case (Cons h hs)
  let ?t = "t[sc_index h := Some h]"
  obtain t' where t': "index_handlers hs ?t = Ok t'" "length t' = length t"
    "\<And>n. n < length t \<Longrightarrow> t' ! n = (case find (\<lambda>h. sc_index h = n) (rev hs) of Some h \<Rightarrow> Some h | None \<Rightarrow> ?t ! n)"
    using Cons.IH [of ?t] Cons.prems by auto
  have "find P (xs @ [h]) = (case find P xs of None \<Rightarrow> if P h then Some h else None | Some x \<Rightarrow> Some x)" for P xs
    by (induction xs) auto
  then show ?case using t' Cons.prems by (auto simp: nth_list_update split: option.split)
qed simp

lemma fold_max_mono: "k \<le> fold (\<lambda>h n. max n (f h)) hs (k :: nat)"
proof (induction hs arbitrary: k)
  case (Cons x hs)
  show ?case unfolding fold_simps by (rule le_trans [OF max.cobounded1 Cons])
qed simp

lemma fold_max_ge: "h \<in> set hs \<Longrightarrow> f h \<le> fold (\<lambda>h n. max n (f h)) hs (k :: nat)"
proof (induction hs arbitrary: k)
  case (Cons x hs)
  then show ?case using fold_max_mono [of "max k (f x)" f hs] by auto
qed simp

text \<open>Every handler is found under its number, the last one when there are several, and no other number has one.\<close>

lemma system_call_router_new_get:
  "\<exists>t. system_call_router_new hs = Ok t \<and> (\<forall>num. router_get t num = find (\<lambda>h. sc_index h = unat num) (rev hs))"
proof -
  let ?n = "fold (\<lambda>h n. max n (sc_index h)) hs 0"
  have le: "sc_index h \<le> ?n" if "h \<in> set hs" for h using fold_max_ge [OF that] .
  then have "\<forall>h \<in> set hs. sc_index h < length (replicate (?n + 1) None)" by (simp add: less_Suc_eq_le)
  from index_handlers_ok [OF this] obtain t where t: "system_call_router_new hs = Ok t" "length t = ?n + 1"
    "\<And>n. n < ?n + 1 \<Longrightarrow> t ! n = (case find (\<lambda>h. sc_index h = n) (rev hs) of Some h \<Rightarrow> Some h | None \<Rightarrow> replicate (?n + 1) None ! n)"
    unfolding system_call_router_new_def Let_def length_replicate by blast
  have none: "find (\<lambda>h. sc_index h = n) (rev hs) = None" if "\<not> n < ?n + 1" for n
    using le that by (fastforce simp: find_None_iff)
  have "router_get t num = find (\<lambda>h. sc_index h = unat num) (rev hs)" for num
    using t(2,3) none [of "unat num"] nth_replicate [of "unat num" "?n + 1" None]
    by (simp add: router_get_def split: option.split del: replicate_Suc)
  then show ?thesis using t(1) by blast
qed

section \<open>What the calls do\<close>

lemma heap_leftD:
  assumes "heap_left n h"
  shows "heap_start h \<noteq> 0" "unat (heap_start h) + unat HEAP_N < 2 ^ 64" "unat (heap_allocated h) \<le> unat HEAP_N"
  using assms by (simp_all add: heap_left_def)

lemma sys_write_bad_fd: "arg0 a \<noteq> 1 \<Longrightarrow> sys_write_call a m = (Err BadFileNumber, m)"
  by (simp add: sys_write_call_def Let_def)

text \<open>The bytes of the task are printed, and the heap loses the buffer for good.\<close>

definition user_bytes :: "machine \<Rightarrow> task \<Rightarrow> usize \<Rightarrow> usize \<Rightarrow> bytes" where
  "user_bytes m x va len = map (\<lambda>i. the (user_mem (k_mm (m_kernel m)) (mem_context x) (va + of_nat i))) [0..<unat len]"

definition heap_used :: "usize \<Rightarrow> machine \<Rightarrow> machine" where
  "heap_used len m = m\<lparr>m_heap := (m_heap m)\<lparr>heap_allocated := heap_allocated (m_heap m) + len\<rparr>\<rparr>"

lemma heap_used_simps [simp]:
  "m_kernel (heap_used len m) = m_kernel m" "m_log (heap_used len m) = m_log m" "m_uart (heap_used len m) = m_uart m"
  "m_intc (heap_used len m) = m_intc m" "m_scheduler (heap_used len m) = m_scheduler m"
  by (simp_all add: heap_used_def)

lemma heap_left_used:
  assumes "heap_left (n + unat len) (m_heap m)"
  shows "heap_left n (m_heap (heap_used len m))"
proof -
  have "unat (heap_allocated (m_heap m)) + (n + unat len) \<le> unat HEAP_N" using assms by (simp add: heap_left_def)
  moreover have "unat HEAP_N = 4194304" by (simp add: HEAP_N_def)
  ultimately have "unat (heap_allocated (m_heap m) + len) = unat (heap_allocated (m_heap m)) + unat len"
    by (intro unat_add_noof) simp
  then show ?thesis using assms by (simp add: heap_left_def heap_used_def)
qed

text \<open>Once the bytes are in the kernel, they are printed.\<close>

lemma sys_write_done:
  assumes "runs_task m x" and "arg0 a = 1" and "heap_left (unat (arg2 a)) (m_heap m)"
    and "load_bytes (kmem (k_mm (m_kernel m))) (mc_ttbr (mem_context x)) (arg1 a) (unat (arg2 a)) = Ok bs"
  shows "\<exists>m'. sys_write_call a m = (Ok (arg2 a), m') \<and> printed (from_utf8_lossy bs) (heap_used (arg2 a) m) m'"
proof -
  let ?m = "heap_used (arg2 a) m"
  have v: "vec_zeroed (arg2 a) m = (Ok (replicate (unat (arg2 a)) 0), ?m)"
    using vec_zeroed_cases(1) [OF heap_leftD [OF assms(3)] assms(3)] by (simp add: heap_used_def)
  have "copy_from_user (ttbr0_el1 (k_core (m_kernel m))) (UserAddress (arg1 a)) (arg2 a) (k_mm (m_kernel m)) = Ok bs"
    using assms(4) by (simp add: copy_from_user_def runs_task_space(1) [OF assms(1)])
  moreover obtain m' where "print [from_utf8_lossy bs] ?m = (Ok (), m')" "printed (from_utf8_lossy bs) ?m m'"
    using print_printed [of ?m "[from_utf8_lossy bs]"] assms(1) by (auto simp: runs_task_def)
  ultimately show ?thesis
    using the_current_task_runs [OF assms(1)] assms(2) v by (simp add: sys_write_call_def Let_def)
qed

lemma sys_write_ok:
  assumes "runs_task m x" and "arg0 a = 1" and "heap_left (unat (arg2 a)) (m_heap m)"
    and "user_range (k_mm (m_kernel m)) (mem_context x) (arg1 a) (unat (arg2 a))"
  shows "\<exists>m'. sys_write_call a m = (Ok (arg2 a), m')
    \<and> printed (from_utf8_lossy (user_bytes m x (arg1 a) (arg2 a))) (heap_used (arg2 a) m) m'"
  using sys_write_done [OF assms(1-3)] load_bytes_user [OF runs_task_space(2) [OF assms(1)] assms(4)]
  by (simp add: user_bytes_def)

text \<open>The two ways a task can bring the kernel down: more bytes than the heap has left, or memory that is not mapped.\<close>

lemma sys_write_exhausted:
  assumes "runs_task m x" and "arg0 a = 1" and "heap_left 0 (m_heap m)" and "\<not> heap_left (unat (arg2 a)) (m_heap m)"
  shows "fst (sys_write_call a m) = Panic"
proof -
  obtain m' where "vec_zeroed (arg2 a) m = (Panic, m')"
    using vec_zeroed_cases(2) [OF heap_leftD [OF assms(3)] assms(4)] by (metis prod.collapse)
  then show ?thesis using the_current_task_runs [OF assms(1)] assms(2) by (simp add: sys_write_call_def Let_def)
qed

lemma load_bytes_mapped:
  assumes "\<And>i. i < n \<Longrightarrow> byte_ptr m ttbr (va + of_nat i) = Some (q i)"
  shows "load_bytes m ttbr va n = Ok (map (\<lambda>i. m (q i)) [0..<n])"
  using assms
proof (induction n arbitrary: va q)
  case (Suc n)
  have "load_bytes m ttbr (va + 1) n = Ok (map (\<lambda>i. m (q (Suc i))) [0..<n])"
  proof (rule Suc.IH)
    show "byte_ptr m ttbr (va + 1 + of_nat i) = Some (q (Suc i))" if "i < n" for i
      using Suc.prems [of "Suc i"] that by (simp add: add.assoc)
  qed
  then show ?case using Suc.prems [of 0] by (simp add: upt_0_Suc comp_def del: upt_Suc)
qed simp

lemma load_bytes_unmapped:
  assumes "i < n" and "byte_ptr m ttbr (va + of_nat i) = None"
  shows "load_bytes m ttbr va n = Panic"
  using assms
proof (induction n arbitrary: va i)
  case (Suc n)
  show ?case
  proof (cases i)
    case 0
    then show ?thesis using Suc.prems by simp
  next
    case (Suc j)
    then have "load_bytes m ttbr (va + 1) n = Panic" using Suc.prems by (intro Suc.IH [of j]) (simp_all add: add.assoc)
    then show ?thesis by (simp split: option.split)
  qed
qed simp

lemma sys_write_fault:
  assumes "runs_task m x" and "arg0 a = 1" and "heap_left (unat (arg2 a)) (m_heap m)"
    and "i < unat (arg2 a)" and "byte_ptr (kmem (k_mm (m_kernel m))) (mc_ttbr (mem_context x)) (arg1 a + of_nat i) = None"
  shows "fst (sys_write_call a m) = Panic"
proof -
  have v: "vec_zeroed (arg2 a) m = (Ok (replicate (unat (arg2 a)) 0), heap_used (arg2 a) m)"
    using vec_zeroed_cases(1) [OF heap_leftD [OF assms(3)] assms(3)] by (simp add: heap_used_def)
  have "copy_from_user (ttbr0_el1 (k_core (m_kernel m))) (UserAddress (arg1 a)) (arg2 a) (k_mm (m_kernel m)) = Panic"
    using load_bytes_unmapped [OF assms(4,5)] by (simp add: copy_from_user_def runs_task_space(1) [OF assms(1)])
  then show ?thesis using the_current_task_runs [OF assms(1)] assms(2) v by (simp add: sys_write_call_def Let_def)
qed

text \<open>The address is not checked: memory of the kernel is read like that of the task.\<close>

lemma copy_from_user_kernel:
  assumes "unat VA_START \<le> unat va" and "unat va + unat len \<le> unat VA_START + 2 ^ 39"
  shows "copy_from_user ttbr (UserAddress va) len s = Ok (map (\<lambda>i. kmem s (va + of_nat i)) [0..<unat len])"
proof -
  have "load_bytes (kmem s) ttbr va n = Ok (map (\<lambda>i. kmem s (va + of_nat i)) [0..<n])"
    if "unat VA_START \<le> unat va" "unat va + n \<le> unat VA_START + 2 ^ 39" for va n
    using that
  proof (induction n arbitrary: va)
    case (Suc n)
    have V: "unat VA_START = 0xFFFF000000000000" by (simp add: VA_START_value)
    have u: "unat (va + 1) = unat va + 1" using Suc.prems V by (simp add: unat_add_noof)
    have "byte_ptr (kmem s) ttbr va = Some va" using Suc.prems V by (simp add: byte_ptr_def)
    moreover have "load_bytes (kmem s) ttbr (va + 1) n = Ok (map (\<lambda>i. kmem s (va + 1 + of_nat i)) [0..<n])"
      using Suc.prems u by (intro Suc.IH) simp_all
    ultimately show ?case by (simp add: upt_0_Suc comp_def add.assoc del: upt_Suc)
  qed simp
  then show ?thesis using assms by (simp add: copy_from_user_def)
qed

end
