(* ===== verification/Vector_Table.thy ===== *)
theory Vector_Table
  imports Interrupts System_Calls
begin

unbundle bit_operations_syntax

text \<open>
  Entry into the kernel (\<^verbatim>\<open>abi/aarch64/vector_table.rs\<close>): the table of handlers, its installation, and the functions that the
  assembly stubs of the vector table call, with the saved registers as their argument.
\<close>

section \<open>Operations\<close>

definition ESR_EL1_EC_SHIFT :: nat where
  [consts_defs]: "ESR_EL1_EC_SHIFT = 26"

definition ESR_EL1_EC_MASK :: u64 where
  [consts_defs]: "ESR_EL1_EC_MASK = push_bit ESR_EL1_EC_SHIFT 0b111111"

definition ESR_EL1_EC_SVC64 :: u64 where
  [consts_defs]: "ESR_EL1_EC_SVC64 = 0b010101"

text \<open>The registers that the stubs save.\<close>

record trap_frame =
  r_x0 :: u64
  r_x1 :: u64
  r_x2 :: u64
  r_x3 :: u64
  r_x4 :: u64
  r_x5 :: u64
  r_x6 :: u64
  r_x7 :: u64
  r_x8 :: u64
  r_x9 :: u64
  r_x10 :: u64
  r_x11 :: u64
  r_x12 :: u64
  r_x13 :: u64
  r_x14 :: u64
  r_x15 :: u64
  r_x16 :: u64
  r_x17 :: u64
  r_x18 :: u64
  r_x19 :: u64
  r_x20 :: u64
  r_x21 :: u64
  r_x22 :: u64
  r_x23 :: u64
  r_x24 :: u64
  r_x25 :: u64
  r_x26 :: u64
  r_x27 :: u64
  r_x28 :: u64
  r_fp :: u64
  r_lr :: u64
  r_sp_el0 :: u64
  r_elr_el1 :: u64
  r_spsr_el1 :: u64

text \<open>
  \<^verbatim>\<open>local_interrupt_handler\<close> refers to the one interrupt router, which is part of the state because it changes. The router for
  system calls does not change.
\<close>

record vector_table =
  local_interrupt_handler :: unit
  system_call_handler :: system_call_router

definition vector_table_new :: "unit \<Rightarrow> system_call_router \<Rightarrow> vector_table" where
  "vector_table_new i s = \<lparr>local_interrupt_handler = i, system_call_handler = s\<rparr>"

record platform =
  p_router :: "machine interrupt_router"
  p_installed :: "vector_table once_lock"
  p_vbar_el1 :: u64
  p_machine :: machine

definition vector_table_install :: "u64 \<Rightarrow> vector_table \<Rightarrow> platform \<Rightarrow> unit res \<times> platform" where
  "vector_table_install stubs t p =
     (case once_lock_set t (p_installed p) of
        (Ok _, l) \<Rightarrow> (Ok (), p\<lparr>p_installed := l, p_vbar_el1 := stubs\<rparr>)
      | (Hang, l) \<Rightarrow> (Hang, p\<lparr>p_installed := l\<rparr>)
      | (_, l) \<Rightarrow> (Panic, p\<lparr>p_installed := l\<rparr>))"

definition installed_table :: "platform \<Rightarrow> vector_table res" where
  "installed_table p = bind_res (once_lock_get (p_installed p)) unwrap_opt"

definition vector_sync_el1 :: "trap_frame \<Rightarrow> u64 \<Rightarrow> u64 \<Rightarrow> u64 \<Rightarrow> platform \<Rightarrow> unit res \<times> (trap_frame \<times> platform)" where
  "vector_sync_el1 frame esr_el1 far_el1 elr_el1 p = (Panic, (frame, p))"

definition vector_sync_el0 :: "trap_frame \<Rightarrow> u64 \<Rightarrow> u64 \<Rightarrow> u64 \<Rightarrow> platform \<Rightarrow> unit res \<times> (trap_frame \<times> platform)" where
  "vector_sync_el0 frame esr_el1 far_el1 elr_el1 p =
     (if drop_bit ESR_EL1_EC_SHIFT (esr_el1 AND ESR_EL1_EC_MASK) = ESR_EL1_EC_SVC64
      then and_then (installed_table p, (frame, p)) (\<lambda>table (frame, p).
        case system_call_handle (system_call_handler table) (r_x8 frame)
               \<lparr>arg0 = r_x0 frame, arg1 = r_x1 frame, arg2 = r_x2 frame, arg3 = r_x3 frame, arg4 = r_x4 frame, arg5 = r_x5 frame\<rparr> (p_machine p) of
          (Ok v, m) \<Rightarrow> (Ok (), (frame\<lparr>r_x0 := v\<rparr>, p\<lparr>p_machine := m\<rparr>))
        | (Err e, m) \<Rightarrow> (Err e, (frame, p\<lparr>p_machine := m\<rparr>))
        | (Panic, m) \<Rightarrow> (Panic, (frame, p\<lparr>p_machine := m\<rparr>))
        | (Hang, m) \<Rightarrow> (Hang, (frame, p\<lparr>p_machine := m\<rparr>)))
      else (Panic, (frame, p)))"

definition vector_irq :: "platform \<Rightarrow> unit res \<times> platform" where
  "vector_irq p =
     and_then (installed_table p, p) (\<lambda>table p.
       case router_handle (p_router p, p_machine p) of (r, (router, m)) \<Rightarrow> (r, p\<lparr>p_router := router, p_machine := m\<rparr>))"

definition vector_invalid :: "u64 \<Rightarrow> u64 \<Rightarrow> u64 \<Rightarrow> platform \<Rightarrow> unit res \<times> platform" where
  "vector_invalid code esr_el1 far_el1 p = (Panic, p)"

text \<open>The handler that the start-up code registers for the timer.\<close>

definition schedule_handler :: "machine handler_fn" where
  "schedule_handler m = on_kernel (on_sched schedule) m"

text \<open>The platform as the start-up code leaves it: the timer in the router, \<^verbatim>\<open>write\<close> in the system call table.\<close>

definition platform_ready :: "platform \<Rightarrow> bool" where
  "platform_ready p \<longleftrightarrow>
     \<not> ir_lock (p_router p)
     \<and> interrupts (p_router p) = [\<lparr>controller = bcm2837_controller, number = CNTPNSIRQ, handler = schedule_handler\<rparr>]
     \<and> (\<exists>t. installed_table p = Ok t \<and> system_call_router_new [sys_write] = Ok (system_call_handler t))"

section \<open>System calls\<close>

text \<open>The registers a call reads.\<close>

definition svc_args :: "trap_frame \<Rightarrow> args" where
  "svc_args frame = \<lparr>arg0 = r_x0 frame, arg1 = r_x1 frame, arg2 = r_x2 frame, arg3 = r_x3 frame, arg4 = r_x4 frame, arg5 = r_x5 frame\<rparr>"

lemma ready_get:
  assumes "platform_ready p"
  obtains t where "installed_table p = Ok t"
    "\<And>num. router_get (system_call_handler t) num = (if num = 64 then Some sys_write else None)"
proof -
  obtain t where t: "installed_table p = Ok t" "system_call_router_new [sys_write] = Ok (system_call_handler t)"
    using assms by (auto simp: platform_ready_def)
  moreover have "sc_index sys_write = unat num \<longleftrightarrow> num = 64" for num :: usize
    by (auto simp: sc_index_def sys_write_def word_unat_eq_iff)
  ultimately have "router_get (system_call_handler t) num = (if num = 64 then Some sys_write else None)" for num
    using system_call_router_new_get [of "[sys_write]"] by auto
  with t(1) show thesis by (rule that)
qed

text \<open>An exception of class \<^verbatim>\<open>SVC\<close>.\<close>

definition is_svc :: "u64 \<Rightarrow> bool" where
  "is_svc esr \<longleftrightarrow> drop_bit ESR_EL1_EC_SHIFT (esr AND ESR_EL1_EC_MASK) = ESR_EL1_EC_SVC64"

lemma svc_write:
  assumes "platform_ready p" and "is_svc esr" and "r_x8 frame = 64"
  shows "vector_sync_el0 frame esr far elr p =
    (case sys_write_call (svc_args frame) (p_machine p) of
       (Ok v, m) \<Rightarrow> (Ok (), (frame\<lparr>r_x0 := v\<rparr>, p\<lparr>p_machine := m\<rparr>))
     | (Err e, m) \<Rightarrow> (Ok (), (frame\<lparr>r_x0 := - system_call_error e\<rparr>, p\<lparr>p_machine := m\<rparr>))
     | (Panic, m) \<Rightarrow> (Panic, (frame, p\<lparr>p_machine := m\<rparr>))
     | (Hang, m) \<Rightarrow> (Hang, (frame, p\<lparr>p_machine := m\<rparr>)))"
proof -
  obtain t where "installed_table p = Ok t"
    "\<And>num. router_get (system_call_handler t) num = (if num = 64 then Some sys_write else None)"
    using ready_get [OF assms(1)] by blast
  then show ?thesis
    using assms(2,3) by (auto simp: vector_sync_el0_def system_call_handle_def sys_write_def svc_args_def is_svc_def split: outcome.splits prod.splits)
qed

lemma svc_other:
  assumes "platform_ready p" and "is_svc esr" and "r_x8 frame \<noteq> 64"
    and "m_log (p_machine p) = serial_log" and "uart_ready (m_uart (p_machine p))" and "monotonic (timer (k_core (m_kernel (p_machine p)))) = Ok now"
  shows "\<exists>m'. vector_sync_el0 frame esr far elr p = (Ok (), (frame\<lparr>r_x0 := - 38\<rparr>, p\<lparr>p_machine := m'\<rparr>))
    \<and> printed (concat (timestamp now) @ ascii ''not implemented: system call '' @ fmt_dec (unat (r_x8 frame)) @ ascii '' ('' @ fmt_hex (unat (r_x8 frame))
        @ ascii '')'' @ ascii [CHR 0x0A]) (p_machine p) m'"
proof -
  obtain t where t: "installed_table p = Ok t"
    "\<And>num. router_get (system_call_handler t) num = (if num = 64 then Some sys_write else None)"
    using ready_get [OF assms(1)] by blast
  let ?ss = "[ascii ''not implemented: system call '', fmt_dec (unat (r_x8 frame)), ascii '' ('', fmt_hex (unat (r_x8 frame)), ascii '')'']"
  obtain m' where "println ?ss (p_machine p) = (Ok (), m')" "printed (concat (timestamp now) @ concat ?ss @ ascii [CHR 0x0A]) (p_machine p) m'"
    using println_printed [OF assms(4-6), of ?ss] by blast
  then show ?thesis
    using t assms(2,3) by (auto simp: vector_sync_el0_def system_call_handle_def is_svc_def)
qed

lemma heap_used_runs: "runs_task (heap_used len m) x \<longleftrightarrow> runs_task m x"
  by (simp add: runs_task_def)

text \<open>A byte of the range that is not mapped.\<close>

definition unmapped_byte :: "machine \<Rightarrow> task \<Rightarrow> usize \<Rightarrow> usize \<Rightarrow> bool" where
  "unmapped_byte m x va len \<longleftrightarrow> (\<exists>i < unat len. byte_ptr (kmem (k_mm (m_kernel m))) (mc_ttbr (mem_context x)) (va + of_nat i) = None)"

lemma svc_args_simps: "arg0 (svc_args frame) = r_x0 frame" "arg1 (svc_args frame) = r_x1 frame" "arg2 (svc_args frame) = r_x2 frame"
  by (simp_all add: svc_args_def)

lemma svc_write_prints:
  assumes "platform_ready p" and "is_svc esr" and "r_x8 frame = 64" and "runs_task (p_machine p) x" and "r_x0 frame = 1"
    and "heap_left (unat (r_x2 frame)) (m_heap (p_machine p))"
    and "user_range (k_mm (m_kernel (p_machine p))) (mem_context x) (r_x1 frame) (unat (r_x2 frame))"
  shows "\<exists>m'. vector_sync_el0 frame esr far elr p = (Ok (), (frame\<lparr>r_x0 := r_x2 frame\<rparr>, p\<lparr>p_machine := m'\<rparr>))
      \<and> printed (from_utf8_lossy (user_bytes (p_machine p) x (r_x1 frame) (r_x2 frame))) (heap_used (r_x2 frame) (p_machine p)) m'
      \<and> runs_task m' x"
proof -
  obtain m' where "sys_write_call (svc_args frame) (p_machine p) = (Ok (r_x2 frame), m')"
      "printed (from_utf8_lossy (user_bytes (p_machine p) x (r_x1 frame) (r_x2 frame))) (heap_used (r_x2 frame) (p_machine p)) m'"
    using sys_write_ok [OF assms(4), of "svc_args frame"] assms(5-7) unfolding svc_args_simps by blast
  then show ?thesis using svc_write [OF assms(1-3), of far elr] assms(4) printed_runs heap_used_runs by auto
qed

lemma svc_write_panics:
  assumes "platform_ready p" and "is_svc esr" and "r_x8 frame = 64" and "runs_task (p_machine p) x" and "r_x0 frame = 1"
    and "heap_left 0 (m_heap (p_machine p))"
    and "\<not> heap_left (unat (r_x2 frame)) (m_heap (p_machine p)) \<or> unmapped_byte (p_machine p) x (r_x1 frame) (r_x2 frame)"
  shows "fst (vector_sync_el0 frame esr far elr p) = Panic"
proof -
  have "fst (sys_write_call (svc_args frame) (p_machine p)) = Panic"
  proof (cases "heap_left (unat (r_x2 frame)) (m_heap (p_machine p))")
    case True
    then show ?thesis
      using assms(7) sys_write_fault [OF assms(4), of "svc_args frame"] assms(5) unfolding svc_args_simps unmapped_byte_def by blast
  next
    case False
    then show ?thesis
      using sys_write_exhausted [OF assms(4) _ assms(6), of "svc_args frame"] assms(5) unfolding svc_args_simps by blast
  qed
  then show ?thesis
    using svc_write [OF assms(1-3), of far elr] by (cases "sys_write_call (svc_args frame) (p_machine p)") simp
qed

text \<open>
  C15. System calls, from the exception to the result. With the table that the start-up code installs and a
  task running, an \<^verbatim>\<open>SVC\<close> exception with \<^verbatim>\<open>write\<close> in \<open>x8\<close>: to a descriptor other than 1 gives \<^verbatim>\<open>-EBADF\<close> and does nothing
  else; of a mapped range, while the heap has that many bytes left, prints the bytes as text, takes the bytes from the heap and
  gives their number; with more bytes than the heap has left, or with one byte not mapped, panics. Another number in \<open>x8\<close>
  gives \<^verbatim>\<open>-ENOSYS\<close> and a line in the log. Of the saved registers only \<open>x0\<close> ever changes, and the task still runs.
\<close>

theorem system_call_spec:
  assumes "platform_ready p" and "runs_task (p_machine p) x" and "is_svc esr" and "heap_left 0 (m_heap (p_machine p))"
    and "monotonic (timer (k_core (m_kernel (p_machine p)))) = Ok now"
  shows "(r_x8 frame = 64 \<longrightarrow> r_x0 frame \<noteq> 1 \<longrightarrow> vector_sync_el0 frame esr far elr p = (Ok (), (frame\<lparr>r_x0 := - 9\<rparr>, p)))
    \<and> (r_x8 frame = 64 \<longrightarrow> r_x0 frame = 1 \<longrightarrow> heap_left (unat (r_x2 frame)) (m_heap (p_machine p)) \<longrightarrow>
        user_range (k_mm (m_kernel (p_machine p))) (mem_context x) (r_x1 frame) (unat (r_x2 frame)) \<longrightarrow>
        (\<exists>m'. vector_sync_el0 frame esr far elr p = (Ok (), (frame\<lparr>r_x0 := r_x2 frame\<rparr>, p\<lparr>p_machine := m'\<rparr>))
           \<and> printed (from_utf8_lossy (user_bytes (p_machine p) x (r_x1 frame) (r_x2 frame))) (heap_used (r_x2 frame) (p_machine p)) m'
           \<and> runs_task m' x))
    \<and> (r_x8 frame = 64 \<longrightarrow> r_x0 frame = 1 \<longrightarrow>
        \<not> heap_left (unat (r_x2 frame)) (m_heap (p_machine p)) \<or> unmapped_byte (p_machine p) x (r_x1 frame) (r_x2 frame) \<longrightarrow>
        fst (vector_sync_el0 frame esr far elr p) = Panic)
    \<and> (r_x8 frame \<noteq> 64 \<longrightarrow>
        (\<exists>m'. vector_sync_el0 frame esr far elr p = (Ok (), (frame\<lparr>r_x0 := - 38\<rparr>, p\<lparr>p_machine := m'\<rparr>))
          \<and> printed (concat (timestamp now) @ ascii ''not implemented: system call '' @ fmt_dec (unat (r_x8 frame)) @ ascii '' ('' @ fmt_hex (unat (r_x8 frame))
              @ ascii '')'' @ ascii [CHR 0x0A]) (p_machine p) m' \<and> runs_task m' x))"
proof (intro conjI impI)
  assume "r_x8 frame = 64" "r_x0 frame \<noteq> 1"
  then show "vector_sync_el0 frame esr far elr p = (Ok (), (frame\<lparr>r_x0 := - 9\<rparr>, p))"
    using svc_write [OF assms(1,3), of frame far elr] sys_write_bad_fd [of "svc_args frame" "p_machine p"] by (simp add: svc_args_simps)
next
  have "m_log (p_machine p) = serial_log" "uart_ready (m_uart (p_machine p))" using assms(2) by (simp_all add: runs_task_def)
  moreover assume "r_x8 frame \<noteq> 64"
  ultimately show "\<exists>m'. vector_sync_el0 frame esr far elr p = (Ok (), (frame\<lparr>r_x0 := - 38\<rparr>, p\<lparr>p_machine := m'\<rparr>))
          \<and> printed (concat (timestamp now) @ ascii ''not implemented: system call '' @ fmt_dec (unat (r_x8 frame)) @ ascii '' ('' @ fmt_hex (unat (r_x8 frame))
              @ ascii '')'' @ ascii [CHR 0x0A]) (p_machine p) m' \<and> runs_task m' x"
    using svc_other [OF assms(1,3), of frame now far elr] printed_runs assms(2,5) by blast
qed (use svc_write_prints [OF assms(1,3) _ assms(2)] svc_write_panics [OF assms(1,3) _ assms(2) _ assms(4)] in blast)+

section \<open>The timer interrupt\<close>

lemma timer_served:
  "bcm2837.served ([] @ \<lparr>controller = bcm2837_controller, number = CNTPNSIRQ, handler = schedule_handler\<rparr> # [])"
  by (simp add: bcm2837.served_def)

lemma vector_irq_timer:
  assumes "platform_ready p"
  shows "intc_is_pending CNTPNSIRQ (m_intc (p_machine p)) \<Longrightarrow> vector_irq p =
      (case schedule_handler ((p_machine p)\<lparr>m_intc := intc_clear CNTPNSIRQ (m_intc (p_machine p))\<rparr>) of (r, m) \<Rightarrow> (r, p\<lparr>p_machine := m\<rparr>))"
    and "\<not> intc_is_pending CNTPNSIRQ (m_intc (p_machine p)) \<Longrightarrow> vector_irq p = (Ok (), p)"
proof -
  obtain t where t: "installed_table p = Ok t" using assms by (auto simp: platform_ready_def)
  have i: "interrupts (p_router p) = [] @ \<lparr>controller = bcm2837_controller, number = CNTPNSIRQ, handler = schedule_handler\<rparr> # []"
    and l: "\<not> ir_lock (p_router p)" using assms by (auto simp: platform_ready_def)
  have c: "ic_clear bcm2837_controller CNTPNSIRQ m = m\<lparr>m_intc := intc_clear CNTPNSIRQ (m_intc m)\<rparr>"
    "ic_is_pending bcm2837_controller CNTPNSIRQ m \<longleftrightarrow> intc_is_pending CNTPNSIRQ (m_intc m)" for m
    by (simp_all add: bcm2837_controller_def)
  show "vector_irq p = (case schedule_handler ((p_machine p)\<lparr>m_intc := intc_clear CNTPNSIRQ (m_intc (p_machine p))\<rparr>) of (r, m) \<Rightarrow> (r, p\<lparr>p_machine := m\<rparr>))"
    if "intc_is_pending CNTPNSIRQ (m_intc (p_machine p))"
    using bcm2837.handle_first(2) [OF timer_served _ _ i l, of "p_machine p"] that t by (simp add: vector_irq_def c split: prod.split)
  show "vector_irq p = (Ok (), p)" if "\<not> intc_is_pending CNTPNSIRQ (m_intc (p_machine p))"
    using bcm2837.handle_none [of "p_router p" "p_machine p"] l i that t by (simp add: vector_irq_def c)
qed

lemma schedule_handler_runs:
  assumes "runs_task m x"
  obtains n q y k where "schedule_handler m = (Ok (), m\<lparr>m_kernel := k\<rparr>)" "runs_task (m\<lparr>m_kernel := k\<rparr>) y"
    "queue (k_sched (m_kernel m)) @ [tid x] = n # q" "queue (k_sched k) = q" "tid y = n"
    "k_mm k = k_mm (m_kernel m)" "interrupts_enabled (k_core k)"
    "timer (k_core k) = set_duration (quantum (k_sched k)) (timer (k_core (m_kernel m)))"
    "task_regs \<lparr>cores = [k_core k], smp_sched = k_sched k\<rparr> = task_regs \<lparr>cores = [k_core (m_kernel m)], smp_sched = k_sched (m_kernel m)\<rparr>"
    "\<forall>t. map_option mem_context (tasks (k_sched k) t) = map_option mem_context (tasks (k_sched (m_kernel m)) t)"
    "task_counter k = task_counter (m_kernel m)"
proof -
  let ?k = "m_kernel m"
  have kw: "kernel_wf ?k" and cur: "current_tasks (k_sched ?k) = [Some (tid x)]" using assms by (simp_all add: runs_task_def)
  from kw cur show thesis
  proof (cases rule: kernel_schedule)
    case (1 n q)
    let ?st = "switched 0 (tid x) n q (k_core ?k, k_sched ?k)"
    let ?k' = "?k\<lparr>k_core := fst ?st, k_sched := snd ?st\<rparr>"
    obtain y where y: "tasks (snd ?st) n = Some y" using 1(2) by (auto simp: switched_tasks)
    have idy: "tid y = n" using 1(4) y by (auto simp: kernel_wf_def smp_wf_def sched_wf_def)
    have "runs_task (m\<lparr>m_kernel := ?k'\<rparr>) y"
      using assms 1(4) y idy cur by (simp add: runs_task_def switched_simps)
    moreover have "schedule_handler m = (Ok (), m\<lparr>m_kernel := ?k'\<rparr>)" using 1(3) by (simp add: schedule_handler_def on_kernel_def)
    moreover have "map_option mem_context (tasks (k_sched ?k') t) = map_option mem_context (tasks (k_sched ?k) t)" for t
      by (cases "tasks (k_sched ?k) t") (simp_all add: switched_tasks)
    ultimately show thesis using that [of ?k' y n q] 1(1,5) idy by (simp add: switched_simps)
  qed
qed

text \<open>
  C16. Preemption. When the timer interrupt is pending, the handler of the interrupt vector clears it, switches the core
  to the task at the front of the queue, and puts the interrupted one at the back; every task keeps its registers, the
  address space of the core is that of the new task, interrupts are on, the timer is set to the next quantum, the
  kernel's invariant holds, and nothing else of the machine changes. When it is not pending, nothing happens.
\<close>

theorem timer_irq_preempts:
  assumes "platform_ready p" and "runs_task (p_machine p) x"
  shows "(\<not> intc_is_pending CNTPNSIRQ (m_intc (p_machine p)) \<longrightarrow> vector_irq p = (Ok (), p))
    \<and> (intc_is_pending CNTPNSIRQ (m_intc (p_machine p)) \<longrightarrow>
       (\<exists>m' y. vector_irq p = (Ok (), p\<lparr>p_machine := m'\<rparr>) \<and> runs_task m' y
         \<and> \<not> intc_is_pending CNTPNSIRQ (m_intc m')
         \<and> tid y # queue (k_sched (m_kernel m')) = queue (k_sched (m_kernel (p_machine p))) @ [tid x]
         \<and> task_regs \<lparr>cores = [k_core (m_kernel m')], smp_sched = k_sched (m_kernel m')\<rparr>
            = task_regs \<lparr>cores = [k_core (m_kernel (p_machine p))], smp_sched = k_sched (m_kernel (p_machine p))\<rparr>
         \<and> ttbr0_el1 (k_core (m_kernel m')) = mc_ttbr (mem_context y) \<and> interrupts_enabled (k_core (m_kernel m'))
         \<and> timer (k_core (m_kernel m')) = set_duration (quantum (k_sched (m_kernel m'))) (timer (k_core (m_kernel (p_machine p))))
         \<and> k_mm (m_kernel m') = k_mm (m_kernel (p_machine p)) \<and> m_uart m' = m_uart (p_machine p) \<and> m_heap m' = m_heap (p_machine p)))"
proof (intro conjI impI)
  assume pend: "intc_is_pending CNTPNSIRQ (m_intc (p_machine p))"
  let ?m = "(p_machine p)\<lparr>m_intc := intc_clear CNTPNSIRQ (m_intc (p_machine p))\<rparr>"
  have r: "runs_task ?m x" and k: "m_kernel ?m = m_kernel (p_machine p)" using assms(2) by (simp_all add: runs_task_def)
  obtain n q y k where s: "schedule_handler ?m = (Ok (), ?m\<lparr>m_kernel := k\<rparr>)" "runs_task (?m\<lparr>m_kernel := k\<rparr>) y"
      "queue (k_sched (m_kernel ?m)) @ [tid x] = n # q" "queue (k_sched k) = q" "tid y = n" "k_mm k = k_mm (m_kernel ?m)" "interrupts_enabled (k_core k)"
      "timer (k_core k) = set_duration (quantum (k_sched k)) (timer (k_core (m_kernel ?m)))"
      "task_regs \<lparr>cores = [k_core k], smp_sched = k_sched k\<rparr> = task_regs \<lparr>cores = [k_core (m_kernel ?m)], smp_sched = k_sched (m_kernel ?m)\<rparr>"
    by (rule schedule_handler_runs [OF r])
  have "ttbr0_el1 (k_core k) = mc_ttbr (mem_context y)" using runs_task_space(1) [OF s(2)] by simp
  moreover have "vector_irq p = (Ok (), p\<lparr>p_machine := ?m\<lparr>m_kernel := k\<rparr>\<rparr>)" using vector_irq_timer(1) [OF assms(1) pend] s(1) by simp
  moreover have "\<not> intc_is_pending CNTPNSIRQ (m_intc ?m)" by (simp add: intc_clear_pending)
  ultimately show "\<exists>m' y. vector_irq p = (Ok (), p\<lparr>p_machine := m'\<rparr>) \<and> runs_task m' y
         \<and> \<not> intc_is_pending CNTPNSIRQ (m_intc m')
         \<and> tid y # queue (k_sched (m_kernel m')) = queue (k_sched (m_kernel (p_machine p))) @ [tid x]
         \<and> task_regs \<lparr>cores = [k_core (m_kernel m')], smp_sched = k_sched (m_kernel m')\<rparr>
            = task_regs \<lparr>cores = [k_core (m_kernel (p_machine p))], smp_sched = k_sched (m_kernel (p_machine p))\<rparr>
         \<and> ttbr0_el1 (k_core (m_kernel m')) = mc_ttbr (mem_context y) \<and> interrupts_enabled (k_core (m_kernel m'))
         \<and> timer (k_core (m_kernel m')) = set_duration (quantum (k_sched (m_kernel m'))) (timer (k_core (m_kernel (p_machine p))))
         \<and> k_mm (m_kernel m') = k_mm (m_kernel (p_machine p)) \<and> m_uart m' = m_uart (p_machine p) \<and> m_heap m' = m_heap (p_machine p)"
    using s(2-9) by (intro exI [of _ "?m\<lparr>m_kernel := k\<rparr>"] exI [of _ y]) simp
qed (rule vector_irq_timer(2) [OF assms(1)])

section \<open>A concrete platform\<close>

definition platform_of :: "machine \<Rightarrow> platform" where
  "platform_of m =
     \<lparr>p_router = \<lparr>ir_lock = False, interrupts = [\<lparr>controller = bcm2837_controller, number = CNTPNSIRQ, handler = schedule_handler\<rparr>]\<rparr>,
      p_installed = \<lparr>ol_once = \<lparr>completed = True\<rparr>,
        ol_data = Some (vector_table_new () (case system_call_router_new [sys_write] of Ok t \<Rightarrow> t | _ \<Rightarrow> []))\<rparr>,
      p_vbar_el1 = 0xFFFF000000080800, p_machine = m\<rparr>"

definition frame0 :: trap_frame where
  "frame0 = \<lparr>r_x0 = 0, r_x1 = 0, r_x2 = 0, r_x3 = 0, r_x4 = 0, r_x5 = 0, r_x6 = 0, r_x7 = 0, r_x8 = 0, r_x9 = 0, r_x10 = 0, r_x11 = 0, r_x12 = 0, r_x13 = 0, r_x14 = 0, r_x15 = 0, r_x16 = 0, r_x17 = 0, r_x18 = 0, r_x19 = 0, r_x20 = 0, r_x21 = 0, r_x22 = 0, r_x23 = 0, r_x24 = 0, r_x25 = 0, r_x26 = 0, r_x27 = 0, r_x28 = 0, r_fp = 0, r_lr = 0, r_sp_el0 = 0, r_elr_el1 = 0, r_spsr_el1 = 0\<rparr>"

lemma platform_of_machine [simp]: "p_machine (platform_of m) = m"
  by (simp add: platform_of_def)

lemma platform_of_ready: "platform_ready (platform_of m)"
proof -
  obtain t where "system_call_router_new [sys_write] = Ok t" using system_call_router_new_get by blast
  then show ?thesis
    by (simp add: platform_ready_def platform_of_def installed_table_def once_lock_get_def is_completed_def vector_table_new_def)
qed

text \<open>A task with a mapped page of zeros writes two bytes of it.\<close>

lemma mm1_mapped_machine:
  obtains s c where "runs_task (machine_of s c) (task_of c)" "user_mem s c = spec_zero_page 0x400 Map.empty" "image_wf (s, c)"
proof -
  obtain p s c where e: "alloc_page (UserAddress 0x400123) (fst mm1, snd mm1) = (Ok p, (s, c))"
    using mm1_maps by blast
  have w: "image_wf (fst mm1, snd mm1)" "user_mem (fst mm1) (snd mm1) = Map.empty"
    using image_wf_empty [OF mm1_ok(1)] mm1_empty by auto
  note a = alloc_page_image [OF w(1) mm1_ok(2) _ e]
  have m: "user_mem s c = spec_zero_page 0x400 Map.empty" and wf: "ctx_wf (s, c)" and f: "pa_fits (page_alloc_state s)"
    and ac: "asid_counter s = 2"
    using a(1,2,4,5) w(2) image_wfD(1) mm1_asid(2) by simp_all
  have "mc_asid c = 1" using alloc_page_frame [OF mm1_ok e] mm1_asid(1) by (simp add: mc_frame_def)
  with machine_of_runs [OF wf f] ac m a(1) show thesis using that by simp
qed

theorem system_call_spec_witness:
  "\<exists>s c m'. vector_sync_el0 (frame0\<lparr>r_x8 := 64, r_x0 := 1, r_x1 := 0x400200, r_x2 := 2\<rparr>) 0x56000000 0 0 (platform_of (machine_of s c))
     = (Ok (), (frame0\<lparr>r_x8 := 64, r_x0 := 2, r_x1 := 0x400200, r_x2 := 2\<rparr>, (platform_of (machine_of s c))\<lparr>p_machine := m'\<rparr>))
   \<and> sent m' = [0, 0]"
proof -
  obtain s c where r: "runs_task (machine_of s c) (task_of c)" and m: "user_mem s c = spec_zero_page 0x400 Map.empty" and "image_wf (s, c)"
    by (rule mm1_mapped_machine)
  let ?p = "platform_of (machine_of s c)" and ?f = "frame0\<lparr>r_x8 := 64, r_x0 := 1, r_x1 := 0x400200, r_x2 := 2\<rparr>"
  have svc: "is_svc 0x56000000" by (simp add: is_svc_def consts_defs)
  have k: "k_mm (m_kernel (machine_of s c)) = s" "mem_context (task_of c) = c" "m_uart (machine_of s c) = uart0"
    by (simp_all add: machine_of_def task_of_def)
  have at: "user_mem s c (0x400200 + of_nat i) = Some 0" if "i < 2" for i
  proof -
    have "i = 0 \<or> i = 1" using that by linarith
    then show ?thesis by (elim disjE) (simp_all add: m spec_zero_page_def)
  qed
  have h: "heap_left n (m_heap (p_machine ?p))" if "n \<le> 2" for n
    using that by (simp add: machine_of_def heap_left_def heap_new_def HEAP_N_def)
  have h0: "heap_left 0 (m_heap (p_machine ?p))" by (rule h) simp
  have h2: "heap_left (unat (r_x2 ?f)) (m_heap (p_machine ?p))" by (rule h) simp
  have u: "user_range (k_mm (m_kernel (p_machine ?p))) (mem_context (task_of c)) (r_x1 ?f) (unat (r_x2 ?f))"
    using at by (simp add: k user_range_def)
  have mono: "\<exists>now. monotonic (timer (k_core (m_kernel (p_machine ?p)))) = Ok now"
    by (simp add: machine_of_def core0_def monotonic_def timer_frequency_def)
  then obtain now where now: "monotonic (timer (k_core (m_kernel (p_machine ?p)))) = Ok now" by blast
  have r': "runs_task (p_machine ?p) (task_of c)" using r by simp
  obtain m' where m': "vector_sync_el0 ?f 0x56000000 0 0 ?p = (Ok (), (?f\<lparr>r_x0 := r_x2 ?f\<rparr>, ?p\<lparr>p_machine := m'\<rparr>))"
    "printed (from_utf8_lossy (user_bytes (p_machine ?p) (task_of c) (r_x1 ?f) (r_x2 ?f))) (heap_used (r_x2 ?f) (p_machine ?p)) m'"
    using system_call_spec [OF platform_of_ready r' svc h0 now, of ?f 0 0] h2 u by auto
  have b: "user_bytes (p_machine ?p) (task_of c) (r_x1 ?f) (r_x2 ?f) = [0, 0]"
  proof -
    have "unat (r_x2 ?f) = 2" "[0..<2] = [0, 1 :: nat]" by (simp_all add: upt_rec)
    then show ?thesis using at [of 0] at [of 1] by (simp add: user_bytes_def k)
  qed
  have "from_utf8_lossy [0, 0] = [0, 0]" by (rule lossy_id [OF ascii_valid]) simp
  then have "sent m' = [0, 0]" using printedD(2) [OF m'(2)] b by (simp add: heap_used_def k uart0_def)
  with m'(1) show ?thesis by (intro exI [of _ s] exI [of _ c] exI [of _ m']) simp
qed

theorem timer_irq_preempts_witness:
  "\<exists>m'. vector_irq (platform_of (machine_of (fst mm1) (snd mm1))) = (Ok (), (platform_of (machine_of (fst mm1) (snd mm1)))\<lparr>p_machine := m'\<rparr>)
     \<and> \<not> intc_is_pending CNTPNSIRQ (m_intc m') \<and> queue (k_sched (m_kernel m')) = []"
proof -
  let ?p = "platform_of (machine_of (fst mm1) (snd mm1))"
  have "runs_task (p_machine ?p) (task_of (snd mm1))"
    unfolding platform_of_machine by (rule machine_of_runs [OF mm1_ok]) (simp add: mm1_asid)
  moreover have "intc_is_pending CNTPNSIRQ (m_intc (p_machine ?p))"
    by (simp add: machine_of_def intc_is_pending_def irq_bit_def CNTPNSIRQ_def)
  moreover have "queue (k_sched (m_kernel (p_machine ?p))) = []" by (simp add: machine_of_def)
  ultimately show ?thesis using timer_irq_preempts [OF platform_of_ready, of "machine_of (fst mm1) (snd mm1)"] by fastforce
qed

end
