(* ===== verification/Boot.thy ===== *)
theory Boot
  imports Boot_Files Task_Execution Vector_Table
begin

unbundle bit_operations_syntax

text \<open>
  Start of the kernel: \<^verbatim>\<open>kernel_init\<close> (\<^verbatim>\<open>boot/aarch64/raspi3b/init.rs\<close>), \<^verbatim>\<open>Kernel::run\<close> (\<^verbatim>\<open>kernel.rs\<close>), the body of the
  kernel threads, and the panic handler (\<^verbatim>\<open>panic.rs\<close>). The start-up code is the composition of the operations of all
  components, in its order; the theorem follows it from the state the loader leaves to the first instruction of
  the program.
\<close>

section \<open>State\<close>

record board =
  b_platform :: platform
  b_vfs :: vfs
  b_store :: "fs_id \<Rightarrow> uart fs_object option"

definition b_system :: "board \<Rightarrow> system" where
  "b_system b = \<lparr>sys_machine = p_machine (b_platform b), sys_vfs = b_vfs b, sys_store = b_store b\<rparr>"

definition put_system :: "system \<Rightarrow> board \<Rightarrow> board" where
  "put_system sys b = b\<lparr>b_platform := (b_platform b)\<lparr>p_machine := sys_machine sys\<rparr>, b_vfs := sys_vfs sys, b_store := sys_store sys\<rparr>"

definition on_platform :: "(platform \<Rightarrow> 'a res \<times> platform) \<Rightarrow> board \<Rightarrow> 'a res \<times> board" where
  "on_platform f b = (case f (b_platform b) of (r, p) \<Rightarrow> (r, b\<lparr>b_platform := p\<rparr>))"

definition on_system :: "(system \<Rightarrow> 'a res \<times> system) \<Rightarrow> board \<Rightarrow> 'a res \<times> board" where
  "on_system f b = (case f (b_system b) of (r, sys) \<Rightarrow> (r, put_system sys b))"

text \<open>What the linker and the heap choose: addresses of symbols and closures, and the bytes of the program.\<close>

record image =
  im_end :: usize
  im_vectors :: u64
  im_entry :: u64
  im_wrapper :: u64
  im_closures :: "u64 list"
  im_cli :: "u8 list"

section \<open>Operations\<close>

text \<open>
  \<^verbatim>\<open>static_get_or_init!\<close> gives every use a cell of its own, which is new when the start-up code comes by.
\<close>

definition static_get_or_init :: "('s \<Rightarrow> 'a res \<times> 's) \<Rightarrow> 's \<Rightarrow> 'a res \<times> 's" where
  "static_get_or_init init s = (case get_or_init init (once_lock_new, s) of (r, (_, s)) \<Rightarrow> (r, s))"

definition init_log :: "machine \<Rightarrow> unit res \<times> machine" where
  "init_log m =
     and_then (case serial_init (serial_new (m_uart m)) of (r, u) \<Rightarrow> (r, m\<lparr>m_uart := u\<rparr>)) (\<lambda>_ m.
     and_then (case set_character_device serial_device (m_log m) of (r, l) \<Rightarrow> (unwrap_res r, m\<lparr>m_log := l\<rparr>)) (\<lambda>_ m.
       case set_monotonic monotonic (m_log m) of (r, l) \<Rightarrow> (unwrap_res r, m\<lparr>m_log := l\<rparr>)))"

definition init_pages :: "usize \<Rightarrow> kernel \<Rightarrow> unit res \<times> kernel" where
  "init_pages end_ptr =
     static_get_or_init (\<lambda>k. (Ok (), k\<lparr>k_mm := (k_mm k)\<lparr>page_alloc_state := page_allocator_new 0x40000000
       [(PhysicalAddress 0, physical_address end_ptr), (PhysicalAddress 0x3F000000, PhysicalAddress 0x40000000)]\<rparr>\<rparr>))"

definition init_files :: "u8 list \<Rightarrow> system \<Rightarrow> unit res \<times> system" where
  "init_files cli_bytes sys =
     (case boot_files serial_device cli_bytes (sys_world sys) of (r, (v, w)) \<Rightarrow>
        and_then (r, (put_world w sys)\<lparr>sys_vfs := v\<rparr>) (\<lambda>_ sys. (Ok (), sys)))"

text \<open>One core, a quantum of ten milliseconds.\<close>

definition init_scheduler :: "machine \<Rightarrow> unit res \<times> machine" where
  "init_scheduler m =
     and_then (static_get_or_init (\<lambda>m. (Ok (), m\<lparr>m_kernel := (m_kernel m)\<lparr>k_sched := scheduler_new 1 10000000\<rparr>\<rparr>)) m) (\<lambda>_ m.
       case set_scheduler m of (r, m) \<Rightarrow> (unwrap_res r, m))"

definition init_vectors :: "u64 \<Rightarrow> platform \<Rightarrow> unit res \<times> platform" where
  "init_vectors stubs p =
     and_then (static_get_or_init (\<lambda>p. (Ok (), p\<lparr>p_router := router_new\<rparr>)) p) (\<lambda>interrupt_router p.
     and_then (static_get_or_init (\<lambda>p. (system_call_router_new [sys_write], p)) p) (\<lambda>system_call_router p.
     and_then (static_get_or_init (\<lambda>p. (Ok (vector_table_new interrupt_router system_call_router), p)) p) (\<lambda>table p.
     and_then (vector_table_install stubs table p) (\<lambda>_ p.
       case router_enable bcm2837_controller CNTPNSIRQ schedule_handler (p_router p, p_machine p) of
         (r, (router, m)) \<Rightarrow> (r, p\<lparr>p_router := router, p_machine := m\<rparr>)))))"

fun create_threads :: "u64 \<Rightarrow> u64 \<Rightarrow> u64 list \<Rightarrow> kernel \<Rightarrow> unit res \<times> kernel" where
  "create_threads entry wrapper [] k = (Ok (), k)"
| "create_threads entry wrapper (f # fs) k =
     and_then (apfst unwrap_res (create_kthread entry wrapper f k)) (\<lambda>_. create_threads entry wrapper fs)"

definition init_tasks :: "image \<Rightarrow> kernel \<Rightarrow> unit res \<times> kernel" where
  "init_tasks im k =
     and_then (apfst unwrap_res (create_and_become_kinit k)) (\<lambda>_. create_threads (im_entry im) (im_wrapper im) (im_closures im))"

text \<open>One round of the loop in a kernel thread; the wait between the rounds leaves no trace.\<close>

definition kthread_round :: "machine \<Rightarrow> unit res \<times> machine" where
  "kthread_round m = and_then (the_current_task m) (\<lambda>task. print [ascii ''<k'', fmt_dec (unat (tid task)), ascii ''>''])"

definition kernel_run :: "system \<Rightarrow> user_entry res \<times> system" where
  "kernel_run sys =
     and_then (on_machine (println [ascii ''Hello, world!'']) sys) (\<lambda>_ sys.
     and_then (unwrap_opt (path_absolute ''/bin/cli''), sys) (\<lambda>cli_path sys.
       execute cli_path sys))"

definition kernel_init :: "image \<Rightarrow> board \<Rightarrow> user_entry res \<times> board" where
  "kernel_init im b =
     and_then (on_system (on_machine init_log) b) (\<lambda>_ b.
     and_then (on_system (on_machine (on_kernel (init_pages (im_end im)))) b) (\<lambda>_ b.
     and_then (on_system (init_files (im_cli im)) b) (\<lambda>_ b.
     and_then (on_system (on_machine init_scheduler) b) (\<lambda>_ b.
     and_then (on_platform (init_vectors (im_vectors im)) b) (\<lambda>_ b.
     and_then (on_system (on_machine (on_kernel (init_tasks im))) b) (\<lambda>_ b.
       apfst unwrap_res (on_system kernel_run b)))))))"

text \<open>The same up to the creation of the first task, after which interrupts are enabled.\<close>

definition kernel_setup :: "image \<Rightarrow> board \<Rightarrow> unit res \<times> board" where
  "kernel_setup im b =
     and_then (on_system (on_machine init_log) b) (\<lambda>_ b.
     and_then (on_system (on_machine (on_kernel (init_pages (im_end im)))) b) (\<lambda>_ b.
     and_then (on_system (init_files (im_cli im)) b) (\<lambda>_ b.
     and_then (on_system (on_machine init_scheduler) b) (\<lambda>_ b.
       on_platform (init_vectors (im_vectors im)) b))))"

lemma kernel_init_setup:
  "kernel_init im b = and_then (kernel_setup im b) (\<lambda>_ b.
     and_then (on_system (on_machine (on_kernel (init_tasks im))) b) (\<lambda>_ b. apfst unwrap_res (on_system kernel_run b)))"
  by (simp add: kernel_init_def kernel_setup_def and_then_assoc)

text \<open>
  The panic handler prints, masks all exceptions and stops the core: it never returns. The location and the message are
  given as the pieces they print as.
\<close>

definition DAIF_ALL :: u64 where
  [consts_defs]: "DAIF_ALL = 0x3C0"

definition hang :: "machine \<Rightarrow> unit res \<times> machine" where
  "hang m = (Hang, m\<lparr>m_kernel := (m_kernel m)\<lparr>k_core := (k_core (m_kernel m))\<lparr>daif := daif (k_core (m_kernel m)) OR DAIF_ALL\<rparr>\<rparr>\<rparr>)"

definition panic_handler :: "(bytes \<times> nat \<times> nat) option \<Rightarrow> bytes list \<Rightarrow> machine \<Rightarrow> unit res \<times> machine" where
  "panic_handler location message m =
     and_then (case location of
         Some (source, line, column) \<Rightarrow>
           println [ascii ''kernel panicked at '', source, ascii '':'', fmt_dec line, ascii '':'', fmt_dec column, ascii '':''] m
       | None \<Rightarrow> (Ok (), m)) (\<lambda>_ m.
     and_then (println message m) (\<lambda>_ m. hang m))"

section \<open>A panic\<close>

text \<open>With a working log the message is the last output, the core has all exceptions masked, and nothing runs any more.\<close>

lemma panic_handler_halts:
  assumes "m_log m = serial_log" and "uart_ready (m_uart m)" and "monotonic (timer (k_core (m_kernel m))) = Ok t"
  shows "\<exists>m' before. panic_handler location message m = (Hang, m')
    \<and> sent m' = sent m @ before @ concat (timestamp t) @ concat message @ ascii [CHR 0x0A]
    \<and> daif (k_core (m_kernel m')) AND DAIF_ALL = DAIF_ALL"
proof -
  have masked: "(x OR DAIF_ALL) AND DAIF_ALL = DAIF_ALL" for x by (rule bit_word_eqI) (auto simp: bit_simps)
  obtain m1 bs where 1: "(case location of
         Some (source, line, column) \<Rightarrow>
           println [ascii ''kernel panicked at '', source, ascii '':'', fmt_dec line, ascii '':'', fmt_dec column, ascii '':''] m
       | None \<Rightarrow> (Ok (), m)) = (Ok (), m1)" "printed bs m m1"
  proof (cases location)
    case None
    have "printed [] m m" by (auto simp: printed_def intro!: exI [of _ "lsr_reads (m_uart m)"])
    then show ?thesis using that [of m "[]"] None by simp
  next
    case (Some l)
    then show ?thesis using println_printed [OF assms] that by (cases l) fastforce
  qed
  note p = printedD [OF 1(2)]
  obtain m2 where "println message m1 = (Ok (), m2)" "printed (concat (timestamp t) @ concat message @ ascii [CHR 0x0A]) m1 m2"
    using println_printed [of m1 t message] assms p by auto
  then show ?thesis using 1(1) p printedD(1,2) [of _ m1 m2] masked by (simp add: panic_handler_def hang_def)
qed

section \<open>The steps\<close>

lemma static_init_ok: "init s = (Ok a, s') \<Longrightarrow> static_get_or_init init s = (Ok a, s')"
  by (simp add: static_get_or_init_def get_or_init_def call_once_def once_lock_new_def once_new_def)

lemma set_new: "once_lock_set x once_lock_new = (Ok (), \<lparr>ol_once = \<lparr>completed = True\<rparr>, ol_data = Some x\<rparr>)"
  by (simp add: once_lock_set_def get_or_init_def call_once_def once_lock_new_def once_new_def)

definition set_machine :: "machine \<Rightarrow> board \<Rightarrow> board" where
  "set_machine m b = b\<lparr>b_platform := (b_platform b)\<lparr>p_machine := m\<rparr>\<rparr>"

lemma set_machine_simps [simp]:
  "p_machine (b_platform (set_machine m b)) = m" "b_vfs (set_machine m b) = b_vfs b" "b_store (set_machine m b) = b_store b"
  "set_machine m' (set_machine m b) = set_machine m' b"
  "p_installed (b_platform (set_machine m b)) = p_installed (b_platform b)"
  by (simp_all add: set_machine_def)

lemma on_system_machine:
  "f (p_machine (b_platform b)) = (r, m) \<Longrightarrow> on_system (on_machine f) b = (r, set_machine m b)"
  by (simp add: on_system_def on_machine_def b_system_def put_system_def set_machine_def)

lemma init_log_ok:
  "m_log m = logger_new \<Longrightarrow> init_log m = (Ok (), m\<lparr>m_uart := snd (serial_init (serial_new (m_uart m))), m_log := serial_log\<rparr>)"
  using serial_init_keeps(1) [of "m_uart m"]
  by (cases "serial_init (serial_new (m_uart m))") (simp add: init_log_def serial_log_set)

definition boot_pages :: page_allocator where
  "boot_pages = \<lparr>capacity = 0x40000000, reserved_ranges = [(0, 0x600000), (0x3F000000, 0x40000000)], allocated = 0\<rparr>"

lemma init_pages_ok:
  assumes "end_ptr = 0xFFFF000000600000"
  shows "init_pages end_ptr k = (Ok (), k\<lparr>k_mm := (k_mm k)\<lparr>page_alloc_state := boot_pages\<rparr>\<rparr>)"
proof -
  have "address (physical_address end_ptr) = 0x600000" by (simp add: assms physical_address_def not_VA_START mask_eq_exp_minus_1)
  then show ?thesis by (simp add: init_pages_def static_init_ok page_allocator_new_def boot_pages_def)
qed

lemma init_files_ok:
  assumes "b_store b = Map.empty" and "vec_ok cli"
  shows "\<exists>b'. on_system (init_files cli) b = (Ok (), b') \<and> b_platform b' = b_platform b \<and> b_vfs b' = vfs_booted
    \<and> b_store b' = store (boot_world (tree4 cli) (Some (dev_tree serial_device)) w)"
proof -
  have "store (sys_world (b_system b)) = Map.empty" using assms(1) by (simp add: sys_world_def b_system_def)
  then have "boot_files serial_device cli (sys_world (b_system b)) = (Ok (vec_len cli),
      (vfs_booted, boot_world (tree4 cli) (Some (dev_tree serial_device)) (sys_world (b_system b))))"
    by (rule boot_files_ok [OF _ assms(2)])
  then show ?thesis
    by (simp add: on_system_def init_files_def put_system_def put_world_def b_system_def sys_world_def boot_world_def)
qed

lemma init_scheduler_ok:
  assumes "m_scheduler m = once_lock_new"
  shows "init_scheduler m = (Ok (), m\<lparr>m_kernel := (m_kernel m)\<lparr>k_sched := scheduler_new 1 10000000\<rparr>,
    m_scheduler := \<lparr>ol_once = \<lparr>completed = True\<rparr>, ol_data = Some ()\<rparr>\<rparr>)"
  using assms by (simp add: init_scheduler_def static_init_ok set_scheduler_def set_new)

lemma init_vectors_ok:
  assumes "p_installed p = once_lock_new"
  shows "\<exists>p'. init_vectors stubs p = (Ok (), p') \<and> platform_ready p' \<and> p_vbar_el1 p' = stubs
    \<and> p_machine p' = (p_machine p)\<lparr>m_intc := intc_enable CNTPNSIRQ (m_intc (p_machine p))\<rparr>"
proof -
  obtain t where t: "system_call_router_new [sys_write] = Ok t" using system_call_router_new_get by blast
  show ?thesis using assms t
    by (simp add: init_vectors_def static_init_ok vector_table_install_def set_new router_enable_def router_lock_def router_new_def
      lock_loop_def lock_new_def compare_exchange_def router_unlock_def unlock_def bcm2837_controller_def platform_ready_def
      installed_table_def once_lock_get_def is_completed_def vector_table_new_def)
qed

text \<open>The allocator walks over the reserved pages at the start before it returns the first page.\<close>

lemma alloc_loop_skip:
  assumes "n \<le> 1536"
  shows "alloc_loop (boot_pages\<lparr>allocated := of_nat (4096 * (1536 - n))\<rparr>) = alloc_loop (boot_pages\<lparr>allocated := 0x600000\<rparr>)"
  using assms
proof (induction n)
  case (Suc n)
  let ?a = "of_nat (4096 * (1536 - Suc n)) :: usize"
  have a: "unat ?a = 4096 * (1536 - Suc n)" by (rule unat_of_nat64) simp
  have nx: "?a + PAGE_SIZE = of_nat (4096 * (1536 - n))"
  proof -
    have "4096 * (1536 - n) = 4096 * (1536 - Suc n) + 4096" using Suc.prems by linarith
    then show ?thesis by (simp only: of_nat_add PAGE_SIZE_def) simp
  qed
  have "unat (?a + PAGE_SIZE) = 4096 * (1536 - n)" unfolding nx by (rule unat_of_nat64) simp
  then have "\<not> 0x40000000 < ?a + PAGE_SIZE" by (simp add: word_less_nat_alt)
  moreover have "intersects_reserved (reserved_ranges boot_pages) ?a"
  proof -
    have "range_contains (0, 0x600000) ?a" using a Suc.prems by (simp add: word_less_nat_alt word_le_nat_alt)
    then show ?thesis by (simp add: intersects_reserved_def boot_pages_def)
  qed
  ultimately have "alloc_loop (boot_pages\<lparr>allocated := ?a\<rparr>) = alloc_loop (boot_pages\<lparr>allocated := ?a + PAGE_SIZE\<rparr>)"
    by (subst alloc_loop.simps) (simp add: boot_pages_def)
  then show ?case using Suc.IH Suc.prems unfolding nx by simp
qed simp

definition ready_pages :: page_allocator where
  "ready_pages = boot_pages\<lparr>allocated := 0x600000\<rparr>"

lemma memory_context_new_boot:
  "memory_context_new (s\<lparr>page_alloc_state := boot_pages\<rparr>) = memory_context_new (s\<lparr>page_alloc_state := ready_pages\<rparr>)"
proof -
  have "alloc_loop boot_pages = alloc_loop ready_pages"
    using alloc_loop_skip [of 1536] by (simp add: ready_pages_def boot_pages_def)
  then have "page_alloc (s\<lparr>page_alloc_state := boot_pages\<rparr>) = page_alloc (s\<lparr>page_alloc_state := ready_pages\<rparr>) \<or> alloc_loop ready_pages = None"
    by (auto simp: page_alloc_def split: option.split)
  moreover have "alloc_loop ready_pages \<noteq> None"
    by (simp add: ready_pages_def boot_pages_def alloc_loop.simps intersects_reserved_def PAGE_SIZE_def)
  ultimately show ?thesis by (simp add: memory_context_new_def)
qed

lemma ready_pages_ok:
  assumes "n \<le> 256512"
  shows "room n ready_pages" "pa_fits ready_pages" "4096 dvd unat (allocated ready_pages)" "unat (capacity ready_pages) \<le> 2 ^ 48"
  using assms by (auto simp: ready_pages_def boot_pages_def room_def reserved_nonempty_def reserved_bytes_def pa_fits_def)

lemma kinit_boot:
  assumes "page_alloc_state (k_mm k) = boot_pages"
  shows "create_and_become_kinit k = create_and_become_kinit (k\<lparr>k_mm := (k_mm k)\<lparr>page_alloc_state := ready_pages\<rparr>\<rparr>)"
proof -
  have "(k_mm k)\<lparr>page_alloc_state := boot_pages\<rparr> = k_mm k" using assms by simp
  then have "memory_context_new (k_mm k) = memory_context_new ((k_mm k)\<lparr>page_alloc_state := ready_pages\<rparr>)"
    using memory_context_new_boot [of "k_mm k"] by simp
  then show ?thesis by (simp add: create_and_become_kinit_def on_mm_def split: prod.split)
qed

lemma init_tasks_ok:
  assumes core: "current_core (k_core k) = 0" and sch: "k_sched k = scheduler_new 1 d" and cnt: "task_counter k = 1" "asid_counter (k_mm k) = 1"
    and pg: "page_alloc_state (k_mm k) = boot_pages" and cl: "im_closures im = [f1, f2]" and n: "n + 5 \<le> 256512"
  shows "\<exists>k' x. init_tasks im k = (Ok (), k') \<and> kernel_wf k' \<and> current_tasks (k_sched k') = [Some 1] \<and> queue (k_sched k') = [2, 3]
    \<and> tasks (k_sched k') 1 = Some x \<and> tid x = 1 \<and> user_map (k_mm k') (mem_context x) = Map.empty
    \<and> timer (k_core k') = set_duration d (timer (k_core k)) \<and> room n (page_alloc_state (k_mm k'))
    \<and> dom (tasks (k_sched k')) = {1, 2, 3} \<and> (\<forall>t y. tasks (k_sched k') t = Some y \<longrightarrow> user_map (k_mm k') (mem_context y) = Map.empty)"
proof -
  let ?k = "k\<lparr>k_mm := (k_mm k)\<lparr>page_alloc_state := ready_pages\<rparr>\<rparr>"
  have r: "room (Suc (Suc (Suc (Suc (Suc n))))) ready_pages" by (rule ready_pages_ok(1)) (use n in simp)
  have w: "mm_wf ((k_mm k)\<lparr>page_alloc_state := ready_pages\<rparr>)" "pa_fits ready_pages"
    using ready_pages_ok [of 0] by (simp_all add: mm_wf_def)
  have il: "task_ids_left ?k" using cnt by (simp add: task_ids_left_def)
  obtain k1 x where 1: "create_and_become_kinit ?k = (Ok 1, k1)" "kernel_wf k1" "current_tasks (k_sched k1) = [Some 1]" "queue (k_sched k1) = []"
      "tasks (k_sched k1) = [1 \<mapsto> x]" "user_map (k_mm k1) (mem_context x) = Map.empty" "timer (k_core k1) = set_duration d (timer (k_core k))"
      "task_counter k1 = 2" "asid_counter (k_mm k1) = 2" "tid x = 1" "room (Suc (Suc (Suc (Suc n)))) (page_alloc_state (k_mm k1))"
    using create_and_become_kinit_ok [of ?k d "Suc (Suc (Suc (Suc n)))"] core sch cnt il w r by auto
  have il1: "task_ids_left k1" using 1(8,9) by (simp add: task_ids_left_def)
  obtain k2 y where 2: "create_kthread (im_entry im) (im_wrapper im) f1 k1 = (Ok 2, k2)" "kernel_wf k2"
      "tasks (k_sched k2) = [1 \<mapsto> x, 2 \<mapsto> y]" "queue (k_sched k2) = [2]" "user_map (k_mm k2) (mem_context x) = Map.empty"
      "k_core k2 = k_core k1" "current_tasks (k_sched k2) = [Some 1]" "task_counter k2 = 3" "asid_counter (k_mm k2) = 3"
      "room (Suc (Suc n)) (page_alloc_state (k_mm k2))" "user_map (k_mm k2) (mem_context y) = Map.empty"
    using create_kthread_ok [OF 1(2) il1 1(11), of "im_entry im" "im_wrapper im" f1] 1 by auto
  have il2: "task_ids_left k2" using 2(8,9) by (simp add: task_ids_left_def)
  have x2: "tasks (k_sched k2) 1 = Some x" using 2(3) by simp
  obtain k3 z where 3: "create_kthread (im_entry im) (im_wrapper im) f2 k2 = (Ok 3, k3)" "kernel_wf k3"
      "tasks (k_sched k3) = (tasks (k_sched k2))(3 \<mapsto> z)" "queue (k_sched k3) = queue (k_sched k2) @ [3]"
      "\<forall>t w. tasks (k_sched k2) t = Some w \<longrightarrow> user_map (k_mm k3) (mem_context w) = user_map (k_mm k2) (mem_context w)"
      "user_map (k_mm k3) (mem_context z) = Map.empty"
      "k_core k3 = k_core k2" "current_tasks (k_sched k3) = current_tasks (k_sched k2)" "room n (page_alloc_state (k_mm k3))"
    using create_kthread_ok [OF 2(2) il2 2(10), of "im_entry im" "im_wrapper im" f2, unfolded 2(8)] by blast
  have "init_tasks im k = (Ok (), k3)"
    using 1(1) 2(1) 3(1) kinit_boot [OF pg] cl by (simp add: init_tasks_def)
  moreover have "user_map (k_mm k3) (mem_context w) = Map.empty" if "tasks (k_sched k3) t = Some w" for t w
    using that 2(3,5,11) 3(3,5,6) by (auto split: if_splits)
  moreover have "tasks (k_sched k3) 1 = Some x" "dom (tasks (k_sched k3)) = {1, 2, 3}" using 2(3) 3(3) by auto
  ultimately show ?thesis using 1(7,10) 2(4,6,7) 3(2,4,7-9) by auto
qed

text \<open>What \<^verbatim>\<open>Kernel::run\<close> does once everything is in place.\<close>

lemma kernel_run_ok:
  assumes run: "runs_task (sys_machine sys) x" and um: "user_map (k_mm (m_kernel (sys_machine sys))) (mem_context x) = Map.empty"
    and t: "monotonic (timer (k_core (m_kernel (sys_machine sys)))) = Ok t"
    and v: "sys_vfs sys = vfs_booted" and st: "sys_store sys = store (boot_world (tree4 cli) (Some (dev_tree serial_device)) w)"
    and cli: "vec_ok cli" "elf_ok cli" "\<forall>ph \<in> set (loads (elf_program_headers cli)). seg_loadable cli ph"
    and room: "room (4 * load_pages_count (elf_program_headers cli) + 4) (page_alloc_state (k_mm (m_kernel (sys_machine sys))))"
    and imgs: "images_wf (m_kernel (sys_machine sys))"
  shows "\<exists>sys' s' c'. kernel_run sys = (Ok \<lparr>ue_elr_el1 = eh_entry_point (elf_header cli), ue_spsr_el1 = 0, ue_sp_el0 = 0x80000000\<rparr>, sys')
    \<and> runs_task (sys_machine sys') (x\<lparr>mem_context := c'\<rparr>) \<and> queue (k_sched (m_kernel (sys_machine sys'))) = queue (k_sched (m_kernel (sys_machine sys)))
    \<and> k_mm (m_kernel (sys_machine sys')) = s'
    \<and> user_mem s' c' = spec_zero_page 0x7FFFF (fold (spec_load_segment cli) (loads (elf_program_headers cli)) Map.empty)
    \<and> sent (sys_machine sys') = sent (sys_machine sys) @ concat (timestamp t) @ ascii ''Hello, world!'' @ ascii [CHR 0x0A]
        @ concat (map (segment_lines t) (loads (elf_program_headers cli)))
    \<and> images_wf (m_kernel (sys_machine sys')) \<and> dom (tasks (k_sched (m_kernel (sys_machine sys')))) = dom (tasks (k_sched (m_kernel (sys_machine sys))))
    \<and> (\<forall>u. u \<noteq> tid x \<longrightarrow> task_mem (m_kernel (sys_machine sys')) u = task_mem (m_kernel (sys_machine sys)) u)
    \<and> k_core (m_kernel (sys_machine sys')) = k_core (m_kernel (sys_machine sys)) \<and> m_heap (sys_machine sys') = m_heap (sys_machine sys)"
proof -
  have log: "m_log (sys_machine sys) = serial_log" "uart_ready (m_uart (sys_machine sys))" using run by (simp_all add: runs_task_def)
  obtain m where m: "println [ascii ''Hello, world!''] (sys_machine sys) = (Ok (), m)"
      "printed (concat (timestamp t) @ concat [ascii ''Hello, world!''] @ ascii [CHR 0x0A]) (sys_machine sys) m"
    using println_printed [OF log t] by blast
  let ?sys = "sys\<lparr>sys_machine := m\<rparr>"
  note p = printedD [OF m(2)]
  have run1: "runs_task (sys_machine ?sys) x" using run printed_runs [OF m(2)] by simp
  have "ctx_wf (k_mm (m_kernel (sys_machine sys)), mem_context x)" by (rule runs_task_space(2) [OF run])
  then have img: "image_wf (k_mm (m_kernel (sys_machine ?sys)), mem_context x)" "user_mem (k_mm (m_kernel (sys_machine ?sys))) (mem_context x) = Map.empty"
    using image_wf_empty [of "k_mm (m_kernel (sys_machine sys))" "mem_context x"] um p(1) by simp_all
  have bw: "sys_world ?sys = boot_world (tree4 cli) (Some (dev_tree serial_device)) (sys_world ?sys)"
    using st by (simp add: sys_world_def boot_world_def)
  have op: "fm_open (sys_vfs ?sys) (sys_world ?sys) \<lparr>path_tokens = [Literal ''bin'', Literal ''cli''], path_start = PathStart.Root\<rparr> = Ok (file_new cli_node)"
    using cli_open [of cli "Some (dev_tree serial_device)" "sys_world ?sys"] bw v by simp
  have "world_wf (sys_world ?sys)" "file_bytes (sys_world ?sys) (file_new cli_node) = Some cli"
    using vfs_wfD(1) [OF booted_wf(1) [OF cli(1), of serial_device "sys_world ?sys"]] bw [symmetric] tree4_bytes [of cli "Some (dev_tree serial_device)" "sys_world ?sys"] by simp_all
  then have rd: "reads (file_new cli_node, sys_world ?sys) cli" by (simp add: reads_def)
  have t1: "monotonic (timer (k_core (m_kernel (sys_machine ?sys)))) = Ok t" using t p(1) by simp
  obtain sys' s' c' where e: "execute \<lparr>path_tokens = [Literal ''bin'', Literal ''cli''], path_start = PathStart.Root\<rparr> ?sys
        = (Ok \<lparr>ue_elr_el1 = eh_entry_point (elf_header cli), ue_spsr_el1 = 0, ue_sp_el0 = 0x80000000\<rparr>, at_space sys' (tid x) s' c')"
      "sys_printed (concat (map (segment_lines t) (loads (elf_program_headers cli)))) ?sys sys'"
      "runs_task (sys_machine (at_space sys' (tid x) s' c')) (x\<lparr>mem_context := c'\<rparr>)"
      "user_mem s' c' = spec_zero_page 0x7FFFF (fold (spec_load_segment cli) (loads (elf_program_headers cli)) Map.empty)"
      "image_wf (s', c')" "mc_frame (k_mm (m_kernel (sys_machine ?sys)), mem_context x) (s', c')"
    using execute_ok [OF run1 img(1) t1 op rd cli(2,3)] room img(2) p(1) by auto
  note q = sys_printedD [OF e(2)]
  have "kernel_run sys = (Ok \<lparr>ue_elr_el1 = eh_entry_point (elf_header cli), ue_spsr_el1 = 0, ue_sp_el0 = 0x80000000\<rparr>, at_space sys' (tid x) s' c')"
    using m(1) e(1) by (simp add: kernel_run_def on_machine_def paths)
  moreover have "sent (sys_machine (at_space sys' (tid x) s' c')) = sent (sys_machine sys) @ concat (timestamp t) @ ascii ''Hello, world!'' @ ascii [CHR 0x0A]
      @ concat (map (segment_lines t) (loads (elf_program_headers cli)))"
    using p(2) q(2) by (simp add: at_space_def)
  moreover have "queue (k_sched (m_kernel (sys_machine (at_space sys' (tid x) s' c')))) = queue (k_sched (m_kernel (sys_machine sys)))"
    using p(1) q(1) by (simp add: set_space_def)
  moreover have "k_mm (m_kernel (sys_machine (at_space sys' (tid x) s' c'))) = s'" by simp
  moreover
  let ?k = "m_kernel (sys_machine sys)"
  define k' where "k' = m_kernel (sys_machine (at_space sys' (tid x) s' c'))"
  have tx: "tasks (k_sched ?k) (tid x) = Some x" and kw: "kernel_wf ?k" using run by (simp_all add: runs_task_def)
  have ts: "tasks (k_sched k') = (tasks (k_sched ?k))(tid x \<mapsto> x\<lparr>mem_context := c'\<rparr>)" and mm: "k_mm k' = s'"
    using tx p(1) q(1) by (simp_all add: k'_def set_space_def)
  have other: "image_wf (s', mem_context y) \<and> user_mem s' (mem_context y) = user_mem (k_mm ?k) (mem_context y)"
    if "tasks (k_sched ?k) u = Some y" "u \<noteq> tid x" for u y
    using frame_tasks [OF kw imgs tx _ image_wfD(1) [OF e(5)] that] e(6) p(1) by simp
  have "images_wf k'" using other e(5) by (auto simp: images_wf_def ts mm split: if_splits)
  moreover have "task_mem k' u = task_mem ?k u" if "u \<noteq> tid x" for u
    using other [of u] that by (simp add: task_mem_def ts mm split: option.split)
  moreover have "dom (tasks (k_sched k')) = dom (tasks (k_sched ?k))" using tx by (auto simp: ts)
  moreover have "k_core k' = k_core ?k" "m_heap (sys_machine (at_space sys' (tid x) s' c')) = m_heap (sys_machine sys)"
    using p(1,6) q(1,8) by (simp_all add: k'_def set_space_def at_space_def)
  moreover note k'_def
  ultimately show ?thesis using e(3,4) by blast
qed

section \<open>The whole start\<close>

text \<open>
  The board as the loader leaves it: no static is set and no identifier has been handed out, the code runs on core 0, the timer has a frequency,
  and the serial port keeps sending. Memory, registers and devices are otherwise arbitrary.
\<close>

definition board_reset :: "board \<Rightarrow> bool" where
  "board_reset b \<longleftrightarrow> b_store b = Map.empty \<and> p_installed (b_platform b) = once_lock_new
     \<and> (let m = p_machine (b_platform b); k = m_kernel m in
          m_log m = logger_new \<and> m_scheduler m = once_lock_new \<and> tx_fair (m_uart m)
          \<and> current_core (k_core k) = 0 \<and> cntfrq_el0 (timer (k_core k)) \<noteq> 0
          \<and> task_counter k = 1 \<and> asid_counter (k_mm k) = 1)"

text \<open>
  The image: the end of the kernel as the linker script fixes it, the closures of two kernel threads, and a program whose pages, with
  the page tables for them, fit below the device memory.
\<close>

definition image_fits :: "image \<Rightarrow> bool" where
  "image_fits im \<longleftrightarrow> im_end im = 0xFFFF000000600000 \<and> length (im_closures im) = 2
     \<and> vec_ok (im_cli im) \<and> elf_ok (im_cli im)
     \<and> (\<forall>ph \<in> set (loads (elf_program_headers (im_cli im))). seg_loadable (im_cli im) ph)
     \<and> 4 * load_pages_count (elf_program_headers (im_cli im)) + 9 \<le> 256512"

lemma monotonic_set_duration [simp]: "monotonic (set_duration d h) = monotonic h"
  by (simp add: monotonic_def set_duration_def timer_frequency_def timer_count_def Let_def)

text \<open>The state before the first task.\<close>

lemma kernel_setup_ok:
  assumes rs: "board_reset b" and fits: "image_fits im"
  shows "\<exists>b'. kernel_setup im b = (Ok (), b') \<and> platform_ready (b_platform b') \<and> p_vbar_el1 (b_platform b') = im_vectors im
    \<and> m_kernel (p_machine (b_platform b')) = (m_kernel (p_machine (b_platform b)))
        \<lparr>k_mm := (k_mm (m_kernel (p_machine (b_platform b))))\<lparr>page_alloc_state := boot_pages\<rparr>, k_sched := scheduler_new 1 10000000\<rparr>
    \<and> m_log (p_machine (b_platform b')) = serial_log \<and> uart_ready (m_uart (p_machine (b_platform b')))
    \<and> once_lock_get (m_scheduler (p_machine (b_platform b'))) = Ok (Some ())
    \<and> sent (p_machine (b_platform b')) = sent (p_machine (b_platform b)) \<and> m_heap (p_machine (b_platform b')) = m_heap (p_machine (b_platform b))
    \<and> b_vfs b' = vfs_booted \<and> b_store b' = store (boot_world (tree4 (im_cli im)) (Some (dev_tree serial_device)) undefined)"
proof -
  let ?m = "p_machine (b_platform b)"
  let ?k = "m_kernel ?m"
  have r: "b_store b = Map.empty" "p_installed (b_platform b) = once_lock_new" "m_log ?m = logger_new" "m_scheduler ?m = once_lock_new"
    "tx_fair (m_uart ?m)" using rs by (simp_all add: board_reset_def Let_def)
  let ?u = "snd (serial_init (serial_new (m_uart ?m)))"
  have u: "uart_ready ?u" "tx ?u = sent ?m"
    using r(5) by (simp_all add: uart_ready_def tx_fair_def serial_init_keeps)
  have i: "im_end im = 0xFFFF000000600000" "vec_ok (im_cli im)" using fits by (simp_all add: image_fits_def)
  define m1 where "m1 = ?m\<lparr>m_uart := ?u, m_log := serial_log\<rparr>"
  define m2 where "m2 = m1\<lparr>m_kernel := ?k\<lparr>k_mm := (k_mm ?k)\<lparr>page_alloc_state := boot_pages\<rparr>\<rparr>\<rparr>"
  define m4 where "m4 = m2\<lparr>m_kernel := (m_kernel m2)\<lparr>k_sched := scheduler_new 1 10000000\<rparr>,
    m_scheduler := \<lparr>ol_once = \<lparr>completed = True\<rparr>, ol_data = Some ()\<rparr>\<rparr>"
  define m5 where "m5 = m4\<lparr>m_intc := intc_enable CNTPNSIRQ (m_intc m4)\<rparr>"
  have s1: "on_system (on_machine init_log) b = (Ok (), set_machine m1 b)"
    unfolding m1_def by (rule on_system_machine) (rule init_log_ok [OF r(3)])
  have s2: "on_system (on_machine (on_kernel (init_pages (im_end im)))) (set_machine m1 b) = (Ok (), set_machine m2 b)"
    by (subst on_system_machine) (simp_all add: on_kernel_def init_pages_ok [OF i(1)] m2_def m1_def)
  obtain b3 where s3: "on_system (init_files (im_cli im)) (set_machine m2 b) = (Ok (), b3)" "b_platform b3 = b_platform (set_machine m2 b)"
      "b_vfs b3 = vfs_booted" "b_store b3 = store (boot_world (tree4 (im_cli im)) (Some (dev_tree serial_device)) undefined)"
    using init_files_ok [of "set_machine m2 b", OF _ i(2)] r(1) by auto
  have s4: "on_system (on_machine init_scheduler) b3 = (Ok (), set_machine m4 b3)"
    by (subst on_system_machine) (use r(4) in \<open>simp_all add: s3(2) init_scheduler_ok m4_def m2_def m1_def\<close>)
  obtain p5 where s5: "init_vectors (im_vectors im) (b_platform (set_machine m4 b3)) = (Ok (), p5)" "platform_ready p5" "p_vbar_el1 p5 = im_vectors im"
      "p_machine p5 = m5"
    using init_vectors_ok [of "b_platform (set_machine m4 b3)" "im_vectors im"] r(2) s3(2) by (auto simp: m5_def)
  let ?b5 = "(set_machine m4 b3)\<lparr>b_platform := p5\<rparr>"
  have "on_platform (init_vectors (im_vectors im)) (set_machine m4 b3) = (Ok (), ?b5)"
    using s5(1) by (simp add: on_platform_def)
  then have "kernel_setup im b = (Ok (), ?b5)" by (simp add: kernel_setup_def s1 s2 s3(1) s4)
  moreover have "m_kernel m5 = ?k\<lparr>k_mm := (k_mm ?k)\<lparr>page_alloc_state := boot_pages\<rparr>, k_sched := scheduler_new 1 10000000\<rparr>"
    "m_log m5 = serial_log" "uart_ready (m_uart m5)" "once_lock_get (m_scheduler m5) = Ok (Some ())" "sent m5 = sent ?m" "m_heap m5 = m_heap ?m"
    using u by (simp_all add: m5_def m4_def m2_def m1_def once_lock_get_def is_completed_def)
  ultimately show ?thesis using s3(3,4) s5(2-4) by (intro exI [of _ ?b5]) simp
qed

text \<open>The state before \<^verbatim>\<open>Kernel::run\<close>.\<close>

lemma kernel_init_prefix:
  assumes rs: "board_reset b" and fits: "image_fits im"
  shows "\<exists>b' x t. kernel_init im b = apfst unwrap_res (on_system kernel_run b') \<and> platform_ready (b_platform b')
    \<and> p_vbar_el1 (b_platform b') = im_vectors im
    \<and> runs_task (p_machine (b_platform b')) x \<and> tid x = 1 \<and> queue (k_sched (m_kernel (p_machine (b_platform b')))) = [2, 3]
    \<and> user_map (k_mm (m_kernel (p_machine (b_platform b')))) (mem_context x) = Map.empty
    \<and> monotonic (timer (k_core (m_kernel (p_machine (b_platform b'))))) = Ok t
    \<and> monotonic (timer (k_core (m_kernel (p_machine (b_platform b))))) = Ok t
    \<and> b_vfs b' = vfs_booted \<and> b_store b' = store (boot_world (tree4 (im_cli im)) (Some (dev_tree serial_device)) undefined)
    \<and> room (4 * load_pages_count (elf_program_headers (im_cli im)) + 4) (page_alloc_state (k_mm (m_kernel (p_machine (b_platform b')))))
    \<and> sent (p_machine (b_platform b')) = sent (p_machine (b_platform b))
    \<and> dom (tasks (k_sched (m_kernel (p_machine (b_platform b'))))) = {1, 2, 3}
    \<and> images_wf (m_kernel (p_machine (b_platform b'))) \<and> (\<forall>u. task_mem (m_kernel (p_machine (b_platform b'))) u = Map.empty)
    \<and> m_heap (p_machine (b_platform b')) = m_heap (p_machine (b_platform b))"
proof -
  let ?k = "m_kernel (p_machine (b_platform b))" and ?n = "4 * load_pages_count (elf_program_headers (im_cli im)) + 4"
  have r: "current_core (k_core ?k) = 0" "cntfrq_el0 (timer (k_core ?k)) \<noteq> 0" "task_counter ?k = 1" "asid_counter (k_mm ?k) = 1"
    using rs by (simp_all add: board_reset_def Let_def)
  have n5: "?n + 5 \<le> 256512" using fits by (simp add: image_fits_def)
  obtain f1 f2 where cl: "im_closures im = [f1, f2]"
    using fits unfolding image_fits_def by (auto simp: length_Suc_conv numeral_2_eq_2)
  obtain b5 where s5: "kernel_setup im b = (Ok (), b5)" "platform_ready (b_platform b5)" "p_vbar_el1 (b_platform b5) = im_vectors im"
      "m_kernel (p_machine (b_platform b5)) = ?k\<lparr>k_mm := (k_mm ?k)\<lparr>page_alloc_state := boot_pages\<rparr>, k_sched := scheduler_new 1 10000000\<rparr>"
      "m_log (p_machine (b_platform b5)) = serial_log" "uart_ready (m_uart (p_machine (b_platform b5)))"
      "once_lock_get (m_scheduler (p_machine (b_platform b5))) = Ok (Some ())"
      "sent (p_machine (b_platform b5)) = sent (p_machine (b_platform b))" "m_heap (p_machine (b_platform b5)) = m_heap (p_machine (b_platform b))"
      "b_vfs b5 = vfs_booted" "b_store b5 = store (boot_world (tree4 (im_cli im)) (Some (dev_tree serial_device)) undefined)"
    using kernel_setup_ok [OF assms] by blast
  define m5 where "m5 = p_machine (b_platform b5)"
  note k5 = s5(4) [folded m5_def]
  obtain k6 x where k6: "init_tasks im (m_kernel m5) = (Ok (), k6)" "kernel_wf k6" "current_tasks (k_sched k6) = [Some 1]"
      "queue (k_sched k6) = [2, 3]" "tasks (k_sched k6) 1 = Some x" "tid x = 1" "user_map (k_mm k6) (mem_context x) = Map.empty"
      "timer (k_core k6) = set_duration 10000000 (timer (k_core ?k))" "room ?n (page_alloc_state (k_mm k6))"
      "dom (tasks (k_sched k6)) = {1, 2, 3}" "\<forall>t y. tasks (k_sched k6) t = Some y \<longrightarrow> user_map (k_mm k6) (mem_context y) = Map.empty"
    using init_tasks_ok [of "m_kernel m5" 10000000 im f1 f2 ?n] r(1,3,4) cl n5 k5 by auto
  define m6 where "m6 = m5\<lparr>m_kernel := k6\<rparr>"
  let ?b6 = "set_machine m6 b5"
  have "on_system (on_machine (on_kernel (init_tasks im))) b5 = (Ok (), ?b6)"
    by (subst on_system_machine) (use k6(1) in \<open>simp_all add: on_kernel_def m6_def flip: m5_def\<close>)
  then have "kernel_init im b = apfst unwrap_res (on_system kernel_run ?b6)"
    by (simp add: kernel_init_setup s5(1))
  moreover have "platform_ready (b_platform ?b6)" "p_vbar_el1 (b_platform ?b6) = im_vectors im"
    using s5(2,3) by (simp_all add: set_machine_def platform_ready_def installed_table_def)
  moreover have "runs_task m6 x"
    using k6 s5(5-7) by (simp add: runs_task_def m6_def m5_def)
  moreover obtain t where "monotonic (timer (k_core ?k)) = Ok t" using r(2) by (simp add: monotonic_def timer_frequency_def)
  moreover have "b_vfs ?b6 = b_vfs b5" "b_store ?b6 = b_store b5" by simp_all
  moreover have "sent m6 = sent (p_machine (b_platform b))" "m_heap m6 = m_heap (p_machine (b_platform b))" using s5(8,9) by (simp_all add: m6_def m5_def)
  moreover have "image_wf (k_mm k6, mem_context y) \<and> user_mem (k_mm k6) (mem_context y) = Map.empty" if "tasks (k_sched k6) u = Some y" for u y
  proof -
    have "ctx_wf (k_mm k6, mem_context y)" using k6(2) that by (auto simp: kernel_wf_def spaces_wf_def)
    moreover have "user_map (k_mm k6) (mem_context y) = Map.empty" using k6(11) that by blast
    ultimately show ?thesis using image_wf_empty by blast
  qed
  then have "images_wf (m_kernel m6)" "\<forall>u. task_mem (m_kernel m6) u = Map.empty"
    by (simp_all add: images_wf_def task_mem_def m6_def split: option.split)
  ultimately show ?thesis using k6(2-10) s5(10,11)
    by (intro exI [of _ ?b6] exI [of _ x]) (auto simp: m6_def)
qed

text \<open>What a start establishes.\<close>

lemma kernel_boots_ok:
  assumes "board_reset b" and "image_fits im"
  shows "\<exists>b' x t. kernel_init im b = (Ok \<lparr>ue_elr_el1 = eh_entry_point (elf_header (im_cli im)), ue_spsr_el1 = 0, ue_sp_el0 = 0x80000000\<rparr>, b')
    \<and> platform_ready (b_platform b') \<and> p_vbar_el1 (b_platform b') = im_vectors im
    \<and> runs_task (p_machine (b_platform b')) x \<and> tid x = 1
    \<and> queue (k_sched (m_kernel (p_machine (b_platform b')))) = [2, 3]
    \<and> user_mem (k_mm (m_kernel (p_machine (b_platform b')))) (mem_context x)
        = spec_zero_page 0x7FFFF (fold (spec_load_segment (im_cli im)) (loads (elf_program_headers (im_cli im))) Map.empty)
    \<and> monotonic (timer (k_core (m_kernel (p_machine (b_platform b))))) = Ok t
    \<and> sent (p_machine (b_platform b')) = sent (p_machine (b_platform b)) @ concat (timestamp t) @ ascii ''Hello, world!'' @ ascii [CHR 0x0A]
        @ concat (map (segment_lines t) (loads (elf_program_headers (im_cli im))))
    \<and> images_wf (m_kernel (p_machine (b_platform b'))) \<and> dom (tasks (k_sched (m_kernel (p_machine (b_platform b'))))) = {1, 2, 3}
    \<and> (\<forall>u. u \<noteq> 1 \<longrightarrow> task_mem (m_kernel (p_machine (b_platform b'))) u = Map.empty)
    \<and> monotonic (timer (k_core (m_kernel (p_machine (b_platform b'))))) = Ok t \<and> m_heap (p_machine (b_platform b')) = m_heap (p_machine (b_platform b))"
proof -
  let ?e = "\<lparr>ue_elr_el1 = eh_entry_point (elf_header (im_cli im)), ue_spsr_el1 = 0, ue_sp_el0 = 0x80000000\<rparr>"
  obtain b1 x t where 1: "kernel_init im b = apfst unwrap_res (on_system kernel_run b1)" "platform_ready (b_platform b1)"
      "p_vbar_el1 (b_platform b1) = im_vectors im" "runs_task (p_machine (b_platform b1)) x" "tid x = 1"
      "queue (k_sched (m_kernel (p_machine (b_platform b1)))) = [2, 3]"
      "user_map (k_mm (m_kernel (p_machine (b_platform b1)))) (mem_context x) = Map.empty"
      "monotonic (timer (k_core (m_kernel (p_machine (b_platform b1))))) = Ok t"
      "monotonic (timer (k_core (m_kernel (p_machine (b_platform b))))) = Ok t"
      "b_vfs b1 = vfs_booted" "b_store b1 = store (boot_world (tree4 (im_cli im)) (Some (dev_tree serial_device)) undefined)"
      "room (4 * load_pages_count (elf_program_headers (im_cli im)) + 4) (page_alloc_state (k_mm (m_kernel (p_machine (b_platform b1)))))"
      "sent (p_machine (b_platform b1)) = sent (p_machine (b_platform b))" "dom (tasks (k_sched (m_kernel (p_machine (b_platform b1))))) = {1, 2, 3}"
      "images_wf (m_kernel (p_machine (b_platform b1)))" "\<forall>u. task_mem (m_kernel (p_machine (b_platform b1))) u = Map.empty"
      "m_heap (p_machine (b_platform b1)) = m_heap (p_machine (b_platform b))"
    using kernel_init_prefix [OF assms] by blast
  have cli: "vec_ok (im_cli im)" "elf_ok (im_cli im)" "\<forall>ph \<in> set (loads (elf_program_headers (im_cli im))). seg_loadable (im_cli im) ph"
    using assms(2) by (simp_all add: image_fits_def)
  have sys: "sys_machine (b_system b1) = p_machine (b_platform b1)" "sys_vfs (b_system b1) = b_vfs b1" "sys_store (b_system b1) = b_store b1"
    by (simp_all add: b_system_def)
  obtain sys' s' c' where 2: "kernel_run (b_system b1) = (Ok ?e, sys')" "runs_task (sys_machine sys') (x\<lparr>mem_context := c'\<rparr>)"
      "queue (k_sched (m_kernel (sys_machine sys'))) = queue (k_sched (m_kernel (p_machine (b_platform b1))))" "k_mm (m_kernel (sys_machine sys')) = s'"
      "user_mem s' c' = spec_zero_page 0x7FFFF (fold (spec_load_segment (im_cli im)) (loads (elf_program_headers (im_cli im))) Map.empty)"
      "sent (sys_machine sys') = sent (p_machine (b_platform b1)) @ concat (timestamp t) @ ascii ''Hello, world!'' @ ascii [CHR 0x0A]
        @ concat (map (segment_lines t) (loads (elf_program_headers (im_cli im))))"
      "images_wf (m_kernel (sys_machine sys'))" "dom (tasks (k_sched (m_kernel (sys_machine sys')))) = dom (tasks (k_sched (m_kernel (p_machine (b_platform b1)))))"
      "\<forall>u. u \<noteq> tid x \<longrightarrow> task_mem (m_kernel (sys_machine sys')) u = task_mem (m_kernel (p_machine (b_platform b1))) u"
      "k_core (m_kernel (sys_machine sys')) = k_core (m_kernel (p_machine (b_platform b1)))" "m_heap (sys_machine sys') = m_heap (p_machine (b_platform b1))"
    using kernel_run_ok [of "b_system b1", unfolded sys, OF 1(4,7,8,10,11) cli 1(12,15)] by blast
  let ?b = "put_system sys' b1"
  have b: "p_machine (b_platform ?b) = sys_machine sys'" "platform_ready (b_platform ?b)" "p_vbar_el1 (b_platform ?b) = im_vectors im"
    using 1(2,3) by (simp_all add: put_system_def platform_ready_def installed_table_def)
  have "kernel_init im b = (Ok ?e, ?b)" using 1(1) 2(1) by (simp add: on_system_def)
  then show ?thesis using b 1(5,6,8,9,13,14,16,17) 2(2-)
    by (intro exI [of _ ?b] exI [of _ "x\<lparr>mem_context := c'\<rparr>"] exI [of _ t]) simp
qed

text \<open>
  C6. The kernel boots into the program. From the state the loader leaves, with an image that fits, \<^verbatim>\<open>kernel_init\<close> runs
  through without a panic and without hanging: every lock is free, every allocation succeeds, every path leads where it should. The
  core enters EL0 at the entry point of \<^verbatim>\<open>/bin/cli\<close> as task 1, with the segments of the program over zeros as its whole memory
  and a page of stack; the two kernel threads wait in the queue; the vector table is installed with the timer interrupt and the
  system call it needs; and the output is the greeting and one line per loaded page, with the time of the boot.
\<close>

theorem kernel_boots:
  assumes "board_reset b" and "image_fits im"
  shows "\<exists>b' x t. kernel_init im b = (Ok \<lparr>ue_elr_el1 = eh_entry_point (elf_header (im_cli im)), ue_spsr_el1 = 0, ue_sp_el0 = 0x80000000\<rparr>, b')
    \<and> platform_ready (b_platform b') \<and> p_vbar_el1 (b_platform b') = im_vectors im
    \<and> runs_task (p_machine (b_platform b')) x \<and> tid x = 1
    \<and> queue (k_sched (m_kernel (p_machine (b_platform b')))) = [2, 3]
    \<and> user_mem (k_mm (m_kernel (p_machine (b_platform b')))) (mem_context x)
        = spec_zero_page 0x7FFFF (fold (spec_load_segment (im_cli im)) (loads (elf_program_headers (im_cli im))) Map.empty)
    \<and> monotonic (timer (k_core (m_kernel (p_machine (b_platform b))))) = Ok t
    \<and> sent (p_machine (b_platform b')) = sent (p_machine (b_platform b)) @ concat (timestamp t) @ ascii ''Hello, world!'' @ ascii [CHR 0x0A]
        @ concat (map (segment_lines t) (loads (elf_program_headers (im_cli im))))"
  using kernel_boots_ok [OF assms] by blast

section \<open>A concrete start\<close>

definition board0 :: board where
  "board0 = \<lparr>b_platform = \<lparr>p_router = router_new, p_installed = once_lock_new, p_vbar_el1 = 0,
       p_machine = \<lparr>m_kernel = \<lparr>k_core = core0, k_sched = scheduler_new 0 0, k_mm = big_mm, task_counter = 1\<rparr>, m_uart = uart0,
         m_intc = \<lparr>core0_timer_irqcntl = 0, core0_irq = 0\<rparr>, m_log = logger_new, m_scheduler = once_lock_new, m_heap = heap_new 0xFFFF000000100000\<rparr>\<rparr>,
     b_vfs = \<lparr>root_file_system = 0, mounts = []\<rparr>, b_store = Map.empty\<rparr>"

definition image0 :: image where
  "image0 = \<lparr>im_end = 0xFFFF000000600000, im_vectors = 0xFFFF000000081000, im_entry = 0xFFFF000000082000, im_wrapper = 0xFFFF000000083000,
     im_closures = [0xFFFF000000200000, 0xFFFF000000200010], im_cli = elf0\<rparr>"

lemma board0_reset: "board_reset board0"
proof -
  have "tx_fair uart0" by (auto simp: tx_fair_def uart0_def AUX_MU_LSR_TX_EMPTY_def)
  then show ?thesis by (simp add: board_reset_def board0_def core0_def current_core_def AFFINITY0_MASK_def big_mm_def)
qed

lemma image0_fits: "image_fits image0"
  by (simp add: image_fits_def image0_def elf0_ok ph0_loads)

theorem kernel_boots_witness:
  "\<exists>b' (x :: task). kernel_init image0 board0 = (Ok \<lparr>ue_elr_el1 = 0x400000, ue_spsr_el1 = 0, ue_sp_el0 = 0x80000000\<rparr>, b')
    \<and> queue (k_sched (m_kernel (p_machine (b_platform b')))) = [2, 3]
    \<and> user_mem (k_mm (m_kernel (p_machine (b_platform b')))) (mem_context x) = spec_zero_page 0x7FFFF (spec_load_segment elf0 ph0 Map.empty)"
proof -
  have i: "im_cli image0 = elf0" "eh_entry_point header0 = 0x400000" by (simp_all add: image0_def header0_def)
  show ?thesis using kernel_boots [OF board0_reset image0_fits] unfolding i elf0_ok(2) elf0_header(1) ph0_loads(1) by auto
qed

end
