(* ===== verification/System_Run.thy ===== *)
theory System_Run
  imports Boot
begin

text \<open>
  The kernel after its start: what can happen, one event after the other, and how the kernel answers. An event is an
  exception, an interrupt, progress of the running task, or a change of the hardware. Whatever
  happens, the kernel stays well-formed or panics.
\<close>

section \<open>Events\<close>

text \<open>
  The registers of a task at EL0 are those of the core while it runs there. The stubs of \<^verbatim>\<open>vector_table.s\<close> save them in a frame on
  the kernel stack of the task, and load them from there when the task is the one to return to; so there is one
  frame for each task, wherever it is.
\<close>

record running_system =
  rs_frames :: "task_id \<Rightarrow> trap_frame"
  rs_platform :: platform

abbreviation rs_machine :: "running_system \<Rightarrow> machine" where
  "rs_machine s \<equiv> p_machine (rs_platform s)"

abbreviation rs_kernel :: "running_system \<Rightarrow> kernel" where
  "rs_kernel s \<equiv> m_kernel (rs_machine s)"

text \<open>
  A task computes, which may leave anything in its registers; it stores a byte; it raises an exception, of which \<^verbatim>\<open>svc\<close> is one;
  a kernel thread does a round of its loop; an interrupt is taken; the lines of the interrupt controller and the
  counter of the timer change.
\<close>

datatype event =
    Compute trap_frame registers
  | Store usize u8
  | Exception u64 u64
  | Thread_Round
  | Interrupt
  | Hardware intc_hw u64

definition running_id :: "running_system \<Rightarrow> task_id" where
  "running_id s = (case current_tasks (k_sched (rs_kernel s)) of Some t # _ \<Rightarrow> t | _ \<Rightarrow> 0)"

definition set_frame :: "trap_frame \<Rightarrow> running_system \<Rightarrow> running_system" where
  "set_frame f s = s\<lparr>rs_frames := (rs_frames s)(running_id s := f)\<rparr>"

definition on_platform_of :: "(platform \<Rightarrow> 'a res \<times> platform) \<Rightarrow> running_system \<Rightarrow> 'a res \<times> running_system" where
  "on_platform_of f s = (case f (rs_platform s) of (r, p) \<Rightarrow> (r, s\<lparr>rs_platform := p\<rparr>))"

definition on_machine_of :: "(machine \<Rightarrow> 'a res \<times> machine) \<Rightarrow> running_system \<Rightarrow> 'a res \<times> running_system" where
  "on_machine_of f = on_platform_of (\<lambda>p. case f (p_machine p) of (r, m) \<Rightarrow> (r, p\<lparr>p_machine := m\<rparr>))"

text \<open>The stubs.\<close>

definition el0_sync :: "u64 \<Rightarrow> u64 \<Rightarrow> running_system \<Rightarrow> unit res \<times> running_system" where
  "el0_sync esr_el1 far_el1 s =
     (let frame = rs_frames s (running_id s) in
      case vector_sync_el0 frame esr_el1 far_el1 (r_elr_el1 frame) (rs_platform s) of
        (r, (frame, p)) \<Rightarrow> (r, (set_frame frame s)\<lparr>rs_platform := p\<rparr>))"

definition el0_irq :: "running_system \<Rightarrow> unit res \<times> running_system" where
  "el0_irq = on_platform_of vector_irq"

text \<open>
  A store at EL0 goes through the tables in \<^verbatim>\<open>TTBR0_EL1\<close>; without a translation, or in the upper half, it is an exception of the class of
  data aborts.
\<close>

definition ESR_DATA_ABORT :: u64 where
  "ESR_DATA_ABORT = push_bit ESR_EL1_EC_SHIFT 0b100100"

definition user_store :: "usize \<Rightarrow> u8 \<Rightarrow> kernel \<Rightarrow> kernel option" where
  "user_store va b k =
     (if unat va < 2 ^ 48
      then map_option (\<lambda>p. k\<lparr>k_mm := (k_mm k)\<lparr>kmem := (kmem (k_mm k))(p := b)\<rparr>\<rparr>) (byte_ptr (kmem (k_mm k)) (ttbr0_el1 (k_core k)) va)
      else None)"

definition with_kernel :: "(kernel \<Rightarrow> kernel) \<Rightarrow> running_system \<Rightarrow> running_system" where
  "with_kernel f s = s\<lparr>rs_platform := (rs_platform s)\<lparr>p_machine := (rs_machine s)\<lparr>m_kernel := f (rs_kernel s)\<rparr>\<rparr>\<rparr>"

definition set_regs :: "registers \<Rightarrow> kernel \<Rightarrow> kernel" where
  "set_regs r k = k\<lparr>k_core := (k_core k)\<lparr>regs := r\<rparr>\<rparr>"

definition set_count :: "u64 \<Rightarrow> kernel \<Rightarrow> kernel" where
  "set_count n k = k\<lparr>k_core := (k_core k)\<lparr>timer := (timer (k_core k))\<lparr>cntpct_el0 := n\<rparr>\<rparr>\<rparr>"

definition set_lines :: "intc_hw \<Rightarrow> running_system \<Rightarrow> running_system" where
  "set_lines h s = s\<lparr>rs_platform := (rs_platform s)\<lparr>p_machine := (rs_machine s)\<lparr>m_intc := h\<rparr>\<rparr>\<rparr>"

fun system_step :: "event \<Rightarrow> running_system \<Rightarrow> unit res \<times> running_system" where
  "system_step (Compute f r) s = (Ok (), with_kernel (set_regs r) (set_frame f s))"
| "system_step (Store va b) s =
     (case user_store va b (rs_kernel s) of
        Some k \<Rightarrow> (Ok (), with_kernel (\<lambda>_. k) s)
      | None \<Rightarrow> el0_sync ESR_DATA_ABORT va s)"
| "system_step (Exception esr far) s = el0_sync esr far s"
| "system_step Thread_Round s = on_machine_of kthread_round s"
| "system_step Interrupt s = el0_irq s"
| "system_step (Hardware h n) s = (Ok (), with_kernel (set_count n) (set_lines h s))"

fun system_run :: "event list \<Rightarrow> running_system \<Rightarrow> unit res \<times> running_system" where
  "system_run [] s = (Ok (), s)"
| "system_run (e # es) s = and_then (system_step e s) (\<lambda>_. system_run es)"

section \<open>Invariant\<close>

text \<open>
  The vector table is installed, a task runs, every address space maps each of its pages once, the heap is within its array, and the
  timer has a frequency.
\<close>

definition system_wf :: "running_system \<Rightarrow> bool" where
  "system_wf s \<longleftrightarrow> platform_ready (rs_platform s) \<and> (\<exists>x. runs_task (rs_machine s) x)
     \<and> images_wf (rs_kernel s) \<and> heap_left 0 (m_heap (rs_machine s)) \<and> cntfrq_el0 (timer (k_core (rs_kernel s))) \<noteq> 0"

lemma system_wfE:
  assumes "system_wf s"
  obtains x where "platform_ready (rs_platform s)" "runs_task (rs_machine s) x" "images_wf (rs_kernel s)"
    "heap_left 0 (m_heap (rs_machine s))" "cntfrq_el0 (timer (k_core (rs_kernel s))) \<noteq> 0" "running_id s = tid x"
  using assms by (auto simp: system_wf_def running_id_def runs_task_def)

lemma with_kernel_simps [simp]:
  "rs_frames (with_kernel f s) = rs_frames s" "rs_machine (with_kernel f s) = (rs_machine s)\<lparr>m_kernel := f (rs_kernel s)\<rparr>"
  "platform_ready (rs_platform (with_kernel f s)) = platform_ready (rs_platform s)"
  by (simp_all add: with_kernel_def platform_ready_def installed_table_def)

lemma set_lines_simps [simp]:
  "rs_frames (set_lines h s) = rs_frames s" "rs_machine (set_lines h s) = (rs_machine s)\<lparr>m_intc := h\<rparr>"
  "platform_ready (rs_platform (set_lines h s)) = platform_ready (rs_platform s)"
  by (simp_all add: set_lines_def platform_ready_def installed_table_def)

lemma set_frame_simps [simp]:
  "rs_platform (set_frame f s) = rs_platform s" "rs_frames (set_frame f s) = (rs_frames s)(running_id s := f)"
  by (simp_all add: set_frame_def)

text \<open>The core may change, as long as it keeps its number and its table base.\<close>

lemma kernel_wf_core:
  assumes "kernel_wf k" and "mpidr_el1 c = mpidr_el1 (k_core k)" and "ttbr0_el1 c = ttbr0_el1 (k_core k)"
  shows "kernel_wf (k\<lparr>k_core := c\<rparr>)"
proof -
  have w: "smp_wf \<lparr>cores = [k_core k], smp_sched = k_sched k\<rparr>" using assms(1) by (simp add: kernel_wf_def)
  then have l: "length (current_tasks (k_sched k)) = 1" by (simp add: smp_wf_def)
  have i: "i = 0" if "occupies (k_sched k) i t" for i t using that l by (simp add: occupies_def)
  have "ttbr0_el1 ([c] ! i) = mc_ttbr (mem_context x)" if "occupies (k_sched k) i t" "tasks (k_sched k) t = Some x" for i t x
    using w that i [OF that(1)] assms(3) unfolding smp_wf_def by (metis nth_Cons_0 smp.select_convs)
  moreover have "unat (current_core c) = 0" using w assms(2) by (auto simp: smp_wf_def current_core_def)
  ultimately have "smp_wf \<lparr>cores = [c], smp_sched = k_sched k\<rparr>" using w l by (simp add: smp_wf_def)
  then show ?thesis using assms(1) by (simp add: kernel_wf_def)
qed

lemma runs_task_core:
  assumes "runs_task m x" and "mpidr_el1 c = mpidr_el1 (k_core (m_kernel m))" and "ttbr0_el1 c = ttbr0_el1 (k_core (m_kernel m))"
  shows "runs_task (m\<lparr>m_kernel := (m_kernel m)\<lparr>k_core := c\<rparr>\<rparr>) x"
  using assms kernel_wf_core [of "m_kernel m" c] by (simp add: runs_task_def)

text \<open>The registers of the tasks, on one core.\<close>

lemma one_core_regs:
  assumes "runs_task m x"
  shows "task_regs \<lparr>cores = [c], smp_sched = k_sched (m_kernel m)\<rparr> t
    = (if t = tid x then Some (regs c) else map_option cpu_context (tasks (k_sched (m_kernel m)) t))"
  using assms by (simp add: task_regs_def runs_task_def)

section \<open>Exceptions\<close>

lemma platform_ready_machine [simp]: "platform_ready (p\<lparr>p_machine := m\<rparr>) = platform_ready p"
  by (simp add: platform_ready_def installed_table_def)

lemma heap_used_0 [simp]: "heap_used 0 m = m"
  by (simp add: heap_used_def)

lemma printed_Nil: "printed [] m m"
  by (auto simp: printed_def intro!: exI [of _ "lsr_reads (m_uart m)"])

text \<open>The system after a handler that changed the frame, printed and used the heap.\<close>

definition after_handler :: "trap_frame \<Rightarrow> machine \<Rightarrow> running_system \<Rightarrow> running_system" where
  "after_handler f m s = (set_frame f s)\<lparr>rs_platform := (rs_platform s)\<lparr>p_machine := m\<rparr>\<rparr>"

lemma after_handler_simps [simp]:
  "rs_machine (after_handler f m s) = m" "rs_frames (after_handler f m s) = (rs_frames s)(running_id s := f)"
  "platform_ready (rs_platform (after_handler f m s)) = platform_ready (rs_platform s)"
  by (simp_all add: after_handler_def)

lemma after_handler_wf:
  assumes "system_wf s" and p: "printed bs (heap_used len (rs_machine s)) m" and h: "heap_left (unat len) (m_heap (rs_machine s))"
  shows "system_wf (after_handler f m s)"
proof -
  obtain x where x: "platform_ready (rs_platform s)" "runs_task (rs_machine s) x" "images_wf (rs_kernel s)"
    "cntfrq_el0 (timer (k_core (rs_kernel s))) \<noteq> 0" using assms(1) by (rule system_wfE)
  note d = printedD [OF p]
  have "runs_task m x" using printed_runs [OF p] heap_used_runs x(2) by blast
  moreover have "heap_left 0 (m_heap m)" using heap_left_used [of 0 len "rs_machine s"] h d(6) by simp
  ultimately show ?thesis using x d(1) by (auto simp: system_wf_def)
qed

text \<open>What an exception from EL0 does, in all cases. \<open>f\<close> is the frame of the running task.\<close>

definition buffer_ptr :: "trap_frame \<Rightarrow> kernel \<Rightarrow> nat \<Rightarrow> usize option" where
  "buffer_ptr f k i = byte_ptr (kmem (k_mm k)) (ttbr0_el1 (k_core k)) (r_x1 f + of_nat i)"

definition is_write :: "u64 \<Rightarrow> trap_frame \<Rightarrow> bool" where
  "is_write esr f \<longleftrightarrow> is_svc esr \<and> r_x8 f = 64 \<and> r_x0 f = 1"

text \<open>An exception the kernel does not survive: no system call, or \<^verbatim>\<open>write\<close> with more bytes than the heap has left or with a byte that is not mapped.\<close>

definition fatal :: "u64 \<Rightarrow> trap_frame \<Rightarrow> machine \<Rightarrow> bool" where
  "fatal esr f m \<longleftrightarrow> \<not> is_svc esr \<or> is_write esr f \<and>
     (\<not> heap_left (unat (r_x2 f)) (m_heap m) \<or> (\<exists>i < unat (r_x2 f). buffer_ptr f (m_kernel m) i = None))"

lemma el0_sync_ok:
  assumes wf: "system_wf s" and f: "f = rs_frames s (running_id s)" and ok: "\<not> fatal esr f (rs_machine s)"
    and now: "monotonic (timer (k_core (rs_kernel s))) = Ok now"
  shows "is_write esr f \<Longrightarrow> \<exists>m. el0_sync esr far s = (Ok (), after_handler (f\<lparr>r_x0 := r_x2 f\<rparr>) m s)
      \<and> printed (from_utf8_lossy (map (\<lambda>i. kmem (k_mm (rs_kernel s)) (the (buffer_ptr f (rs_kernel s) i))) [0..<unat (r_x2 f)])) (heap_used (r_x2 f) (rs_machine s)) m"
    and "\<not> is_write esr f \<Longrightarrow> r_x8 f = 64 \<Longrightarrow> el0_sync esr far s = (Ok (), after_handler (f\<lparr>r_x0 := - 9\<rparr>) (rs_machine s) s)"
    and "r_x8 f \<noteq> 64 \<Longrightarrow> \<exists>m. el0_sync esr far s = (Ok (), after_handler (f\<lparr>r_x0 := - 38\<rparr>) m s)
      \<and> printed (concat (timestamp now) @ ascii ''not implemented: system call '' @ fmt_dec (unat (r_x8 f)) @ ascii '' ('' @ fmt_hex (unat (r_x8 f))
          @ ascii '')'' @ ascii [CHR 0x0A]) (rs_machine s) m"
proof -
  obtain x where x: "platform_ready (rs_platform s)" "runs_task (rs_machine s) x" using wf by (rule system_wfE)
  have svc: "is_svc esr" using ok by (simp add: fatal_def)
  note sy = el0_sync_def after_handler_def Let_def f
  show "\<exists>m. el0_sync esr far s = (Ok (), after_handler (f\<lparr>r_x0 := r_x2 f\<rparr>) m s)
      \<and> printed (from_utf8_lossy (map (\<lambda>i. kmem (k_mm (rs_kernel s)) (the (buffer_ptr f (rs_kernel s) i))) [0..<unat (r_x2 f)])) (heap_used (r_x2 f) (rs_machine s)) m"
    if w: "is_write esr f"
  proof -
    have h: "heap_left (unat (r_x2 f)) (m_heap (rs_machine s))" and n: "r_x8 f = 64" "r_x0 f = 1"
      using ok w by (simp_all add: fatal_def is_write_def)
    have "byte_ptr (kmem (k_mm (rs_kernel s))) (mc_ttbr (mem_context x)) (r_x1 f + of_nat i) = Some (the (buffer_ptr f (rs_kernel s) i))"
      if "i < unat (r_x2 f)" for i
      using ok w that runs_task_space(1) [OF x(2)] by (auto simp: fatal_def buffer_ptr_def)
    note lb = load_bytes_mapped [OF this]
    obtain m where "sys_write_call (svc_args f) (rs_machine s) = (Ok (r_x2 f), m)"
      "printed (from_utf8_lossy (map (\<lambda>i. kmem (k_mm (rs_kernel s)) (the (buffer_ptr f (rs_kernel s) i))) [0..<unat (r_x2 f)])) (heap_used (r_x2 f) (rs_machine s)) m"
      using sys_write_done [OF x(2), of "svc_args f"] n(2) h lb unfolding svc_args_simps by blast
    then show ?thesis using svc_write [OF x(1) svc n(1)] by (auto simp: sy)
  qed
  show "el0_sync esr far s = (Ok (), after_handler (f\<lparr>r_x0 := - 9\<rparr>) (rs_machine s) s)" if "\<not> is_write esr f" "r_x8 f = 64"
    using svc_write [OF x(1) svc that(2)] sys_write_bad_fd [of "svc_args f" "rs_machine s"] that svc
    by (simp add: sy svc_args_simps is_write_def)
  show "\<exists>m. el0_sync esr far s = (Ok (), after_handler (f\<lparr>r_x0 := - 38\<rparr>) m s)
      \<and> printed (concat (timestamp now) @ ascii ''not implemented: system call '' @ fmt_dec (unat (r_x8 f)) @ ascii '' ('' @ fmt_hex (unat (r_x8 f))
          @ ascii '')'' @ ascii [CHR 0x0A]) (rs_machine s) m" if "r_x8 f \<noteq> 64"
  proof -
    have "m_log (rs_machine s) = serial_log" "uart_ready (m_uart (rs_machine s))" using x(2) by (simp_all add: runs_task_def)
    from svc_other [OF x(1) svc that this now, of far "r_elr_el1 f"] show ?thesis by (auto simp: sy)
  qed
qed

lemma el0_sync_fatal:
  assumes wf: "system_wf s" and f: "f = rs_frames s (running_id s)" and bad: "fatal esr f (rs_machine s)"
  shows "fst (el0_sync esr far s) = Panic"
proof -
  obtain x where x: "platform_ready (rs_platform s)" "runs_task (rs_machine s) x" "heap_left 0 (m_heap (rs_machine s))"
    using wf by (rule system_wfE)
  have "fst (vector_sync_el0 f esr far (r_elr_el1 f) (rs_platform s)) = Panic"
  proof (cases "is_svc esr")
    case True
    then have w: "r_x8 f = 64" "r_x0 f = 1" and "\<not> heap_left (unat (r_x2 f)) (m_heap (rs_machine s)) \<or> (\<exists>i < unat (r_x2 f). buffer_ptr f (rs_kernel s) i = None)"
      using bad by (auto simp: fatal_def is_write_def)
    then have "\<not> heap_left (unat (r_x2 f)) (m_heap (rs_machine s)) \<or> unmapped_byte (rs_machine s) x (r_x1 f) (r_x2 f)"
      using runs_task_space(1) [OF x(2)] by (simp add: unmapped_byte_def buffer_ptr_def)
    then show ?thesis by (rule svc_write_panics [OF x(1) True w(1) x(2) w(2) x(3)])
  next
    case False
    then show ?thesis by (simp add: vector_sync_el0_def is_svc_def)
  qed
  then show ?thesis
    by (cases "vector_sync_el0 f esr far (r_elr_el1 f) (rs_platform s)") (simp add: el0_sync_def Let_def f [symmetric] split: prod.split)
qed

section \<open>The other events\<close>

lemma compute_wf:
  assumes "system_wf s"
  shows "system_wf (with_kernel (set_regs r) (set_frame f s))"
proof -
  obtain x where x: "platform_ready (rs_platform s)" "runs_task (rs_machine s) x" "images_wf (rs_kernel s)"
    "heap_left 0 (m_heap (rs_machine s))" "cntfrq_el0 (timer (k_core (rs_kernel s))) \<noteq> 0" using assms by (rule system_wfE)
  have "runs_task ((rs_machine s)\<lparr>m_kernel := set_regs r (rs_kernel s)\<rparr>) x"
    using runs_task_core [OF x(2)] by (simp add: set_regs_def)
  then show ?thesis using x by (auto simp: system_wf_def images_wf_def set_regs_def)
qed

lemma hardware_wf:
  assumes "system_wf s"
  shows "system_wf (with_kernel (set_count n) (set_lines h s))"
proof -
  obtain x where x: "platform_ready (rs_platform s)" "runs_task (rs_machine s) x" "images_wf (rs_kernel s)"
    "heap_left 0 (m_heap (rs_machine s))" "cntfrq_el0 (timer (k_core (rs_kernel s))) \<noteq> 0" using assms by (rule system_wfE)
  have "runs_task ((rs_machine s)\<lparr>m_intc := h\<rparr>) x" using x(2) by (simp add: runs_task_def)
  from runs_task_core [OF this] have "runs_task ((rs_machine s)\<lparr>m_intc := h, m_kernel := set_count n (rs_kernel s)\<rparr>) x"
    by (simp add: set_count_def)
  then show ?thesis using x by (auto simp: system_wf_def images_wf_def set_count_def)
qed

text \<open>A store reaches the memory of the running task, and no other.\<close>

lemma user_store_ok:
  assumes "runs_task m x" and "images_wf (m_kernel m)" and st: "user_store va b (m_kernel m) = Some k"
  shows "runs_task (m\<lparr>m_kernel := k\<rparr>) x" "images_wf k" "task_mem k t = (if t = tid x then (task_mem (m_kernel m) t)(va \<mapsto> b) else task_mem (m_kernel m) t)"
    and "k_core k = k_core (m_kernel m)" "k_sched k = k_sched (m_kernel m)"
proof -
  let ?k = "m_kernel m"
  have kw: "kernel_wf ?k" and tx: "tasks (k_sched ?k) (tid x) = Some x" using assms(1) by (simp_all add: runs_task_def)
  have img: "image_wf (k_mm ?k, mem_context x)" using assms(2) tx by (auto simp: images_wf_def)
  obtain p where va: "unat va < 2 ^ 48" and p: "byte_ptr (kmem (k_mm ?k)) (mc_ttbr (mem_context x)) va = Some p"
      and k: "k = ?k\<lparr>k_mm := (k_mm ?k)\<lparr>kmem := (kmem (k_mm ?k))(p := b)\<rparr>\<rparr>"
    using st runs_task_space(1) [OF assms(1)] by (auto simp: user_store_def split: if_splits)
  let ?s = "(k_mm ?k)\<lparr>kmem := (kmem (k_mm ?k))(p := b)\<rparr>"
  note sb = store_byte [OF img va p, where b = b]
  have same: "set_space (tid x) ?s (mem_context x) ?k = k"
  proof -
    have "(tasks (k_sched ?k))(tid x := map_option (\<lambda>y. y\<lparr>mem_context := mem_context x\<rparr>) (tasks (k_sched ?k) (tid x))) = tasks (k_sched ?k)"
      using tx by (simp add: fun_eq_iff)
    then show ?thesis by (simp add: set_space_def k)
  qed
  have "space_step (k_mm ?k, mem_context x) (?s, mem_context x)" using sb(2) by (simp add: space_step_def)
  from kernel_wf_space [OF kw tx this image_wfD(1) [OF sb(1)]] have "kernel_wf k"
    using kw by (simp add: same kernel_wf_def)
  then show "runs_task (m\<lparr>m_kernel := k\<rparr>) x" using assms(1) by (simp add: runs_task_def k)
  have other: "image_wf (?s, mem_context y) \<and> user_mem ?s (mem_context y) = user_mem (k_mm ?k) (mem_context y)"
    if "tasks (k_sched ?k) u = Some y" "u \<noteq> tid x" for u y
    using frame_tasks [OF kw assms(2) tx sb(2) image_wfD(1) [OF sb(1)] that] by blast
  have "image_wf (?s, mem_context y)" if "tasks (k_sched ?k) u = Some y" for u y
    using other [OF that] sb(1) tx that by (cases "u = tid x") simp_all
  then show "images_wf k" by (simp add: images_wf_def k)
  show "task_mem k t = (if t = tid x then (task_mem ?k t)(va \<mapsto> b) else task_mem ?k t)"
    using other [of t] sb(4) tx by (auto simp: task_mem_def k split: option.split)
  show "k_core k = k_core ?k" "k_sched k = k_sched ?k" by (simp_all add: k)
qed

lemma store_wf:
  assumes "system_wf s" and "user_store va b (rs_kernel s) = Some k"
  shows "system_wf (with_kernel (\<lambda>_. k) s)"
proof -
  obtain x where x: "platform_ready (rs_platform s)" "runs_task (rs_machine s) x" "images_wf (rs_kernel s)"
    "heap_left 0 (m_heap (rs_machine s))" "cntfrq_el0 (timer (k_core (rs_kernel s))) \<noteq> 0" using assms(1) by (rule system_wfE)
  note u = user_store_ok [OF x(2,3) assms(2)]
  show ?thesis using x u(1,2,4) by (auto simp: system_wf_def)
qed

lemma thread_round_ok:
  assumes "system_wf s"
  shows "\<exists>m. system_step Thread_Round s = (Ok (), after_handler (rs_frames s (running_id s)) m s)
    \<and> printed (ascii ''<k'' @ fmt_dec (unat (running_id s)) @ ascii ''>'') (rs_machine s) m"
proof -
  obtain x where x: "runs_task (rs_machine s) x" "running_id s = tid x" using assms by (rule system_wfE)
  have "m_log (rs_machine s) = serial_log" "uart_ready (m_uart (rs_machine s))" using x(1) by (simp_all add: runs_task_def)
  from print_printed [OF this, of "[ascii ''<k'', fmt_dec (unat (tid x)), ascii ''>'']"]
  obtain m where "print [ascii ''<k'', fmt_dec (unat (tid x)), ascii ''>''] (rs_machine s) = (Ok (), m)"
    "printed (ascii ''<k'' @ fmt_dec (unat (tid x)) @ ascii ''>'') (rs_machine s) m" by auto
  then show ?thesis
    using the_current_task_runs [OF x(1)] x(2)
    by (auto simp: on_machine_of_def on_platform_of_def kthread_round_def after_handler_def set_frame_def)
qed

text \<open>A pending timer interrupt puts the next task on the core.\<close>

lemma interrupt_idle:
  assumes "system_wf s" and "\<not> intc_is_pending CNTPNSIRQ (m_intc (rs_machine s))"
  shows "system_step Interrupt s = (Ok (), s)"
proof -
  obtain x where "platform_ready (rs_platform s)" using assms(1) by (rule system_wfE)
  from vector_irq_timer(2) [OF this assms(2)] show ?thesis by (simp add: el0_irq_def on_platform_of_def)
qed

lemma interrupt_switches:
  assumes "system_wf s" and pend: "intc_is_pending CNTPNSIRQ (m_intc (rs_machine s))"
  obtains n q k where "system_step Interrupt s = (Ok (), with_kernel (\<lambda>_. k) (set_lines (intc_clear CNTPNSIRQ (m_intc (rs_machine s))) s))"
    "system_wf (with_kernel (\<lambda>_. k) (set_lines (intc_clear CNTPNSIRQ (m_intc (rs_machine s))) s))"
    "queue (k_sched (rs_kernel s)) @ [running_id s] = n # q" "queue (k_sched k) = q" "current_tasks (k_sched k) = [Some n]"
    "\<And>t. map_option cpu_context (tasks (k_sched k) t) \<noteq> None \<longleftrightarrow> tasks (k_sched (rs_kernel s)) t \<noteq> None" "\<And>t. task_mem k t = task_mem (rs_kernel s) t"
    "\<And>t. (if t = n then Some (regs (k_core k)) else map_option cpu_context (tasks (k_sched k) t))
      = (if t = running_id s then Some (regs (k_core (rs_kernel s))) else map_option cpu_context (tasks (k_sched (rs_kernel s)) t))"
    "cntfrq_el0 (timer (k_core k)) = cntfrq_el0 (timer (k_core (rs_kernel s)))" "cntpct_el0 (timer (k_core k)) = cntpct_el0 (timer (k_core (rs_kernel s)))"
proof -
  obtain x where x: "platform_ready (rs_platform s)" "runs_task (rs_machine s) x" "images_wf (rs_kernel s)"
    "heap_left 0 (m_heap (rs_machine s))" "cntfrq_el0 (timer (k_core (rs_kernel s))) \<noteq> 0" "running_id s = tid x" using assms(1) by (rule system_wfE)
  let ?m = "(rs_machine s)\<lparr>m_intc := intc_clear CNTPNSIRQ (m_intc (rs_machine s))\<rparr>"
  have r: "runs_task ?m x" and k: "m_kernel ?m = rs_kernel s" using x(2) by (simp_all add: runs_task_def)
  obtain n q y k where h: "schedule_handler ?m = (Ok (), ?m\<lparr>m_kernel := k\<rparr>)" "runs_task (?m\<lparr>m_kernel := k\<rparr>) y"
      "queue (k_sched (m_kernel ?m)) @ [tid x] = n # q" "queue (k_sched k) = q" "tid y = n" "k_mm k = k_mm (m_kernel ?m)" "interrupts_enabled (k_core k)"
      "timer (k_core k) = set_duration (quantum (k_sched k)) (timer (k_core (m_kernel ?m)))"
      "task_regs \<lparr>cores = [k_core k], smp_sched = k_sched k\<rparr> = task_regs \<lparr>cores = [k_core (m_kernel ?m)], smp_sched = k_sched (m_kernel ?m)\<rparr>"
      "\<forall>t. map_option mem_context (tasks (k_sched k) t) = map_option mem_context (tasks (k_sched (m_kernel ?m)) t)"
      "task_counter k = task_counter (m_kernel ?m)"
    by (rule schedule_handler_runs [OF r])
  note h = h(1-6) h(8-10)
  note h = h [unfolded k]
  let ?s = "with_kernel (\<lambda>_. k) (set_lines (intc_clear CNTPNSIRQ (m_intc (rs_machine s))) s)"
  have tm: "cntfrq_el0 (timer (k_core k)) = cntfrq_el0 (timer (k_core (rs_kernel s)))" "cntpct_el0 (timer (k_core k)) = cntpct_el0 (timer (k_core (rs_kernel s)))"
    by (simp_all add: h(7) set_duration_def Let_def)
  have ex: "\<exists>w'. tasks (k_sched (rs_kernel s)) t = Some w' \<and> mem_context w = mem_context w'" if "tasks (k_sched k) t = Some w" for t w
    using spec [OF h(9), of t] that by (auto simp: map_option_case split: option.splits)
  then have im: "images_wf k" using x(3) h(6) unfolding images_wf_def by metis
  have "system_step Interrupt s = (Ok (), ?s)"
    using vector_irq_timer(1) [OF x(1) pend] h(1)
    by (simp add: el0_irq_def on_platform_of_def with_kernel_def set_lines_def)
  moreover have "system_wf ?s" using x h(2) im tm(1) by (auto simp: system_wf_def)
  moreover have "current_tasks (k_sched k) = [Some n]" using h(2,5) by (simp add: runs_task_def)
  moreover have "map_option cpu_context (tasks (k_sched k) t) \<noteq> None \<longleftrightarrow> tasks (k_sched (rs_kernel s)) t \<noteq> None" for t
    using spec [OF h(9), of t] by (auto simp: map_option_case split: option.splits)
  moreover have "task_mem k t = task_mem (rs_kernel s) t" for t
    using spec [OF h(9), of t] by (auto simp: task_mem_def h(6) split: option.splits)
  moreover have "(if t = n then Some (regs (k_core k)) else map_option cpu_context (tasks (k_sched k) t))
      = (if t = running_id s then Some (regs (k_core (rs_kernel s))) else map_option cpu_context (tasks (k_sched (rs_kernel s)) t))" for t
  proof -
    have "task_regs \<lparr>cores = [k_core k], smp_sched = k_sched k\<rparr> t = (if t = n then Some (regs (k_core k)) else map_option cpu_context (tasks (k_sched k) t))"
      using one_core_regs [OF h(2), of "k_core k" t] h(5) by simp
    moreover have "task_regs \<lparr>cores = [k_core (rs_kernel s)], smp_sched = k_sched (rs_kernel s)\<rparr> t
      = (if t = running_id s then Some (regs (k_core (rs_kernel s))) else map_option cpu_context (tasks (k_sched (rs_kernel s)) t))"
      using one_core_regs [OF r, of "k_core (rs_kernel s)" t] x(6) by simp
    ultimately show ?thesis using h(8) by metis
  qed
  ultimately show thesis using that h(3,4) x(6) tm by metis
qed

section \<open>The invariant is kept\<close>

text \<open>The events that stop the kernel.\<close>

fun stops :: "event \<Rightarrow> running_system \<Rightarrow> bool" where
  "stops (Exception esr far) s = fatal esr (rs_frames s (running_id s)) (rs_machine s)"
| "stops (Store va b) s \<longleftrightarrow> user_store va b (rs_kernel s) = None"
| "stops _ s = False"

lemma data_abort_fatal: "fatal ESR_DATA_ABORT f m"
  by (simp add: fatal_def is_svc_def ESR_DATA_ABORT_def consts_defs)

lemma step_stops:
  assumes "system_wf s" and "stops e s"
  shows "fst (system_step e s) = Panic"
  using assms el0_sync_fatal [OF assms(1) refl] data_abort_fatal by (cases e) auto

lemma step_wf:
  assumes wf: "system_wf s" and ok: "\<not> stops e s"
  shows "\<exists>s'. system_step e s = (Ok (), s') \<and> system_wf s'"
proof (cases e)
  case (Exception esr far)
  let ?f = "rs_frames s (running_id s)"
  obtain x where x: "heap_left 0 (m_heap (rs_machine s))" "cntfrq_el0 (timer (k_core (rs_kernel s))) \<noteq> 0" using wf by (rule system_wfE)
  obtain now where now: "monotonic (timer (k_core (rs_kernel s))) = Ok now" using x(2) by (simp add: monotonic_def timer_frequency_def)
  have nf: "\<not> fatal esr ?f (rs_machine s)" using ok Exception by simp
  note y = el0_sync_ok [OF wf refl nf now, of far]
  have h0: "heap_left (unat 0) (m_heap (rs_machine s))" using x(1) by simp
  consider "is_write esr ?f" | "\<not> is_write esr ?f" "r_x8 ?f = 64" | "r_x8 ?f \<noteq> 64" by blast
  then show ?thesis
  proof cases
    case 1
    then have "heap_left (unat (r_x2 ?f)) (m_heap (rs_machine s))" using nf by (auto simp: fatal_def)
    then show ?thesis using y(1) [OF 1] after_handler_wf [OF wf] Exception by fastforce
  next
    case 2
    have "printed [] (heap_used 0 (rs_machine s)) (rs_machine s)" using printed_Nil by simp
    from after_handler_wf [OF wf this h0] show ?thesis using y(2) [OF 2] Exception by simp
  next
    case 3
    then show ?thesis using y(3) [OF 3] after_handler_wf [OF wf, where len = 0] h0 Exception by fastforce
  qed
next
  case (Store va b)
  then show ?thesis using ok store_wf [OF wf] by (auto split: option.splits)
next
  case Thread_Round
  have h0: "heap_left (unat 0) (m_heap (rs_machine s))" using wf by (simp add: system_wf_def)
  obtain m where "system_step Thread_Round s = (Ok (), after_handler (rs_frames s (running_id s)) m s)"
    "printed (ascii ''<k'' @ fmt_dec (unat (running_id s)) @ ascii ''>'') (heap_used 0 (rs_machine s)) m"
    using thread_round_ok [OF wf] by auto
  then show ?thesis using after_handler_wf [OF wf _ h0] Thread_Round by blast
next
  case Interrupt
  show ?thesis
  proof (cases "intc_is_pending CNTPNSIRQ (m_intc (rs_machine s))")
    case True
    then show ?thesis using interrupt_switches [OF wf True] Interrupt by metis
  next
    case False
    then show ?thesis using interrupt_idle [OF wf] wf Interrupt by blast
  qed
qed (use wf compute_wf hardware_wf in auto)

text \<open>
  C7. Whatever happens, the kernel stays well-formed. From a well-formed system, for any sequence of
  events, with any values in registers and any interrupts: no step hangs or fails; after every prefix of the
  sequence in which no event is fatal the whole system is well-formed again; and the kernel panics at
  exactly the first fatal event, which is an exception other than a system call, a store that is not mapped, or a \<^verbatim>\<open>write\<close> that asks
  for more than the heap has or for a byte that is not mapped.
\<close>

theorem system_run_wf:
  assumes "system_wf s"
  shows "case system_run es s of
      (Ok _, s') \<Rightarrow> system_wf s' \<and> (\<forall>pre e post. es = pre @ e # post \<longrightarrow> \<not> stops e (snd (system_run pre s)))
    | (Panic, _) \<Rightarrow> (\<exists>pre e post s1. es = pre @ e # post \<and> system_run pre s = (Ok (), s1) \<and> system_wf s1 \<and> stops e s1)
    | _ \<Rightarrow> False"
  using assms
proof (induction es arbitrary: s)
  case (Cons e es)
  show ?case
  proof (cases "stops e s")
    case True
    then obtain s' where "system_step e s = (Panic, s')" using step_stops [OF Cons.prems True] by (metis prod.collapse)
    moreover have "\<exists>pre f post s1. e # es = pre @ f # post \<and> system_run pre s = (Ok (), s1) \<and> system_wf s1 \<and> stops f s1"
      using True Cons.prems by (intro exI [of _ "[]"] exI [of _ e] exI [of _ es] exI [of _ s]) simp
    ultimately show ?thesis by simp
  next
    case False
    then obtain s' where s': "system_step e s = (Ok (), s')" "system_wf s'" using step_wf [OF Cons.prems] by blast
    have pre: "\<not> stops f (snd (system_run pre s))"
      if "e # es = pre @ f # post" "\<And>p. es = p @ f # post \<Longrightarrow> \<not> stops f (snd (system_run p s'))" for pre f post
      using that False s'(1) by (cases pre) auto
    have lift: "\<exists>pre f post s1. e # es = pre @ f # post \<and> system_run pre s = (Ok (), s1) \<and> system_wf s1 \<and> stops f s1"
      if "es = p @ f # post" "system_run p s' = (Ok (), s1)" "system_wf s1" "stops f s1" for p f post s1
      using that s'(1) by (intro exI [of _ "e # p"] exI [of _ f] exI [of _ post] exI [of _ s1]) simp
    show ?thesis
    proof (cases "system_run es s'")
      case (Pair r s2)
      then show ?thesis using Cons.IH [OF s'(2)] s'(1) pre lift by (cases r) (auto 0 3)
    qed
  qed
qed simp

text \<open>A concrete system: one task on an empty address space, and a program that makes a call that does not exist.\<close>

definition system0 :: running_system where
  "system0 = \<lparr>rs_frames = \<lambda>_. frame0, rs_platform = platform_of (machine_of (fst mm1) (snd mm1))\<rparr>"

lemma system0_wf: "system_wf system0"
proof -
  have i: "image_wf (fst mm1, snd mm1)" using image_wf_empty(1) [OF mm1_ok(1)] mm1_empty by blast
  have "runs_task (machine_of (fst mm1) (snd mm1)) (task_of (snd mm1))" by (rule machine_of_runs [OF mm1_ok]) (simp add: mm1_asid)
  moreover have "images_wf (m_kernel (machine_of (fst mm1) (snd mm1)))"
    using i by (auto simp: images_wf_def machine_of_def task_of_def split: if_splits)
  moreover have "heap_left 0 (m_heap (machine_of (fst mm1) (snd mm1)))" "cntfrq_el0 (timer (k_core (m_kernel (machine_of (fst mm1) (snd mm1))))) \<noteq> 0"
    by (simp_all add: machine_of_def heap_left_def heap_new_def HEAP_N_def core0_def)
  ultimately show ?thesis using platform_of_ready by (auto simp: system_wf_def system0_def)
qed

lemma system0_id: "running_id system0 = 1"
  by (simp add: running_id_def system0_def machine_of_def)

theorem system_run_wf_witness:
  "system_wf (snd (system_run [Compute frame0 registers_new, Interrupt, Thread_Round] system0))
   \<and> fst (system_run [Exception 0 0] system0) = Panic"
proof -
  have st: "stops (Exception 0 0) s" for s by (simp add: fatal_def is_svc_def consts_defs)
  obtain r s' where e: "system_run [Exception 0 0] system0 = (r, s')" by fastforce
  note run = system_run_wf [OF system0_wf, of "[Exception 0 0]", unfolded e]
  have "\<exists>pre f post. [Exception 0 0] = pre @ f # post \<and> stops f (snd (system_run pre system0))"
    by (intro exI [of _ "[]"] exI [of _ "Exception 0 0"] conjI st) simp
  then have "r = Panic" using run by (cases r) auto
  then have "fst (system_run [Exception 0 0] system0) = Panic" using e by simp
  moreover have "system_wf (snd (system_run [Compute frame0 registers_new, Interrupt, Thread_Round] system0))"
  proof -
    have "\<not> stops e s" if "e \<in> set [Compute frame0 registers_new, Interrupt, Thread_Round]" for e s using that by auto
    then have "\<not> (\<exists>pre e post s1. [Compute frame0 registers_new, Interrupt, Thread_Round] = pre @ e # post \<and> stops e s1)"
      by (metis in_set_conv_decomp)
    then show ?thesis
      using system_run_wf [OF system0_wf, of "[Compute frame0 registers_new, Interrupt, Thread_Round]"]
      by (auto split: prod.splits outcome.splits)
  qed
  ultimately show ?thesis by blast
qed

end
