(* ===== verification/Ideal_Machine.thy ===== *)
theory Ideal_Machine
  imports System_Run
begin

text \<open>
  What the kernel is for, as an abstract machine: every task has a processor and a memory of its own, takes turns with the others, and
  may print. The kernel after its start refines this machine.
\<close>

section \<open>The abstract machine\<close>

text \<open>A thread of control, with its own registers and its own memory.\<close>

record thread =
  th_frame :: trap_frame
  th_regs :: registers
  th_mem :: "usize \<Rightarrow> u8 option"

record ideal =
  i_threads :: "task_id \<Rightarrow> thread option"
  i_running :: task_id
  i_ready :: "task_id list"
  i_out :: bytes
  i_heap :: nat
  i_irq :: bool
  i_freq :: u64
  i_count :: u64

definition clock :: "ideal \<Rightarrow> duration" where
  "clock a = unat (ucast ((ucast (i_count a) * ucast NANOS :: 128 word) div ucast (i_freq a)) :: u64)"

definition upd_thread :: "(thread \<Rightarrow> thread) \<Rightarrow> ideal \<Rightarrow> ideal" where
  "upd_thread f a = a\<lparr>i_threads := (i_threads a)(i_running a := map_option f (i_threads a (i_running a)))\<rparr>"

definition return_value :: "u64 \<Rightarrow> thread \<Rightarrow> thread" where
  "return_value v th = th\<lparr>th_frame := (th_frame th)\<lparr>r_x0 := v\<rparr>\<rparr>"

definition unknown_call_line :: "duration \<Rightarrow> u64 \<Rightarrow> bytes" where
  "unknown_call_line now n = concat (timestamp now) @ ascii ''not implemented: system call '' @ fmt_dec (unat n) @ ascii '' ('' @ fmt_hex (unat n)
     @ ascii '')'' @ ascii [CHR 0x0A]"

text \<open>
  The bytes that a thread can have printed: its own, and, since the kernel does not check the address, those of the kernel, \<open>km\<close>, in the first
  512 GB of the upper half.
\<close>

definition readable :: "mem \<Rightarrow> thread \<Rightarrow> usize \<Rightarrow> u8 option" where
  "readable km th va = (if unat VA_START \<le> unat va \<and> unat va < unat VA_START + 2 ^ 39 then Some (km va) else th_mem th va)"

definition buffer :: "mem \<Rightarrow> thread \<Rightarrow> u8 option list" where
  "buffer km th = map (\<lambda>i. readable km th (r_x1 (th_frame th) + of_nat i)) [0..<unat (r_x2 (th_frame th))]"

text \<open>What an exception does with the thread \<open>th\<close> that raised it: \<open>None\<close> stops everything.\<close>

definition ideal_exception :: "mem \<Rightarrow> u64 \<Rightarrow> thread \<Rightarrow> ideal \<Rightarrow> ideal option" where
  "ideal_exception km esr th a =
     (let f = th_frame th in
      if \<not> is_svc esr then None
      else if r_x8 f \<noteq> 64 then Some ((upd_thread (return_value (- 38)) a)\<lparr>i_out := i_out a @ unknown_call_line (clock a) (r_x8 f)\<rparr>)
      else if r_x0 f \<noteq> 1 then Some (upd_thread (return_value (- 9)) a)
      else if i_heap a < unat (r_x2 f) \<or> None \<in> set (buffer km th) then None
      else Some ((upd_thread (return_value (r_x2 f)) a)\<lparr>i_out := i_out a @ from_utf8_lossy (map the (buffer km th)), i_heap := i_heap a - unat (r_x2 f)\<rparr>))"

definition ideal_irq :: "ideal \<Rightarrow> ideal" where
  "ideal_irq a =
     (if i_irq a
      then let q = i_ready a @ [i_running a] in a\<lparr>i_irq := False, i_running := hd q, i_ready := tl q\<rparr>
      else a)"

fun ideal_step :: "mem \<Rightarrow> event \<Rightarrow> ideal \<Rightarrow> ideal option" where
  "ideal_step km (Compute f r) a = Some (upd_thread (\<lambda>th. th\<lparr>th_frame := f, th_regs := r\<rparr>) a)"
| "ideal_step km (Store va b) a =
     (case i_threads a (i_running a) of
        Some th \<Rightarrow> (if th_mem th va = None then None else Some (upd_thread (\<lambda>th. th\<lparr>th_mem := (th_mem th)(va \<mapsto> b)\<rparr>) a))
      | None \<Rightarrow> None)"
| "ideal_step km (Exception esr far) a =
     (case i_threads a (i_running a) of Some th \<Rightarrow> ideal_exception km esr th a | None \<Rightarrow> None)"
| "ideal_step km Thread_Round a = Some (a\<lparr>i_out := i_out a @ ascii ''<k'' @ fmt_dec (unat (i_running a)) @ ascii ''>''\<rparr>)"
| "ideal_step km Interrupt a = Some (ideal_irq a)"
| "ideal_step km (Hardware h n) a = Some (a\<lparr>i_irq := intc_is_pending CNTPNSIRQ h, i_count := n\<rparr>)"

text \<open>A run. The kernel's memory as it is at each event is an input: \<open>ks n\<close> is what it is after \<open>n\<close> events.\<close>

fun ideal_run :: "(nat \<Rightarrow> mem) \<Rightarrow> event list \<Rightarrow> ideal \<Rightarrow> ideal option" where
  "ideal_run ks [] a = Some a"
| "ideal_run ks (e # es) a = Option.bind (ideal_step (ks 0) e a) (ideal_run (\<lambda>n. ks (Suc n)) es)"

section \<open>Abstraction\<close>

definition thread_of :: "running_system \<Rightarrow> task_id \<Rightarrow> thread option" where
  "thread_of s t = map_option (\<lambda>x. \<lparr>th_frame = rs_frames s t,
     th_regs = (if t = running_id s then regs (k_core (rs_kernel s)) else cpu_context x), th_mem = task_mem (rs_kernel s) t\<rparr>) (tasks (k_sched (rs_kernel s)) t)"

definition abs_system :: "running_system \<Rightarrow> ideal" where
  "abs_system s = \<lparr>i_threads = thread_of s, i_running = running_id s, i_ready = queue (k_sched (rs_kernel s)), i_out = sent (rs_machine s),
     i_heap = unat HEAP_N - unat (heap_allocated (m_heap (rs_machine s))), i_irq = intc_is_pending CNTPNSIRQ (m_intc (rs_machine s)),
     i_freq = cntfrq_el0 (timer (k_core (rs_kernel s))), i_count = cntpct_el0 (timer (k_core (rs_kernel s)))\<rparr>"


lemma abs_simps [simp]:
  "i_threads (abs_system s) = thread_of s" "i_running (abs_system s) = running_id s" "i_ready (abs_system s) = queue (k_sched (rs_kernel s))"
  "i_out (abs_system s) = sent (rs_machine s)" "i_heap (abs_system s) = unat HEAP_N - unat (heap_allocated (m_heap (rs_machine s)))"
  "i_irq (abs_system s) = intc_is_pending CNTPNSIRQ (m_intc (rs_machine s))"
  "i_freq (abs_system s) = cntfrq_el0 (timer (k_core (rs_kernel s)))" "i_count (abs_system s) = cntpct_el0 (timer (k_core (rs_kernel s)))"
  by (simp_all add: abs_system_def)

lemma heap_used_amount:
  assumes "heap_left (unat len) (m_heap m)"
  shows "unat (heap_allocated (m_heap (heap_used len m))) = unat (heap_allocated (m_heap m)) + unat len"
proof -
  have "unat (heap_allocated (m_heap m)) + unat len \<le> unat HEAP_N" "unat HEAP_N = 4194304"
    using assms by (simp_all add: heap_left_def HEAP_N_def)
  then show ?thesis by (simp add: heap_used_def unat_add_noof)
qed

lemma after_handler_abs:
  assumes p: "printed bs (heap_used len (rs_machine s)) m" and h: "heap_left (unat len) (m_heap (rs_machine s))"
  shows "abs_system (after_handler f m s) = (upd_thread (\<lambda>th. th\<lparr>th_frame := f\<rparr>) (abs_system s))\<lparr>i_out := i_out (abs_system s) @ bs,
      i_heap := i_heap (abs_system s) - unat len\<rparr>"
proof -
  note d = printedD [OF p]
  have "running_id (after_handler f m s) = running_id s" using d(1) by (simp add: running_id_def)
  then show ?thesis
    using d heap_used_amount [OF h]
    by (auto simp: abs_system_def upd_thread_def thread_of_def fun_eq_iff task_mem_def option.map_comp comp_def)
qed

lemma after_handler_abs0:
  assumes "printed bs (rs_machine s) m" and "heap_left 0 (m_heap (rs_machine s))"
  shows "abs_system (after_handler f m s) = (upd_thread (\<lambda>th. th\<lparr>th_frame := f\<rparr>) (abs_system s))\<lparr>i_out := i_out (abs_system s) @ bs\<rparr>"
proof -
  have "a\<lparr>i_out := z, i_heap := i_heap a - 0\<rparr> = a\<lparr>i_out := z\<rparr>" for a :: ideal and z by simp
  moreover have "i_heap (upd_thread g a) = i_heap a" for g a by (simp add: upd_thread_def)
  ultimately show ?thesis using after_handler_abs [of bs 0 s m f] assms by (metis heap_used_0 unsigned_0)
qed

section \<open>Simulation\<close>

lemma running_thread:
  assumes "system_wf s"
  obtains x th where "runs_task (rs_machine s) x" "running_id s = tid x" "thread_of s (running_id s) = Some th"
    "th_frame th = rs_frames s (running_id s)" "th_mem th = user_mem (k_mm (rs_kernel s)) (mem_context x)"
proof -
  obtain x where x: "runs_task (rs_machine s) x" "running_id s = tid x" using assms by (rule system_wfE)
  then have "tasks (k_sched (rs_kernel s)) (running_id s) = Some x" by (simp add: runs_task_def)
  then have th: "thread_of s (running_id s) = Some \<lparr>th_frame = rs_frames s (running_id s), th_regs = regs (k_core (rs_kernel s)),
      th_mem = user_mem (k_mm (rs_kernel s)) (mem_context x)\<rparr>"
    by (simp add: thread_of_def task_mem_def)
  show thesis by (rule that [OF x th]) simp_all
qed

lemma readable_ptr:
  assumes "th_mem th = user_mem s c"
  shows "readable (kmem s) th va = map_option (kmem s) (byte_ptr (kmem s) (mc_ttbr c) va)"
  using assms by (simp add: readable_def user_mem_def byte_ptr_def VA_START_value)

lemma write_buffer:
  assumes "runs_task (rs_machine s) x" and "th_frame th = f" "th_mem th = user_mem (k_mm (rs_kernel s)) (mem_context x)"
  defines "km \<equiv> kmem (k_mm (rs_kernel s))"
  shows "None \<in> set (buffer km th) \<longleftrightarrow> (\<exists>i < unat (r_x2 f). buffer_ptr f (rs_kernel s) i = None)"
    and "None \<notin> set (buffer km th) \<Longrightarrow> map the (buffer km th) = map (\<lambda>i. km (the (buffer_ptr f (rs_kernel s) i))) [0..<unat (r_x2 f)]"
proof -
  have b: "buffer km th = map (\<lambda>i. map_option km (buffer_ptr f (rs_kernel s) i)) [0..<unat (r_x2 f)]"
    using assms(1,2) readable_ptr [OF assms(3)] by (simp add: buffer_def buffer_ptr_def km_def runs_task_space(1) [OF assms(1)])
  show "None \<in> set (buffer km th) \<longleftrightarrow> (\<exists>i < unat (r_x2 f). buffer_ptr f (rs_kernel s) i = None)"
    unfolding b by (force simp: image_iff)
  show "map the (buffer km th) = map (\<lambda>i. km (the (buffer_ptr f (rs_kernel s) i))) [0..<unat (r_x2 f)]" if "None \<notin> set (buffer km th)"
    using that unfolding b by (auto simp: image_iff option.map_sel)
qed

lemma heap_left_amount:
  assumes "heap_left 0 (m_heap m)"
  shows "heap_left n (m_heap m) \<longleftrightarrow> n \<le> unat HEAP_N - unat (heap_allocated (m_heap m))"
  using assms by (auto simp: heap_left_def)

lemma clock_monotonic:
  assumes "cntfrq_el0 (timer (k_core (rs_kernel s))) \<noteq> 0"
  shows "monotonic (timer (k_core (rs_kernel s))) = Ok (clock (abs_system s))"
  using assms by (simp add: monotonic_def clock_def timer_frequency_def timer_count_def)

text \<open>A step of the kernel does what the abstract machine does, and stops where it stops.\<close>

definition simulates :: "ideal option \<Rightarrow> event \<Rightarrow> running_system \<Rightarrow> bool" where
  "simulates r e s = (case r of
     Some a \<Rightarrow> (\<exists>s'. system_step e s = (Ok (), s') \<and> system_wf s' \<and> abs_system s' = a)
   | None \<Rightarrow> stops e s)"

lemma upd_return:
  assumes "thread_of s (running_id s) = Some th"
  shows "upd_thread (return_value v) (abs_system s) = upd_thread (\<lambda>th'. th'\<lparr>th_frame := (th_frame th)\<lparr>r_x0 := v\<rparr>\<rparr>) (abs_system s)"
  using assms by (simp add: upd_thread_def return_value_def)

lemma simulates_exception:
  assumes wf: "system_wf s"
  shows "simulates (ideal_step (kmem (k_mm (rs_kernel s))) (Exception esr far) (abs_system s)) (Exception esr far) s"
proof -
  obtain x th where x: "runs_task (rs_machine s) x" "running_id s = tid x" and th: "thread_of s (running_id s) = Some th"
    "th_frame th = rs_frames s (running_id s)" "th_mem th = user_mem (k_mm (rs_kernel s)) (mem_context x)" using wf by (rule running_thread)
  let ?f = "rs_frames s (running_id s)" and ?a = "abs_system s" and ?km = "kmem (k_mm (rs_kernel s))"
  have i: "ideal_step ?km (Exception esr far) ?a = ideal_exception ?km esr th ?a" using th(1) by simp
  have now: "monotonic (timer (k_core (rs_kernel s))) = Ok (clock ?a)" using wf by (intro clock_monotonic) (simp add: system_wf_def)
  have h0: "heap_left 0 (m_heap (rs_machine s))" using wf by (simp add: system_wf_def)
  note y = el0_sync_ok [OF wf refl _ now, of esr far] and u = upd_return [OF th(1)]
  consider "\<not> is_svc esr" | "is_svc esr" "r_x8 ?f \<noteq> 64" | "is_svc esr" "r_x8 ?f = 64" "r_x0 ?f \<noteq> 1" | "is_write esr ?f"
    by (auto simp: is_write_def)
  then show ?thesis
  proof cases
    case 1
    then show ?thesis unfolding i by (simp add: simulates_def ideal_exception_def fatal_def Let_def)
  next
    case 2
    then have nf: "\<not> fatal esr ?f (rs_machine s)" by (simp add: fatal_def is_write_def)
    obtain m where m: "el0_sync esr far s = (Ok (), after_handler (?f\<lparr>r_x0 := - 38\<rparr>) m s)"
      "printed (unknown_call_line (clock ?a) (r_x8 ?f)) (rs_machine s) m"
      using y(3) [OF nf 2(2)] unfolding unknown_call_line_def by blast
    have "printed (unknown_call_line (clock ?a) (r_x8 ?f)) (heap_used 0 (rs_machine s)) m" "heap_left (unat 0) (m_heap (rs_machine s))"
      using m(2) h0 by simp_all
    from after_handler_wf [OF wf this] show ?thesis using m(1) after_handler_abs0 [OF m(2) h0] 2 th(2)
      unfolding i by (simp add: simulates_def ideal_exception_def u Let_def)
  next
    case 3
    then have nf: "\<not> fatal esr ?f (rs_machine s)" "\<not> is_write esr ?f" by (simp_all add: fatal_def is_write_def)
    have "printed [] (heap_used 0 (rs_machine s)) (rs_machine s)" "heap_left (unat 0) (m_heap (rs_machine s))"
      using h0 printed_Nil by simp_all
    note w = after_handler_wf [OF wf this]
    have "(upd_thread g ?a)\<lparr>i_out := i_out ?a @ []\<rparr> = upd_thread g ?a" for g by (simp add: upd_thread_def)
    then show ?thesis using y(2) [OF nf 3(2)] w after_handler_abs0 [OF printed_Nil h0] 3 th(2)
      unfolding i by (simp add: simulates_def ideal_exception_def u Let_def)
  next
    case 4
    note b = write_buffer [OF x(1) th(2,3)] and n = heap_left_amount [OF h0, of "unat (r_x2 ?f)"]
    have w: "is_svc esr" "r_x8 ?f = 64" "r_x0 ?f = 1" using 4 by (simp_all add: is_write_def)
    show ?thesis
    proof (cases "fatal esr ?f (rs_machine s)")
      case True
      then have "i_heap ?a < unat (r_x2 ?f) \<or> None \<in> set (buffer ?km th)" using 4 w(1) b(1) n by (auto simp: fatal_def)
      then show ?thesis using True w th(2) unfolding i by (simp add: simulates_def ideal_exception_def Let_def)
    next
      case False
      then have nn: "heap_left (unat (r_x2 ?f)) (m_heap (rs_machine s))" "None \<notin> set (buffer ?km th)"
        using 4 b(1) by (auto simp: fatal_def)
      obtain m where m: "el0_sync esr far s = (Ok (), after_handler (?f\<lparr>r_x0 := r_x2 ?f\<rparr>) m s)"
        "printed (from_utf8_lossy (map the (buffer ?km th))) (heap_used (r_x2 ?f) (rs_machine s)) m"
        using y(1) [OF False 4] unfolding b(2) [OF nn(2)] by blast
      show ?thesis using m(1) after_handler_wf [OF wf m(2) nn(1)] after_handler_abs [OF m(2) nn(1)] w th(2) nn n
        unfolding i by (simp add: simulates_def ideal_exception_def u Let_def)
    qed
  qed
qed

lemma user_store_iff:
  assumes "runs_task (rs_machine s) x"
  shows "user_store va b (rs_kernel s) = None \<longleftrightarrow> user_mem (k_mm (rs_kernel s)) (mem_context x) va = None"
  by (simp add: user_store_def user_mem_def runs_task_space(1) [OF assms])

lemma simulates_store:
  assumes wf: "system_wf s"
  shows "simulates (ideal_step km (Store va b) (abs_system s)) (Store va b) s"
proof -
  obtain x th where x: "runs_task (rs_machine s) x" "running_id s = tid x" and th: "thread_of s (running_id s) = Some th"
    "th_mem th = user_mem (k_mm (rs_kernel s)) (mem_context x)" using wf by (rule running_thread)
  show ?thesis
  proof (cases "user_store va b (rs_kernel s)")
    case None
    then show ?thesis using user_store_iff [OF x(1)] th by (simp add: simulates_def)
  next
    case (Some k)
    then have "th_mem th va \<noteq> None" using user_store_iff [OF x(1), of va b] th(2) by simp
    moreover
    have im: "images_wf (rs_kernel s)" using wf by (simp add: system_wf_def)
    note u = user_store_ok [OF x(1) im Some]
    have "running_id (with_kernel (\<lambda>_. k) s) = running_id s" by (simp add: running_id_def u(5))
    then have "abs_system (with_kernel (\<lambda>_. k) s) = upd_thread (\<lambda>th. th\<lparr>th_mem := (th_mem th)(va \<mapsto> b)\<rparr>) (abs_system s)"
      by (auto simp: abs_system_def upd_thread_def thread_of_def fun_eq_iff u(3-5) x(2) option.map_comp comp_def)
    ultimately show ?thesis using Some store_wf [OF wf Some] th(1) by (simp add: simulates_def)
  qed
qed

lemma core_only_simps [simp]:
  "task_mem (set_regs r k) t = task_mem k t" "task_mem (set_count n k) t = task_mem k t"
  "k_sched (set_regs r k) = k_sched k" "k_sched (set_count n k) = k_sched k"
  "regs (k_core (set_regs r k)) = r" "regs (k_core (set_count n k)) = regs (k_core k)"
  "timer (k_core (set_regs r k)) = timer (k_core k)" "cntfrq_el0 (timer (k_core (set_count n k))) = cntfrq_el0 (timer (k_core k))"
  "cntpct_el0 (timer (k_core (set_count n k))) = n"
  by (simp_all add: set_regs_def set_count_def task_mem_def cong: option.case_cong)

lemma simulates_compute:
  assumes wf: "system_wf s"
  shows "simulates (ideal_step km (Compute f r) (abs_system s)) (Compute f r) s"
proof -
  have "running_id (with_kernel (set_regs r) (set_frame f s)) = running_id s" by (simp add: running_id_def)
  then have "abs_system (with_kernel (set_regs r) (set_frame f s)) = upd_thread (\<lambda>th. th\<lparr>th_frame := f, th_regs := r\<rparr>) (abs_system s)"
    by (auto simp: abs_system_def upd_thread_def thread_of_def fun_eq_iff option.map_comp comp_def)
  then show ?thesis using compute_wf [OF wf] by (simp add: simulates_def)
qed

lemma simulates_hardware:
  assumes wf: "system_wf s"
  shows "simulates (ideal_step km (Hardware h n) (abs_system s)) (Hardware h n) s"
proof -
  have "running_id (with_kernel (set_count n) (set_lines h s)) = running_id s" by (simp add: running_id_def)
  then have "abs_system (with_kernel (set_count n) (set_lines h s)) = (abs_system s)\<lparr>i_irq := intc_is_pending CNTPNSIRQ h, i_count := n\<rparr>"
    by (simp add: abs_system_def thread_of_def fun_eq_iff cong: if_cong)
  then show ?thesis using hardware_wf [OF wf] by (simp add: simulates_def)
qed

lemma simulates_round:
  assumes wf: "system_wf s"
  shows "simulates (ideal_step km Thread_Round (abs_system s)) Thread_Round s"
proof -
  obtain x th where th: "thread_of s (running_id s) = Some th" "th_frame th = rs_frames s (running_id s)" using wf by (rule running_thread)
  have h0: "heap_left 0 (m_heap (rs_machine s))" using wf by (simp add: system_wf_def)
  let ?bs = "ascii ''<k'' @ fmt_dec (unat (running_id s)) @ ascii ''>''"
  obtain m where m: "system_step Thread_Round s = (Ok (), after_handler (rs_frames s (running_id s)) m s)" "printed ?bs (rs_machine s) m"
    using thread_round_ok [OF wf] by blast
  have "printed ?bs (heap_used 0 (rs_machine s)) m" "heap_left (unat 0) (m_heap (rs_machine s))" using m(2) h0 by simp_all
  note w = after_handler_wf [OF wf this]
  have "upd_thread (\<lambda>th. th\<lparr>th_frame := rs_frames s (running_id s)\<rparr>) (abs_system s) = abs_system s"
    using th by (auto simp: upd_thread_def abs_system_def fun_eq_iff)
  then have "abs_system (after_handler (rs_frames s (running_id s)) m s) = (abs_system s)\<lparr>i_out := i_out (abs_system s) @ ?bs\<rparr>"
    using after_handler_abs0 [OF m(2) h0] by simp
  then show ?thesis using m(1) w by (simp add: simulates_def)
qed

lemma simulates_interrupt:
  assumes wf: "system_wf s"
  shows "simulates (ideal_step km Interrupt (abs_system s)) Interrupt s"
proof (cases "intc_is_pending CNTPNSIRQ (m_intc (rs_machine s))")
  case False
  then show ?thesis using interrupt_idle [OF wf] wf by (simp add: simulates_def ideal_irq_def)
next
  case True
  let ?h = "intc_clear CNTPNSIRQ (m_intc (rs_machine s))"
  from wf True show ?thesis
  proof (cases rule: interrupt_switches)
    case (1 n q k)
    let ?s = "with_kernel (\<lambda>_. k) (set_lines ?h s)"
    have r: "running_id ?s = n" using 1(5) by (simp add: running_id_def)
    have "thread_of ?s t = thread_of s t" for t
    proof -
      have "tasks (k_sched k) t = None \<longleftrightarrow> tasks (k_sched (rs_kernel s)) t = None" using 1(6) [of t] by (cases "tasks (k_sched k) t") auto
      then show ?thesis using 1(7) [of t] 1(8) [of t] r
        by (auto simp: thread_of_def map_option_case split: option.splits if_splits)
    qed
    then have t: "thread_of ?s = thread_of s" by (rule ext)
    have "abs_system ?s = ideal_irq (abs_system s)"
      using True 1(3,4,9,10) r by (simp add: abs_system_def t ideal_irq_def Let_def intc_clear_pending)
    then show ?thesis using 1(1,2) by (simp add: simulates_def)
  qed
qed

lemma step_simulates:
  assumes "system_wf s"
  shows "simulates (ideal_step (kmem (k_mm (rs_kernel s))) e (abs_system s)) e s"
  using simulates_exception [OF assms] simulates_store [OF assms] simulates_compute [OF assms] simulates_hardware [OF assms]
    simulates_round [OF assms] simulates_interrupt [OF assms]
  by (cases e) blast+

text \<open>The memory of the kernel after the first \<open>n\<close> events.\<close>

definition kernel_seen :: "event list \<Rightarrow> running_system \<Rightarrow> nat \<Rightarrow> mem" where
  "kernel_seen es s n = kmem (k_mm (rs_kernel (snd (system_run (take n es) s))))"

lemma kernel_seen_Cons:
  assumes "system_step e s = (Ok (), s')"
  shows "kernel_seen (e # es) s 0 = kmem (k_mm (rs_kernel s))" "(\<lambda>n. kernel_seen (e # es) s (Suc n)) = kernel_seen es s'"
  using assms by (simp_all add: kernel_seen_def fun_eq_iff)

text \<open>The running kernel refines the abstract machine: any sequence of events has the outcome the abstract machine gives it.\<close>

lemma kernel_refines_ideal:
  assumes "system_wf s"
  shows "case ideal_run (kernel_seen es s) es (abs_system s) of
      Some a \<Rightarrow> \<exists>s'. system_run es s = (Ok (), s') \<and> system_wf s' \<and> abs_system s' = a
    | None \<Rightarrow> fst (system_run es s) = Panic"
  using assms
proof (induction es arbitrary: s)
  case (Cons e es)
  have z: "kernel_seen (e # es) s 0 = kmem (k_mm (rs_kernel s))" by (simp add: kernel_seen_def)
  have st: "simulates (ideal_step (kernel_seen (e # es) s 0) e (abs_system s)) e s" unfolding z by (rule step_simulates [OF Cons.prems])
  show ?case
  proof (cases "ideal_step (kernel_seen (e # es) s 0) e (abs_system s)")
    case None
    then have "stops e s" using st by (simp add: simulates_def)
    then obtain s' where "system_step e s = (Panic, s')" using step_stops [OF Cons.prems] by (metis prod.collapse)
    then show ?thesis using None by simp
  next
    case (Some a)
    then obtain s' where s': "system_step e s = (Ok (), s')" "system_wf s'" "abs_system s' = a" using st by (auto simp: simulates_def)
    show ?thesis using Cons.IH [OF s'(2)] Some s' kernel_seen_Cons(2) [OF s'(1), of es] by (simp split: option.splits)
  qed
qed simp

section \<open>A task alone\<close>

text \<open>What an event does to the thread that runs, with nothing else in sight.\<close>

definition call_result :: "trap_frame \<Rightarrow> u64" where
  "call_result f = (if r_x8 f \<noteq> 64 then - 38 else if r_x0 f \<noteq> 1 then - 9 else r_x2 f)"

fun own_step :: "event \<Rightarrow> thread \<Rightarrow> thread" where
  "own_step (Compute f r) th = th\<lparr>th_frame := f, th_regs := r\<rparr>"
| "own_step (Store va b) th = th\<lparr>th_mem := (th_mem th)(va \<mapsto> b)\<rparr>"
| "own_step (Exception esr far) th = return_value (call_result (th_frame th)) th"
| "own_step _ th = th"

text \<open>The events of a run that happen while \<open>t\<close> is on the core.\<close>

fun own_events :: "task_id \<Rightarrow> event list \<Rightarrow> running_system \<Rightarrow> event list" where
  "own_events t [] s = []"
| "own_events t (e # es) s =
     (if running_id s = t then [e] else []) @ (case system_step e s of (Ok _, s) \<Rightarrow> own_events t es s | _ \<Rightarrow> [])"

lemma upd_thread_threads: "i_threads (upd_thread f a) t = (if t = i_running a then map_option f (i_threads a t) else i_threads a t)"
  by (simp add: upd_thread_def)

lemma ideal_step_threads:
  assumes "ideal_step km e a = Some a'"
  shows "i_threads a' t = (if t = i_running a then map_option (own_step e) (i_threads a t) else i_threads a t)"
proof (cases e)
  case (Exception esr far)
  then obtain th where th: "i_threads a (i_running a) = Some th" "ideal_exception km esr th a = Some a'"
    using assms by (auto split: option.splits)
  have "i_threads a' = i_threads (upd_thread (return_value (call_result (th_frame th))) a)"
    using th(2) by (auto simp: ideal_exception_def Let_def call_result_def split: if_splits)
  then show ?thesis using th(1) Exception by (simp add: upd_thread_threads)
next
  case (Store va b)
  then have "a' = upd_thread (\<lambda>th. th\<lparr>th_mem := (th_mem th)(va \<mapsto> b)\<rparr>) a" using assms by (auto split: option.splits if_splits)
  moreover have "own_step (Store va b) = (\<lambda>th. th\<lparr>th_mem := (th_mem th)(va \<mapsto> b)\<rparr>)" by (rule ext) simp
  ultimately show ?thesis by (simp only: Store upd_thread_threads)
next
  case (Compute f r)
  then show ?thesis using assms by (cases "i_threads a t") (auto simp: upd_thread_threads)
qed (use assms in \<open>cases "i_threads a t"; auto simp: ideal_irq_def Let_def\<close>)+

lemma system_step_threads:
  assumes "system_wf s" and "system_step e s = (Ok (), s')"
  shows "system_wf s'" and "thread_of s' t = (if t = running_id s then map_option (own_step e) (thread_of s t) else thread_of s t)"
proof -
  have sim: "simulates (ideal_step (kmem (k_mm (rs_kernel s))) e (abs_system s)) e s" by (rule step_simulates [OF assms(1)])
  have "\<not> stops e s"
  proof
    assume "stops e s"
    then have "fst (system_step e s) = Panic" by (rule step_stops [OF assms(1)])
    then show False using assms(2) by simp
  qed
  then obtain a where a: "ideal_step (kmem (k_mm (rs_kernel s))) e (abs_system s) = Some a" using sim by (auto simp: simulates_def split: option.splits)
  then have "system_wf s' \<and> abs_system s' = a" using sim assms(2) by (auto simp: simulates_def)
  then show "system_wf s'" "thread_of s' t = (if t = running_id s then map_option (own_step e) (thread_of s t) else thread_of s t)"
    using ideal_step_threads [OF a, of t] by auto
qed

text \<open>
  C3. Isolation of tasks. In any run of the kernel that does not panic, with system calls, interrupts, kernel threads and
  stores of all tasks in any order, what a task has at the end in its registers and in each byte of its memory is what it
  had at the start, changed by its own events and by nothing else: as if it were alone on the machine. A system call returns what the
  registers of the call determine. This includes runs in which tasks print bytes of the kernel, which the kernel does not prevent: that
  reaches the output, but no task.
\<close>

theorem task_runs_alone:
  assumes "system_wf s" and "system_run es s = (Ok (), s')"
  shows "thread_of s' t = map_option (fold own_step (own_events t es s)) (thread_of s t)"
  using assms
proof (induction es arbitrary: s)
  case Nil
  then show ?case by (cases "thread_of s t") simp_all
next
  case (Cons e es)
  obtain s1 where s1: "system_step e s = (Ok (), s1)" "system_run es s1 = (Ok (), s')"
    using Cons.prems(2) by (auto simp: and_then_Ok_iff)
  note st = system_step_threads [OF Cons.prems(1) s1(1)]
  show ?case using Cons.IH [OF st(1) s1(2)] st(2) [of t] s1(1) by (cases "thread_of s t") auto
qed

section \<open>A program that prints\<close>

text \<open>
  Rounds of a program that sets its registers to \<open>f\<close>, calls the kernel, and computes on to \<open>f'\<close>.
\<close>

definition write_rounds :: "trap_frame \<Rightarrow> trap_frame \<Rightarrow> registers \<Rightarrow> u64 \<Rightarrow> nat \<Rightarrow> event list" where
  "write_rounds f f' r esr n = concat (replicate n [Compute f r, Exception esr 0, Compute f' r])"

lemma write_rounds_Suc: "write_rounds f f' r esr (Suc n) = Compute f r # Exception esr 0 # Compute f' r # write_rounds f f' r esr n"
  by (simp add: write_rounds_def)

text \<open>The round changes the thread in the same way each time, so only output and heap tell how often it ran.\<close>

definition after_round :: "trap_frame \<Rightarrow> registers \<Rightarrow> thread \<Rightarrow> thread" where
  "after_round f' r th = th\<lparr>th_frame := f', th_regs := r\<rparr>"

lemma ideal_round:
  assumes "is_svc esr" "r_x8 f = 64" "r_x0 f = 1" and th: "i_threads a (i_running a) = Some th"
    and buf: "\<forall>i < length bs. th_mem th (r_x1 f + of_nat i) = Some (bs ! i)" "unat (r_x2 f) = length bs"
    and low: "\<forall>i < length bs. r_x1 f + of_nat i < VA_START"
  shows "ideal_run ks (Compute f r # Exception esr 0 # Compute f' r # es) a = (if length bs \<le> i_heap a
      then ideal_run (\<lambda>n. ks (Suc (Suc (Suc n)))) es ((upd_thread (after_round f' r) a)\<lparr>i_out := i_out a @ from_utf8_lossy bs, i_heap := i_heap a - length bs\<rparr>) else None)"
proof -
  let ?g = "\<lambda>th :: thread. th\<lparr>th_frame := f, th_regs := r\<rparr>"
  let ?a1 = "upd_thread ?g a"
  have th1: "i_threads ?a1 (i_running ?a1) = Some (?g th)" using th by (simp add: upd_thread_def)
  have b: "buffer km (?g th) = map Some bs" for km
  proof -
    have "buffer km (?g th) = map (\<lambda>i. readable km (?g th) (r_x1 f + of_nat i)) [0..<length bs]" by (simp add: buffer_def buf(2))
    also have "\<dots> = map (\<lambda>i. Some (bs ! i)) [0..<length bs]"
      using buf(1) low by (intro map_cong) (auto simp: readable_def word_less_nat_alt not_le)
    also have "\<dots> = map Some bs" by (rule nth_equalityI) simp_all
    finally show ?thesis .
  qed
  let ?a2 = "(upd_thread (return_value (r_x2 f)) ?a1)\<lparr>i_out := i_out a @ from_utf8_lossy bs, i_heap := i_heap a - length bs\<rparr>"
  have up: "upd_thread (\<lambda>th. th\<lparr>th_frame := f', th_regs := r\<rparr>) ?a2
      = (upd_thread (after_round f' r) a)\<lparr>i_out := i_out a @ from_utf8_lossy bs, i_heap := i_heap a - length bs\<rparr>"
    using th by (simp add: upd_thread_def return_value_def after_round_def)
  have "ideal_step km (Exception esr 0) ?a1 = ideal_exception km esr (?g th) ?a1" for km using th1 by simp
  moreover have "i_out ?a1 = i_out a" "i_heap ?a1 = i_heap a" by (simp_all add: upd_thread_def)
  ultimately have "ideal_step km (Exception esr 0) ?a1 = (if length bs \<le> i_heap a then Some ?a2 else None)" for km
    using assms(1-3) buf(2) by (simp add: ideal_exception_def b comp_def)
  then show ?thesis using up by simp
qed

lemma ideal_rounds:
  assumes "is_svc esr" "r_x8 f = 64" "r_x0 f = 1" "i_threads a (i_running a) = Some th"
    and "\<forall>i < length bs. th_mem th (r_x1 f + of_nat i) = Some (bs ! i)" "unat (r_x2 f) = length bs"
    and low: "\<forall>i < length bs. r_x1 f + of_nat i < VA_START"
  shows "ideal_run ks (write_rounds f f' r esr (Suc n)) a = (if Suc n * length bs \<le> i_heap a
    then Some ((upd_thread (after_round f' r) a)\<lparr>i_out := i_out a @ concat (replicate (Suc n) (from_utf8_lossy bs)), i_heap := i_heap a - Suc n * length bs\<rparr>)
    else None)"
  using assms(4,5)
proof (induction n arbitrary: a th ks)
  case 0
  then show ?case
    using ideal_round [OF assms(1-3) 0 assms(6) low, where f' = f' and r = r and es = "[]"] by (simp add: write_rounds_def)
next
  case (Suc n)
  let ?a2 = "(upd_thread (after_round f' r) a)\<lparr>i_out := i_out a @ from_utf8_lossy bs, i_heap := i_heap a - length bs\<rparr>"
  let ?ks = "\<lambda>n. ks (Suc (Suc (Suc n)))"
  have run: "ideal_run ks (write_rounds f f' r esr (Suc (Suc n))) a = (if length bs \<le> i_heap a then ideal_run ?ks (write_rounds f f' r esr (Suc n)) ?a2 else None)"
    by (subst write_rounds_Suc) (rule ideal_round [OF assms(1-3) Suc.prems assms(6) low])
  have t2: "i_threads ?a2 (i_running ?a2) = Some (after_round f' r th)" using Suc.prems(1) by (simp add: upd_thread_def)
  have m2: "\<forall>i < length bs. th_mem (after_round f' r th) (r_x1 f + of_nat i) = Some (bs ! i)" using Suc.prems(2) by (simp add: after_round_def)
  have up: "upd_thread (after_round f' r) ?a2 = ?a2" using Suc.prems(1) by (simp add: upd_thread_def after_round_def)
  have le: "length bs \<le> i_heap a \<Longrightarrow> Suc n * length bs \<le> i_heap ?a2 \<longleftrightarrow> Suc (Suc n) * length bs \<le> i_heap a" by auto
  have big: "Suc (Suc n) * length bs \<le> i_heap a \<Longrightarrow> length bs \<le> i_heap a" by simp
  have fields: "?a2\<lparr>i_out := i_out ?a2 @ concat (replicate (Suc n) (from_utf8_lossy bs)), i_heap := i_heap ?a2 - Suc n * length bs\<rparr>
      = (upd_thread (after_round f' r) a)\<lparr>i_out := i_out a @ concat (replicate (Suc (Suc n)) (from_utf8_lossy bs)), i_heap := i_heap a - Suc (Suc n) * length bs\<rparr>"
    by simp
  show ?case
    unfolding run Suc.IH [OF t2 m2] up fields using le big by auto
qed

text \<open>
  The kernel leaks the buffer of every \<^verbatim>\<open>write\<close>. A program that prints the same mapped bytes again and again has every one of its rounds printed
  as long as the bytes of all rounds together fit in what is left of the heap; and one round too many panics the kernel.
\<close>

lemma printing_life:
  assumes "system_wf s" and "is_svc esr" "r_x8 f = 64" "r_x0 f = 1" "unat (r_x2 f) = length bs"
    and mem: "\<forall>i < length bs. task_mem (rs_kernel s) (running_id s) (r_x1 f + of_nat i) = Some (bs ! i)"
  shows "(n * length bs \<le> unat HEAP_N - unat (heap_allocated (m_heap (rs_machine s))) \<longrightarrow>
      (\<exists>s'. system_run (write_rounds f f' r esr n) s = (Ok (), s') \<and> system_wf s'
        \<and> sent (rs_machine s') = sent (rs_machine s) @ concat (replicate n (from_utf8_lossy bs))))
    \<and> (unat HEAP_N - unat (heap_allocated (m_heap (rs_machine s))) < n * length bs \<longrightarrow> fst (system_run (write_rounds f f' r esr n) s) = Panic)"
proof (cases n)
  case 0
  then show ?thesis using assms(1) by (simp add: write_rounds_def)
next
  case (Suc k)
  obtain th where th: "thread_of s (running_id s) = Some th" using running_thread [OF assms(1)] by metis
  have m: "th_mem th = task_mem (rs_kernel s) (running_id s)" using th by (auto simp: thread_of_def)
  have low: "va < VA_START" if "task_mem (rs_kernel s) t va \<noteq> None" for t va
  proof -
    have "unat va < 2 ^ 48" using that by (auto simp: task_mem_def user_mem_def split: option.splits if_splits)
    then show ?thesis by (simp add: word_less_nat_alt VA_START_value)
  qed
  have low': "\<forall>i < length bs. r_x1 f + of_nat i < VA_START" using mem low by blast
  let ?ks = "kernel_seen (write_rounds f f' r esr n) s"
  have run: "case ideal_run ?ks (write_rounds f f' r esr n) (abs_system s) of
      Some a' \<Rightarrow> \<exists>s'. system_run (write_rounds f f' r esr n) s = (Ok (), s') \<and> system_wf s' \<and> abs_system s' = a'
    | None \<Rightarrow> fst (system_run (write_rounds f f' r esr n) s) = Panic"
    by (rule kernel_refines_ideal [OF assms(1)])
  have "ideal_run ?ks (write_rounds f f' r esr n) (abs_system s) = (if n * length bs \<le> i_heap (abs_system s)
    then Some ((upd_thread (after_round f' r) (abs_system s))\<lparr>i_out := i_out (abs_system s) @ concat (replicate n (from_utf8_lossy bs)), i_heap := i_heap (abs_system s) - n * length bs\<rparr>)
    else None)"
    unfolding Suc by (rule ideal_rounds [OF assms(2-4) _ _ assms(5) low', where th = th]) (use th m mem in simp_all)
  note e = this [unfolded abs_simps]
  show ?thesis
  proof (intro conjI impI)
    assume "n * length bs \<le> unat HEAP_N - unat (heap_allocated (m_heap (rs_machine s)))"
    with e obtain a where a: "ideal_run ?ks (write_rounds f f' r esr n) (abs_system s) = Some a"
      "i_out a = sent (rs_machine s) @ concat (replicate n (from_utf8_lossy bs))" by simp
    obtain s' where "system_run (write_rounds f f' r esr n) s = (Ok (), s')" "system_wf s'" "abs_system s' = a" using run a(1) by auto
    with a(2) show "\<exists>s'. system_run (write_rounds f f' r esr n) s = (Ok (), s') \<and> system_wf s'
        \<and> sent (rs_machine s') = sent (rs_machine s) @ concat (replicate n (from_utf8_lossy bs))" by auto
  next
    assume "unat HEAP_N - unat (heap_allocated (m_heap (rs_machine s))) < n * length bs"
    then show "fst (system_run (write_rounds f f' r esr n) s) = Panic" using run e by simp
  qed
qed

section \<open>From power-on\<close>

text \<open>The user memory of the program after it is loaded: its segments, and one page for its stack.\<close>

definition program_memory :: "image \<Rightarrow> usize \<Rightarrow> u8 option" where
  "program_memory im = spec_zero_page 0x7FFFF (fold (spec_load_segment (im_cli im)) (loads (elf_program_headers (im_cli im))) Map.empty)"

text \<open>What boot hands over: thread 1 runs in the program's memory, the kernel threads 2 and 3 are ready and have no user memory.\<close>

definition booted :: "image \<Rightarrow> heap \<Rightarrow> running_system \<Rightarrow> bool" where
  "booted im h s \<longleftrightarrow> system_wf s \<and> running_id s = 1 \<and> queue (k_sched (rs_kernel s)) = [2, 3] \<and> dom (tasks (k_sched (rs_kernel s))) = {1, 2, 3}
    \<and> task_mem (rs_kernel s) 1 = program_memory im \<and> task_mem (rs_kernel s) 2 = Map.empty \<and> task_mem (rs_kernel s) 3 = Map.empty
    \<and> m_heap (rs_machine s) = h"

text \<open>The heap as boot leaves it is the heap of the board and what the containers of the standard library take from it, so it is a parameter.\<close>

definition with_heap :: "heap \<Rightarrow> platform \<Rightarrow> platform" where
  "with_heap h p = p\<lparr>p_machine := (p_machine p)\<lparr>m_heap := h\<rparr>\<rparr>"

lemma with_heap_simps [simp]:
  "m_heap (p_machine (with_heap h p)) = h" "m_kernel (p_machine (with_heap h p)) = m_kernel (p_machine p)"
  "platform_ready (with_heap h p) = platform_ready p" "runs_task (p_machine (with_heap h p)) = runs_task (p_machine p)"
  by (simp_all add: with_heap_def platform_ready_def installed_table_def runs_task_def fun_eq_iff)

lemma pimento_boots:
  assumes "board_reset b" and "image_fits im"
  shows "\<exists>b'. kernel_init im b = (Ok \<lparr>ue_elr_el1 = eh_entry_point (elf_header (im_cli im)), ue_spsr_el1 = 0, ue_sp_el0 = 0x80000000\<rparr>, b')
    \<and> (\<forall>frames h. heap_left 0 h \<longrightarrow> booted im h \<lparr>rs_frames = frames, rs_platform = with_heap h (b_platform b')\<rparr>)"
proof -
  obtain b' x t where b': "kernel_init im b = (Ok \<lparr>ue_elr_el1 = eh_entry_point (elf_header (im_cli im)), ue_spsr_el1 = 0, ue_sp_el0 = 0x80000000\<rparr>, b')"
      "platform_ready (b_platform b')" "runs_task (p_machine (b_platform b')) x" "tid x = 1" "queue (k_sched (m_kernel (p_machine (b_platform b')))) = [2, 3]"
      "user_mem (k_mm (m_kernel (p_machine (b_platform b')))) (mem_context x)
        = spec_zero_page 0x7FFFF (fold (spec_load_segment (im_cli im)) (loads (elf_program_headers (im_cli im))) Map.empty)"
      "images_wf (m_kernel (p_machine (b_platform b')))" "dom (tasks (k_sched (m_kernel (p_machine (b_platform b'))))) = {1, 2, 3}"
      "\<forall>u. u \<noteq> 1 \<longrightarrow> task_mem (m_kernel (p_machine (b_platform b'))) u = Map.empty"
      "monotonic (timer (k_core (m_kernel (p_machine (b_platform b'))))) = Ok t"
    using kernel_boots_ok [OF assms] by blast
  have fq: "cntfrq_el0 (timer (k_core (m_kernel (p_machine (b_platform b'))))) \<noteq> 0"
    using b'(10) by (auto simp: monotonic_def timer_frequency_def split: if_splits)
  have "booted im h \<lparr>rs_frames = frames, rs_platform = with_heap h (b_platform b')\<rparr>" if h: "heap_left 0 h" for frames h
  proof -
    let ?s = "\<lparr>rs_frames = frames, rs_platform = with_heap h (b_platform b')\<rparr>"
    have wf: "system_wf ?s" using b'(2,3,7) h fq by (auto simp: system_wf_def)
    have id: "running_id ?s = 1" using b'(3,4) by (simp add: running_id_def runs_task_def)
    have tx: "tasks (k_sched (rs_kernel ?s)) 1 = Some x" using b'(3,4) by (simp add: runs_task_def)
    then have "task_mem (rs_kernel ?s) 1 = program_memory im" using b'(6) by (simp add: task_mem_def program_memory_def)
    with wf id show ?thesis using b'(5,8,9) by (simp add: booted_def)
  qed
  then show ?thesis using b'(1) by blast
qed

lemma booted_ideal:
  assumes "booted im h s"
  shows "i_running (abs_system s) = 1" "i_ready (abs_system s) = [2, 3]" "dom (i_threads (abs_system s)) = {1, 2, 3}"
    and "map_option th_mem (i_threads (abs_system s) 1) = Some (program_memory im)"
    and "map_option th_mem (i_threads (abs_system s) 2) = Some Map.empty" "map_option th_mem (i_threads (abs_system s) 3) = Some Map.empty"
    and "i_heap (abs_system s) = unat HEAP_N - unat (heap_allocated h)"
proof -
  have mem: "map_option th_mem (thread_of s u) = Some (task_mem (rs_kernel s) u)" if "u \<in> {1, 2, 3}" for u
  proof -
    have "u \<in> dom (tasks (k_sched (rs_kernel s)))" using that assms by (simp add: booted_def)
    then obtain y where "tasks (k_sched (rs_kernel s)) u = Some y" by blast
    then show ?thesis by (simp add: thread_of_def)
  qed
  have "dom (thread_of s) = dom (tasks (k_sched (rs_kernel s)))" by (auto simp: thread_of_def dom_def)
  then show "dom (i_threads (abs_system s)) = {1, 2, 3}" using assms by (simp add: booted_def)
  show "i_running (abs_system s) = 1" "i_ready (abs_system s) = [2, 3]"
    "i_heap (abs_system s) = unat HEAP_N - unat (heap_allocated h)" using assms by (simp_all add: booted_def)
  show "map_option th_mem (i_threads (abs_system s) 1) = Some (program_memory im)"
    "map_option th_mem (i_threads (abs_system s) 2) = Some Map.empty" "map_option th_mem (i_threads (abs_system s) 3) = Some Map.empty"
    using mem [of 1] mem [of 2] mem [of 3] assms by (simp_all add: booted_def)
qed

text \<open>
  C1. The whole system. From the state the loader leaves, with an image that fits, the kernel
  boots into the program without panic, and from then on, whatever the registers hold and however much of the heap (\<open>h\<close>) the containers of the kernel have taken by then, it is the
  abstract machine with three threads: thread 1 runs, on the memory that the program's headers describe, and threads 2 and 3, the
  kernel threads, are ready with no user memory; every sequence of events then has the outcome of the abstract machine. A system call that asks to print
  addresses of the kernel is no exception: the abstract machine prints what the memory of the kernel holds at that event.
\<close>

theorem pimento_refines_ideal:
  assumes "board_reset b" and "image_fits im"
  shows "\<exists>b'. kernel_init im b = (Ok \<lparr>ue_elr_el1 = eh_entry_point (elf_header (im_cli im)), ue_spsr_el1 = 0, ue_sp_el0 = 0x80000000\<rparr>, b')
    \<and> (\<forall>frames h. heap_left 0 h \<longrightarrow> (let s = \<lparr>rs_frames = frames, rs_platform = with_heap h (b_platform b')\<rparr>; a = abs_system s in
        i_running a = 1 \<and> i_ready a = [2, 3] \<and> dom (i_threads a) = {1, 2, 3}
        \<and> map_option th_mem (i_threads a 1) = Some (program_memory im)
        \<and> map_option th_mem (i_threads a 2) = Some Map.empty \<and> map_option th_mem (i_threads a 3) = Some Map.empty
        \<and> i_heap a = unat HEAP_N - unat (heap_allocated h)
        \<and> (\<forall>es. case ideal_run (kernel_seen es s) es a of
                Some a' \<Rightarrow> \<exists>s'. system_run es s = (Ok (), s') \<and> system_wf s' \<and> abs_system s' = a'
              | None \<Rightarrow> fst (system_run es s) = Panic)))"
proof -
  have step: "let a = abs_system s in i_running a = 1 \<and> i_ready a = [2, 3] \<and> dom (i_threads a) = {1, 2, 3}
        \<and> map_option th_mem (i_threads a 1) = Some (program_memory im)
        \<and> map_option th_mem (i_threads a 2) = Some Map.empty \<and> map_option th_mem (i_threads a 3) = Some Map.empty
        \<and> i_heap a = unat HEAP_N - unat (heap_allocated h)
        \<and> (\<forall>es. case ideal_run (kernel_seen es s) es a of
                Some a' \<Rightarrow> \<exists>s'. system_run es s = (Ok (), s') \<and> system_wf s' \<and> abs_system s' = a'
              | None \<Rightarrow> fst (system_run es s) = Panic)" if s: "booted im h s" for s h
  proof -
    have "system_wf s" using s by (simp add: booted_def)
    then show ?thesis using booted_ideal [OF s] kernel_refines_ideal unfolding Let_def by blast
  qed
  show ?thesis using pimento_boots [OF assms] step unfolding Let_def by blast
qed

section \<open>Concrete runs\<close>

definition timer_fires :: event where
  "timer_fires = Hardware \<lparr>core0_timer_irqcntl = 2, core0_irq = 2\<rparr> 0"

lemma timer_fires_pending: "intc_is_pending CNTPNSIRQ \<lparr>core0_timer_irqcntl = 2, core0_irq = 2\<rparr>"
  by (simp add: intc_is_pending_def irq_bit_def CNTPNSIRQ_def)

text \<open>A program that writes to descriptor 2, is interrupted, and prints as a kernel thread would.\<close>

definition run0 :: "event list" where
  "run0 = [Compute (frame0\<lparr>r_x8 := 64, r_x0 := 2\<rparr>) registers_new, Exception 0x56000000 0, timer_fires, Interrupt, Thread_Round]"

lemma svc_class: "is_svc 0x56000000"
  by (simp add: is_svc_def consts_defs)

lemma system0_thread: "\<exists>th. thread_of system0 1 = Some th"
  by (simp add: thread_of_def system0_def machine_of_def)

lemma system0_abs: "i_running (abs_system system0) = 1" "i_ready (abs_system system0) = []" "i_out (abs_system system0) = []"
  using system0_id by (simp_all add: system0_def machine_of_def uart0_def)

lemma run0_ideal:
  assumes "i_threads a (i_running a) = Some th" and "i_ready a = []"
  shows "\<exists>a'. ideal_run ks run0 a = Some a' \<and> i_out a' = i_out a @ ascii ''<k'' @ fmt_dec (unat (i_running a)) @ ascii ''>''"
  using assms by (simp add: run0_def timer_fires_def upd_thread_def ideal_exception_def svc_class ideal_irq_def timer_fires_pending
    frame0_def Let_def return_value_def)

lemma run0_prints:
  "\<exists>s'. system_run run0 system0 = (Ok (), s') \<and> sent (rs_machine s') = ascii ''<k1>''"
proof -
  obtain th where th: "i_threads (abs_system system0) (i_running (abs_system system0)) = Some th"
    using system0_thread system0_id by (auto simp: abs_system_def)
  obtain a where a: "ideal_run (kernel_seen run0 system0) run0 (abs_system system0) = Some a" "i_out a = ascii ''<k'' @ fmt_dec 1 @ ascii ''>''"
    using run0_ideal [OF th system0_abs(2)] system0_abs by auto
  obtain s' where "system_run run0 system0 = (Ok (), s')" "abs_system s' = a"
    using kernel_refines_ideal [OF system0_wf, of run0] a(1) by auto
  moreover have "ascii ''<k'' @ fmt_dec 1 @ ascii ''>'' = ascii ''<k1>''"
    by (simp add: ascii_def fmt_dec_def digits.simps digit_char_def)
  ultimately show ?thesis using a(2) by auto
qed

text \<open>A task that asks for a byte of the kernel to be printed goes on as a task that prints a byte of its own.\<close>

definition leak :: "event list" where
  "leak = [Compute (frame0\<lparr>r_x8 := 64, r_x0 := 1, r_x1 := 0xFFFF000000000000, r_x2 := 1\<rparr>) registers_new, Exception 0x56000000 0]"

lemma leak_ideal:
  assumes "i_threads a (i_running a) = Some th" and "1 \<le> i_heap a"
  shows "ideal_run ks leak a \<noteq> None"
  using assms by (simp add: leak_def upd_thread_def ideal_exception_def svc_class buffer_def readable_def frame0_def VA_START_value Let_def)

theorem task_runs_alone_witness:
  "\<exists>s'. system_run leak system0 = (Ok (), s')
     \<and> map_option th_frame (thread_of s' 1) = Some (frame0\<lparr>r_x8 := 64, r_x0 := 1, r_x1 := 0xFFFF000000000000, r_x2 := 1\<rparr>)"
proof -
  let ?f = "frame0\<lparr>r_x8 := 64, r_x0 := 1, r_x1 := 0xFFFF000000000000, r_x2 := 1\<rparr>"
  obtain th where th: "i_threads (abs_system system0) (i_running (abs_system system0)) = Some th"
    using system0_thread system0_id by (auto simp: abs_system_def)
  have "1 \<le> i_heap (abs_system system0)" by (simp add: system0_def machine_of_def heap_new_def HEAP_N_def)
  then obtain a where a: "ideal_run (kernel_seen leak system0) leak (abs_system system0) = Some a"
    using leak_ideal [OF th, of "kernel_seen leak system0"] by blast
  obtain s' where s': "system_run leak system0 = (Ok (), s')" using kernel_refines_ideal [OF system0_wf, of leak] unfolding a by auto
  obtain s1 where s1: "system_step (hd leak) system0 = (Ok (), s1)" "running_id s1 = running_id system0"
    by (simp add: leak_def running_id_def)
  have "fst (system_step (Exception 0x56000000 0) s1) = Ok ()"
    using s' s1(1) by (cases "system_step (Exception 0x56000000 0) s1"; cases "fst (system_step (Exception 0x56000000 0) s1)") (auto simp: leak_def)
  then have "own_events 1 leak system0 = leak" using s1 system0_id by (auto simp: leak_def split: prod.split outcome.split)
  moreover have "thread_of system0 1 = Some th" using th system0_id by simp
  ultimately have "thread_of s' 1 = Some (fold own_step leak th)" using task_runs_alone [OF system0_wf s', of 1] by simp
  moreover have "th_frame (fold own_step leak th) = ?f"
    by (simp add: leak_def return_value_def call_result_def frame0_def)
  ultimately show ?thesis using s' by simp
qed

theorem pimento_refines_ideal_witness:
  "\<exists>b' s'. kernel_init image0 board0 = (Ok \<lparr>ue_elr_el1 = 0x400000, ue_spsr_el1 = 0, ue_sp_el0 = 0x80000000\<rparr>, b')
    \<and> system_run [timer_fires, Interrupt, Thread_Round] \<lparr>rs_frames = \<lambda>_. frame0, rs_platform = with_heap (heap_new 0xFFFF000000100000) (b_platform b')\<rparr> = (Ok (), s')
    \<and> running_id s' = 2 \<and> queue (k_sched (rs_kernel s')) = [3, 1]"
proof -
  have i: "im_cli image0 = elf0" "eh_entry_point header0 = 0x400000" by (simp_all add: image0_def header0_def)
  have h: "heap_left 0 (heap_new 0xFFFF000000100000)" by (simp add: heap_left_def heap_new_def HEAP_N_def)
  let ?s = "\<lambda>b'. \<lparr>rs_frames = \<lambda>_. frame0, rs_platform = with_heap (heap_new 0xFFFF000000100000) (b_platform b')\<rparr>" and ?es = "[timer_fires, Interrupt, Thread_Round]"
  obtain b' where b': "kernel_init image0 board0 = (Ok \<lparr>ue_elr_el1 = 0x400000, ue_spsr_el1 = 0, ue_sp_el0 = 0x80000000\<rparr>, b')"
      "i_running (abs_system (?s b')) = 1" "i_ready (abs_system (?s b')) = [2, 3]"
      "(case ideal_run (kernel_seen ?es (?s b')) ?es (abs_system (?s b')) of
                Some a' \<Rightarrow> \<exists>s'. system_run ?es (?s b') = (Ok (), s') \<and> system_wf s' \<and> abs_system s' = a'
              | None \<Rightarrow> fst (system_run ?es (?s b')) = Panic)"
    using pimento_refines_ideal [OF board0_reset image0_fits] h unfolding i elf0_ok(2) elf0_header(1) Let_def by blast
  obtain a where a: "ideal_run (kernel_seen ?es (?s b')) ?es (abs_system (?s b')) = Some a" "i_running a = 2" "i_ready a = [3, 1]"
    using b'(2,3) by (simp add: timer_fires_def ideal_irq_def timer_fires_pending Let_def)
  then obtain s' where "system_run ?es (?s b') = (Ok (), s')" "abs_system s' = a" using b'(4) by auto
  with b'(1) a(2,3) show ?thesis by auto
qed

end
