(* ===== verification/Cli.thy ===== *)
theory Cli
  imports Ideal_Machine
begin

text \<open>
  The one program (\<^verbatim>\<open>src/cli\<close>), which the kernel loads as \<^verbatim>\<open>/bin/cli\<close>: a loop that prints four bytes by a system call and then
  counts down. Together with the kernel: what the serial port shows from power-on to the end.
\<close>

section \<open>The program\<close>

text \<open>The registers at the instruction \<^verbatim>\<open>svc\<close>; \<open>user_string\<close> is an address that the linker chooses.\<close>

definition cli_frame :: "u64 \<Rightarrow> trap_frame \<Rightarrow> trap_frame" where
  "cli_frame user_string f = f\<lparr>r_x0 := 1, r_x1 := user_string, r_x2 := 4, r_x8 := 64\<rparr>"

text \<open>The loop that waits.\<close>

function cli_loop :: "u64 \<Rightarrow> u64" where
  "cli_loop x0 = (let x0 = x0 - 1 in if x0 \<noteq> 0 then cli_loop x0 else x0)"
  by auto
termination
proof (relation "measure (\<lambda>x0. unat (x0 - 1))", goal_cases)
  case (2 x0 x)
  then have "unat (x - 1) = unat x - 1" by (metis unat_minus_one)
  moreover have "0 < unat x" using 2(2) by (simp add: unat_gt_0)
  ultimately show ?case using 2(1) by simp
qed simp

declare cli_loop.simps [simp del]

definition cli_wait :: "trap_frame \<Rightarrow> trap_frame" where
  "cli_wait f = f\<lparr>r_x0 := cli_loop 100000000\<rparr>"

text \<open>The panic handler of the program, which nothing calls.\<close>

definition cli_panic :: "unit res" where
  "cli_panic = Hang"

text \<open>The class of the exception that \<^verbatim>\<open>svc #0\<close> raises.\<close>

definition ESR_SVC :: u64 where
  "ESR_SVC = 0x56000000"

text \<open>Rounds of \<^verbatim>\<open>main\<close>. The result of the call is in \<open>x0\<close>, which the loop overwrites.\<close>

definition cli_main :: "u64 \<Rightarrow> trap_frame \<Rightarrow> registers \<Rightarrow> nat \<Rightarrow> event list" where
  "cli_main user_string f r n = write_rounds (cli_frame user_string f) (cli_wait (cli_frame user_string f)) r ESR_SVC n"

lemma cli_loop_zero: "cli_loop x = 0"
proof (induction x rule: cli_loop.induct)
  case (1 x0)
  show ?case by (subst cli_loop.simps) (use 1 in \<open>simp add: Let_def\<close>)
qed

section \<open>From power-on to the last byte\<close>

lemma cli_bytes: "length (ascii ''<u1>'') = 4" "from_utf8_lossy (ascii ''<u1>'') = ascii ''<u1>''"
  by (simp add: ascii_def, rule lossy_id [OF ascii_valid]) (simp add: ascii_def)

text \<open>
  C2. The whole machine, from power-on. With an image whose program has the bytes \<^verbatim>\<open><u1>\<close> at \<open>user_string\<close>, the kernel boots, enters the program, and
  each round of the program's loop prints \<^verbatim>\<open><u1>\<close> on the serial port, as long as four bytes per round fit in what boot left of the heap \<open>h\<close>, which is never
  given back; the round after that brings the kernel down.
\<close>

theorem cli_prints:
  assumes "board_reset b" and "image_fits im"
    and "\<forall>i < 4. program_memory im (user_string + of_nat i) = Some (ascii ''<u1>'' ! i)"
  shows "\<exists>b'. kernel_init im b = (Ok \<lparr>ue_elr_el1 = eh_entry_point (elf_header (im_cli im)), ue_spsr_el1 = 0, ue_sp_el0 = 0x80000000\<rparr>, b')
    \<and> (\<forall>frames f r n h. heap_left 0 h \<longrightarrow> (let s = \<lparr>rs_frames = frames, rs_platform = with_heap h (b_platform b')\<rparr>;
          left = unat HEAP_N - unat (heap_allocated h) in
        (n * 4 \<le> left \<longrightarrow> (\<exists>s'. system_run (cli_main user_string f r n) s = (Ok (), s') \<and> system_wf s'
           \<and> sent (rs_machine s') = sent (rs_machine s) @ concat (replicate n (ascii ''<u1>''))))
        \<and> (left < n * 4 \<longrightarrow> fst (system_run (cli_main user_string f r n) s) = Panic)))"
proof -
  let ?left = "\<lambda>h. unat HEAP_N - unat (heap_allocated h)"
  have life: "(n * 4 \<le> ?left h \<longrightarrow> (\<exists>s'. system_run (cli_main user_string f r n) s = (Ok (), s') \<and> system_wf s'
           \<and> sent (rs_machine s') = sent (rs_machine s) @ concat (replicate n (ascii ''<u1>''))))
        \<and> (?left h < n * 4 \<longrightarrow> fst (system_run (cli_main user_string f r n) s) = Panic)" if s: "booted im h s" for s f r n h
  proof -
    let ?f = "cli_frame user_string f"
    have wf: "system_wf s" using s by (simp add: booted_def)
    have svc: "is_svc ESR_SVC" "r_x8 ?f = 64" "r_x0 ?f = 1" "unat (r_x2 ?f) = length (ascii ''<u1>'')"
      by (simp_all add: ESR_SVC_def svc_class cli_frame_def cli_bytes)
    have mem: "\<forall>i < length (ascii ''<u1>''). task_mem (rs_kernel s) (running_id s) (r_x1 ?f + of_nat i) = Some (ascii ''<u1>'' ! i)"
      using s assms(3) by (simp add: booted_def cli_frame_def cli_bytes)
    have h: "m_heap (rs_machine s) = h" using s by (simp add: booted_def)
    show ?thesis unfolding cli_main_def using printing_life [OF wf svc mem, of n "cli_wait ?f" r] unfolding cli_bytes h by blast
  qed
  show ?thesis using pimento_boots [OF assms(1,2)] life unfolding Let_def by blast
qed

section \<open>A concrete program\<close>

text \<open>A program file whose one segment has the bytes, at the page after the code.\<close>

definition ph_cli :: elf64_program_header where
  "ph_cli = \<lparr>segment_type = 1, ph_flags = 4, file_offset = 120, ph_virtual_address = 0x401000, ph_physical_address = 0,
     file_size = 4, memory_size = 4, alignment = 0x1000\<rparr>"

definition elf_cli :: "u8 list" where
  "elf_cli = encode_header header0 @ encode_program_header ph_cli @ ascii ''<u1>''"

definition image_cli :: image where
  "image_cli = image0\<lparr>im_cli := elf_cli\<rparr>"

lemma elf_cli_header: "elf_header elf_cli = header0" "length elf_cli = 124" "length (encode_header header0 @ encode_program_header ph_cli) = 120"
  using header_from_encode [of header0] by (simp_all add: elf_header_def elf_cli_def header0_def encode_program_header_def cli_bytes)

lemma elf_cli_ok: "elf_ok elf_cli" "elf_program_headers elf_cli = [ph_cli]" "vec_ok elf_cli"
proof -
  have h: "program_header_offset header0 = 64" "program_header_entry_count header0 = 1" by (simp_all add: header0_def)
  have "is_valid header0" "is_aarch64 header0" by (simp_all add: is_valid_def is_aarch64_def header0_def consts_defs)
  then show "elf_ok elf_cli" using elf_cli_header h by (simp add: elf_ok_def)
  have l: "length (encode_header header0) = 64" using header_from_encode(1) [of header0] by (simp add: header0_def)
  have "bytes_at elf_cli 64 56 = encode_program_header ph_cli"
    using l by (simp add: bytes_at_def elf_cli_def encode_program_header_def)
  then show "elf_program_headers elf_cli = [ph_cli]"
    using program_header_from_encode by (simp add: elf_program_headers_def elf_cli_header h)
  show "vec_ok elf_cli" by (simp add: vec_ok_def elf_cli_header)
qed

lemma ph_cli_loads: "loads [ph_cli] = [ph_cli]" "seg_pages ph_cli = 1" "seg_loadable elf_cli ph_cli"
  by (simp_all add: loads_def seg_pages_def ph_cli_def PROGRAM_HEADER_TYPE_LOAD_def seg_loadable_def segment_ok_def elf_cli_header)

lemma image_cli_fits: "image_fits image_cli"
  using ph_cli_loads by (simp add: image_fits_def image_cli_def image0_def elf_cli_ok load_pages_count_def)

lemma image_cli_memory: "i < 4 \<Longrightarrow> program_memory image_cli (0x401000 + of_nat i) = Some (ascii ''<u1>'' ! i)"
proof -
  assume i: "i < 4"
  then have u: "unat (0x401000 + of_nat i :: usize) = 0x401000 + i" by (simp add: unat_word_ariths unat_of_nat)
  have o: "seg_off ph_cli 1 = 4" "unat (ph_virtual_address ph_cli) = 0x401000" by (simp_all add: seg_off_def raw_off_def ph_cli_def)
  have "seg_byte ph_cli elf_cli i = elf_cli ! (120 + i)" using i by (simp add: seg_byte_def ph_cli_def)
  also have "\<dots> = ascii ''<u1>'' ! i"
    using elf_cli_header(3) by (metis elf_cli_def append.assoc nth_append_length_plus)
  finally have b: "seg_byte ph_cli elf_cli i = ascii ''<u1>'' ! i" .
  have "(0x401000 + i) div 4096 \<noteq> 0x7FFFF" using i by linarith
  then show ?thesis
    using i b u o ph_cli_loads(1,2)
    by (simp add: program_memory_def image_cli_def elf_cli_ok spec_load_segment_def segment_prefix_def spec_zero_page_def)
qed

theorem cli_prints_witness:
  "\<exists>b'. kernel_init image_cli board0 = (Ok \<lparr>ue_elr_el1 = 0x400000, ue_spsr_el1 = 0, ue_sp_el0 = 0x80000000\<rparr>, b')
    \<and> fst (system_run (cli_main 0x401000 frame0 registers_new 1048576) \<lparr>rs_frames = \<lambda>_. frame0, rs_platform = with_heap (heap_new 0xFFFF000000100000) (b_platform b')\<rparr>) = Ok ()
    \<and> fst (system_run (cli_main 0x401000 frame0 registers_new 1048577) \<lparr>rs_frames = \<lambda>_. frame0, rs_platform = with_heap (heap_new 0xFFFF000000100000) (b_platform b')\<rparr>) = Panic"
proof -
  have i: "im_cli image_cli = elf_cli" "eh_entry_point header0 = 0x400000" by (simp_all add: image_cli_def header0_def)
  have h: "heap_left 0 (heap_new 0xFFFF000000100000)" "unat HEAP_N - unat (heap_allocated (heap_new 0xFFFF000000100000)) = 1048576 * 4"
    by (simp_all add: heap_left_def heap_new_def HEAP_N_def)
  have m: "\<forall>i < 4. program_memory image_cli (0x401000 + of_nat i) = Some (ascii ''<u1>'' ! i)" using image_cli_memory by blast
  obtain b' where b': "kernel_init image_cli board0 = (Ok \<lparr>ue_elr_el1 = 0x400000, ue_spsr_el1 = 0, ue_sp_el0 = 0x80000000\<rparr>, b')"
    and run: "let s = \<lparr>rs_frames = \<lambda>_. frame0, rs_platform = with_heap (heap_new 0xFFFF000000100000) (b_platform b')\<rparr>; left = unat HEAP_N - unat (heap_allocated (heap_new 0xFFFF000000100000)) in
        (n * 4 \<le> left \<longrightarrow> (\<exists>s'. system_run (cli_main 0x401000 frame0 registers_new n) s = (Ok (), s') \<and> system_wf s'
           \<and> sent (rs_machine s') = sent (rs_machine s) @ concat (replicate n (ascii ''<u1>''))))
        \<and> (left < n * 4 \<longrightarrow> fst (system_run (cli_main 0x401000 frame0 registers_new n) s) = Panic)" for n
    using cli_prints [OF board0_reset image_cli_fits m] h(1) unfolding i elf_cli_header(1) by blast
  show ?thesis using b' run [of 1048576] run [of 1048577] unfolding h(2) Let_def by auto
qed

end
