(* ===== verification/Preemption.thy ===== *)
theory Preemption
  imports Ideal_Machine
begin

text \<open>
  \<^verbatim>\<open>kernel_init\<close> with interrupts. The first task runs the rest of it with interrupts enabled and a timer set, so between any two of its steps
  other threads may run. Here the same code is interleaved with events; that it loads the same memory shows that the runs without interrupts of the
  other theories lose nothing.
\<close>

section \<open>The code with pauses\<close>

text \<open>The system in which a task runs kernel code, and what happens at its next pauses.\<close>

record kernel_task =
  kt_run :: running_system
  kt_vfs :: vfs
  kt_store :: "fs_id \<Rightarrow> uart fs_object option"
  kt_pauses :: "event list list"

definition kt_system :: "kernel_task \<Rightarrow> system" where
  "kt_system st = \<lparr>sys_machine = rs_machine (kt_run st), sys_vfs = kt_vfs st, sys_store = kt_store st\<rparr>"

definition kt_put :: "system \<Rightarrow> kernel_task \<Rightarrow> kernel_task" where
  "kt_put sys st = st\<lparr>kt_run := (kt_run st)\<lparr>rs_platform := (rs_platform (kt_run st))\<lparr>p_machine := sys_machine sys\<rparr>\<rparr>,
     kt_vfs := sys_vfs sys, kt_store := sys_store sys\<rparr>"

text \<open>
  A pause: events, and then the timer fires until it is the turn of the task again. The stub of an interrupt in EL1 is the one of EL0.
\<close>

definition timer_event :: "running_system \<Rightarrow> event" where
  "timer_event s = Hardware \<lparr>core0_timer_irqcntl = 2, core0_irq = 2\<rparr> (cntpct_el0 (timer (k_core (rs_kernel s))))"

fun come_back :: "nat \<Rightarrow> task_id \<Rightarrow> running_system \<Rightarrow> unit res \<times> running_system" where
  "come_back 0 t s = (Ok (), s)"
| "come_back (Suc n) t s =
     (if running_id s = t then (Ok (), s) else and_then (system_run [timer_event s, Interrupt] s) (\<lambda>_. come_back n t))"

definition pause :: "kernel_task \<Rightarrow> unit res \<times> kernel_task" where
  "pause st =
     (case kt_pauses st of
        [] \<Rightarrow> (Ok (), st)
      | es # ess \<Rightarrow>
          (case and_then (system_run es (kt_run st)) (\<lambda>_ s. come_back (length (queue (k_sched (rs_kernel s)))) (running_id (kt_run st)) s) of
             (r, s) \<Rightarrow> (r, st\<lparr>kt_run := s, kt_pauses := ess\<rparr>)))"

text \<open>An operation of the code, and the pause after it.\<close>

definition paused :: "(system \<Rightarrow> 'a res \<times> system) \<Rightarrow> kernel_task \<Rightarrow> 'a res \<times> kernel_task" where
  "paused f st =
     (case f (kt_system st) of (r, sys) \<Rightarrow>
        and_then (r, kt_put sys st) (\<lambda>v st. and_then (pause st) (\<lambda>_ st. (Ok v, st))))"

definition paused_file :: "(open_file \<times> system \<Rightarrow> 'a res \<times> (open_file \<times> system)) \<Rightarrow> open_file \<times> kernel_task
    \<Rightarrow> 'a res \<times> (open_file \<times> kernel_task)" where
  "paused_file f st =
     (case f (fst st, kt_system (snd st)) of (r, (file, sys)) \<Rightarrow>
        and_then (r, (file, kt_put sys (snd st))) (\<lambda>v (file, st).
          case pause st of (p, st) \<Rightarrow> and_then (p, (file, st)) (\<lambda>_ st. (Ok v, st))))"

definition paused_load_page :: "task_id \<Rightarrow> loadable_page \<Rightarrow> kernel_task \<Rightarrow> unit res \<times> kernel_task" where
  "paused_load_page t p st =
     and_then (paused (on_machine (on_kernel (on_space t (alloc_page (lp_address p))))) st) (\<lambda>_.
       paused (on_machine (on_kernel (copy_to_current (lp_bytes p) (lp_address p)))))"

partial_function (option) paused_loop :: "task_id \<Rightarrow> elf64_program_header list \<Rightarrow> loadable_pages \<Rightarrow> open_file \<times> kernel_task
    \<Rightarrow> (unit res \<times> (open_file \<times> kernel_task)) option" where
  "paused_loop t phs it st =
     (case paused_file (on_file (pages_next (log_range (rs_machine (kt_run (snd st)))) phs it)) st of
        (Ok (None, it'), st) \<Rightarrow> Some (Ok (), st)
      | (Ok (Some p, it'), st) \<Rightarrow>
          (case paused_load_page t p (snd st) of
             (Ok _, kt) \<Rightarrow> paused_loop t phs it' (fst st, kt)
           | (r, kt) \<Rightarrow> Some (r, (fst st, kt)))
      | (Err e, st) \<Rightarrow> Some (Err e, st)
      | (Panic, st) \<Rightarrow> Some (Panic, st)
      | (Hang, st) \<Rightarrow> Some (Hang, st))"

definition paused_execute_file :: "task \<Rightarrow> open_file \<times> kernel_task \<Rightarrow> user_entry res \<times> (open_file \<times> kernel_task)" where
  "paused_execute_file task st =
     and_then (paused_file (on_file elf64_reader_new) st) (\<lambda>reader st.
     and_then (run_loop (paused_loop (tid task) (er_program_headers reader) loadable_pages_new st) st) (\<lambda>_ st.
     case paused (on_machine (on_kernel (on_space (tid task) (alloc_page (UserAddress_sub PAGE_SIZE (UserAddress STACK_INIT) 1))))) (snd st) of
       (r, kt) \<Rightarrow> and_then (r, (fst st, kt)) (\<lambda>_ st. (Ok (enter_el0 (entry_point reader) STACK_INIT), st))))"

definition paused_execute :: "path_info \<Rightarrow> kernel_task \<Rightarrow> user_entry res \<times> kernel_task" where
  "paused_execute path st =
     and_then (paused (on_machine the_current_task) st) (\<lambda>task st.
     and_then (paused (\<lambda>sys. (fm_open (sys_vfs sys) (sys_world sys) path, sys)) st) (\<lambda>file st.
       case paused_execute_file task (file, st) of (r, (_, st)) \<Rightarrow> (r, st)))"

fun paused_create_threads :: "u64 \<Rightarrow> u64 \<Rightarrow> u64 list \<Rightarrow> kernel_task \<Rightarrow> unit res \<times> kernel_task" where
  "paused_create_threads entry wrapper [] st = (Ok (), st)"
| "paused_create_threads entry wrapper (f # fs) st =
     and_then (paused (on_machine (on_kernel (\<lambda>k. apfst unwrap_res (create_kthread entry wrapper f k)))) st) (\<lambda>_.
       paused_create_threads entry wrapper fs)"

definition paused_init_tasks :: "image \<Rightarrow> kernel_task \<Rightarrow> unit res \<times> kernel_task" where
  "paused_init_tasks im st =
     and_then (paused (on_machine (on_kernel (\<lambda>k. apfst unwrap_res (create_and_become_kinit k)))) st) (\<lambda>_.
       paused_create_threads (im_entry im) (im_wrapper im) (im_closures im))"

definition paused_kernel_run :: "kernel_task \<Rightarrow> user_entry res \<times> kernel_task" where
  "paused_kernel_run st =
     and_then (paused (on_machine (println [ascii ''Hello, world!''])) st) (\<lambda>_ st.
     and_then (unwrap_opt (path_absolute ''/bin/cli''), st) (\<lambda>cli_path st.
       paused_execute cli_path st))"

text \<open>The rest of \<^verbatim>\<open>kernel_init\<close> once everything is set up.\<close>

definition paused_kernel_init :: "image \<Rightarrow> kernel_task \<Rightarrow> user_entry res \<times> kernel_task" where
  "paused_kernel_init im st = and_then (paused_init_tasks im st) (\<lambda>_ st. apfst unwrap_res (paused_kernel_run st))"

section \<open>Without pauses\<close>

text \<open>When no pauses are left, this is the code of \<^verbatim>\<open>Task_Execution\<close> and \<^verbatim>\<open>Boot\<close>.\<close>

lemma kt_put_simps [simp]:
  "sys_machine (kt_system st) = rs_machine (kt_run st)" "sys_vfs (kt_system st) = kt_vfs st" "sys_store (kt_system st) = kt_store st"
  "kt_put (kt_system st) st = st" "kt_system (kt_put sys st) = sys" "kt_put sys' (kt_put sys st) = kt_put sys' st" "kt_pauses (kt_put sys st) = kt_pauses st"
  by (simp_all add: kt_system_def kt_put_def)

definition put_result :: "kernel_task \<Rightarrow> 'a res \<times> (open_file \<times> system) \<Rightarrow> 'a res \<times> (open_file \<times> kernel_task)" where
  "put_result st x = (case x of (r, (file, sys)) \<Rightarrow> (r, (file, kt_put sys st)))"

lemma paused_none:
  assumes "kt_pauses st = []"
  shows "paused f st = (case f (kt_system st) of (r, sys) \<Rightarrow> (r, kt_put sys st))"
    and "paused_file g (file, st) = put_result st (g (file, kt_system st))"
proof -
  show "paused f st = (case f (kt_system st) of (r, sys) \<Rightarrow> (r, kt_put sys st))"
    by (cases "f (kt_system st)"; cases "fst (f (kt_system st))") (simp_all add: assms paused_def pause_def)
  show "paused_file g (file, st) = put_result st (g (file, kt_system st))"
    by (cases "g (file, kt_system st)"; cases "fst (g (file, kt_system st))") (simp_all add: assms paused_file_def pause_def put_result_def split: prod.split)
qed

lemma paused_load_page_none:
  assumes "kt_pauses st = []"
  shows "paused_load_page t p st = (case on_machine (on_kernel (load_user_page t p)) (kt_system st) of (r, sys) \<Rightarrow> (r, kt_put sys st))"
proof (cases "on_space t (alloc_page (lp_address p)) (rs_kernel (kt_run st))")
  case (Pair r k)
  then show ?thesis using assms
    by (cases r) (simp_all add: paused_load_page_def paused_none on_machine_def on_kernel_def load_user_page_def split: prod.split)
qed

lemma put_result_put [simp]: "put_result (kt_put sys st) = put_result st"
  by (simp add: put_result_def fun_eq_iff)

lemma paused_file_none:
  assumes "kt_pauses st = []" and "kt_system st = snd x" and "g x = (a, (file, sys))"
  shows "paused_file g (fst x, st) = (a, (file, kt_put sys st))"
  using assms by (simp add: paused_none put_result_def)

lemma load_loop_paused:
  assumes "load_loop t phs it x = Some r"
  shows "\<forall>st. kt_pauses st = [] \<longrightarrow> kt_system st = snd x \<longrightarrow> paused_loop t phs it (fst x, st) = Some (put_result st r)"
  using assms
proof (induction rule: load_loop.raw_induct [rotated 1, consumes 1, case_names step])
  case (step rec t phs it x r)
  show ?case
  proof (intro allI impI)
    fix st assume st: "kt_pauses st = []" "kt_system st = snd x"
    let ?g = "on_file (pages_next (log_range (sys_machine (snd x))) phs it)"
    have m: "rs_machine (kt_run st) = sys_machine (snd x)" by (simp flip: st(2))
    obtain a f' sys where g: "?g x = (a, (f', sys))" by (metis prod.collapse)
    note pf = paused_file_none [where g = ?g, OF st g]
    show "paused_loop t phs it (fst x, st) = Some (put_result st r)"
    proof (cases a)
      case (Ok v)
      obtain po it' where v: "v = (po, it')" by fastforce
      show ?thesis
      proof (cases po)
        case None
        then show ?thesis using step(2) g pf Ok v m by (subst paused_loop.simps) (auto simp: put_result_def)
      next
        case (Some p)
        obtain b sys2 where b: "on_machine (on_kernel (load_user_page t p)) sys = (b, sys2)" by fastforce
        have pl: "paused_load_page t p (kt_put sys st) = (b, kt_put sys2 st)"
          using paused_load_page_none [of "kt_put sys st" t p] st(1) b by simp
        show ?thesis
        proof (cases b)
          case b': (Ok u)
          then have "rec t phs it' (f', sys2) = Some r" using step(2) g Ok v Some b by simp
          from step(1) [OF this] have "paused_loop t phs it' (f', kt_put sys2 st) = Some (put_result st r)" using st(1) by simp
          then show ?thesis using pf Ok v Some m pl b' by (subst paused_loop.simps) simp
        qed (use step(2) g pf Ok v Some m pl b in \<open>subst paused_loop.simps, fastforce simp: put_result_def\<close>)+
      qed
    qed (use step(2) g pf m in \<open>subst paused_loop.simps, fastforce simp: put_result_def\<close>)+
  qed
qed

lemma paused_execute_file_none:
  assumes "kt_pauses st = []" and "execute_file task (f, kt_system st) = (r, (f', sys))" and "r \<noteq> Hang"
  shows "paused_execute_file task (f, st) = (r, (f', kt_put sys st))"
proof -
  obtain a f1 s1 where 1: "on_file elf64_reader_new (f, kt_system st) = (a, (f1, s1))" by (metis prod.collapse)
  have p1: "paused_file (on_file elf64_reader_new) (f, st) = (a, (f1, kt_put s1 st))"
    using paused_file_none [where g = "on_file elf64_reader_new" and x = "(f, kt_system st)", OF assms(1) _ 1] by simp
  show ?thesis
  proof (cases a)
    case (Ok reader)
    let ?l = "load_loop (tid task) (er_program_headers reader) loadable_pages_new (f1, s1)"
    let ?p = "paused_loop (tid task) (er_program_headers reader) loadable_pages_new (f1, kt_put s1 st)"
    let ?alloc = "on_machine (on_kernel (on_space (tid task) (alloc_page (UserAddress_sub PAGE_SIZE (UserAddress STACK_INIT) 1))))"
    have "?l \<noteq> None"
    proof
      assume "?l = None"
      then show False using assms(2,3) 1 Ok by (auto simp: execute_file_def run_loop_def)
    qed
    then obtain b f2 s2 where l: "?l = Some (b, (f2, s2))" by (metis not_None_eq prod.collapse)
    have "?p = Some (b, (f2, kt_put s2 st))"
      using load_loop_paused [OF l] assms(1) by (auto simp: put_result_def)
    moreover have "paused ?alloc (kt_put s2 st) = (case ?alloc s2 of (r, sys) \<Rightarrow> (r, kt_put sys st))"
      using paused_none(1) [of "kt_put s2 st" ?alloc] assms(1) by simp
    ultimately show ?thesis
      using assms(2) 1 p1 l Ok unfolding execute_file_def paused_execute_file_def
      by (cases b; cases "?alloc s2"; cases "fst (?alloc s2)") (simp_all add: run_loop_def)
  qed (use assms(2) 1 p1 in \<open>auto simp: execute_file_def paused_execute_file_def\<close>)
qed

lemma paused_kernel_run_none:
  assumes "kt_pauses st = []" and "kernel_run (kt_system st) = (r, sys)" and "r \<noteq> Hang"
  shows "paused_kernel_run st = (r, kt_put sys st)"
proof -
  let ?hello = "on_machine (println [ascii ''Hello, world!''])" and ?path = "\<lparr>path_tokens = [Literal ''bin'', Literal ''cli''], path_start = PathStart.Root\<rparr>"
  have exe: "paused_execute ?path st' = (r, kt_put sys st')"
    if s': "kt_pauses st' = []" "execute ?path (kt_system st') = (r, sys)" for st'
  proof -
    obtain a s1 where 1: "on_machine the_current_task (kt_system st') = (a, s1)" by fastforce
    obtain b where b: "fm_open (sys_vfs s1) (sys_world s1) ?path = b" by blast
    show ?thesis
    proof (cases a)
      case a: (Ok task)
      show ?thesis
      proof (cases b)
        case b': (Ok f)
        obtain f' s2 where e: "execute_file task (f, s1) = (r, (f', s2))" "s2 = sys"
          using s'(2) 1 b a b' by (auto simp: execute_def split: prod.splits)
        have "paused_execute_file task (f, kt_put s1 st') = (r, (f', kt_put s2 st'))"
          using paused_execute_file_none [of "kt_put s1 st'" task f r f' s2] s'(1) e(1) assms(3) by simp
        then show ?thesis using s'(1) 1 b a b' e(2) by (simp add: paused_execute_def paused_none)
      qed (use s' 1 b a in \<open>auto simp: execute_def paused_execute_def paused_none\<close>)
    qed (use s' 1 in \<open>auto simp: execute_def paused_execute_def paused_none\<close>)
  qed
  obtain a s1 where 1: "?hello (kt_system st) = (a, s1)" by fastforce
  show ?thesis
  proof (cases a)
    case (Ok u)
    then have "execute ?path s1 = (r, sys)" using assms(2) 1 by (simp add: kernel_run_def paths)
    then have "paused_execute ?path (kt_put s1 st) = (r, kt_put sys st)" using exe [of "kt_put s1 st"] assms(1) by simp
    then show ?thesis using Ok 1 assms(1) by (simp add: paused_kernel_run_def paused_none paths)
  qed (use assms 1 in \<open>auto simp: kernel_run_def paused_kernel_run_def paused_none\<close>)
qed

lemma paused_on_kernel_none:
  assumes "kt_pauses st = []" and "f (rs_kernel (kt_run st)) = (r, k)"
  shows "paused (on_machine (on_kernel f)) st = (r, kt_put ((kt_system st)\<lparr>sys_machine := (rs_machine (kt_run st))\<lparr>m_kernel := k\<rparr>\<rparr>) st)"
  using assms by (simp add: paused_none on_machine_def on_kernel_def)

lemma paused_create_threads_none:
  assumes "kt_pauses st = []"
  shows "paused_create_threads entry wrapper fs st
    = (case on_machine (on_kernel (create_threads entry wrapper fs)) (kt_system st) of (r, sys) \<Rightarrow> (r, kt_put sys st))"
  using assms
proof (induction fs arbitrary: st)
  case Nil
  then show ?case by (simp add: on_machine_def on_kernel_def kt_put_def kt_system_def)
next
  case (Cons f fs)
  obtain r :: "task_id res" and k where k: "apfst unwrap_res (create_kthread entry wrapper f (rs_kernel (kt_run st))) = (r, k)" by fastforce
  note p = paused_on_kernel_none [where f = "\<lambda>k. apfst unwrap_res (create_kthread entry wrapper f k)", OF Cons.prems k]
  have i: "create_threads entry wrapper (f # fs) (rs_kernel (kt_run st)) = and_then (r, k) (\<lambda>_. create_threads entry wrapper fs)"
    by (simp add: k)
  show ?case
    unfolding paused_create_threads.simps p using Cons.prems
    by (cases r) (simp_all add: Cons.IH on_machine_def on_kernel_def i del: create_threads.simps split: prod.split)
qed

lemma paused_init_tasks_none:
  assumes "kt_pauses st = []"
  shows "paused_init_tasks im st = (case on_machine (on_kernel (init_tasks im)) (kt_system st) of (r, sys) \<Rightarrow> (r, kt_put sys st))"
proof -
  obtain r :: "task_id res" and k where k: "apfst unwrap_res (create_and_become_kinit (rs_kernel (kt_run st))) = (r, k)" by fastforce
  note p = paused_on_kernel_none [where f = "\<lambda>k. apfst unwrap_res (create_and_become_kinit k)", OF assms k]
  have i: "init_tasks im (rs_kernel (kt_run st)) = and_then (r, k) (\<lambda>_. create_threads (im_entry im) (im_wrapper im) (im_closures im))"
    by (simp add: init_tasks_def k)
  show ?thesis
    unfolding paused_init_tasks_def p using assms
    by (cases r) (simp_all add: paused_create_threads_none on_machine_def on_kernel_def i split: prod.split)
qed

section \<open>What may happen at a pause\<close>

text \<open>Whose turn it is: the running task, the queue, and if the timer interrupt is pending.\<close>

type_synonym turns = "task_id \<times> task_id list \<times> bool"

fun turn :: "event \<Rightarrow> turns \<Rightarrow> turns" where
  "turn Interrupt (t, q, True) = (hd (q @ [t]), tl (q @ [t]), False)"
| "turn (Hardware h n) (t, q, irq) = (t, q, intc_is_pending CNTPNSIRQ h)"
| "turn _ v = v"

definition turns_of :: "running_system \<Rightarrow> turns" where
  "turns_of s = (running_id s, queue (k_sched (rs_kernel s)), intc_is_pending CNTPNSIRQ (m_intc (rs_machine s)))"

text \<open>Kernel threads compute and print; interrupts come and go.\<close>

fun kernel_event :: "event \<Rightarrow> bool" where
  "kernel_event (Exception esr far) = False"
| "kernel_event (Store va b) = False"
| "kernel_event _ = True"

abbreviation kernel_events :: "event list list \<Rightarrow> bool" where
  "kernel_events ess \<equiv> list_all (list_all kernel_event) ess"

text \<open>The memory of every task.\<close>

definition task_mems :: "kernel \<Rightarrow> task_id \<Rightarrow> (usize \<Rightarrow> u8 option) option" where
  "task_mems k t = map_option (\<lambda>x. user_mem (k_mm k) (mem_context x)) (tasks (k_sched k) t)"

lemma turns_abs: "turns_of s = (i_running (abs_system s), i_ready (abs_system s), i_irq (abs_system s))"
  by (simp add: turns_of_def)

lemma kernel_event_ideal:
  assumes "kernel_event e"
  shows "\<exists>a'. ideal_step km e a = Some a' \<and> (i_running a', i_ready a', i_irq a') = turn e (i_running a, i_ready a, i_irq a)"
  using assms by (cases e; auto simp: ideal_irq_def upd_thread_def Let_def split: option.splits)+

definition same_spaces :: "running_system \<Rightarrow> running_system \<Rightarrow> bool" where
  "same_spaces s s' \<longleftrightarrow> k_mm (rs_kernel s') = k_mm (rs_kernel s) \<and> m_heap (rs_machine s') = m_heap (rs_machine s)
     \<and> task_counter (rs_kernel s') = task_counter (rs_kernel s)
     \<and> (\<forall>t. map_option mem_context (tasks (k_sched (rs_kernel s')) t) = map_option mem_context (tasks (k_sched (rs_kernel s)) t))"

lemma step_same_spaces:
  assumes wf: "system_wf s" and e: "kernel_event e" and step: "system_step e s = (Ok (), s')"
  shows "same_spaces s s'"
proof (cases e)
  case Thread_Round
  then obtain m where "s' = after_handler (rs_frames s (running_id s)) m s" "printed (ascii ''<k'' @ fmt_dec (unat (running_id s)) @ ascii ''>'') (rs_machine s) m"
    using thread_round_ok [OF wf] step by auto
  then show ?thesis using printedD by (simp add: same_spaces_def)
next
  case Interrupt
  obtain x where x: "platform_ready (rs_platform s)" "runs_task (rs_machine s) x" using wf by (rule system_wfE)
  show ?thesis
  proof (cases "intc_is_pending CNTPNSIRQ (m_intc (rs_machine s))")
    case True
    let ?m = "(rs_machine s)\<lparr>m_intc := intc_clear CNTPNSIRQ (m_intc (rs_machine s))\<rparr>"
    have "runs_task ?m x" using x(2) by (simp add: runs_task_def)
    then obtain n q y k where "schedule_handler ?m = (Ok (), ?m\<lparr>m_kernel := k\<rparr>)" "k_mm k = k_mm (m_kernel ?m)"
        "\<forall>t. map_option mem_context (tasks (k_sched k) t) = map_option mem_context (tasks (k_sched (m_kernel ?m)) t)"
        "task_counter k = task_counter (m_kernel ?m)"
      by (rule schedule_handler_runs)
    moreover from this(1) have "s' = s\<lparr>rs_platform := (rs_platform s)\<lparr>p_machine := ?m\<lparr>m_kernel := k\<rparr>\<rparr>\<rparr>"
      using step Interrupt vector_irq_timer(1) [OF x(1) True] by (simp add: el0_irq_def on_platform_of_def)
    ultimately show ?thesis by (simp add: same_spaces_def)
  next
    case False
    then show ?thesis using interrupt_idle [OF wf False] step Interrupt by (simp add: same_spaces_def)
  qed
qed (use e step in \<open>auto simp: same_spaces_def set_regs_def set_count_def\<close>)

lemma run_kernel_events:
  assumes "system_wf s" and "list_all kernel_event es"
  shows "\<exists>s'. system_run es s = (Ok (), s') \<and> system_wf s' \<and> same_spaces s s' \<and> turns_of s' = fold turn es (turns_of s)"
  using assms
proof (induction es arbitrary: s)
  case (Cons e es)
  have e: "kernel_event e" using Cons.prems(2) by simp
  obtain a where a: "ideal_step (kmem (k_mm (rs_kernel s))) e (abs_system s) = Some a"
    "(i_running a, i_ready a, i_irq a) = turn e (turns_of s)"
    using kernel_event_ideal [OF e] unfolding turns_abs by metis
  obtain s1 where s1: "system_step e s = (Ok (), s1)" "system_wf s1" "abs_system s1 = a"
    using step_simulates [OF Cons.prems(1), of e] a(1) by (auto simp: simulates_def)
  have "same_spaces s s1" by (rule step_same_spaces [OF Cons.prems(1) e s1(1)])
  moreover have "turns_of s1 = turn e (turns_of s)" using a(2) s1(3) by (metis turns_abs)
  moreover obtain s2 where "system_run es s1 = (Ok (), s2)" "system_wf s2" "same_spaces s1 s2" "turns_of s2 = fold turn es (turns_of s1)"
    using Cons.IH [OF s1(2)] Cons.prems(2) by auto
  ultimately show ?case using s1(1) by (auto simp: same_spaces_def)
qed (simp add: same_spaces_def)

lemma same_spaces_mems: "same_spaces s s' \<Longrightarrow> task_mems (rs_kernel s') = task_mems (rs_kernel s)"
proof
  fix t
  assume "same_spaces s s'"
  then have "map_option mem_context (tasks (k_sched (rs_kernel s')) t) = map_option mem_context (tasks (k_sched (rs_kernel s)) t)"
    "k_mm (rs_kernel s') = k_mm (rs_kernel s)" by (simp_all add: same_spaces_def)
  then show "task_mems (rs_kernel s') t = task_mems (rs_kernel s) t"
    by (cases "tasks (k_sched (rs_kernel s')) t"; cases "tasks (k_sched (rs_kernel s)) t") (simp_all add: task_mems_def)
qed

lemma same_spaces_trans: "same_spaces r s \<Longrightarrow> same_spaces s t \<Longrightarrow> same_spaces r t"
  by (simp add: same_spaces_def)

text \<open>No task gets lost, so a task that waits gets its turn.\<close>

lemma turn_set: "insert (fst (turn e v)) (set (fst (snd (turn e v)))) = insert (fst v) (set (fst (snd v)))"
proof (cases "(e, v)" rule: turn.cases)
  case (1 t q)
  then show ?thesis by (cases q) auto
qed auto

lemma turns_set: "insert (fst (fold turn es v)) (set (fst (snd (fold turn es v)))) = insert (fst v) (set (fst (snd v)))"
  by (induction es arbitrary: v) (simp_all add: turn_set)

lemma come_back_ok:
  assumes "system_wf s" and "t = running_id s \<or> t \<in> set (take n (queue (k_sched (rs_kernel s))))"
  shows "\<exists>s'. come_back n t s = (Ok (), s') \<and> system_wf s' \<and> same_spaces s s' \<and> running_id s' = t"
  using assms
proof (induction n arbitrary: s)
  case 0
  then show ?case by (auto simp: same_spaces_def)
next
  case (Suc n)
  show ?case
  proof (cases "running_id s = t")
    case True
    then show ?thesis using Suc.prems(1) by (simp add: same_spaces_def)
  next
    case False
    then obtain x q where q: "queue (k_sched (rs_kernel s)) = x # q" "t = x \<or> t \<in> set (take n q)"
      using Suc.prems(2) by (cases "queue (k_sched (rs_kernel s))") auto
    have "list_all kernel_event [timer_event s, Interrupt]" by (simp add: timer_event_def)
    then obtain s1 where s1: "system_run [timer_event s, Interrupt] s = (Ok (), s1)" "system_wf s1" "same_spaces s s1"
        "turns_of s1 = fold turn [timer_event s, Interrupt] (turns_of s)"
      using run_kernel_events [OF Suc.prems(1)] by blast
    have "turns_of s1 = (x, q @ [running_id s], False)"
      using s1(4) q(1) timer_fires_pending by (simp add: turns_of_def timer_event_def)
    then have "t = running_id s1 \<or> t \<in> set (take n (queue (k_sched (rs_kernel s1))))" using q(2) by (auto simp: turns_of_def)
    from Suc.IH [OF s1(2) this] show ?thesis using False s1(1) same_spaces_trans [OF s1(3)] by auto
  qed
qed

lemma pause_same:
  assumes "system_wf (kt_run st)" and "kernel_events (kt_pauses st)"
  shows "\<exists>s ess. pause st = (Ok (), st\<lparr>kt_run := s, kt_pauses := ess\<rparr>) \<and> system_wf s \<and> same_spaces (kt_run st) s
    \<and> running_id s = running_id (kt_run st) \<and> kernel_events ess"
proof (cases "kt_pauses st")
  case Nil
  have "st\<lparr>kt_run := kt_run st, kt_pauses := kt_pauses st\<rparr> = st" by simp
  then show ?thesis using assms Nil by (intro exI [of _ "kt_run st"] exI [of _ "kt_pauses st"]) (simp add: pause_def same_spaces_def)
next
  case (Cons es ess)
  let ?t = "running_id (kt_run st)"
  obtain s1 where s1: "system_run es (kt_run st) = (Ok (), s1)" "system_wf s1" "same_spaces (kt_run st) s1" "turns_of s1 = fold turn es (turns_of (kt_run st))"
    using run_kernel_events [OF assms(1)] assms(2) Cons by auto
  have "?t \<in> insert (running_id s1) (set (queue (k_sched (rs_kernel s1))))"
    using turns_set [of es "turns_of (kt_run st)"] unfolding s1(4) [symmetric] by (auto simp: turns_of_def)
  then obtain s2 where s2: "come_back (length (queue (k_sched (rs_kernel s1)))) ?t s1 = (Ok (), s2)" "system_wf s2" "same_spaces s1 s2" "running_id s2 = ?t"
    using come_back_ok [OF s1(2), of ?t "length (queue (k_sched (rs_kernel s1)))"] by auto
  have "pause st = (Ok (), st\<lparr>kt_run := s2, kt_pauses := ess\<rparr>)" using s1(1) s2(1) Cons by (simp add: pause_def)
  moreover have "kernel_events ess" using assms(2) Cons by simp
  ultimately show ?thesis using s2 same_spaces_trans [OF s1(3) s2(3)] by blast
qed

section \<open>Invariant\<close>

text \<open>Task \<open>t\<close> runs, with room for \<open>n\<close> pages; \<open>h\<close> is the heap and \<open>M\<close> the memory of all tasks.\<close>

definition task_at :: "task_id \<Rightarrow> nat \<Rightarrow> heap \<Rightarrow> (task_id \<Rightarrow> (usize \<Rightarrow> u8 option) option) \<Rightarrow> kernel_task \<Rightarrow> bool" where
  "task_at t n h M st \<longleftrightarrow> system_wf (kt_run st) \<and> room n (page_alloc_state (k_mm (rs_kernel (kt_run st)))) \<and> m_heap (rs_machine (kt_run st)) = h
     \<and> task_mems (rs_kernel (kt_run st)) = M \<and> running_id (kt_run st) = t \<and> kernel_events (kt_pauses st)"

lemma kt_simps [simp]:
  "rs_machine (kt_run (kt_put sys st)) = sys_machine sys" "kt_vfs (kt_put sys st) = sys_vfs sys"
  "kt_store (kt_put sys st) = sys_store sys"
  "platform_ready (rs_platform (kt_run (kt_put sys st))) = platform_ready (rs_platform (kt_run st))"
  by (simp_all add: kt_system_def kt_put_def)

text \<open>The files do not depend on what is printed.\<close>

lemma reads_store:
  assumes "store (snd st') = store (snd st)" and "fst st' = fst st"
  shows "reads st' bytes \<longleftrightarrow> reads st bytes"
  using assms by (simp add: reads_def world_wf_def file_bytes_def)

definition task_reads :: "open_file \<Rightarrow> u8 list \<Rightarrow> kernel_task \<Rightarrow> bool" where
  "task_reads f bytes st \<longleftrightarrow> reads (f, sys_world (kt_system st)) bytes"

lemma task_reads_store: "kt_store st' = kt_store st \<Longrightarrow> task_reads f bytes st' \<longleftrightarrow> task_reads f bytes st"
  unfolding task_reads_def by (rule reads_store) (simp_all add: sys_world_def)

lemma pause_ok:
  assumes "task_at t n h M st"
  shows "\<exists>st'. pause st = (Ok (), st') \<and> task_at t n h M st' \<and> kt_vfs st' = kt_vfs st \<and> kt_store st' = kt_store st"
proof -
  have a: "system_wf (kt_run st)" "kernel_events (kt_pauses st)" using assms by (simp_all add: task_at_def)
  obtain s ess where p: "pause st = (Ok (), st\<lparr>kt_run := s, kt_pauses := ess\<rparr>)" "system_wf s" "same_spaces (kt_run st) s"
    "running_id s = running_id (kt_run st)" "kernel_events ess" using pause_same [OF a] by blast
  have "task_at t n h M (st\<lparr>kt_run := s, kt_pauses := ess\<rparr>)"
    using assms p(2-5) same_spaces_mems [OF p(3)] by (simp add: task_at_def same_spaces_def)
  then show ?thesis using p(1) by simp
qed

lemma paused_ok:
  assumes "f (kt_system st) = (Ok v, sys)" and "task_at t n h M (kt_put sys st)"
  shows "\<exists>st'. paused f st = (Ok v, st') \<and> task_at t n h M st' \<and> kt_vfs st' = sys_vfs sys \<and> kt_store st' = sys_store sys"
  using pause_ok [OF assms(2)] assms(1) by (auto simp: paused_def)

lemma paused_file_ok:
  assumes "f (file, kt_system st) = (Ok v, (file', sys))" and "task_at t n h M (kt_put sys st)"
  shows "\<exists>st'. paused_file f (file, st) = (Ok v, (file', st')) \<and> task_at t n h M st' \<and> kt_vfs st' = sys_vfs sys \<and> kt_store st' = sys_store sys"
  using pause_ok [OF assms(2)] assms(1) by (auto simp: paused_file_def)

text \<open>What the invariant says of the task.\<close>

lemma task_atE:
  assumes "task_at t n h M st"
  obtains x tm where "runs_task (rs_machine (kt_run st)) x" "tid x = t" "tasks (k_sched (rs_kernel (kt_run st))) t = Some x"
    "loading n (k_mm (rs_kernel (kt_run st)), mem_context x)" "M t = Some (user_mem (k_mm (rs_kernel (kt_run st))) (mem_context x))"
    "loader (kt_system st) x tm" "images_wf (rs_kernel (kt_run st))"
proof -
  have wf: "system_wf (kt_run st)" "running_id (kt_run st) = t" "task_mems (rs_kernel (kt_run st)) = M" "room n (page_alloc_state (k_mm (rs_kernel (kt_run st))))"
    using assms by (simp_all add: task_at_def)
  obtain x where x: "runs_task (rs_machine (kt_run st)) x" "images_wf (rs_kernel (kt_run st))"
    "cntfrq_el0 (timer (k_core (rs_kernel (kt_run st)))) \<noteq> 0" "running_id (kt_run st) = tid x" using wf(1) by (rule system_wfE)
  have t: "tasks (k_sched (rs_kernel (kt_run st))) t = Some x" "tid x = t" using x(1,4) wf(2) by (auto simp: runs_task_def)
  obtain tm where "monotonic (timer (k_core (rs_kernel (kt_run st)))) = Ok tm" using x(3) by (simp add: monotonic_def timer_frequency_def)
  then have "loader (kt_system st) x tm" using x(1) t runs_task_space(1) [OF x(1)] by (simp add: loader_def runs_task_def)
  moreover have "loading n (k_mm (rs_kernel (kt_run st)), mem_context x)"
    using x(1,2) t(1) wf(4) by (auto simp: loading_def images_wf_def runs_task_def kernel_wf_def)
  moreover have "M t = Some (user_mem (k_mm (rs_kernel (kt_run st))) (mem_context x))" using t(1) wf(3) by (auto simp: task_mems_def)
  ultimately show thesis using that x(1,2) t by blast
qed

text \<open>Output keeps it, and so does a step in the address space of the task.\<close>

lemma task_at_printed:
  assumes "task_at t n h M st" and "sys_printed bs (kt_system st) sys"
  shows "task_at t n h M (kt_put sys st)"
proof -
  note p = sys_printedD [OF assms(2)]
  have "system_wf (kt_run st)" using assms(1) by (simp add: task_at_def)
  then have "system_wf (kt_run (kt_put sys st))" using p by (simp add: system_wf_def)
  then show ?thesis using assms(1) p by (simp add: task_at_def running_id_def)
qed

lemma task_at_space:
  assumes at: "task_at t n h M st" and x: "tasks (k_sched (rs_kernel (kt_run st))) t = Some x"
    and l: "loading n' (s', c')" and step: "space_step (k_mm (rs_kernel (kt_run st)), mem_context x) (s', c')"
  shows "task_at t n' h (M(t \<mapsto> user_mem s' c')) (kt_put (at_space (kt_system st) t s' c') st)"
proof -
  let ?k = "rs_kernel (kt_run st)" and ?st = "kt_put (at_space (kt_system st) t s' c') st"
  obtain y where y: "runs_task (rs_machine (kt_run st)) y" "tid y = t" "images_wf ?k" using at by (rule task_atE)
  then have t: "tid x = t" "runs_task (rs_machine (kt_run st)) x" using x by (auto simp: runs_task_def)
  have "runs_task (sys_machine (at_space (kt_system st) (tid x) s' c')) (x\<lparr>mem_context := c'\<rparr>)"
    using t(2) step l by (intro runs_task_space_step) simp_all
  then have r: "runs_task (rs_machine (kt_run ?st)) (x\<lparr>mem_context := c'\<rparr>)" by (simp add: t(1))
  have k: "rs_kernel (kt_run ?st) = set_space t s' c' ?k" by simp
  have ts: "tasks (k_sched (set_space t s' c' ?k)) = (tasks (k_sched ?k))(t \<mapsto> x\<lparr>mem_context := c'\<rparr>)" using x by (simp add: set_space_def)
  have fr: "mc_frame (k_mm ?k, mem_context x) (s', c')" and w: "image_wf (s', c')" "ctx_wf (s', c')"
    using step l image_wfD(1) by (auto simp: space_step_def loading_def)
  have kw: "kernel_wf ?k" using t(2) by (simp add: runs_task_def)
  note other = frame_tasks [OF kw y(3) x fr w(2)]
  have im: "images_wf (set_space t s' c' ?k)"
    using other(1) w(1) unfolding images_wf_def ts by (auto split: if_splits)
  have old: "task_mems ?k = M" using at by (simp add: task_at_def)
  have "task_mems (set_space t s' c' ?k) u = (M(t \<mapsto> user_mem s' c')) u" for u
  proof (cases "u = t")
    case False
    then have "task_mems (set_space t s' c' ?k) u = task_mems ?k u"
      using other(2) by (cases "tasks (k_sched ?k) u") (simp_all add: task_mems_def ts)
    then show ?thesis using old False by simp
  qed (simp add: task_mems_def ts)
  then have mems: "task_mems (set_space t s' c' ?k) = M(t \<mapsto> user_mem s' c')" by (rule ext)
  have mh: "m_heap (sys_machine (at_space (kt_system st) t s' c')) = m_heap (rs_machine (kt_run st))"
    "m_intc (sys_machine (at_space (kt_system st) t s' c')) = m_intc (rs_machine (kt_run st))" by (simp_all add: at_space_def)
  have sc: "current_tasks (k_sched (set_space t s' c' ?k)) = current_tasks (k_sched ?k)" "queue (k_sched (set_space t s' c' ?k)) = queue (k_sched ?k)"
    by (simp_all add: set_space_def)
  have "system_wf (kt_run ?st)" using at r im mh unfolding task_at_def system_wf_def k by auto
  moreover have "running_id (kt_run ?st) = running_id (kt_run st)" using sc by (simp add: running_id_def)
  moreover have "room n' (page_alloc_state (k_mm (rs_kernel (kt_run ?st))))" using l by (simp add: loading_def)
  ultimately show ?thesis using at mems mh unfolding task_at_def k by simp
qed

section \<open>Operations\<close>

lemma paused_alloc:
  assumes at: "task_at t (4 + n) h M st" and m: "M t = Some m" and va: "unat va < 2 ^ 48"
  shows "\<exists>p st'. paused (on_machine (on_kernel (on_space t (alloc_page (UserAddress va))))) st = (Ok p, st')
    \<and> task_at t n h (M(t \<mapsto> spec_zero_page (unat va div 4096) m)) st' \<and> kt_vfs st' = kt_vfs st \<and> kt_store st' = kt_store st"
proof -
  let ?k = "rs_kernel (kt_run st)"
  obtain x where x: "tid x = t" "tasks (k_sched ?k) t = Some x" "loading (4 + n) (k_mm ?k, mem_context x)" "M t = Some (user_mem (k_mm ?k) (mem_context x))"
    using at by (rule task_atE)
  obtain p s' c' where a: "alloc_page (UserAddress va) (k_mm ?k, mem_context x) = (Ok p, (s', c'))" "loading n (s', c')"
      "space_step (k_mm ?k, mem_context x) (s', c')" "user_mem s' c' = spec_zero_page (unat va div 4096) (user_mem (k_mm ?k) (mem_context x))"
    by (rule alloc_page_loading [OF x(3) va])
  have "on_machine (on_kernel (on_space t (alloc_page (UserAddress va)))) (kt_system st) = (Ok p, at_space (kt_system st) t s' c')"
    using x(2) a(1) by (simp add: on_machine_def on_kernel_def on_space_def at_space_def)
  moreover have "task_at t n h (M(t \<mapsto> spec_zero_page (unat va div 4096) m)) (kt_put (at_space (kt_system st) t s' c') st)"
    using task_at_space [OF at x(2) a(2,3)] a(4) x(4) m by simp
  ultimately have "\<exists>st'. paused (on_machine (on_kernel (on_space t (alloc_page (UserAddress va))))) st = (Ok p, st')
      \<and> task_at t n h (M(t \<mapsto> spec_zero_page (unat va div 4096) m)) st' \<and> kt_vfs st' = sys_vfs (at_space (kt_system st) t s' c')
      \<and> kt_store st' = sys_store (at_space (kt_system st) t s' c')"
    by (rule paused_ok)
  then show ?thesis by (auto simp: at_space_def)
qed

lemma paused_copy:
  assumes at: "task_at t n h M st" and m: "M t = Some m"
    and range: "unat va + length bs \<le> 2 ^ 48" "\<forall>i < length bs. m (va + of_nat i) \<noteq> None"
  shows "\<exists>st'. paused (on_machine (on_kernel (copy_to_current bs (UserAddress va)))) st = (Ok (), st')
    \<and> task_at t n h (M(t \<mapsto> spec_copy va bs m)) st' \<and> kt_vfs st' = kt_vfs st \<and> kt_store st' = kt_store st"
proof -
  let ?k = "rs_kernel (kt_run st)"
  obtain x tm where x: "tid x = t" "tasks (k_sched ?k) t = Some x" "loading n (k_mm ?k, mem_context x)" "M t = Some (user_mem (k_mm ?k) (mem_context x))"
    "loader (kt_system st) x tm" using at by (rule task_atE)
  have ttbr: "ttbr0_el1 (k_core ?k) = mc_ttbr (mem_context x)" using x(5) by (simp add: loader_def)
  have "user_range (k_mm ?k) (mem_context x) va (length bs)" using range m x(4) by (simp add: user_range_def)
  then obtain mem where c: "copy_to_user (mc_ttbr (mem_context x)) bs (UserAddress va) (k_mm ?k) = (Ok (), (k_mm ?k)\<lparr>kmem := mem\<rparr>)"
      "image_wf ((k_mm ?k)\<lparr>kmem := mem\<rparr>, mem_context x)" "mc_frame (k_mm ?k, mem_context x) ((k_mm ?k)\<lparr>kmem := mem\<rparr>, mem_context x)"
      "user_mem ((k_mm ?k)\<lparr>kmem := mem\<rparr>) (mem_context x) = spec_copy va bs (user_mem (k_mm ?k) (mem_context x))"
    using copy_to_user_image [of "k_mm ?k" "mem_context x" va bs] x(3) by (auto simp: loading_def)
  let ?s = "(k_mm ?k)\<lparr>kmem := mem\<rparr>" and ?sys = "at_space (kt_system st) t ((k_mm ?k)\<lparr>kmem := mem\<rparr>) (mem_context x)"
  have "set_space t ?s (mem_context x) ?k = ?k\<lparr>k_mm := ?s\<rparr>"
    using x(2) by (simp add: set_space_def fun_upd_idem)
  then have run: "on_machine (on_kernel (copy_to_current bs (UserAddress va))) (kt_system st) = (Ok (), ?sys)"
    using c(1) ttbr by (simp add: on_machine_def on_kernel_def copy_to_current_def at_space_def)
  have l: "loading n (?s, mem_context x)" "space_step (k_mm ?k, mem_context x) (?s, mem_context x)"
    using x(3) c(2,3) by (simp_all add: loading_def space_step_def)
  have "task_at t n h (M(t \<mapsto> spec_copy va bs m)) (kt_put ?sys st)"
    using task_at_space [OF at x(2) l] c(4) x(4) m by simp
  from paused_ok [where f = "on_machine (on_kernel (copy_to_current bs (UserAddress va)))", OF run this]
  show ?thesis by (auto simp: at_space_def)
qed

lemma paused_load_page_ok:
  assumes at: "task_at t (4 + n) h M st" and m: "M t = Some m" and p: "page_chunk p"
  shows "\<exists>st'. paused_load_page t p st = (Ok (), st') \<and> task_at t n h (M(t \<mapsto> spec_load_page p m)) st'
    \<and> kt_vfs st' = kt_vfs st \<and> kt_store st' = kt_store st"
proof -
  let ?va = "as_ptr (lp_address p)" and ?z = "spec_zero_page (unat (as_ptr (lp_address p)) div 4096) m"
  have va: "unat ?va < 2 ^ 48" "UserAddress ?va = lp_address p" using p by (simp_all add: page_chunk_def)
  obtain q st1 where 1: "paused (on_machine (on_kernel (on_space t (alloc_page (lp_address p))))) st = (Ok q, st1)"
      "task_at t n h (M(t \<mapsto> ?z)) st1" "kt_vfs st1 = kt_vfs st" "kt_store st1 = kt_store st"
    using paused_alloc [OF at m va(1)] va(2) by auto
  have "\<forall>i < length (lp_bytes p). ?z (?va + of_nat i) \<noteq> None" using page_chunk_range(2) [OF p] by (simp add: spec_zero_page_def)
  from paused_copy [OF 1(2) _ page_chunk_range(1) [OF p] this] obtain st2
    where "paused (on_machine (on_kernel (copy_to_current (lp_bytes p) (lp_address p)))) st1 = (Ok (), st2)"
      "task_at t n h (M(t \<mapsto> spec_load_page p m)) st2" "kt_vfs st2 = kt_vfs st1" "kt_store st2 = kt_store st1"
    using va(2) by (auto simp: spec_load_page_def)
  then show ?thesis using 1 by (auto simp: paused_load_page_def)
qed

section \<open>The pages of a program\<close>

definition pages_of :: "u8 list \<Rightarrow> elf64_program_header \<Rightarrow> loadable_page list" where
  "pages_of bytes ph = (if segment_type ph = PROGRAM_HEADER_TYPE_LOAD then map (seg_page ph bytes) [0..<seg_pages ph] else [])"

text \<open>The pages that are left when the iterator is at page \<open>k\<close> of header \<open>i\<close>.\<close>

definition pages_left :: "u8 list \<Rightarrow> elf64_program_header list \<Rightarrow> nat \<Rightarrow> nat \<Rightarrow> loadable_page list" where
  "pages_left bytes phs i k = (if i < length phs then drop k (pages_of bytes (phs ! i)) @ concat (map (pages_of bytes) (drop (Suc i) phs)) else [])"

definition iterator_at :: "u8 list \<Rightarrow> elf64_program_header list \<Rightarrow> nat \<Rightarrow> nat \<Rightarrow> bool" where
  "iterator_at bytes phs i k \<longleftrightarrow> (i < length phs \<longrightarrow> k \<le> length (pages_of bytes (phs ! i)))"

lemma pages_left_all: "pages_left bytes phs 0 0 = concat (map (pages_of bytes) phs)"
  by (cases phs) (simp_all add: pages_left_def)

lemma pages_left_skip:
  assumes "i < length phs" and "length (pages_of bytes (phs ! i)) \<le> k"
  shows "pages_left bytes phs i k = pages_left bytes phs (Suc i) 0"
  using assms by (auto simp: pages_left_def Cons_nth_drop_Suc [symmetric])

lemma pages_end:
  assumes "segment_type ph = PROGRAM_HEADER_TYPE_LOAD \<longrightarrow> segment_ok ph" and "k = length (pages_of bytes ph)"
  shows "page_range ph (of_nat k) = None"
proof (cases "segment_type ph = PROGRAM_HEADER_TYPE_LOAD")
  case True
  then have "segment_ok ph" "k = seg_pages ph" using assms by (simp_all add: pages_of_def)
  then show ?thesis using page_range_eq [OF _ segment_page_fits [of ph k]] seg_off_end [of ph] by simp
qed (simp add: page_range_def)

lemma iterator_end:
  assumes "pages_left bytes phs i k = []" and "iterator_at bytes phs i k" and "\<forall>ph \<in> set (loads phs). segment_ok ph"
  shows "\<exists>it. pages_next say phs \<lparr>program_header_index = i, page_index = of_nat k\<rparr> st = (Ok (None, it), st)"
  using assms(1,2)
proof (induction "length phs - i" arbitrary: i k)
  case 0
  then show ?case by (subst pages_next.simps) simp
next
  case (Suc j)
  then have i: "i < length phs" "j = length phs - Suc i" by simp_all
  have k: "k = length (pages_of bytes (phs ! i))" using Suc.prems i(1) by (simp add: pages_left_def iterator_at_def)
  have "page_range (phs ! i) (of_nat k) = None" using assms(3) i(1) by (intro pages_end [OF _ k]) (simp add: loads_def)
  moreover have "pages_left bytes phs (Suc i) 0 = []" using pages_left_skip [OF i(1), of bytes k] k Suc.prems(1) by simp
  moreover have "iterator_at bytes phs (Suc i) 0" by (simp add: iterator_at_def)
  ultimately show ?case
    using Suc.hyps(1) [OF i(2), of 0] pages_next_skip [of "\<lparr>program_header_index = i, page_index = of_nat k\<rparr>" phs say st] i(1) by simp
qed

text \<open>The next page, given that it can be logged.\<close>

lemma iterator_next:
  assumes "pages_left bytes phs i k = p # ps" and "iterator_at bytes phs i k" and ok: "\<forall>ph \<in> set (loads phs). seg_loadable bytes ph"
    and r: "reads st bytes"
  shows "\<exists>i' k'. pages_left bytes phs i' (Suc k') = ps \<and> iterator_at bytes phs i' (Suc k') \<and> page_chunk p
    \<and> (\<forall>say d. say (page_start (phs ! i') k') (page_start (phs ! i') (Suc k')) (device_state (snd st)) = (Ok (), d) \<longrightarrow>
        (\<exists>st'. pages_next say phs \<lparr>program_header_index = i, page_index = of_nat k\<rparr> st
            = (Ok (Some p, \<lparr>program_header_index = i', page_index = of_nat (Suc k')\<rparr>), st')
          \<and> reads st' bytes \<and> snd st' = (snd st)\<lparr>device_state := d\<rparr>))"
  using assms(1,2)
proof (induction "length phs - i" arbitrary: i k)
  case 0
  then show ?case by (simp add: pages_left_def)
next
  case (Suc j)
  then have i: "i < length phs" "j = length phs - Suc i" by simp_all
  let ?ph = "phs ! i"
  show ?case
  proof (cases "k < length (pages_of bytes ?ph)")
    case True
    then have sl: "seg_loadable bytes ?ph" and k: "k < seg_pages ?ph" and po: "pages_of bytes ?ph = map (seg_page ?ph bytes) [0..<seg_pages ?ph]"
      using ok i(1) by (auto simp: pages_of_def loads_def split: if_splits)
    have "drop k (pages_of bytes ?ph) = seg_page ?ph bytes k # drop (Suc k) (pages_of bytes ?ph)"
      using True k by (simp add: Cons_nth_drop_Suc [symmetric] po del: drop_map upt_Suc)
    then have p: "p = seg_page ?ph bytes k" "pages_left bytes phs i (Suc k) = ps"
      using Suc.prems(1) i(1) by (simp_all add: pages_left_def)
    have so: "segment_ok ?ph" "unat (file_offset ?ph) + unat (file_size ?ph) \<le> length bytes" using sl by (simp_all add: seg_loadable_def)
    have "page_chunk p" using seg_page_chunk [OF sl k] p(1) by simp
    moreover have "iterator_at bytes phs i (Suc k)" using True by (simp add: iterator_at_def)
    moreover have "\<exists>st'. pages_next say phs \<lparr>program_header_index = i, page_index = of_nat k\<rparr> st
            = (Ok (Some p, \<lparr>program_header_index = i, page_index = of_nat (Suc k)\<rparr>), st')
          \<and> reads st' bytes \<and> snd st' = (snd st)\<lparr>device_state := d\<rparr>"
      if "say (page_start ?ph k) (page_start ?ph (Suc k)) (device_state (snd st)) = (Ok (), d)" for say d
      using pages_next_page [OF r, of "\<lparr>program_header_index = i, page_index = of_nat k\<rparr>" phs ?ph k say d] i(1) so k that p(1) by auto
    ultimately show ?thesis using p(2) by blast
  next
    case False
    then have k: "k = length (pages_of bytes ?ph)" using Suc.prems(2) i(1) by (simp add: iterator_at_def)
    have "page_range ?ph (of_nat k) = None"
      using ok i(1) by (intro pages_end [OF _ k]) (simp add: loads_def seg_loadable_def)
    then have skip: "pages_next say phs \<lparr>program_header_index = i, page_index = of_nat k\<rparr> st
        = pages_next say phs \<lparr>program_header_index = Suc i, page_index = of_nat 0\<rparr> st" for say
      using pages_next_skip [of "\<lparr>program_header_index = i, page_index = of_nat k\<rparr>" phs say st] i(1) by simp
    have "pages_left bytes phs (Suc i) 0 = p # ps" using pages_left_skip [OF i(1), of bytes k] k Suc.prems(1) by simp
    moreover have "iterator_at bytes phs (Suc i) 0" by (simp add: iterator_at_def)
    ultimately show ?thesis unfolding skip by (rule Suc.hyps(1) [OF i(2)])
  qed
qed

section \<open>The loop and the service\<close>

lemma paused_next:
  assumes at: "task_at t n h M st" and rd: "task_reads f bytes st" and ok: "\<forall>ph \<in> set (loads phs). seg_loadable bytes ph"
    and it: "pages_left bytes phs i k = p # ps" "iterator_at bytes phs i k"
  shows "\<exists>i' k' f' st'. paused_file (on_file (pages_next (log_range (rs_machine (kt_run st))) phs \<lparr>program_header_index = i, page_index = of_nat k\<rparr>)) (f, st)
      = (Ok (Some p, \<lparr>program_header_index = i', page_index = of_nat k'\<rparr>), (f', st'))
    \<and> pages_left bytes phs i' k' = ps \<and> iterator_at bytes phs i' k' \<and> page_chunk p \<and> task_at t n h M st' \<and> task_reads f' bytes st'
    \<and> kt_vfs st' = kt_vfs st \<and> kt_store st' = kt_store st"
proof -
  let ?say = "log_range (rs_machine (kt_run st))" and ?sys = "kt_system st"
  obtain x tm where x: "tasks (k_sched (rs_kernel (kt_run st))) t = Some x" "tid x = t" "loader ?sys x tm" using at by (rule task_atE)
  have r: "reads (f, sys_world ?sys) bytes" using rd by (simp add: task_reads_def)
  obtain i' k' where n: "pages_left bytes phs i' (Suc k') = ps" "iterator_at bytes phs i' (Suc k')" "page_chunk p"
    and nx: "\<And>say d. say (page_start (phs ! i') k') (page_start (phs ! i') (Suc k')) (device_state (sys_world ?sys)) = (Ok (), d) \<Longrightarrow>
        \<exists>st'. pages_next say phs \<lparr>program_header_index = i, page_index = of_nat k\<rparr> (f, sys_world ?sys)
            = (Ok (Some p, \<lparr>program_header_index = i', page_index = of_nat (Suc k')\<rparr>), st')
          \<and> reads st' bytes \<and> snd st' = (sys_world ?sys)\<lparr>device_state := d\<rparr>"
    using iterator_next [OF it ok r] by (metis snd_conv)
  have self: "at_space ?sys t (k_mm (rs_kernel (kt_run st))) (mem_context x) = ?sys"
    using at_space_self [of ?sys x] x(1,2) by simp
  obtain u sys' where say: "?say (page_start (phs ! i') k') (page_start (phs ! i') (Suc k')) (device_state (sys_world ?sys)) = (Ok (), u)"
      and sp: "sys_printed (range_line tm (phs ! i') k') ?sys sys'" "sys_world sys' = (sys_world ?sys)\<lparr>device_state := u\<rparr>"
      and pw: "put_world ((sys_world ?sys)\<lparr>device_state := u\<rparr>) ?sys = at_space sys' t (k_mm (rs_kernel (kt_run st))) (mem_context x)"
    using log_range_prints [OF x(3), of t "k_mm (rs_kernel (kt_run st))" "mem_context x"] unfolding self by (metis kt_put_simps(1) self)
  note sd = sys_printedD [OF sp(1)]
  have self': "at_space sys' t (k_mm (rs_kernel (kt_run st))) (mem_context x) = sys'"
    using at_space_self [of sys' x] x(1,2) sd(1) by simp
  obtain f' w' where pn: "pages_next ?say phs \<lparr>program_header_index = i, page_index = of_nat k\<rparr> (f, sys_world ?sys)
            = (Ok (Some p, \<lparr>program_header_index = i', page_index = of_nat (Suc k')\<rparr>), (f', w'))"
      "reads (f', w') bytes" "w' = (sys_world ?sys)\<lparr>device_state := u\<rparr>"
    using nx [where say = ?say, OF say] by auto
  have run: "on_file (pages_next ?say phs \<lparr>program_header_index = i, page_index = of_nat k\<rparr>) (f, ?sys)
      = (Ok (Some p, \<lparr>program_header_index = i', page_index = of_nat (Suc k')\<rparr>), (f', sys'))"
    using pn(1,3) pw self' by (simp add: on_file_def)
  obtain st' where st': "paused_file (on_file (pages_next ?say phs \<lparr>program_header_index = i, page_index = of_nat k\<rparr>)) (f, st)
      = (Ok (Some p, \<lparr>program_header_index = i', page_index = of_nat (Suc k')\<rparr>), (f', st'))"
      "task_at t n h M st'" "kt_vfs st' = sys_vfs sys'" "kt_store st' = sys_store sys'"
    using paused_file_ok [where f = "on_file (pages_next ?say phs \<lparr>program_header_index = i, page_index = of_nat k\<rparr>)", OF run task_at_printed [OF at sp(1)]] by blast
  have "task_reads f' bytes st'" unfolding task_reads_def
    by (rule iffD2 [OF reads_store pn(2)]) (use st'(4) sd pn(3) in \<open>simp_all add: sys_world_def\<close>)
  then show ?thesis using n st' sd by (intro exI [of _ i'] exI [of _ "Suc k'"]) auto
qed

lemma paused_loop_ok:
  assumes "task_at t (4 * length ps + n) h M st" and "task_reads f bytes st" and ok: "\<forall>ph \<in> set (loads phs). seg_loadable bytes ph"
    and "pages_left bytes phs i k = ps" "iterator_at bytes phs i k" and "M t = Some m"
  shows "\<exists>f' st'. paused_loop t phs \<lparr>program_header_index = i, page_index = of_nat k\<rparr> (f, st) = Some (Ok (), (f', st'))
    \<and> task_at t n h (M(t \<mapsto> fold spec_load_page ps m)) st' \<and> kt_vfs st' = kt_vfs st \<and> kt_store st' = kt_store st"
  using assms(1,2,4-6)
proof (induction ps arbitrary: i k f st M m)
  case Nil
  have so: "\<forall>ph \<in> set (loads phs). segment_ok ph" using ok by (simp add: seg_loadable_def)
  obtain it where it: "pages_next (log_range (rs_machine (kt_run st))) phs \<lparr>program_header_index = i, page_index = of_nat k\<rparr> (f, sys_world (kt_system st))
      = (Ok (None, it), (f, sys_world (kt_system st)))"
    using iterator_end [OF Nil.prems(3,4) so] by blast
  have pw: "put_world (sys_world sys) sys = sys" for sys by (simp add: put_world_def sys_world_def)
  have run: "on_file (pages_next (log_range (rs_machine (kt_run st))) phs \<lparr>program_header_index = i, page_index = of_nat k\<rparr>) (f, kt_system st)
      = (Ok (None, it), (f, kt_system st))"
    using it by (simp add: on_file_def pw)
  have "task_at t n h M (kt_put (kt_system st) st)" using Nil.prems(1) by simp
  from paused_file_ok [where f = "on_file (pages_next (log_range (rs_machine (kt_run st))) phs \<lparr>program_header_index = i, page_index = of_nat k\<rparr>)", OF run this]
  obtain st' where st': "paused_file (on_file (pages_next (log_range (rs_machine (kt_run st))) phs \<lparr>program_header_index = i, page_index = of_nat k\<rparr>)) (f, st)
      = (Ok (None, it), (f, st'))" "task_at t n h M st'" "kt_vfs st' = kt_vfs st" "kt_store st' = kt_store st" by auto
  then have "paused_loop t phs \<lparr>program_header_index = i, page_index = of_nat k\<rparr> (f, st) = Some (Ok (), (f, st'))"
    by (subst paused_loop.simps) simp
  moreover have "M(t \<mapsto> m) = M" using Nil.prems(5) by (rule fun_upd_idem)
  ultimately show ?case using st' by simp
next
  case (Cons p ps)
  have at: "task_at t (4 + (4 * length ps + n)) h M st" using Cons.prems(1) by (simp add: algebra_simps)
  obtain i' k' f1 st1 where 1: "paused_file (on_file (pages_next (log_range (rs_machine (kt_run st))) phs \<lparr>program_header_index = i, page_index = of_nat k\<rparr>)) (f, st)
      = (Ok (Some p, \<lparr>program_header_index = i', page_index = of_nat k'\<rparr>), (f1, st1))"
      "pages_left bytes phs i' k' = ps" "iterator_at bytes phs i' k'" "page_chunk p" "task_at t (4 + (4 * length ps + n)) h M st1" "task_reads f1 bytes st1"
      "kt_vfs st1 = kt_vfs st" "kt_store st1 = kt_store st"
    using paused_next [OF at Cons.prems(2) ok Cons.prems(3,4)] by blast
  obtain st2 where 2: "paused_load_page t p st1 = (Ok (), st2)" "task_at t (4 * length ps + n) h (M(t \<mapsto> spec_load_page p m)) st2"
      "kt_vfs st2 = kt_vfs st1" "kt_store st2 = kt_store st1"
    using paused_load_page_ok [OF 1(5) Cons.prems(5) 1(4)] by blast
  have rd: "task_reads f1 bytes st2" using 1(6) task_reads_store [OF 2(4)] by simp
  have upd: "(M(t \<mapsto> spec_load_page p m)) t = Some (spec_load_page p m)" by simp
  obtain f' st' where 3: "paused_loop t phs \<lparr>program_header_index = i', page_index = of_nat k'\<rparr> (f1, st2) = Some (Ok (), (f', st'))"
      "task_at t n h (M(t \<mapsto> fold spec_load_page ps (spec_load_page p m))) st'" "kt_vfs st' = kt_vfs st2" "kt_store st' = kt_store st2"
    using Cons.IH [OF 2(2) rd 1(2,3) upd] unfolding fun_upd_upd by blast
  have "paused_loop t phs \<lparr>program_header_index = i, page_index = of_nat k\<rparr> (f, st) = Some (Ok (), (f', st'))"
    by (subst paused_loop.simps) (simp add: 1(1) 2(1) 3(1))
  moreover have "kt_vfs st' = kt_vfs st" "kt_store st' = kt_store st" using 1(7,8) 2(3,4) 3(3,4) by simp_all
  moreover have "fold spec_load_page (p # ps) m = fold spec_load_page ps (spec_load_page p m)" by simp
  ultimately show ?case using 3(2) by metis
qed

lemma pages_all:
  assumes "\<forall>ph \<in> set (loads phs). seg_loadable bytes ph"
  shows "length (concat (map (pages_of bytes) phs)) = load_pages_count phs"
    and "fold spec_load_page (concat (map (pages_of bytes) phs)) m = fold (spec_load_segment bytes) (loads phs) m"
  using assms
proof (induction phs arbitrary: m)
  case (Cons ph phs)
  case 1
  then show ?case using Cons.IH(1) by (auto simp: pages_of_def loads_def load_pages_count_def)
next
  case (Cons ph phs)
  case 2
  show ?case
  proof (cases "segment_type ph = PROGRAM_HEADER_TYPE_LOAD")
    case True
    then have "segment_ok ph" using 2 by (simp add: loads_def seg_loadable_def)
    then have "fold spec_load_page (pages_of bytes ph) m = spec_load_segment bytes ph m"
      using segment_pages_fold [of ph "seg_pages ph" bytes m] True by (simp add: pages_of_def spec_load_segment_def)
    then show ?thesis using Cons.IH(2) 2 True by (simp add: loads_def)
  next
    case False
    then show ?thesis using Cons.IH(2) 2 by (simp add: loads_def pages_of_def)
  qed
qed (simp_all add: loads_def load_pages_count_def)

lemma paused_execute_file_ok:
  assumes at: "task_at t (4 * load_pages_count (elf_program_headers bytes) + 4) h M st" and t: "tid task = t" and m: "M t = Some m"
    and f: "task_reads f bytes st" "file_position f = 0" and ok: "elf_ok bytes" "\<forall>ph \<in> set (loads (elf_program_headers bytes)). seg_loadable bytes ph"
  shows "\<exists>f' st'. paused_execute_file task (f, st) = (Ok (enter_el0 (eh_entry_point (elf_header bytes)) STACK_INIT), (f', st'))
    \<and> task_at t 0 h (M(t \<mapsto> spec_zero_page 0x7FFFF (fold (spec_load_segment bytes) (loads (elf_program_headers bytes)) m))) st'"
proof -
  let ?phs = "elf_program_headers bytes" and ?r = "\<lparr>er_header = elf_header bytes, er_program_headers = elf_program_headers bytes\<rparr>"
  let ?n = "4 * load_pages_count (elf_program_headers bytes) + 4"
  obtain st1 where rd: "elf64_reader_new (f, sys_world (kt_system st)) = (Ok ?r, st1)" "reads st1 bytes" "snd st1 = sys_world (kt_system st)"
    using elf64_reader_new_ok [OF f(1) [unfolded task_reads_def] _ ok(1)] f(2) by auto
  have pw: "put_world (sys_world sys) sys = sys" for sys by (simp add: put_world_def sys_world_def)
  have run1: "on_file elf64_reader_new (f, kt_system st) = (Ok ?r, (fst st1, kt_system st))" using rd pw by (cases st1) (simp add: on_file_def)
  have "task_at t ?n h M (kt_put (kt_system st) st)" using at by simp
  from paused_file_ok [where f = "on_file elf64_reader_new", OF run1 this] obtain kt1
    where 1: "paused_file (on_file elf64_reader_new) (f, st) = (Ok ?r, (fst st1, kt1))" "task_at t ?n h M kt1" "kt_store kt1 = kt_store st" by auto
  have rd1: "task_reads (fst st1) bytes kt1" unfolding task_reads_def
    by (rule iffD2 [OF reads_store rd(2)]) (use rd(3) 1(3) in \<open>simp_all add: sys_world_def\<close>)
  have "task_at t (4 * length (concat (map (pages_of bytes) ?phs)) + 4) h M kt1" using 1(2) pages_all(1) [OF ok(2)] by simp
  from paused_loop_ok [OF this rd1 ok(2) pages_left_all _ m] obtain f2 kt2
    where 2: "paused_loop t ?phs \<lparr>program_header_index = 0, page_index = of_nat 0\<rparr> (fst st1, kt1) = Some (Ok (), (f2, kt2))"
      "task_at t (4 + 0) h (M(t \<mapsto> fold (spec_load_segment bytes) (loads ?phs) m)) kt2"
    unfolding pages_all(2) [OF ok(2)] by (auto simp: iterator_at_def)
  obtain q kt3 where 3: "paused (on_machine (on_kernel (on_space t (alloc_page (UserAddress 0x7FFFF000))))) kt2 = (Ok q, kt3)"
      "task_at t 0 h (M(t \<mapsto> spec_zero_page 0x7FFFF (fold (spec_load_segment bytes) (loads ?phs) m))) kt3"
    using paused_alloc [OF 2(2), of _ "0x7FFFF000"] by auto
  have "paused_execute_file task (f, st) = (Ok (enter_el0 (eh_entry_point (elf_header bytes)) STACK_INIT), (f2, kt3))"
    using 1(1) 2(1) 3(1) unfolding paused_execute_file_def stack_page t by (simp add: run_loop_def loadable_pages_new_def entry_point_def)
  then show ?thesis using 3(2) by blast
qed

lemma paused_execute_ok:
  assumes at: "task_at t (4 * load_pages_count (elf_program_headers bytes) + 4) h M st" and m: "M t = Some m"
    and op: "\<And>dev. fm_open (kt_vfs st) \<lparr>store = kt_store st, device_state = dev\<rparr> path = Ok f" and f: "task_reads f bytes st"
    and ok: "elf_ok bytes" "\<forall>ph \<in> set (loads (elf_program_headers bytes)). seg_loadable bytes ph"
  shows "\<exists>st'. paused_execute path st = (Ok \<lparr>ue_elr_el1 = eh_entry_point (elf_header bytes), ue_spsr_el1 = 0, ue_sp_el0 = 0x80000000\<rparr>, st')
    \<and> task_at t 0 h (M(t \<mapsto> spec_zero_page 0x7FFFF (fold (spec_load_segment bytes) (loads (elf_program_headers bytes)) m))) st'"
proof -
  let ?n = "4 * load_pages_count (elf_program_headers bytes) + 4"
  obtain x where x: "runs_task (rs_machine (kt_run st)) x" "tid x = t" using at by (rule task_atE)
  have run1: "on_machine the_current_task (kt_system st) = (Ok x, kt_system st)"
    using the_current_task_runs [OF x(1)] by (simp add: on_machine_def)
  have "task_at t ?n h M (kt_put (kt_system st) st)" using at by simp
  from paused_ok [where f = "on_machine the_current_task", OF run1 this] obtain st1
    where 1: "paused (on_machine the_current_task) st = (Ok x, st1)" "task_at t ?n h M st1" "kt_vfs st1 = kt_vfs st" "kt_store st1 = kt_store st" by auto
  let ?open = "\<lambda>sys. (fm_open (sys_vfs sys) (sys_world sys) path, sys)"
  have run2: "?open (kt_system st1) = (Ok f, kt_system st1)" using op [of "m_uart (rs_machine (kt_run st1))"] 1(3,4) by (simp add: sys_world_def)
  have "task_at t ?n h M (kt_put (kt_system st1) st1)" using 1(2) by simp
  from paused_ok [where f = ?open, OF run2 this] obtain st2
    where 2: "paused ?open st1 = (Ok f, st2)" "task_at t ?n h M st2" "kt_store st2 = kt_store st" using 1(4) by auto
  have rd: "task_reads f bytes st2" using f task_reads_store [OF 2(3)] by simp
  obtain f' st3 where "paused_execute_file x (f, st2) = (Ok (enter_el0 (eh_entry_point (elf_header bytes)) STACK_INIT), (f', st3))"
      "task_at t 0 h (M(t \<mapsto> spec_zero_page 0x7FFFF (fold (spec_load_segment bytes) (loads (elf_program_headers bytes)) m))) st3"
    using paused_execute_file_ok [OF 2(2) x(2) m rd fm_open_position [OF op] ok] by blast
  then show ?thesis using 1(1) 2(1) by (simp add: paused_execute_def enter_el0_def consts_defs)
qed

section \<open>From the loader to the program\<close>

lemma board_tasks_empty:
  assumes "\<forall>u. task_mem k u = Map.empty"
  shows "task_mems k = (\<lambda>u. if u \<in> dom (tasks (k_sched k)) then Some Map.empty else None)"
proof
  fix u
  show "task_mems k u = (if u \<in> dom (tasks (k_sched k)) then Some Map.empty else None)"
    using spec [OF assms, of u] by (cases "tasks (k_sched k) u") (auto simp: task_mems_def task_mem_def)
qed

lemma kinit_loads:
  assumes at: "task_at t (4 * load_pages_count (elf_program_headers cli) + 4) h M st" and m: "M t = Some m"
    and v: "kt_vfs st = vfs_booted" and w: "kt_store st = store (boot_world (tree4 cli) (Some (dev_tree serial_device)) w)"
    and cli: "vec_ok cli" "elf_ok cli" "\<forall>ph \<in> set (loads (elf_program_headers cli)). seg_loadable cli ph"
  shows "\<exists>st'. paused_kernel_run st = (Ok \<lparr>ue_elr_el1 = eh_entry_point (elf_header cli), ue_spsr_el1 = 0, ue_sp_el0 = 0x80000000\<rparr>, st')
    \<and> task_at t 0 h (M(t \<mapsto> spec_zero_page 0x7FFFF (fold (spec_load_segment cli) (loads (elf_program_headers cli)) m))) st'"
proof -
  let ?n = "4 * load_pages_count (elf_program_headers cli) + 4" and ?hello = "on_machine (println [ascii ''Hello, world!''])"
  obtain x tm where x: "loader (kt_system st) x tm" using at by (rule task_atE)
  have log: "m_log (rs_machine (kt_run st)) = serial_log" "uart_ready (m_uart (rs_machine (kt_run st)))"
    "monotonic (timer (k_core (rs_kernel (kt_run st)))) = Ok tm" using x by (simp_all add: loader_def)
  obtain mm where mm: "println [ascii ''Hello, world!''] (rs_machine (kt_run st)) = (Ok (), mm)"
      "printed (concat (timestamp tm) @ concat [ascii ''Hello, world!''] @ ascii [CHR 0x0A]) (rs_machine (kt_run st)) mm"
    using println_printed [OF log] by blast
  let ?sys = "(kt_system st)\<lparr>sys_machine := mm\<rparr>"
  have run: "?hello (kt_system st) = (Ok (), ?sys)" using mm(1) by (simp add: on_machine_def)
  have "sys_printed (concat (timestamp tm) @ concat [ascii ''Hello, world!''] @ ascii [CHR 0x0A]) (kt_system st) ?sys"
    using mm(2) by (auto simp: sys_printed_def)
  from paused_ok [where f = ?hello, OF run task_at_printed [OF at this]] obtain st1
    where 1: "paused ?hello st = (Ok (), st1)" "task_at t ?n h M st1" "kt_vfs st1 = kt_vfs st" "kt_store st1 = kt_store st" by auto
  have bw: "\<lparr>store = kt_store st1, device_state = dev\<rparr> = boot_world (tree4 cli) (Some (dev_tree serial_device)) \<lparr>store = kt_store st1, device_state = dev\<rparr>" for dev
    using 1(4) w by (simp add: boot_world_def)
  have op: "fm_open (kt_vfs st1) \<lparr>store = kt_store st1, device_state = dev\<rparr> \<lparr>path_tokens = [Literal ''bin'', Literal ''cli''], path_start = PathStart.Root\<rparr> = Ok (file_new cli_node)" for dev
    using cli_open [of cli "Some (dev_tree serial_device)" "\<lparr>store = kt_store st1, device_state = dev\<rparr>"] bw [of dev] v 1(3) by simp
  let ?w = "\<lparr>store = kt_store st1, device_state = m_uart (rs_machine (kt_run st1))\<rparr>"
  have "world_wf ?w" "file_bytes ?w (file_new cli_node) = Some cli"
    using vfs_wfD(1) [OF booted_wf(1) [OF cli(1), of serial_device ?w]] bw [symmetric] tree4_bytes [of cli "Some (dev_tree serial_device)" ?w] by simp_all
  then have rd: "task_reads (file_new cli_node) cli st1" by (simp add: task_reads_def reads_def sys_world_def)
  have "paused_kernel_run st = paused_execute \<lparr>path_tokens = [Literal ''bin'', Literal ''cli''], path_start = PathStart.Root\<rparr> st1"
    using 1(1) by (simp add: paused_kernel_run_def paths)
  then show ?thesis using paused_execute_ok [OF 1(2) m op rd cli(2,3)] by simp
qed

section \<open>The first tasks\<close>

text \<open>The kernel while it creates tasks: task 1 runs, the tasks in \<open>D\<close> exist and have no user memory yet, and \<open>c\<close> is the next identifier.\<close>

definition empty_tasks :: "task_id set \<Rightarrow> task_id \<Rightarrow> (usize \<Rightarrow> u8 option) option" where
  "empty_tasks D = (\<lambda>u. if u \<in> D then Some Map.empty else None)"

lemma empty_tasks_dom:
  assumes "task_mems k = empty_tasks D"
  shows "dom (tasks (k_sched k)) = D"
proof -
  have "dom (task_mems k) = dom (tasks (k_sched k))" by (simp add: task_mems_def dom_def)
  moreover have "dom (empty_tasks D) = D" by (simp add: empty_tasks_def dom_def)
  ultimately show ?thesis using assms by simp
qed

definition starting :: "nat \<Rightarrow> heap \<Rightarrow> task_id set \<Rightarrow> nat \<Rightarrow> kernel_task \<Rightarrow> bool" where
  "starting n h D c st \<longleftrightarrow> task_at 1 n h (empty_tasks D) st
     \<and> unat (task_counter (rs_kernel (kt_run st))) = c \<and> unat (asid_counter (k_mm (rs_kernel (kt_run st)))) = c
     \<and> (\<forall>u y. tasks (k_sched (rs_kernel (kt_run st))) u = Some y \<longrightarrow> user_map (k_mm (rs_kernel (kt_run st))) (mem_context y) = Map.empty)"

lemma paused_starting:
  assumes "f (kt_system st) = (Ok v, sys)" and st: "starting n h D c (kt_put sys st)"
  shows "\<exists>st'. paused f st = (Ok v, st') \<and> starting n h D c st' \<and> kt_vfs st' = sys_vfs sys \<and> kt_store st' = sys_store sys"
proof -
  let ?st = "kt_put sys st"
  have a: "system_wf (kt_run ?st)" "kernel_events (kt_pauses ?st)" using st by (simp_all add: starting_def task_at_def)
  obtain s ess where p: "pause ?st = (Ok (), ?st\<lparr>kt_run := s, kt_pauses := ess\<rparr>)" "system_wf s" "same_spaces (kt_run ?st) s"
    "running_id s = running_id (kt_run ?st)" "kernel_events ess" using pause_same [OF a] by blast
  have sp: "k_mm (rs_kernel s) = k_mm (rs_kernel (kt_run ?st))" "m_heap (rs_machine s) = m_heap (rs_machine (kt_run ?st))"
    "task_counter (rs_kernel s) = task_counter (rs_kernel (kt_run ?st))"
    "\<And>u. map_option mem_context (tasks (k_sched (rs_kernel s)) u) = map_option mem_context (tasks (k_sched (rs_kernel (kt_run ?st))) u)"
    using p(3) by (simp_all add: same_spaces_def)
  have old: "\<forall>u y. tasks (k_sched (rs_kernel (kt_run ?st))) u = Some y \<longrightarrow> user_map (k_mm (rs_kernel (kt_run ?st))) (mem_context y) = Map.empty"
    using st by (simp add: starting_def)
  have maps: "user_map (k_mm (rs_kernel s)) (mem_context y) = Map.empty" if u: "tasks (k_sched (rs_kernel s)) u = Some y" for u y
  proof -
    obtain z where "tasks (k_sched (rs_kernel (kt_run ?st))) u = Some z" "mem_context z = mem_context y"
      using sp(4) [of u] u by (cases "tasks (k_sched (rs_kernel (kt_run ?st))) u") simp_all
    then show ?thesis using old sp(1) by metis
  qed
  have "task_at 1 n h (empty_tasks D) (?st\<lparr>kt_run := s, kt_pauses := ess\<rparr>)"
    using st p(2,4,5) same_spaces_mems [OF p(3)] sp(1,2) by (simp add: starting_def task_at_def)
  then have "starting n h D c (?st\<lparr>kt_run := s, kt_pauses := ess\<rparr>)"
    using st sp(1,3) maps by (simp add: starting_def)
  moreover have "paused f st = (Ok v, ?st\<lparr>kt_run := s, kt_pauses := ess\<rparr>)" using assms(1) p(1) by (simp add: paused_def)
  ultimately show ?thesis by simp
qed

lemma startingI:
  assumes "platform_ready (rs_platform (kt_run st))" and x: "runs_task (sys_machine sys) x" "tid x = 1"
    and "heap_left 0 (m_heap (sys_machine sys))" "cntfrq_el0 (timer (k_core (m_kernel (sys_machine sys)))) \<noteq> 0" "kernel_events (kt_pauses st)"
    and "dom (tasks (k_sched (m_kernel (sys_machine sys)))) = D" and "room n (page_alloc_state (k_mm (m_kernel (sys_machine sys))))"
    and maps: "\<And>u y. tasks (k_sched (m_kernel (sys_machine sys))) u = Some y \<Longrightarrow> user_map (k_mm (m_kernel (sys_machine sys))) (mem_context y) = Map.empty"
    and "unat (task_counter (m_kernel (sys_machine sys))) = c" "unat (asid_counter (k_mm (m_kernel (sys_machine sys)))) = c"
  shows "starting n (m_heap (sys_machine sys)) D c (kt_put sys st)"
proof -
  let ?k = "m_kernel (sys_machine sys)"
  have kw: "kernel_wf ?k" using x(1) by (simp add: runs_task_def)
  have img: "image_wf (k_mm ?k, mem_context y)" "user_mem (k_mm ?k) (mem_context y) = Map.empty" if "tasks (k_sched ?k) u = Some y" for u y
  proof -
    have "ctx_wf (k_mm ?k, mem_context y)" using kw that by (auto simp: kernel_wf_def spaces_wf_def)
    then show "image_wf (k_mm ?k, mem_context y)" "user_mem (k_mm ?k) (mem_context y) = Map.empty"
      using image_wf_empty maps [OF that] by blast+
  qed
  have "task_mems ?k u = empty_tasks D u" for u
    using img(2) assms(7) by (cases "tasks (k_sched ?k) u") (auto simp: task_mems_def empty_tasks_def)
  then have "task_mems ?k = empty_tasks D" by (rule ext)
  moreover have "images_wf ?k" using img(1) by (simp add: images_wf_def)
  moreover have "running_id (kt_run (kt_put sys st)) = 1" using x by (simp add: running_id_def runs_task_def)
  ultimately show ?thesis using assms by (auto simp: starting_def task_at_def system_wf_def)
qed

lemma paused_create_kthread:
  assumes st: "starting (Suc (Suc n)) h D c st" and c: "1 < c" "c + 1 < 2 ^ 16"
  shows "\<exists>st'. paused (on_machine (on_kernel (\<lambda>k. apfst unwrap_res (create_kthread entry wrapper f k)))) st = (Ok (of_nat c), st')
    \<and> starting n h (insert (of_nat c) D) (c + 1) st' \<and> kt_vfs st' = kt_vfs st \<and> kt_store st' = kt_store st"
proof -
  let ?k = "rs_kernel (kt_run st)"
  have at: "task_at 1 (Suc (Suc n)) h (empty_tasks D) st" and cnt: "unat (task_counter ?k) = c" "unat (asid_counter (k_mm ?k)) = c"
    and maps: "\<And>u y. tasks (k_sched ?k) u = Some y \<Longrightarrow> user_map (k_mm ?k) (mem_context y) = Map.empty" using st by (auto simp: starting_def)
  have tc: "task_counter ?k = of_nat c" using cnt(1) by (metis of_nat_unat ucast_id)
  obtain x where x: "runs_task (rs_machine (kt_run st)) x" "tid x = 1" "tasks (k_sched ?k) 1 = Some x" using at by (rule task_atE)
  have kw: "kernel_wf ?k" using x(1) by (simp add: runs_task_def)
  have il: "task_ids_left ?k" using cnt c by (simp add: task_ids_left_def)
  have rm: "room (Suc (Suc n)) (page_alloc_state (k_mm ?k))" using at by (simp add: task_at_def)
  obtain k' y where k: "create_kthread entry wrapper f ?k = (Ok (task_counter ?k), k')" "kernel_wf k'"
      "tasks (k_sched k') = (tasks (k_sched ?k))(task_counter ?k \<mapsto> y)" "user_map (k_mm k') (mem_context y) = Map.empty"
      "\<forall>t z. tasks (k_sched ?k) t = Some z \<longrightarrow> user_map (k_mm k') (mem_context z) = user_map (k_mm ?k) (mem_context z)"
      "k_core k' = k_core ?k" "current_tasks (k_sched k') = current_tasks (k_sched ?k)"
      "task_counter k' = task_counter ?k + 1" "asid_counter (k_mm k') = asid_counter (k_mm ?k) + 1" "room n (page_alloc_state (k_mm k'))"
      "tasks (k_sched ?k) (task_counter ?k) = None"
    using create_kthread_ok [OF kw il rm, of entry wrapper f] by blast
  let ?sys = "(kt_system st)\<lparr>sys_machine := (rs_machine (kt_run st))\<lparr>m_kernel := k'\<rparr>\<rparr>"
  have n1: "task_counter ?k \<noteq> 1" using x(3) k(11) by auto
  have r: "runs_task (sys_machine ?sys) x" using x k(2,3,7) n1 by (simp add: runs_task_def)
  have D: "dom (tasks (k_sched ?k)) = D" using at by (intro empty_tasks_dom) (simp add: task_at_def)
  have h: "m_heap (rs_machine (kt_run st)) = h" "system_wf (kt_run st)" "kernel_events (kt_pauses st)" using at by (simp_all add: task_at_def)
  have "starting n (m_heap (sys_machine ?sys)) (insert (of_nat c) D) (c + 1) (kt_put ?sys st)"
  proof (rule startingI [OF _ r x(2)])
    show "user_map (k_mm (m_kernel (sys_machine ?sys))) (mem_context z) = Map.empty" if "tasks (k_sched (m_kernel (sys_machine ?sys))) u = Some z" for u z
      using that k(3,4,5) maps by (auto split: if_splits)
    have "unat (task_counter ?k + 1) = unat (task_counter ?k) + 1" "unat (asid_counter (k_mm ?k) + 1) = unat (asid_counter (k_mm ?k)) + 1"
      using cnt c by (simp_all add: unat_add_noof)
    then show "unat (task_counter (m_kernel (sys_machine ?sys))) = c + 1" "unat (asid_counter (k_mm (m_kernel (sys_machine ?sys)))) = c + 1"
      using cnt k(8,9) by simp_all
    show "dom (tasks (k_sched (m_kernel (sys_machine ?sys)))) = insert (of_nat c) D" using k(3) D tc by simp
  qed (use h k(6,10) in \<open>simp_all add: system_wf_def\<close>)
  then have s: "starting n h (insert (of_nat c) D) (c + 1) (kt_put ?sys st)" using h(1) by simp
  have "on_machine (on_kernel (\<lambda>k. apfst unwrap_res (create_kthread entry wrapper f k))) (kt_system st) = (Ok (of_nat c), ?sys)"
    using k(1) tc by (simp add: on_machine_def on_kernel_def)
  from paused_starting [where f = "on_machine (on_kernel (\<lambda>k. apfst unwrap_res (create_kthread entry wrapper f k)))", OF this s]
  show ?thesis by simp
qed

text \<open>The state of the core when \<^verbatim>\<open>kernel_init\<close> comes to the first task.\<close>

definition ready_for_tasks :: "heap \<Rightarrow> kernel_task \<Rightarrow> bool" where
  "ready_for_tasks h st \<longleftrightarrow>
     (let m = rs_machine (kt_run st); k = m_kernel m in
      platform_ready (rs_platform (kt_run st)) \<and> current_core (k_core k) = 0 \<and> k_sched k = scheduler_new 1 10000000 \<and> task_counter k = 1
      \<and> asid_counter (k_mm k) = 1 \<and> page_alloc_state (k_mm k) = boot_pages \<and> m_log m = serial_log \<and> uart_ready (m_uart m)
      \<and> once_lock_get (m_scheduler m) = Ok (Some ()) \<and> m_heap m = h \<and> heap_left 0 h \<and> cntfrq_el0 (timer (k_core k)) \<noteq> 0 \<and> kernel_events (kt_pauses st))"

lemma paused_kinit:
  assumes st: "ready_for_tasks h st" and n: "n + 1 \<le> 256512"
  shows "\<exists>st'. paused (on_machine (on_kernel (\<lambda>k. apfst unwrap_res (create_and_become_kinit k)))) st = (Ok 1, st')
    \<and> starting n h {1} 2 st' \<and> kt_vfs st' = kt_vfs st \<and> kt_store st' = kt_store st"
proof -
  let ?m = "rs_machine (kt_run st)"
  let ?k = "m_kernel ?m"
  have p: "platform_ready (rs_platform (kt_run st))" "current_core (k_core ?k) = 0" "k_sched ?k = scheduler_new 1 10000000" "task_counter ?k = 1"
    "asid_counter (k_mm ?k) = 1" "page_alloc_state (k_mm ?k) = boot_pages" "m_log ?m = serial_log" "uart_ready (m_uart ?m)"
    "once_lock_get (m_scheduler ?m) = Ok (Some ())" "m_heap ?m = h" "heap_left 0 h" "cntfrq_el0 (timer (k_core ?k)) \<noteq> 0" "kernel_events (kt_pauses st)"
    using st by (simp_all add: ready_for_tasks_def Let_def)
  let ?k0 = "?k\<lparr>k_mm := (k_mm ?k)\<lparr>page_alloc_state := ready_pages\<rparr>\<rparr>"
  have r: "room (Suc n) ready_pages" by (rule ready_pages_ok(1)) (use n in simp)
  have w: "mm_wf ((k_mm ?k)\<lparr>page_alloc_state := ready_pages\<rparr>)" "pa_fits ready_pages"
    using ready_pages_ok [of 0] by (simp_all add: mm_wf_def)
  have il: "task_ids_left ?k0" using p(4,5) by (simp add: task_ids_left_def)
  obtain k1 x where 1: "create_and_become_kinit ?k0 = (Ok 1, k1)" "kernel_wf k1" "current_tasks (k_sched k1) = [Some 1]"
      "tasks (k_sched k1) = [1 \<mapsto> x]" "user_map (k_mm k1) (mem_context x) = Map.empty" "timer (k_core k1) = set_duration 10000000 (timer (k_core ?k))"
      "task_counter k1 = 2" "asid_counter (k_mm k1) = 2" "tid x = 1" "room n (page_alloc_state (k_mm k1))"
    using create_and_become_kinit_ok [of ?k0 10000000 n] p(2-5) il w r by auto
  let ?sys = "(kt_system st)\<lparr>sys_machine := ?m\<lparr>m_kernel := k1\<rparr>\<rparr>"
  have run: "runs_task (sys_machine ?sys) x" using 1(2-4,9) p(7-9) by (simp add: runs_task_def)
  have fq: "cntfrq_el0 (timer (k_core k1)) \<noteq> 0" using 1(6) p(12) by (simp add: set_duration_def Let_def)
  have "starting n (m_heap (sys_machine ?sys)) {1} 2 (kt_put ?sys st)"
  proof (rule startingI [OF _ run 1(9)])
    show "user_map (k_mm (m_kernel (sys_machine ?sys))) (mem_context z) = Map.empty" if "tasks (k_sched (m_kernel (sys_machine ?sys))) u = Some z" for u z
      using that 1(4,5) by (auto split: if_splits)
  qed (use p(1,10,11,13) fq 1(4,7,8,10) in simp_all)
  then have s: "starting n h {1} 2 (kt_put ?sys st)" using p(10) by simp
  have "on_machine (on_kernel (\<lambda>k. apfst unwrap_res (create_and_become_kinit k))) (kt_system st) = (Ok 1, ?sys)"
    using 1(1) kinit_boot [OF p(6)] by (simp add: on_machine_def on_kernel_def)
  from paused_starting [where f = "on_machine (on_kernel (\<lambda>k. apfst unwrap_res (create_and_become_kinit k)))", OF this s]
  show ?thesis by simp
qed

lemma paused_init_tasks_ok:
  assumes st: "ready_for_tasks h st" and n: "n + 5 \<le> 256512" and cl: "im_closures im = [f1, f2]"
  shows "\<exists>st'. paused_init_tasks im st = (Ok (), st') \<and> task_at 1 n h (empty_tasks {1, 2, 3}) st' \<and> kt_vfs st' = kt_vfs st \<and> kt_store st' = kt_store st"
proof -
  obtain st1 where 1: "paused (on_machine (on_kernel (\<lambda>k. apfst unwrap_res (create_and_become_kinit k)))) st = (Ok 1, st1)"
      "starting (Suc (Suc (Suc (Suc n)))) h {1} 2 st1" "kt_vfs st1 = kt_vfs st" "kt_store st1 = kt_store st"
    using paused_kinit [OF st, of "Suc (Suc (Suc (Suc n)))"] n by auto
  obtain st2 where 2: "paused (on_machine (on_kernel (\<lambda>k. apfst unwrap_res (create_kthread (im_entry im) (im_wrapper im) f1 k)))) st1 = (Ok (of_nat 2), st2)"
      "starting (Suc (Suc n)) h {of_nat 2, 1} (2 + 1) st2" "kt_vfs st2 = kt_vfs st1" "kt_store st2 = kt_store st1"
    using paused_create_kthread [OF 1(2), of "im_entry im" "im_wrapper im" f1] by auto
  obtain st3 where 3: "paused (on_machine (on_kernel (\<lambda>k. apfst unwrap_res (create_kthread (im_entry im) (im_wrapper im) f2 k)))) st2 = (Ok (of_nat (2 + 1)), st3)"
      "starting n h {of_nat (2 + 1), of_nat 2, 1} (2 + 1 + 1) st3" "kt_vfs st3 = kt_vfs st2" "kt_store st3 = kt_store st2"
    using paused_create_kthread [OF 2(2), of "im_entry im" "im_wrapper im" f2] by auto
  have "{of_nat (2 + 1), of_nat 2, 1} = {1, 2, 3 :: task_id}" by auto
  then have "task_at 1 n h (empty_tasks {1, 2, 3}) st3" using 3(2) by (simp add: starting_def)
  then show ?thesis using 1 2 3 cl by (simp add: paused_init_tasks_def)
qed

section \<open>From the loader to the program\<close>

definition kinit_at :: "board \<Rightarrow> (task_id \<Rightarrow> trap_frame) \<Rightarrow> heap \<Rightarrow> event list list \<Rightarrow> kernel_task" where
  "kinit_at b frames h ess = \<lparr>kt_run = \<lparr>rs_frames = frames, rs_platform = with_heap h (b_platform b)\<rparr>, kt_vfs = b_vfs b, kt_store = b_store b, kt_pauses = ess\<rparr>"

text \<open>
  C4. The kernel boots into the program also when it is interrupted. From the state the loader leaves, \<^verbatim>\<open>kernel_init\<close> sets up its parts and
  then, with the first task, enables interrupts. From there on it may be preempted after each of its operations: at every pause the timer may fire
  any number of times, the threads that exist by then may compute and print in any order, and the counter of the timer goes on. The outcome is always
  the same: the kernel threads are created; the core enters EL0 at the entry point of the program as task 1, which has exactly the memory that the
  headers describe, and the kernel threads have none; and the system is well-formed, so that what follows is what the abstract machine does.
\<close>

theorem preempted_boot:
  assumes "board_reset b" and "image_fits im"
  shows "\<exists>b1. kernel_setup im b = (Ok (), b1)
    \<and> (\<forall>frames h ess. heap_left 0 h \<longrightarrow> kernel_events ess \<longrightarrow>
        (\<exists>st. paused_kernel_init im (kinit_at b1 frames h ess) = (Ok \<lparr>ue_elr_el1 = eh_entry_point (elf_header (im_cli im)), ue_spsr_el1 = 0, ue_sp_el0 = 0x80000000\<rparr>, st)
          \<and> system_wf (kt_run st) \<and> running_id (kt_run st) = 1 \<and> m_heap (rs_machine (kt_run st)) = h
          \<and> task_mems (rs_kernel (kt_run st)) = [1 \<mapsto> program_memory im, 2 \<mapsto> Map.empty, 3 \<mapsto> Map.empty]))"
proof -
  let ?k = "m_kernel (p_machine (b_platform b))" and ?n = "4 * load_pages_count (elf_program_headers (im_cli im)) + 4"
  obtain b1 where 1: "kernel_setup im b = (Ok (), b1)" "platform_ready (b_platform b1)"
      "m_kernel (p_machine (b_platform b1)) = ?k\<lparr>k_mm := (k_mm ?k)\<lparr>page_alloc_state := boot_pages\<rparr>, k_sched := scheduler_new 1 10000000\<rparr>"
      "m_log (p_machine (b_platform b1)) = serial_log" "uart_ready (m_uart (p_machine (b_platform b1)))"
      "once_lock_get (m_scheduler (p_machine (b_platform b1))) = Ok (Some ())"
      "b_vfs b1 = vfs_booted" "b_store b1 = store (boot_world (tree4 (im_cli im)) (Some (dev_tree serial_device)) undefined)"
    using kernel_setup_ok [OF assms] by blast
  have r: "current_core (k_core ?k) = 0" "cntfrq_el0 (timer (k_core ?k)) \<noteq> 0" "task_counter ?k = 1" "asid_counter (k_mm ?k) = 1"
    using assms(1) by (simp_all add: board_reset_def Let_def)
  have cli: "vec_ok (im_cli im)" "elf_ok (im_cli im)" "\<forall>ph \<in> set (loads (elf_program_headers (im_cli im))). seg_loadable (im_cli im) ph"
    and n: "?n + 5 \<le> 256512" using assms(2) by (simp_all add: image_fits_def)
  obtain f1 f2 where cl: "im_closures im = [f1, f2]"
    using assms(2) unfolding image_fits_def by (auto simp: length_Suc_conv numeral_2_eq_2)
  have "\<exists>st. paused_kernel_init im (kinit_at b1 frames h ess) = (Ok \<lparr>ue_elr_el1 = eh_entry_point (elf_header (im_cli im)), ue_spsr_el1 = 0, ue_sp_el0 = 0x80000000\<rparr>, st)
          \<and> system_wf (kt_run st) \<and> running_id (kt_run st) = 1 \<and> m_heap (rs_machine (kt_run st)) = h
          \<and> task_mems (rs_kernel (kt_run st)) = [1 \<mapsto> program_memory im, 2 \<mapsto> Map.empty, 3 \<mapsto> Map.empty]"
    if h: "heap_left 0 h" and ess: "kernel_events ess" for frames h ess
  proof -
    let ?st = "kinit_at b1 frames h ess"
    have "m_log (p_machine (with_heap h p)) = m_log (p_machine p)" "m_uart (p_machine (with_heap h p)) = m_uart (p_machine p)"
      "m_scheduler (p_machine (with_heap h p)) = m_scheduler (p_machine p)" for p by (simp_all add: with_heap_def)
    then have "ready_for_tasks h ?st" using 1(2-6) r h ess by (simp add: ready_for_tasks_def kinit_at_def)
    from paused_init_tasks_ok [OF this n cl] obtain st1
      where st1: "paused_init_tasks im ?st = (Ok (), st1)" "task_at 1 ?n h (empty_tasks {1, 2, 3}) st1" "kt_vfs st1 = kt_vfs ?st" "kt_store st1 = kt_store ?st" by blast
    have vs: "kt_vfs st1 = vfs_booted" "kt_store st1 = store (boot_world (tree4 (im_cli im)) (Some (dev_tree serial_device)) undefined)"
      using st1(3,4) 1(7,8) by (simp_all add: kinit_at_def)
    have M1: "empty_tasks {1, 2, 3} 1 = Some Map.empty" by (simp add: empty_tasks_def)
    obtain st2 where st2: "paused_kernel_run st1 = (Ok \<lparr>ue_elr_el1 = eh_entry_point (elf_header (im_cli im)), ue_spsr_el1 = 0, ue_sp_el0 = 0x80000000\<rparr>, st2)"
        "task_at 1 0 h ((empty_tasks {1, 2, 3})(1 \<mapsto> program_memory im)) st2"
      using kinit_loads [OF st1(2) M1 vs cli] unfolding program_memory_def by blast
    have "(empty_tasks {1, 2, 3})(1 \<mapsto> program_memory im) = [1 \<mapsto> program_memory im, 2 \<mapsto> Map.empty, 3 \<mapsto> Map.empty]"
      by (rule ext) (simp add: empty_tasks_def)
    then show ?thesis using st1(1) st2 by (simp add: paused_kernel_init_def task_at_def)
  qed
  then show ?thesis using 1(1) by blast
qed

text \<open>One preemption while the program is loaded: the two kernel threads run once each.\<close>

definition pause0 :: "event list" where
  "pause0 = [timer_fires, Interrupt, Thread_Round, timer_fires, Interrupt, Thread_Round]"

theorem preempted_boot_witness:
  "\<exists>b1 st. kernel_setup image0 board0 = (Ok (), b1)
    \<and> paused_kernel_init image0 (kinit_at b1 (\<lambda>_. frame0) (heap_new 0xFFFF000000100000) [[], [Interrupt], [], pause0])
        = (Ok \<lparr>ue_elr_el1 = 0x400000, ue_spsr_el1 = 0, ue_sp_el0 = 0x80000000\<rparr>, st)
    \<and> task_mems (rs_kernel (kt_run st)) 1 = Some (spec_zero_page 0x7FFFF (spec_load_segment elf0 ph0 Map.empty))"
proof -
  have i: "im_cli image0 = elf0" "eh_entry_point header0 = 0x400000" by (simp_all add: image0_def header0_def)
  have m: "program_memory image0 = spec_zero_page 0x7FFFF (spec_load_segment elf0 ph0 Map.empty)"
    by (simp add: program_memory_def i elf0_ok(2) ph0_loads(1))
  have h: "heap_left 0 (heap_new 0xFFFF000000100000)" by (simp add: heap_left_def heap_new_def HEAP_N_def)
  have e: "kernel_events [[], [Interrupt], [], pause0]" by (simp add: pause0_def timer_fires_def)
  obtain b1 st where "kernel_setup image0 board0 = (Ok (), b1)"
      "paused_kernel_init image0 (kinit_at b1 (\<lambda>_. frame0) (heap_new 0xFFFF000000100000) [[], [Interrupt], [], pause0])
        = (Ok \<lparr>ue_elr_el1 = 0x400000, ue_spsr_el1 = 0, ue_sp_el0 = 0x80000000\<rparr>, st)"
      "task_mems (rs_kernel (kt_run st)) = [1 \<mapsto> program_memory image0, 2 \<mapsto> Map.empty, 3 \<mapsto> Map.empty]"
    using preempted_boot [OF board0_reset image0_fits] h e unfolding i elf0_header(1) by blast
  then show ?thesis using m by auto
qed

end
