(* ===== verification/Stubs.thy ===== *)
theory Stubs
  imports Vector_Table
begin

text \<open>
  The assembly around the Rust code: the macros \<^verbatim>\<open>save_regs\<close> and \<^verbatim>\<open>load_regs\<close> of \<^verbatim>\<open>abi/aarch64/vector_table.s\<close> and \<^verbatim>\<open>cpu_context_switch\<close> of
  \<^verbatim>\<open>cpu/aarch64/cpu_context.s\<close>, with the layout that \<^verbatim>\<open>repr(C)\<close> gives to the structures the Rust code reads. The theorems say that the
  two agree: what a handler finds in the structure is what the registers held, and what it leaves there is what they
  hold afterwards.
\<close>

section \<open>Layout\<close>

text \<open>Word \<open>n\<close> of a structure of \<^verbatim>\<open>u64\<close> fields at \<open>p\<close>.\<close>

definition slot :: "u64 \<Rightarrow> nat \<Rightarrow> u64" where
  "slot p n = p + of_nat (8 * n)"

text \<open>\<^verbatim>\<open>stp a, b, [p, #16 * i]\<close> and \<^verbatim>\<open>ldp a, b, [p, #16 * i]\<close>.\<close>

definition stp :: "u64 \<Rightarrow> u64 \<Rightarrow> u64 \<Rightarrow> nat \<Rightarrow> mem \<Rightarrow> mem" where
  "stp a b p i m = write_u64 (write_u64 m (slot p (2 * i)) a) (slot p (2 * i + 1)) b"

definition ldp :: "u64 \<Rightarrow> nat \<Rightarrow> mem \<Rightarrow> u64 \<times> u64" where
  "ldp p i m = (read_u64 m (slot p (2 * i)), read_u64 m (slot p (2 * i + 1)))"

text \<open>The structure \<^verbatim>\<open>Registers\<close> of \<^verbatim>\<open>vector_table.rs\<close> at an address, and its size.\<close>

definition TASK_REGS_SIZE :: u64 where
  "TASK_REGS_SIZE = 34 * 8"

definition registers_at :: "mem \<Rightarrow> u64 \<Rightarrow> trap_frame" where
  "registers_at m p = \<lparr>r_x0 = read_u64 m (slot p 0), r_x1 = read_u64 m (slot p 1), r_x2 = read_u64 m (slot p 2), r_x3 = read_u64 m (slot p 3),
     r_x4 = read_u64 m (slot p 4), r_x5 = read_u64 m (slot p 5), r_x6 = read_u64 m (slot p 6), r_x7 = read_u64 m (slot p 7),
     r_x8 = read_u64 m (slot p 8), r_x9 = read_u64 m (slot p 9), r_x10 = read_u64 m (slot p 10), r_x11 = read_u64 m (slot p 11),
     r_x12 = read_u64 m (slot p 12), r_x13 = read_u64 m (slot p 13), r_x14 = read_u64 m (slot p 14), r_x15 = read_u64 m (slot p 15),
     r_x16 = read_u64 m (slot p 16), r_x17 = read_u64 m (slot p 17), r_x18 = read_u64 m (slot p 18), r_x19 = read_u64 m (slot p 19),
     r_x20 = read_u64 m (slot p 20), r_x21 = read_u64 m (slot p 21), r_x22 = read_u64 m (slot p 22), r_x23 = read_u64 m (slot p 23),
     r_x24 = read_u64 m (slot p 24), r_x25 = read_u64 m (slot p 25), r_x26 = read_u64 m (slot p 26), r_x27 = read_u64 m (slot p 27),
     r_x28 = read_u64 m (slot p 28), r_fp = read_u64 m (slot p 29), r_lr = read_u64 m (slot p 30), r_sp_el0 = read_u64 m (slot p 31),
     r_elr_el1 = read_u64 m (slot p 32), r_spsr_el1 = read_u64 m (slot p 33)\<rparr>"

section \<open>Entry and return\<close>

text \<open>All registers of the core at EL1: those of the frame, and the stack pointer of EL1.\<close>

record core_regs = trap_frame +
  r_sp :: u64

definition save_regs :: "core_regs \<times> mem \<Rightarrow> core_regs \<times> mem" where
  "save_regs st =
     (case st of (c, m) \<Rightarrow>
      let c = c\<lparr>r_sp := r_sp c - TASK_REGS_SIZE\<rparr>;
          m = stp (r_x0 c) (r_x1 c) (r_sp c) 0 m;
          m = stp (r_x2 c) (r_x3 c) (r_sp c) 1 m;
          m = stp (r_x4 c) (r_x5 c) (r_sp c) 2 m;
          m = stp (r_x6 c) (r_x7 c) (r_sp c) 3 m;
          m = stp (r_x8 c) (r_x9 c) (r_sp c) 4 m;
          m = stp (r_x10 c) (r_x11 c) (r_sp c) 5 m;
          m = stp (r_x12 c) (r_x13 c) (r_sp c) 6 m;
          m = stp (r_x14 c) (r_x15 c) (r_sp c) 7 m;
          m = stp (r_x16 c) (r_x17 c) (r_sp c) 8 m;
          m = stp (r_x18 c) (r_x19 c) (r_sp c) 9 m;
          m = stp (r_x20 c) (r_x21 c) (r_sp c) 10 m;
          m = stp (r_x22 c) (r_x23 c) (r_sp c) 11 m;
          m = stp (r_x24 c) (r_x25 c) (r_sp c) 12 m;
          m = stp (r_x26 c) (r_x27 c) (r_sp c) 13 m;
          m = stp (r_x28 c) (r_fp c) (r_sp c) 14 m;
          c = c\<lparr>r_x21 := r_sp_el0 c\<rparr>;
          m = stp (r_lr c) (r_x21 c) (r_sp c) 15 m;
          c = c\<lparr>r_x21 := r_elr_el1 c\<rparr>;
          c = c\<lparr>r_x22 := r_spsr_el1 c\<rparr>;
          m = stp (r_x21 c) (r_x22 c) (r_sp c) 16 m
      in (c, m))"

definition load_regs :: "core_regs \<times> mem \<Rightarrow> core_regs \<times> mem" where
  "load_regs st =
     (case st of (c, m) \<Rightarrow>
      let c = (case ldp (r_sp c) 16 m of (a, b) \<Rightarrow> c\<lparr>r_x21 := a, r_x22 := b\<rparr>);
          c = c\<lparr>r_elr_el1 := r_x21 c\<rparr>;
          c = c\<lparr>r_spsr_el1 := r_x22 c\<rparr>;
          c = (case ldp (r_sp c) 15 m of (a, b) \<Rightarrow> c\<lparr>r_lr := a, r_x21 := b\<rparr>);
          c = c\<lparr>r_sp_el0 := r_x21 c\<rparr>;
          c = (case ldp (r_sp c) 0 m of (a, b) \<Rightarrow> c\<lparr>r_x0 := a, r_x1 := b\<rparr>);
          c = (case ldp (r_sp c) 1 m of (a, b) \<Rightarrow> c\<lparr>r_x2 := a, r_x3 := b\<rparr>);
          c = (case ldp (r_sp c) 2 m of (a, b) \<Rightarrow> c\<lparr>r_x4 := a, r_x5 := b\<rparr>);
          c = (case ldp (r_sp c) 3 m of (a, b) \<Rightarrow> c\<lparr>r_x6 := a, r_x7 := b\<rparr>);
          c = (case ldp (r_sp c) 4 m of (a, b) \<Rightarrow> c\<lparr>r_x8 := a, r_x9 := b\<rparr>);
          c = (case ldp (r_sp c) 5 m of (a, b) \<Rightarrow> c\<lparr>r_x10 := a, r_x11 := b\<rparr>);
          c = (case ldp (r_sp c) 6 m of (a, b) \<Rightarrow> c\<lparr>r_x12 := a, r_x13 := b\<rparr>);
          c = (case ldp (r_sp c) 7 m of (a, b) \<Rightarrow> c\<lparr>r_x14 := a, r_x15 := b\<rparr>);
          c = (case ldp (r_sp c) 8 m of (a, b) \<Rightarrow> c\<lparr>r_x16 := a, r_x17 := b\<rparr>);
          c = (case ldp (r_sp c) 9 m of (a, b) \<Rightarrow> c\<lparr>r_x18 := a, r_x19 := b\<rparr>);
          c = (case ldp (r_sp c) 10 m of (a, b) \<Rightarrow> c\<lparr>r_x20 := a, r_x21 := b\<rparr>);
          c = (case ldp (r_sp c) 11 m of (a, b) \<Rightarrow> c\<lparr>r_x22 := a, r_x23 := b\<rparr>);
          c = (case ldp (r_sp c) 12 m of (a, b) \<Rightarrow> c\<lparr>r_x24 := a, r_x25 := b\<rparr>);
          c = (case ldp (r_sp c) 13 m of (a, b) \<Rightarrow> c\<lparr>r_x26 := a, r_x27 := b\<rparr>);
          c = (case ldp (r_sp c) 14 m of (a, b) \<Rightarrow> c\<lparr>r_x28 := a, r_fp := b\<rparr>);
          c = c\<lparr>r_sp := r_sp c + TASK_REGS_SIZE\<rparr>
      in (c, m))"

section \<open>The stack frame\<close>

lemma slot_bytes:
  assumes "i < 2 ^ 32" and "j < 2 ^ 32" and "i \<noteq> j" and "k < 8"
  shows "\<not> unat (slot p j + of_nat k - slot p i) < 8"
proof -
  have u: "unat (of_nat (8 * i) :: u64) = 8 * i" "unat (of_nat (8 * j + k) :: u64) = 8 * j + k"
    using assms by (intro unat_of_nat64; simp)+
  have "slot p j + of_nat k - slot p i = of_nat (8 * j + k) - of_nat (8 * i)" by (simp add: slot_def)
  then show ?thesis using assms u by (simp only:) (subst word_diff_less_iff, auto)
qed

lemma read_slot:
  "i < 2 ^ 32 \<Longrightarrow> j < 2 ^ 32 \<Longrightarrow> read_u64 (write_u64 m (slot p i) v) (slot p j) = (if i = j then v else read_u64 m (slot p j))"
proof (cases "i = j")
  case False
  assume "i < 2 ^ 32" "j < 2 ^ 32"
  then have "read_u64 (write_u64 m (slot p i) v) (slot p j) = read_u64 m (slot p j)"
    using slot_bytes [of i j _ p] False by (intro read_u64_cong) (simp add: write_u64_def write_bytes_at_def)
  then show ?thesis using False by simp
qed simp

lemma read_slot_cong:
  assumes "\<And>x. unat (x - p) < 8 * n \<Longrightarrow> m x = m' x" and "i < n" and "n < 2 ^ 32"
  shows "read_u64 m (slot p i) = read_u64 m' (slot p i)"
proof (rule read_u64_cong)
  fix k :: nat assume "k < 8"
  then have "unat (of_nat (8 * i + k) :: u64) = 8 * i + k" using assms(2,3) by (intro unat_of_nat64) simp
  moreover have "slot p i + of_nat k - p = of_nat (8 * i + k)" by (simp add: slot_def)
  ultimately have "unat (slot p i + of_nat k - p) = 8 * i + k" by (simp only:)
  then show "m (slot p i + of_nat k) = m' (slot p i + of_nat k)" using assms(2) \<open>k < 8\<close> by (intro assms(1)) linarith
qed

lemma registers_at_cong:
  assumes "\<And>x. unat (x - p) < 272 \<Longrightarrow> m x = m' x"
  shows "registers_at m p = registers_at m' p"
proof -
  have "read_u64 m (slot p i) = read_u64 m' (slot p i)" if "i < 34" for i
    by (rule read_slot_cong [OF _ that]) (simp_all add: assms)
  then show ?thesis by (simp add: registers_at_def)
qed

lemma write_slot_outside:
  assumes "8 * n \<le> unat (x - p)" and "i < n" and "n < 2 ^ 32"
  shows "write_u64 m (slot p i) v x = m x"
proof -
  have u: "unat (of_nat (8 * i) :: u64) = 8 * i" using assms by (intro unat_of_nat64) simp
  have e: "x - slot p i = (x - p) - of_nat (8 * i)" by (simp add: slot_def)
  have "unat ((x - p) - of_nat (8 * i)) = unat (x - p) - 8 * i" using assms(1,2) u by (subst unat_sub_noof) (simp_all only: u)
  then have "\<not> unat (x - slot p i) < 8" using assms(1,2) unfolding e by simp
  then show ?thesis by (simp only: write_u64_def write_bytes_at_def) (simp add: word_le_def)
qed

text \<open>What the entry leaves: the frame below the old stack pointer, with all registers in their fields.\<close>

lemma save_regs_frame:
  assumes "save_regs (c, m) = (c', m')"
  shows "r_sp c' = r_sp c - 272" and "registers_at m' (r_sp c') = trap_frame.truncate c"
    and "272 \<le> unat (x - (r_sp c - 272)) \<Longrightarrow> m' x = m x"
proof -
  show p: "r_sp c' = r_sp c - 272" using assms by (auto simp: save_regs_def Let_def TASK_REGS_SIZE_def)
  have m': "m' = snd (save_regs (c, m))" using assms by simp
  show "registers_at m' (r_sp c') = trap_frame.truncate c"
    unfolding p m' by (simp add: save_regs_def Let_def TASK_REGS_SIZE_def registers_at_def stp_def read_slot trap_frame.truncate_def)
  show "m' x = m x" if "272 \<le> unat (x - (r_sp c - 272))"
  proof -
    have "write_u64 w (slot (r_sp c - 272) i) v x = w x" if "i < 34" for w i v
      using write_slot_outside [of 34 x "r_sp c - 272" i] \<open>272 \<le> unat (x - (r_sp c - 272))\<close> that by simp
    then show ?thesis unfolding m' by (simp add: save_regs_def Let_def TASK_REGS_SIZE_def stp_def)
  qed
qed

text \<open>What the return loads: every register from its field, wherever it was.\<close>

lemma load_regs_frame:
  "load_regs (d, m) = (trap_frame.extend (registers_at m (r_sp d)) (core_regs.fields (r_sp d + 272)), m)"
  by (cases d) (simp add: load_regs_def Let_def TASK_REGS_SIZE_def registers_at_def ldp_def trap_frame.defs core_regs.defs)

text \<open>
  The stub of a synchronous exception from EL0. The Rust code it calls gets the frame by its address, stores its result in the field \<^verbatim>\<open>x0\<close>, and
  returns with the stack pointer it was called with; \<open>left\<close> is what it leaves in all other registers, and \<open>rust\<close> what it does to the rest of the
  memory, its own stack below the frame included.
\<close>

definition el0_sync_stub :: "(mem \<Rightarrow> mem) \<Rightarrow> core_regs \<Rightarrow> u64 \<Rightarrow> u64 \<Rightarrow> core_regs \<times> mem \<Rightarrow> platform \<Rightarrow> unit res \<times> ((core_regs \<times> mem) \<times> platform)" where
  "el0_sync_stub rust left esr_el1 far_el1 st p =
     (case save_regs st of (c, m) \<Rightarrow>
      case vector_sync_el0 (registers_at m (r_sp c)) esr_el1 far_el1 (r_elr_el1 c) p of (r, (frame, p)) \<Rightarrow>
        and_then (r, ((left\<lparr>r_sp := r_sp c\<rparr>, write_u64 (rust m) (slot (r_sp c) 0) (r_x0 frame)), p)) (\<lambda>_ (st, p). (Ok (), (load_regs st, p))))"

lemma vector_sync_el0_frame:
  assumes "vector_sync_el0 f esr far elr p = (r, (f', p'))"
  shows "f' = f\<lparr>r_x0 := r_x0 f'\<rparr>"
  using assms unfolding vector_sync_el0_def
  by (cases "installed_table p") (auto split: if_splits outcome.splits prod.splits)

lemma registers_at_x0: "registers_at (write_u64 m (slot p 0) v) p = (registers_at m p)\<lparr>r_x0 := v\<rparr>"
  by (simp add: registers_at_def read_slot)

text \<open>
  C8. Exceptions are transparent. Whatever the registers hold, wherever the stack of the kernel is, and whatever the Rust code leaves in
  the registers and outside the frame of 272 bytes below the stack pointer in memory: when the handler returns for the saved registers as its argument, the core goes back to EL0 with exactly the registers
  the handler gave back, all others and the stack pointer as before, and outside the frame no byte is written that the Rust code does not
  write. So the order and the offsets in the assembly agree with the structure \<^verbatim>\<open>Registers\<close>.
\<close>

theorem el0_sync_stub_transparent:
  assumes "vector_sync_el0 (trap_frame.truncate c) esr far (r_elr_el1 c) p = (Ok (), (f, p'))"
    and "\<And>m x. unat (x - (r_sp c - 272)) < 272 \<Longrightarrow> rust m x = m x"
  shows "\<exists>m'. el0_sync_stub rust left esr far (c, m) p = (Ok (), ((trap_frame.extend f (core_regs.fields (r_sp c)), m'), p'))
    \<and> f = (trap_frame.truncate c)\<lparr>r_x0 := r_x0 f\<rparr>
    \<and> (\<forall>x. 272 \<le> unat (x - (r_sp c - 272)) \<longrightarrow> (\<forall>m. rust m x = m x) \<longrightarrow> m' x = m x)"
proof -
  obtain c1 m1 where s: "save_regs (c, m) = (c1, m1)" by fastforce
  note fr = save_regs_frame [OF s]
  have e: "r_elr_el1 c1 = r_elr_el1 c" using s by (auto simp: save_regs_def Let_def)
  have keep: "registers_at (rust m1) (r_sp c1) = registers_at m1 (r_sp c1)"
    by (rule registers_at_cong) (simp add: fr(1) assms(2))
  let ?m = "write_u64 (rust m1) (slot (r_sp c1) 0) (r_x0 f)" and ?d = "left\<lparr>r_sp := r_sp c1\<rparr>"
  have f: "f = (trap_frame.truncate c)\<lparr>r_x0 := r_x0 f\<rparr>" by (rule vector_sync_el0_frame [OF assms(1)])
  have "registers_at ?m (r_sp ?d) = f" using f by (simp add: registers_at_x0 keep fr(2))
  then have "load_regs (?d, ?m) = (trap_frame.extend f (core_regs.fields (r_sp c)), ?m)"
    by (subst load_regs_frame) (simp add: fr(1))
  then have "el0_sync_stub rust left esr far (c, m) p = (Ok (), ((trap_frame.extend f (core_regs.fields (r_sp c)), ?m), p'))"
    using assms(1) by (simp add: el0_sync_stub_def s fr(2) e)
  moreover have "?m x = m x" if "272 \<le> unat (x - (r_sp c - 272))" "\<forall>m. rust m x = m x" for x
    using write_slot_outside [of 34 x "r_sp c - 272" 0] that fr(1) fr(3) [OF that(1)] by simp
  ultimately show ?thesis using f by blast
qed

theorem el0_sync_stub_transparent_witness:
  "\<exists>m' p'. el0_sync_stub (\<lambda>m x. if x < 0x70000 then 9 else m x) (trap_frame.extend frame0 (core_regs.fields 0)) 0x56000000 0 (trap_frame.extend (frame0\<lparr>r_x8 := 64, r_x21 := 7, r_x0 := 2\<rparr>) (core_regs.fields 0x80000), \<lambda>_. 5)
      (platform_of (machine_of (fst mm1) (snd mm1)))
    = (Ok (), ((trap_frame.extend (frame0\<lparr>r_x8 := 64, r_x21 := 7, r_x0 := - 9\<rparr>) (core_regs.fields 0x80000), m'), p'))
    \<and> m' 0x80000 = 5"
proof -
  let ?f = "frame0\<lparr>r_x8 := 64, r_x21 := 7, r_x0 := 2\<rparr>" and ?p = "platform_of (machine_of (fst mm1) (snd mm1))"
  let ?c = "trap_frame.extend ?f (core_regs.fields 0x80000)"
  have t: "trap_frame.truncate ?c = ?f" "r_elr_el1 ?c = r_elr_el1 ?f" "r_sp ?c = 0x80000"
    by (simp_all add: trap_frame.defs core_regs.defs frame0_def)
  have "is_svc 0x56000000" by (simp add: is_svc_def consts_defs)
  moreover have "r_x8 ?f = 64" by simp
  moreover have "sys_write_call (svc_args ?f) (p_machine ?p) = (Err BadFileNumber, p_machine ?p)"
    by (rule sys_write_bad_fd) (simp add: svc_args_simps)
  ultimately have h: "vector_sync_el0 (trap_frame.truncate ?c) 0x56000000 0 (r_elr_el1 ?c) ?p = (Ok (), (?f\<lparr>r_x0 := - 9\<rparr>, ?p))"
    unfolding t using svc_write [OF platform_of_ready, where frame = ?f and esr = "0x56000000" and far = 0 and elr = "r_elr_el1 ?f"] by simp
  have "?f\<lparr>r_x0 := - 9\<rparr> = frame0\<lparr>r_x8 := 64, r_x21 := 7, r_x0 := - 9\<rparr>" by simp
  moreover have "(if x < 0x70000 then 9 else m x) = m x" if "unat (x - (r_sp ?c - 272)) < 272" for m :: mem and x
    using that unfolding t by (auto simp: word_less_nat_alt unat_sub_if')
  ultimately show ?thesis
    using el0_sync_stub_transparent [OF h, of "\<lambda>m x. if x < 0x70000 then 9 else m x" "trap_frame.extend frame0 (core_regs.fields 0)" "\<lambda>_. 5"] unfolding t by auto
qed

section \<open>The context switch\<close>

text \<open>The structure \<^verbatim>\<open>Registers\<close> of \<^verbatim>\<open>cpu_context.rs\<close> at an address.\<close>

definition cpu_registers_at :: "mem \<Rightarrow> u64 \<Rightarrow> registers" where
  "cpu_registers_at m p = \<lparr>x19 = read_u64 m (slot p 0), x20 = read_u64 m (slot p 1), x21 = read_u64 m (slot p 2), x22 = read_u64 m (slot p 3),
     x23 = read_u64 m (slot p 4), x24 = read_u64 m (slot p 5), x25 = read_u64 m (slot p 6), x26 = read_u64 m (slot p 7),
     x27 = read_u64 m (slot p 8), x28 = read_u64 m (slot p 9), fp = read_u64 m (slot p 10), lr = read_u64 m (slot p 11),
     sp = read_u64 m (slot p 12)\<rparr>"

definition cpu_context_switch_stub :: "u64 \<Rightarrow> u64 \<Rightarrow> registers \<times> mem \<Rightarrow> registers \<times> mem" where
  "cpu_context_switch_stub prev next_ptr st =
     (case st of (c, m) \<Rightarrow>
      let x9 = sp c;
          m = stp (x19 c) (x20 c) prev 0 m;
          m = stp (x21 c) (x22 c) prev 1 m;
          m = stp (x23 c) (x24 c) prev 2 m;
          m = stp (x25 c) (x26 c) prev 3 m;
          m = stp (x27 c) (x28 c) prev 4 m;
          m = stp (fp c) (lr c) prev 5 m;
          m = write_u64 m (slot prev 12) x9;
          c = (case ldp next_ptr 0 m of (a, b) \<Rightarrow> c\<lparr>x19 := a, x20 := b\<rparr>);
          c = (case ldp next_ptr 1 m of (a, b) \<Rightarrow> c\<lparr>x21 := a, x22 := b\<rparr>);
          c = (case ldp next_ptr 2 m of (a, b) \<Rightarrow> c\<lparr>x23 := a, x24 := b\<rparr>);
          c = (case ldp next_ptr 3 m of (a, b) \<Rightarrow> c\<lparr>x25 := a, x26 := b\<rparr>);
          c = (case ldp next_ptr 4 m of (a, b) \<Rightarrow> c\<lparr>x27 := a, x28 := b\<rparr>);
          c = (case ldp next_ptr 5 m of (a, b) \<Rightarrow> c\<lparr>fp := a, lr := b\<rparr>);
          x9 = read_u64 m (slot next_ptr 12);
          c = c\<lparr>sp := x9\<rparr>
      in (c, m))"

text \<open>One structure for each task, which do not overlap.\<close>

definition cells_apart :: "(task_id \<Rightarrow> u64) \<Rightarrow> task_id set \<Rightarrow> bool" where
  "cells_apart cell T \<longleftrightarrow> (\<forall>t \<in> T. \<forall>u \<in> T. t \<noteq> u \<longrightarrow> 104 \<le> unat (cell u - cell t) \<and> unat (cell u - cell t) + 104 \<le> 2 ^ 64)"

text \<open>Memory holds the saved registers of the tasks of a scheduler.\<close>

definition holds_contexts :: "(task_id \<Rightarrow> u64) \<Rightarrow> scheduler \<Rightarrow> mem \<Rightarrow> bool" where
  "holds_contexts cell s m \<longleftrightarrow> (\<forall>t \<in> dom (tasks s). cpu_registers_at m (cell t) = saved_registers t s)"

lemma switch_stub_eq:
  "cpu_context_switch_stub prev next_ptr (c, m) = (cpu_registers_at (snd (cpu_context_switch_stub prev next_ptr (c, m))) next_ptr, snd (cpu_context_switch_stub prev next_ptr (c, m)))"
  by (cases c) (simp add: cpu_context_switch_stub_def Let_def cpu_registers_at_def ldp_def registers.defs)

lemma switch_stub_saves: "cpu_registers_at (snd (cpu_context_switch_stub prev next_ptr (c, m))) prev = c"
  by (cases c) (simp add: cpu_context_switch_stub_def Let_def cpu_registers_at_def stp_def read_slot)

lemma switch_stub_outside:
  assumes "104 \<le> unat (x - prev)"
  shows "snd (cpu_context_switch_stub prev next_ptr (c, m)) x = m x"
proof -
  have "write_u64 w (slot prev i) v x = w x" if "i < 13" for w i v
    using write_slot_outside [of 13 x prev i] assms that by simp
  then show ?thesis by (simp add: cpu_context_switch_stub_def Let_def stp_def)
qed

lemma cpu_registers_cong:
  assumes "\<And>k. k < 104 \<Longrightarrow> m' (p + of_nat k) = m (p + of_nat k)"
  shows "cpu_registers_at m' p = cpu_registers_at m p"
proof -
  have "read_u64 m' (slot p i) = read_u64 m (slot p i)" if "i < 13" for i
  proof (rule read_u64_cong)
    fix k :: nat
    assume "k < 8"
    then have "8 * i + k < 104" using that by simp
    from assms [OF this] show "m' (slot p i + of_nat k) = m (slot p i + of_nat k)" by (simp add: slot_def add.assoc)
  qed
  then show ?thesis by (simp add: cpu_registers_at_def)
qed

text \<open>
  C12. The assembly of the context switch does what the model of the scheduler says. With one structure of registers for
  each task in memory, none overlapping, the switch from \<open>p\<close> to \<open>n\<close> loads the registers that the model gives to \<open>n\<close>, and memory
  afterwards holds exactly the saved registers of the model for every task; it is written only in the structure of \<open>p\<close>. A task may
  switch to itself.
\<close>

theorem switch_stub_refines:
  assumes "holds_contexts cell s m" and "cells_apart cell (dom (tasks s))" and "p \<in> dom (tasks s)" "n \<in> dom (tasks s)"
  shows "\<exists>m'. cpu_context_switch_stub (cell p) (cell n) (r, m) = (saved_registers n (save_registers p r s), m')
    \<and> holds_contexts cell (save_registers p r s) m' \<and> (\<forall>x. 104 \<le> unat (x - cell p) \<longrightarrow> m' x = m x)"
proof -
  define m' where "m' = snd (cpu_context_switch_stub (cell p) (cell n) (r, m))"
  have out: "m' x = m x" if "104 \<le> unat (x - cell p)" for x unfolding m'_def by (rule switch_stub_outside [OF that])
  have all: "cpu_registers_at m' (cell t) = saved_registers t (save_registers p r s)" if t: "t \<in> dom (tasks s)" for t
  proof (cases "t = p")
    case True
    then show ?thesis using switch_stub_saves [of "cell p" "cell n" r m] assms(3) by (auto simp: m'_def saved_registers_def save_registers_def)
  next
    case False
    then have ap: "104 \<le> unat (cell t - cell p)" "unat (cell t - cell p) + 104 \<le> 2 ^ 64"
      using assms(2,3) t unfolding cells_apart_def by metis+
    have "cpu_registers_at m' (cell t) = cpu_registers_at m (cell t)"
    proof (rule cpu_registers_cong, rule out)
      fix k :: nat
      assume k: "k < 104"
      have uk: "unat (of_nat k :: u64) = k" using k by (intro unat_of_nat64) simp
      have e: "cell t + of_nat k - cell p = (cell t - cell p) + of_nat k" by simp
      have "unat ((cell t - cell p) + of_nat k) = unat (cell t - cell p) + k"
        using ap(2) k uk by (subst unat_add_noof) simp_all
      then show "104 \<le> unat (cell t + of_nat k - cell p)" unfolding e using ap(1) by simp
    qed
    also have "\<dots> = saved_registers t s" using assms(1) t by (simp add: holds_contexts_def)
    also have "\<dots> = saved_registers t (save_registers p r s)" using False by (simp add: saved_registers_def save_registers_def)
    finally show ?thesis .
  qed
  have "dom (tasks (save_registers p r s)) = dom (tasks s)" by (auto simp: save_registers_def)
  then have "holds_contexts cell (save_registers p r s) m'" using all by (simp add: holds_contexts_def)
  moreover have "cpu_context_switch_stub (cell p) (cell n) (r, m) = (saved_registers n (save_registers p r s), m')"
    using switch_stub_eq [of "cell p" "cell n" r m] all [OF assms(4)] by (simp add: m'_def)
  ultimately show ?thesis using out by blast
qed

text \<open>Two tasks with all their registers zero, at addresses 0x1000 and 0x2000.\<close>

definition sched0 :: scheduler where
  "sched0 = \<lparr>sched_lock = False, tasks = [1 \<mapsto> (task0 1)\<lparr>cpu_context := registers_new\<rparr>, 2 \<mapsto> (task0 2)\<lparr>cpu_context := registers_new\<rparr>],
     queue = [2], current_tasks = [Some 1], quantum = 0\<rparr>"

theorem switch_stub_refines_witness:
  "\<exists>m'. cpu_context_switch_stub 0x1000 0x2000 (registers_new\<lparr>lr := 0x80000\<rparr>, \<lambda>_. 0) = (registers_new, m')
    \<and> lr (cpu_registers_at m' 0x1000) = 0x80000"
proof -
  let ?cell = "\<lambda>t :: task_id. 0x1000 * t" and ?s = "save_registers 1 (registers_new\<lparr>lr := 0x80000\<rparr>) sched0"
  have d: "dom (tasks sched0) = {1, 2}" by (auto simp: sched0_def)
  have "read_u64 (\<lambda>_. 0) a = 0" for a by (simp add: read_u64_def map_replicate_const le_word_zeros)
  then have "cpu_registers_at (\<lambda>_. 0) a = registers_new" for a by (simp add: cpu_registers_at_def registers_new_def)
  then have h: "holds_contexts ?cell sched0 (\<lambda>_. 0)" by (auto simp: holds_contexts_def saved_registers_def sched0_def)
  have c: "cells_apart ?cell (dom (tasks sched0))" unfolding d by (simp add: cells_apart_def)
  have m: "1 \<in> dom (tasks sched0)" "2 \<in> dom (tasks sched0)" unfolding d by simp_all
  obtain m' where m': "cpu_context_switch_stub (?cell 1) (?cell 2) (registers_new\<lparr>lr := 0x80000\<rparr>, \<lambda>_. 0) = (saved_registers 2 ?s, m')"
      "holds_contexts ?cell ?s m'"
    using switch_stub_refines [OF h c m, of "registers_new\<lparr>lr := 0x80000\<rparr>"] by (elim exE conjE)
  have sv: "saved_registers 2 ?s = registers_new" "saved_registers 1 ?s = registers_new\<lparr>lr := 0x80000\<rparr>" "1 \<in> dom (tasks ?s)"
    by (auto simp: saved_registers_def save_registers_def sched0_def)
  have "cpu_registers_at m' (?cell 1) = saved_registers 1 ?s" using m'(2) sv(3) unfolding holds_contexts_def by (rule bspec)
  then have "lr (cpu_registers_at m' 0x1000) = 0x80000" using sv(2) by simp
  moreover have "cpu_context_switch_stub 0x1000 0x2000 (registers_new\<lparr>lr := 0x80000\<rparr>, \<lambda>_. 0) = (registers_new, m')"
    using m'(1) sv(1) by simp
  ultimately show ?thesis by blast
qed

end
