(* ===== verification/Memory_Init.thy ===== *)
theory Memory_Init
  imports Memory_Context
begin

unbundle bit_operations_syntax

text \<open>
  The translation tables of the kernel and the start of virtual memory (\<^verbatim>\<open>memory/aarch64/init.rs\<close>). The
  code runs with the MMU off, so memory is addressed by physical addresses here. The
  specification is the walk that the architecture defines; the result is that the
  tables map every address of the first 512 GB to itself.
\<close>

section \<open>Registers\<close>

definition MAIR_EL1_DEVICE :: u64 where
  [consts_defs]: "MAIR_EL1_DEVICE = 0x00"

definition MAIR_EL1_NORMAL :: u64 where
  [consts_defs]: "MAIR_EL1_NORMAL = 0xFF"

definition MAIR_EL1_NORMAL_NC :: u64 where
  [consts_defs]: "MAIR_EL1_NORMAL_NC = 0x44"

definition MAIR_EL1 :: u64 where
  [consts_defs]: "MAIR_EL1 = (push_bit (8 * unat (attribute_index Device)) MAIR_EL1_DEVICE
     OR push_bit (8 * unat (attribute_index Normal)) MAIR_EL1_NORMAL)
     OR push_bit (8 * unat (attribute_index NormalNC)) MAIR_EL1_NORMAL_NC"

definition TCR_EL1_T0SZ :: u64 where
  [consts_defs]: "TCR_EL1_T0SZ = 64 - of_nat VA_BITS"

definition TCR_EL1_TG0_4KB :: u64 where
  [consts_defs]: "TCR_EL1_TG0_4KB = push_bit 14 0b00"

definition TCR_EL1_T1SZ :: u64 where
  [consts_defs]: "TCR_EL1_T1SZ = push_bit 16 (64 - of_nat VA_BITS)"

definition TCR_EL1_TG1_4KB :: u64 where
  [consts_defs]: "TCR_EL1_TG1_4KB = push_bit 30 0b10"

definition TCR_EL1_IPS_40BIT :: u64 where
  [consts_defs]: "TCR_EL1_IPS_40BIT = push_bit 32 0b010"

definition TCR_EL1_AS16 :: u64 where
  [consts_defs]: "TCR_EL1_AS16 = push_bit 36 0b1"

definition TCR_EL1 :: u64 where
  [consts_defs]: "TCR_EL1 = TCR_EL1_T0SZ OR TCR_EL1_TG0_4KB OR TCR_EL1_T1SZ OR TCR_EL1_TG1_4KB OR TCR_EL1_IPS_40BIT OR TCR_EL1_AS16"

definition SCTLR_EL1_M :: u64 where
  [consts_defs]: "SCTLR_EL1_M = push_bit 0 1"

definition SCTLR_EL1_C :: u64 where
  [consts_defs]: "SCTLR_EL1_C = push_bit 2 1"

definition SCTLR_EL1_I :: u64 where
  [consts_defs]: "SCTLR_EL1_I = push_bit 12 1"

definition L3_TABLE_COUNT :: usize where
  [consts_defs]: "L3_TABLE_COUNT = 3"

definition TABLE_COUNT :: usize where
  [consts_defs]: "TABLE_COUNT = 3 + L3_TABLE_COUNT"

section \<open>Tables\<close>

definition table_descriptor :: "table_manager \<Rightarrow> TableDescriptorBuilder res" where
  "table_descriptor t = table_desc_new (PhysicalAddress (tm_table t AND NOT VA_START))"

definition block_descriptor :: "usize \<Rightarrow> BlockDescriptorBuilder res" where
  "block_descriptor a = block_desc_new (PhysicalAddress (a AND NOT VA_START))"

definition page_descriptor :: "usize \<Rightarrow> PageDescriptorBuilder res" where
  "page_descriptor a = page_desc_new (PhysicalAddress (a AND NOT VA_START))"

text \<open>\<^verbatim>\<open>for i in 0..n\<close> with a body that may fail.\<close>

fun for_range :: "nat \<Rightarrow> nat \<Rightarrow> (usize \<Rightarrow> 's \<Rightarrow> unit res \<times> 's) \<Rightarrow> 's \<Rightarrow> unit res \<times> 's" where
  "for_range i 0 f s = (Ok (), s)"
| "for_range i (Suc n) f s = and_then (f (of_nat i) s) (\<lambda>_ s. for_range (Suc i) n f s)"

text \<open>\<open>tables\<close> is the address of the static array \<^verbatim>\<open>TABLES\<close>.\<close>

definition table_ptr :: "usize \<Rightarrow> usize \<Rightarrow> usize" where
  "table_ptr tables k = tables + 4096 * k"

definition level1_row :: "table_manager \<Rightarrow> table_manager \<Rightarrow> usize \<Rightarrow> mem \<Rightarrow> unit res \<times> mem" where
  "level1_row table_l1 table_l2 i m =
     (let row = tm_row table_l1 i in
      if i = 0
      then and_then (table_descriptor table_l2, m) (\<lambda>d m. write_table row d m)
      else and_then (block_descriptor (row_start row), m) (\<lambda>d m.
             write_block row (block_desc_set_attribute Device d) m))"

definition level3_row :: "table_manager \<Rightarrow> usize \<Rightarrow> mem \<Rightarrow> unit res \<times> mem" where
  "level3_row table_l3 j m =
     (let row = tm_row table_l3 j in
      and_then (page_descriptor (row_start row), m) (\<lambda>d m.
        write_page row (page_desc_set_attribute Normal d) m))"

definition level2_row :: "table_manager \<Rightarrow> table_manager list \<Rightarrow> usize \<Rightarrow> mem \<Rightarrow> unit res \<times> mem" where
  "level2_row table_l2 table_l3 i m =
     (let row = tm_row table_l2 i in
      if i < L3_TABLE_COUNT
      then and_then (table_descriptor (table_l3 ! unat i), m) (\<lambda>d m.
           and_then (write_table row d m) (\<lambda>_ m.
             for_range 0 (unat ROW_COUNT) (level3_row (table_l3 ! unat i)) m))
      else and_then (block_descriptor (row_start row), m) (\<lambda>d m.
             write_block row (block_desc_set_attribute Device d) m))"

definition create_tables :: "usize \<Rightarrow> mem \<Rightarrow> usize res \<times> mem" where
  "create_tables tables m =
     (let table_l0 = table_manager_new (table_ptr tables 0) LEVEL_ROOT 0;
          table_l1 = table_manager_new (table_ptr tables 1) (LEVEL_ROOT + 1) (row_start (tm_row table_l0 0));
          table_l2 = table_manager_new (table_ptr tables 2) (LEVEL_ROOT + 2) (row_start (tm_row table_l1 0));
          table_l3 = [table_manager_new (table_ptr tables 3) (LEVEL_ROOT + 3) (row_start (tm_row table_l2 0)),
                      table_manager_new (table_ptr tables 4) (LEVEL_ROOT + 3) (row_start (tm_row table_l2 1)),
                      table_manager_new (table_ptr tables 5) (LEVEL_ROOT + 3) (row_start (tm_row table_l2 2))]
      in and_then (table_descriptor table_l1, m) (\<lambda>d m.
         and_then (write_table (tm_row table_l0 0) d m) (\<lambda>_ m.
         and_then (for_range 0 (unat ROW_COUNT) (level1_row table_l1 table_l2) m) (\<lambda>_ m.
         and_then (for_range 0 (unat ROW_COUNT) (level2_row table_l2 table_l3) m) (\<lambda>_ m.
           (Ok (tm_table table_l0), m))))))"

record mmu =
  mair_el1 :: u64
  tcr_el1 :: u64
  mmu_ttbr0 :: u64
  mmu_ttbr1 :: u64
  sctlr_el1 :: u64

definition virtual_memory_early_init :: "usize \<Rightarrow> mmu \<times> mem \<Rightarrow> unit res \<times> (mmu \<times> mem)" where
  "virtual_memory_early_init tables st =
     (case create_tables tables (snd st) of
        (Ok root, m) \<Rightarrow>
          (Ok (), ((fst st)\<lparr>mair_el1 := MAIR_EL1, tcr_el1 := TCR_EL1, mmu_ttbr0 := root, mmu_ttbr1 := root,
              sctlr_el1 := sctlr_el1 (fst st) OR SCTLR_EL1_C OR SCTLR_EL1_I OR SCTLR_EL1_M\<rparr>, m))
      | (Hang, m) \<Rightarrow> (Hang, (fst st, m))
      | (_, m) \<Rightarrow> (Panic, (fst st, m)))"

section \<open>The architecture's walk\<close>

text \<open>
  From a table of level \<open>l\<close> at physical address \<open>t\<close>, the entry that translates \<open>va\<close>, with its level.
\<close>

function mmu_walk :: "rows \<Rightarrow> nat \<Rightarrow> usize \<Rightarrow> usize \<Rightarrow> (u64 \<times> nat) option" where
  "mmu_walk R l t va =
     (let v = R t (va_index l va) in
      case classify_row (int l) v of
        None \<Rightarrow> None
      | Some Table \<Rightarrow> mmu_walk R (Suc l) (address (table_desc_address (TableDescriptorBuilder v))) va
      | Some _ \<Rightarrow> Some (v, l))"
  by pat_completeness auto
termination
  by (relation "measure (\<lambda>(R, l, t, va). 3 - l)") (auto simp: classify_row_def LEVEL_MAX_def Let_def split: if_splits)

declare mmu_walk.simps [simp del]

text \<open>The output address, the index of the memory attributes, and whether EL0 has access.\<close>

definition translate :: "rows \<Rightarrow> usize \<Rightarrow> usize \<Rightarrow> (nat \<times> u64 \<times> bool) option" where
  "translate R root va =
     (case mmu_walk R 0 root va of
        None \<Rightarrow> None
      | Some (v, l) \<Rightarrow>
          Some (unat (v AND PAGE_ADDRESS_MASK) div 2 ^ row_shift l * 2 ^ row_shift l + unat va mod 2 ^ row_shift l,
                drop_bit ATTRIBUTE_SHIFT (v AND ATTRIBUTE_MASK), bit v 6))"


section \<open>Loops over rows\<close>

definition rows_eq :: "mem \<Rightarrow> rows \<Rightarrow> bool" where
  "rows_eq m R \<longleftrightarrow> (\<forall>t i. page_ptr t \<longrightarrow> i < 512 \<longrightarrow> mem_rows m t i = R t i)"

definition set_row :: "usize \<Rightarrow> nat \<Rightarrow> u64 \<Rightarrow> rows \<Rightarrow> rows" where
  "set_row t i v R = R(t := (R t)(i := v))"

lemma rows_eq_write:
  assumes "rows_eq m R" and "page_ptr (tm_table t)" and "unat i < 512"
  shows "\<exists>m'. row_set_value (tm_row t i) v m = (Ok (), m') \<and> rows_eq m' (set_row (tm_table t) (unat i) v R)"
proof -
  have "row_set_value (tm_row t i) v m = (Ok (), write_u64 m (row_addr (tm_table t) (unat i)) v)"
    using assms(3) row_ptr_addr [OF assms(3), of t]
    by (simp add: row_set_value_def ROW_COUNT_def word_less_nat_alt) (simp add: tm_row_def)
  then show ?thesis
    using assms by (auto simp: rows_eq_def set_row_def mem_rows_write)
qed

lemma for_range_rows:
  assumes "\<And>j m R. i \<le> j \<Longrightarrow> j < i + n \<Longrightarrow> rows_eq m R \<Longrightarrow> \<exists>m'. f (of_nat j) m = (Ok (), m') \<and> rows_eq m' (g j R)"
    and "rows_eq m R"
  shows "\<exists>m'. for_range i n f m = (Ok (), m') \<and> rows_eq m' (fold g [i..<i + n] R)"
  using assms
proof (induction n arbitrary: i m R)
  case (Suc n)
  obtain m1 where m1: "f (of_nat i) m = (Ok (), m1)" "rows_eq m1 (g i R)" using Suc.prems(1) [of i] Suc.prems(2) by auto
  have "\<exists>m'. for_range (Suc i) n f m1 = (Ok (), m') \<and> rows_eq m' (fold g [Suc i..<Suc i + n] (g i R))"
    using Suc.prems(1) m1(2) by (intro Suc.IH) auto
  then show ?case using m1 by (simp add: upt_conv_Cons del: upt_Suc)
qed simp

lemma fold_set_row:
  "fold (\<lambda>j. set_row t j (v j)) [0..<n] R = R(t := (\<lambda>i. if i < n then v i else R t i))"
  by (induction n) (auto simp: set_row_def fun_eq_iff)

section \<open>Descriptors of the kernel's tables\<close>

lemma aligned_bits:
  fixes w :: u64
  assumes "2 ^ k dvd unat w" and "unat w < 2 ^ 48" and "bit w n"
  shows "k \<le> n \<and> n < 48"
proof -
  have "take_bit 48 w = w"
    using assms(2) by (simp add: word_unat_eq_iff unsigned_take_bit_eq take_bit_nat_eq_self_iff)
  then have "n < 48" using assms(3) by (metis bit_take_bit_iff)
  moreover have "take_bit k (unat w) = 0" using assms(1) by (simp add: take_bit_eq_mod)
  then have "take_bit k w = 0" by (metis unsigned_take_bit_eq unsigned_0 word_unat_eq_iff)
  then have "\<not> n < k" using assms(3) by (metis bit_take_bit_iff bit_0_eq bot_apply bot_bool_def)
  ultimately show ?thesis by simp
qed

lemma aligned_field:
  fixes w :: u64
  assumes "2 ^ k dvd unat w" and "unat w < 2 ^ 48"
  shows "w AND NOT (mask 48 AND NOT (mask k)) = 0"
proof (rule bit_word_eqI)
  fix n
  have "\<not> (bit w n \<and> (48 \<le> n \<or> n < k))" using aligned_bits [OF assms, of n] by auto
  then show "bit (w AND NOT (mask 48 AND NOT (mask k))) n = bit (0 :: u64) n"
    by (auto simp: bit_and_iff bit_or_iff bit_not_iff bit_mask_iff)
qed

lemma field_masks:
  "BLOCK_ADDRESS_MASK = mask 48 AND NOT (mask 21)" "PAGE_ADDRESS_MASK = mask 48 AND NOT (mask 12)"
  "TABLE_ADDRESS_MASK = mask 48 AND NOT (mask 12)"
  by (simp_all add: consts_defs mask_eq_exp_minus_1)

lemma low_address: "unat w < 2 ^ 48 \<Longrightarrow> w AND NOT VA_START = w"
proof -
  assume "unat w < 2 ^ 48"
  then have "take_bit 48 w = w"
    by (simp add: word_unat_eq_iff unsigned_take_bit_eq take_bit_nat_eq_self_iff)
  then show ?thesis by (simp add: not_VA_START take_bit_eq_mask)
qed

lemma block_descriptor_ok:
  assumes "2 ^ 21 dvd unat a" and "unat a < 2 ^ 48"
  shows "block_descriptor a = Ok (BlockDescriptorBuilder (TYPE_BLOCK OR ACCESS_FLAG OR NOT_GLOBAL OR a))"
  using aligned_field [OF assms] low_address [OF assms(2)]
  by (simp add: block_descriptor_def block_desc_new_def field_masks)

lemma page_descriptor_ok:
  assumes "2 ^ 12 dvd unat a" and "unat a < 2 ^ 48"
  shows "page_descriptor a = Ok (PageDescriptorBuilder (TYPE_PAGE OR ACCESS_FLAG OR NOT_GLOBAL OR a))"
  using aligned_field [OF assms] low_address [OF assms(2)]
  by (simp add: page_descriptor_def page_desc_new_def field_masks)

lemma table_descriptor_ok:
  assumes "2 ^ 12 dvd unat (tm_table t)" and "unat (tm_table t) < 2 ^ 48"
  shows "table_descriptor t = Ok (TableDescriptorBuilder (TYPE_TABLE OR tm_table t))"
  using aligned_field [OF assms] low_address [OF assms(2)]
  by (simp add: table_descriptor_def table_desc_new_def field_masks)

text \<open>The rows that the loops write.\<close>

definition table_row :: "usize \<Rightarrow> u64" where
  "table_row t = TYPE_TABLE OR t"

definition block_row :: "u64 \<Rightarrow> u64" where
  "block_row a = bd_pending (block_desc_set_attribute Device (BlockDescriptorBuilder (TYPE_BLOCK OR ACCESS_FLAG OR NOT_GLOBAL OR a)))"

definition kernel_page_row :: "u64 \<Rightarrow> u64" where
  "kernel_page_row a = pd_pending (page_desc_set_attribute Normal (PageDescriptorBuilder (TYPE_PAGE OR ACCESS_FLAG OR NOT_GLOBAL OR a)))"

definition rows_written :: "(mem \<Rightarrow> unit res \<times> mem) \<Rightarrow> (rows \<Rightarrow> rows) \<Rightarrow> bool" where
  "rows_written f g \<longleftrightarrow> (\<forall>m R. rows_eq m R \<longrightarrow> (\<exists>m'. f m = (Ok (), m') \<and> rows_eq m' (g R)))"

lemma write_table_row:
  assumes "page_ptr (tm_table t)" and "unat i < 512" and "tm_level t < 3"
  shows "rows_written (write_table (tm_row t i) d) (set_row (tm_table t) (unat i) (td_pending d))"
  using rows_eq_write [OF _ assms(1,2)] assms(3)
  by (auto simp: rows_written_def write_table_def LEVEL_MAX_def tm_row_def)

lemma write_block_row:
  assumes "page_ptr (tm_table t)" and "unat i < 512" and "0 < tm_level t"
  shows "rows_written (write_block (tm_row t i) d) (set_row (tm_table t) (unat i) (bd_pending d))"
  using rows_eq_write [OF _ assms(1,2)] assms(3)
  by (auto simp: rows_written_def write_block_def LEVEL_ROOT_def tm_row_def)

lemma write_page_row:
  assumes "page_ptr (tm_table t)" and "unat i < 512" and "tm_level t = 3"
  shows "rows_written (write_page (tm_row t i) d) (set_row (tm_table t) (unat i) (pd_pending d))"
  using rows_eq_write [OF _ assms(1,2)] assms(3)
  by (auto simp: rows_written_def write_page_def LEVEL_MAX_def tm_row_def)

lemma for_range_written:
  assumes "\<And>j. j < n \<Longrightarrow> rows_written (f (of_nat j)) (g j)"
  shows "rows_written (for_range 0 n f) (fold g [0..<n])"
  using for_range_rows [where i = 0 and n = n and f = f and g = g] assms by (auto simp: rows_written_def)


section \<open>The tables\<close>

text \<open>The array of tables: aligned, in the physical address space.\<close>

definition tables_ok :: "usize \<Rightarrow> bool" where
  "tables_ok b \<longleftrightarrow> 4096 dvd unat b \<and> unat b + 6 * 4096 \<le> 2 ^ 48"

lemma unat_table_ptr:
  assumes "tables_ok b" and "unat k < 6"
  shows "unat (table_ptr b k) = unat b + 4096 * unat k"
proof -
  have "unat (4096 * k) = 4096 * unat k" using assms(2) by (subst unat_mult_noof) simp_all
  then show ?thesis using assms by (simp add: table_ptr_def tables_ok_def unat_add_noof)
qed

lemma table_ptr_ok:
  assumes "tables_ok b" and "unat k < 6"
  shows "page_ptr (table_ptr b k)" "2 ^ 12 dvd unat (table_ptr b k)" "unat (table_ptr b k) < 2 ^ 48"
  using unat_table_ptr [OF assms] assms by (auto simp: page_ptr_def tables_ok_def intro: dvd_add)

lemma table_ptr_inj:
  assumes "tables_ok b" and "unat j < 6" "unat k < 6"
  shows "table_ptr b j = table_ptr b k \<longleftrightarrow> j = k"
  using unat_table_ptr [OF assms(1,2)] unat_table_ptr [OF assms(1,3)] by (auto simp: word_unat_eq_iff)

lemma row_start_value:
  assumes "l \<le> 3" and "unat i < 512"
  shows "row_start (tm_row (table_manager_new t (int l) st) i) = st + 2 ^ row_shift l * i"
proof -
  have "tm_len (table_manager_new t (int l) st) div ROW_COUNT = 2 ^ row_shift l"
    using level_cases [OF assms(1)]
    by (auto simp: tm_len_def table_manager_new_def row_shift_def LEVEL_MAX_def ROW_COUNT_def)
  then show ?thesis by (simp add: row_start_def row_len_def tm_row_def) (simp add: table_manager_new_def)
qed

lemma unat_shifted:
  assumes "unat i < 512" and "k \<le> 39"
  shows "unat (2 ^ k * i :: u64) = 2 ^ k * unat i"
proof -
  have "(2 :: nat) ^ k < 2 ^ 64" using assms(2) by (intro power_strict_increasing) simp_all
  then have "unat (2 ^ k :: u64) = 2 ^ k" using unat_of_nat64 [of "2 ^ k"] by simp
  moreover have "2 ^ k * unat i < (2 :: nat) ^ 39 * 512"
    using assms power_increasing [OF assms(2), of "2 :: nat"] by (intro mult_le_less_imp_less) simp_all
  ultimately show ?thesis by (subst unat_mult_noof) auto
qed


definition T1_row :: "usize \<Rightarrow> nat \<Rightarrow> u64" where
  "T1_row b i = (if i = 0 then table_row (table_ptr b 2) else block_row (2 ^ 30 * of_nat i))"

definition T2_row :: "usize \<Rightarrow> nat \<Rightarrow> u64" where
  "T2_row b i = (if i < 3 then table_row (table_ptr b (3 + of_nat i)) else block_row (2 ^ 21 * of_nat i))"

definition T3_row :: "nat \<Rightarrow> nat \<Rightarrow> u64" where
  "T3_row k j = kernel_page_row (2 ^ 21 * of_nat k + 2 ^ 12 * of_nat j)"

abbreviation tm :: "usize \<Rightarrow> usize \<Rightarrow> int \<Rightarrow> usize \<Rightarrow> table_manager" where
  "tm b k l st \<equiv> table_manager_new (table_ptr b k) l st"

lemma block_row_written:
  assumes "page_ptr t" and "unat i < 512" and "l = 1 \<or> l = 2"
  shows "rows_written (\<lambda>m. and_then (block_descriptor (row_start (tm_row (table_manager_new t (int l) 0) i)), m)
      (\<lambda>d m. write_block (tm_row (table_manager_new t (int l) 0) i) (block_desc_set_attribute Device d) m))
    (set_row t (unat i) (block_row (2 ^ row_shift l * i)))"
proof -
  have st: "row_start (tm_row (table_manager_new t (int l) 0) i) = 2 ^ row_shift l * i"
    using row_start_value [of l i t 0] assms by auto
  have u: "unat (2 ^ row_shift l * i) = 2 ^ row_shift l * unat i"
    using assms(2,3) by (intro unat_shifted) (auto simp: row_shift_def)
  have "2 ^ 21 dvd unat (2 ^ row_shift l * i)" "unat (2 ^ row_shift l * i) < 2 ^ 48"
    using assms(2,3) unfolding u by (auto simp: row_shift_def intro: dvd_mult2 le_imp_power_dvd)
  note d = block_descriptor_ok [OF this]
  show ?thesis
    using write_block_row [of "table_manager_new t (int l) 0" i] assms
    unfolding st d by (auto simp: table_manager_new_def block_row_def)
qed

lemma table_row_written:
  assumes "tables_ok b" and "unat k < 6" and "page_ptr (tm_table t)" "unat i < 512" "tm_level t < 3"
  shows "rows_written (\<lambda>m. and_then (table_descriptor (tm b k l st), m) (\<lambda>d m. write_table (tm_row t i) d m))
    (set_row (tm_table t) (unat i) (table_row (table_ptr b k)))"
proof -
  have "table_descriptor (tm b k l st) = Ok (TableDescriptorBuilder (TYPE_TABLE OR table_ptr b k))"
    using table_descriptor_ok [of "tm b k l st"] table_ptr_ok [OF assms(1,2)] by (simp add: table_manager_new_def)
  then show ?thesis
    using write_table_row [OF assms(3-5), of "TableDescriptorBuilder (TYPE_TABLE OR table_ptr b k)"] by (simp add: table_row_def)
qed

lemma level1_written:
  assumes "tables_ok b" and "unat i < 512"
  shows "rows_written (level1_row (tm b 1 1 0) (tm b 2 l st) i) (set_row (table_ptr b 1) (unat i) (T1_row b (unat i)))"
proof -
  have p: "page_ptr (table_ptr b 1)" by (rule table_ptr_ok(1) [OF assms(1)]) simp
  show ?thesis
  proof (cases "i = 0")
    case True
    then show ?thesis
      using table_row_written [OF assms(1), of 2 "tm b 1 1 0" 0 l st] p
      unfolding rows_written_def by (simp add: level1_row_def T1_row_def table_manager_new_def)
  next
    case False
    then have "unat i \<noteq> 0" by (simp add: unat_eq_zero)
    then show ?thesis
      using block_row_written [OF p assms(2), of 1] False
      unfolding rows_written_def by (simp add: level1_row_def T1_row_def row_shift_def Let_def)
  qed
qed

lemma level3_written:
  assumes "page_ptr t" and "unat j < 512" and "unat k < 3"
  shows "rows_written (level3_row (table_manager_new t 3 (2 ^ 21 * k)) j) (set_row t (unat j) (T3_row (unat k) (unat j)))"
proof -
  have st: "row_start (tm_row (table_manager_new t 3 (2 ^ 21 * k)) j) = 2 ^ 21 * k + 2 ^ 12 * j"
    using row_start_value [of 3 j t "2 ^ 21 * k"] assms(2) by (simp add: row_shift_def)
  have u: "unat (2 ^ 21 * k) = 2 ^ 21 * unat k" "unat (2 ^ 12 * j) = 2 ^ 12 * unat j"
    using assms(2,3) by (simp_all only: unat_shifted)
  then have v: "unat (2 ^ 21 * k + 2 ^ 12 * j) = 2 ^ 21 * unat k + 2 ^ 12 * unat j"
    using assms(2,3) by (subst unat_add_noof) simp_all
  have "2 ^ 12 dvd unat (2 ^ 21 * k + 2 ^ 12 * j)" "unat (2 ^ 21 * k + 2 ^ 12 * j) < 2 ^ 48"
    using assms(2,3) unfolding v by (auto intro!: dvd_add dvd_mult2 le_imp_power_dvd)
  note d = page_descriptor_ok [OF this]
  show ?thesis
    using write_page_row [of "table_manager_new t 3 (2 ^ 21 * k)" j] assms(1,2)
    unfolding rows_written_def level3_row_def st d Let_def by (simp add: table_manager_new_def T3_row_def kernel_page_row_def)
qed


lemma rows_written_seq:
  assumes "rows_written f g" and "rows_written f' g'"
  shows "rows_written (\<lambda>m. and_then (f m) (\<lambda>_ m. f' m)) (\<lambda>R. g' (g R))"
  using assms unfolding rows_written_def by (metis and_then.simps(1))

text \<open>What one round of the loop over the level 2 table does.\<close>

definition T2_step :: "usize \<Rightarrow> nat \<Rightarrow> rows \<Rightarrow> rows" where
  "T2_step b i R =
     (let R = set_row (table_ptr b 2) i (T2_row b i) R; t = table_ptr b (3 + of_nat i)
      in if i < 3 then R(t := (\<lambda>j. if j < 512 then T3_row i j else R t j)) else R)"

definition l3_tables :: "usize \<Rightarrow> table_manager list" where
  "l3_tables b = [tm b 3 3 0, tm b 4 3 (2 ^ 21), tm b 5 3 (2 ^ 21 * 2)]"

lemma l3_table:
  assumes "unat i < 3"
  shows "l3_tables b ! unat i = table_manager_new (table_ptr b (3 + i)) 3 (2 ^ 21 * i)"
proof -
  have "i = 0 \<or> i = 1 \<or> i = 2" using assms by (auto simp: word_unat_eq_iff)
  then show ?thesis by (auto simp: l3_tables_def)
qed

lemma unat_3_plus: "unat i < 3 \<Longrightarrow> unat (3 + i :: u64) = 3 + unat i"
  by (subst unat_add_noof) simp_all

lemma level2_written:
  assumes "tables_ok b" and "unat i < 512"
  shows "rows_written (level2_row (tm b 2 2 0) (l3_tables b) i) (T2_step b (unat i))"
proof -
  have p: "page_ptr (table_ptr b 2)" by (rule table_ptr_ok(1) [OF assms(1)]) simp
  show ?thesis
  proof (cases "unat i < 3")
    case True
    let ?t = "table_ptr b (3 + i)" and ?l3 = "table_manager_new (table_ptr b (3 + i)) 3 (2 ^ 21 * i)"
    have k: "unat (3 + i) < 6" using unat_3_plus [OF True] True by simp
    have "rows_written (for_range 0 512 (level3_row ?l3)) (fold (\<lambda>j. set_row ?t j (T3_row (unat i) j)) [0..<512])"
    proof (rule for_range_written)
      fix j :: nat assume "j < 512"
      then have j: "unat (of_nat j :: u64) = j" by (intro unat_of_nat64) simp
      then show "rows_written (level3_row ?l3 (of_nat j)) (set_row ?t j (T3_row (unat i) j))"
        using level3_written [OF table_ptr_ok(1) [OF assms(1) k], of "of_nat j" i] \<open>j < 512\<close> True by simp
    qed
    from rows_written_seq [OF table_row_written [OF assms(1) k, of "tm b 2 2 0" i 3 "2 ^ 21 * i"] this]
    have "rows_written (\<lambda>m. and_then (and_then (table_descriptor ?l3, m) (\<lambda>d m. write_table (tm_row (tm b 2 2 0) i) d m))
        (\<lambda>_ m. for_range 0 512 (level3_row ?l3) m)) (T2_step b (unat i))"
      using p assms(2) True unfolding rows_written_def
      by (simp add: table_manager_new_def T2_step_def T2_row_def fold_set_row Let_def)
    moreover have "and_then (and_then (table_descriptor ?l3, m) f) g = and_then (table_descriptor ?l3, m) (\<lambda>d m. and_then (f d m) g)"
      for m :: mem and f and g :: "unit \<Rightarrow> mem \<Rightarrow> unit res \<times> mem"
      by (cases "table_descriptor ?l3") simp_all
    ultimately show ?thesis
      using True unfolding rows_written_def
      by (simp add: level2_row_def l3_table [OF True] L3_TABLE_COUNT_def ROW_COUNT_def word_less_nat_alt Let_def)
  next
    case False
    then show ?thesis
      using block_row_written [OF p assms(2), of 2]
      unfolding rows_written_def
      by (simp add: level2_row_def L3_TABLE_COUNT_def word_less_nat_alt Let_def T2_step_def T2_row_def row_shift_def)
  qed
qed

lemma T2_steps:
  assumes "tables_ok b"
  shows "fold (T2_step b) [0..<n] R (table_ptr b 2) i = (if i < n then T2_row b i else R (table_ptr b 2) i)"
    and "k < 3 \<Longrightarrow> i < 512 \<Longrightarrow> fold (T2_step b) [0..<n] R (table_ptr b (3 + of_nat k)) i
      = (if k < n then T3_row k i else R (table_ptr b (3 + of_nat k)) i)"
    and "t = table_ptr b 0 \<or> t = table_ptr b 1 \<Longrightarrow> fold (T2_step b) [0..<n] R t i = R t i"
proof -
  have k: "unat (of_nat j :: u64) = j" "unat (3 + of_nat j :: u64) = 3 + j" if "j < 3" for j
  proof -
    show u: "unat (of_nat j :: u64) = j" using that by (intro unat_of_nat64) simp
    show "unat (3 + of_nat j :: u64) = 3 + j" using unat_3_plus [of "of_nat j"] that by (simp only: u)
  qed
  have ne: "table_ptr b (3 + of_nat j) \<noteq> table_ptr b c" if "j < 3" "c = 0 \<or> c = 1 \<or> c = 2" for j c
    using table_ptr_inj [OF assms, of "3 + of_nat j" c] k [OF that(1)] that by (auto simp: word_unat_eq_iff)
  have inj: "table_ptr b (3 + of_nat j) = table_ptr b (3 + of_nat l) \<longleftrightarrow> j = l" if "j < 3" "l < 3" for j l
    using table_ptr_inj [OF assms, of "3 + of_nat j" "3 + of_nat l"] k [OF that(1)] k [OF that(2)] that
    by (auto simp: word_unat_eq_iff)
  have ne2: "table_ptr b 2 \<noteq> table_ptr b 0" "table_ptr b 2 \<noteq> table_ptr b 1"
    using table_ptr_inj [OF assms] by simp_all
  have ne': "(table_ptr b (3 + of_nat j) = table_ptr b c) = False" "(table_ptr b c = table_ptr b (3 + of_nat j)) = False"
    if "j < 3" "c = 0 \<or> c = 1 \<or> c = 2" for j c using ne [OF that] by auto
  have s2: "T2_step b j R (table_ptr b 2) i = (if i = j then T2_row b j else R (table_ptr b 2) i)" for j R i
    by (cases "j < 3") (simp_all add: T2_step_def set_row_def Let_def ne')
  have s3: "T2_step b j R (table_ptr b (3 + of_nat k)) i = (if j = k then T3_row k i else R (table_ptr b (3 + of_nat k)) i)"
    if "k < 3" "i < 512" for j R k i
    using that by (cases "j < 3") (auto simp add: T2_step_def set_row_def Let_def ne' inj)
  have s0: "T2_step b j R t i = R t i" if "t = table_ptr b 0 \<or> t = table_ptr b 1" for j R t i
    using that ne2 by (cases "j < 3") (auto simp add: T2_step_def set_row_def Let_def ne')
  show "fold (T2_step b) [0..<n] R (table_ptr b 2) i = (if i < n then T2_row b i else R (table_ptr b 2) i)"
    by (induction n) (auto simp: s2)
  show "fold (T2_step b) [0..<n] R (table_ptr b (3 + of_nat k)) i = (if k < n then T3_row k i else R (table_ptr b (3 + of_nat k)) i)"
    if "k < 3" "i < 512"
    by (induction n) (auto simp: s3 [OF that])
  show "fold (T2_step b) [0..<n] R t i = R t i" if "t = table_ptr b 0 \<or> t = table_ptr b 1"
    by (induction n) (simp_all add: s0 [OF that])
qed


text \<open>The rows of the finished tables.\<close>

lemma create_tables_rows:
  assumes b: "tables_ok b" and eq: "rows_eq m R"
  shows "\<exists>m' R'. create_tables b m = (Ok b, m') \<and> rows_eq m' R'
    \<and> (\<forall>i. R' b i = (if i = 0 then table_row (table_ptr b 1) else R b i))
    \<and> (\<forall>i < 512. R' (table_ptr b 1) i = T1_row b i) \<and> (\<forall>i < 512. R' (table_ptr b 2) i = T2_row b i)
    \<and> (\<forall>k < 3. \<forall>j < 512. R' (table_ptr b (3 + of_nat k)) j = T3_row k j)"
proof -
  have b0: "table_ptr b 0 = b" by (simp add: table_ptr_def)
  have st: "row_start (tm_row (tm b 0 0 0) 0) = 0" "row_start (tm_row (tm b 1 1 0) 0) = 0"
    "row_start (tm_row (tm b 2 2 0) 0) = 0" "row_start (tm_row (tm b 2 2 0) 1) = 2 ^ 21" "row_start (tm_row (tm b 2 2 0) 2) = 2 ^ 21 * 2"
    using row_start_value [of 0 0 "table_ptr b 0" 0] row_start_value [of 1 0 "table_ptr b 1" 0] row_start_value [of 2 0 "table_ptr b 2" 0]
      row_start_value [of 2 1 "table_ptr b 2" 0] row_start_value [of 2 2 "table_ptr b 2" 0] by (simp_all add: row_shift_def)
  let ?R1 = "set_row b 0 (table_row (table_ptr b 1)) R"
  let ?R2 = "fold (\<lambda>i. set_row (table_ptr b 1) i (T1_row b i)) [0..<512] ?R1"
  let ?R3 = "fold (T2_step b) [0..<512] ?R2"
  have n: "unat (of_nat j :: u64) = j" if "j < 512" for j using that by (intro unat_of_nat64) simp
  have p0: "page_ptr (tm_table (tm b 0 0 0))" using table_ptr_ok(1) [OF b, of 0] by (simp add: table_manager_new_def)
  have w1: "rows_written (\<lambda>m. and_then (table_descriptor (tm b 1 1 0), m) (\<lambda>d m. write_table (tm_row (tm b 0 0 0) 0) d m))
      (set_row b 0 (table_row (table_ptr b 1)))"
    using table_row_written [OF b _ p0, of 1 0 1 0] by (simp add: b0 table_manager_new_def)
  have w2: "rows_written (for_range 0 512 (level1_row (tm b 1 1 0) (tm b 2 2 0))) (fold (\<lambda>i. set_row (table_ptr b 1) i (T1_row b i)) [0..<512])"
    using level1_written [OF b, of "of_nat _"] n by (intro for_range_written) (metis (no_types))
  have w3: "rows_written (for_range 0 512 (level2_row (tm b 2 2 0) (l3_tables b))) (fold (T2_step b) [0..<512])"
    using level2_written [OF b, of "of_nat _"] n by (intro for_range_written) (metis (no_types))
  obtain m1 where m1: "and_then (table_descriptor (tm b 1 1 0), m) (\<lambda>d m. write_table (tm_row (tm b 0 0 0) 0) d m) = (Ok (), m1)" "rows_eq m1 ?R1"
    using w1 eq unfolding rows_written_def by blast
  obtain m2 where m2: "for_range 0 512 (level1_row (tm b 1 1 0) (tm b 2 2 0)) m1 = (Ok (), m2)" "rows_eq m2 ?R2"
    using w2 m1(2) unfolding rows_written_def by blast
  obtain m3 where m3: "for_range 0 512 (level2_row (tm b 2 2 0) (l3_tables b)) m2 = (Ok (), m3)" "rows_eq m3 ?R3"
    using w3 m2(2) unfolding rows_written_def by blast
  obtain d where d: "table_descriptor (tm b 1 1 0) = Ok d" "write_table (tm_row (tm b 0 0 0) 0) d m = (Ok (), m1)"
    using m1(1) by (cases "table_descriptor (tm b 1 1 0)") simp_all
  have "create_tables b m = (Ok b, m3)"
    using d m2(1) m3(1) unfolding create_tables_def Let_def LEVEL_ROOT_def ROW_COUNT_def
    by (simp add: st l3_tables_def) (simp add: table_manager_new_def b0)
  moreover have "table_ptr b 1 \<noteq> b" "table_ptr b 1 \<noteq> table_ptr b 2"
    using table_ptr_inj [OF b, of 1 0] table_ptr_inj [OF b, of 1 2] by (simp_all add: b0)
  then have "?R3 b i = (if i = 0 then table_row (table_ptr b 1) else R b i)" "i < 512 \<Longrightarrow> ?R3 (table_ptr b 1) i = T1_row b i" for i
    using T2_steps(3) [OF b, of b 512 ?R2 i] T2_steps(3) [OF b, of "table_ptr b 1" 512 ?R2 i] b0
    by (simp_all add: fold_set_row set_row_def)
  moreover have "?R3 (table_ptr b 2) i = T2_row b i" if "i < 512" for i using T2_steps(1) [OF b, of 512 ?R2 i] that by simp
  moreover have "?R3 (table_ptr b (3 + of_nat k)) j = T3_row k j" if "k < 3" "j < 512" for k j
    using T2_steps(2) [OF b that, of 512 ?R2] that by simp
  ultimately show ?thesis using m3(2) by blast
qed


section \<open>The identity map\<close>

lemma row_fields:
  fixes a x f :: u64
  assumes a: "\<And>n. bit a n \<Longrightarrow> 12 \<le> n \<and> n < 48" and f: "f AND PAGE_ADDRESS_MASK = 0" "f AND ATTRIBUTE_MASK = 0" "\<not> bit f 6"
    and x: "x AND NOT ATTRIBUTE_MASK = 0" and v: "v = ((f OR a) AND NOT ATTRIBUTE_MASK) OR x"
  shows "v AND PAGE_ADDRESS_MASK = a" "v AND ATTRIBUTE_MASK = x" "\<not> bit v 6" "v AND TYPE_MASK = f AND TYPE_MASK"
proof -
  have pm: "bit PAGE_ADDRESS_MASK n \<longleftrightarrow> 12 \<le> n \<and> n < 48" for n
    unfolding field_masks by (auto simp: bit_simps)
  have am: "bit ATTRIBUTE_MASK n \<longleftrightarrow> 2 \<le> n \<and> n < 5" for n
  proof -
    have e: "ATTRIBUTE_MASK = push_bit 2 (mask 3)" by (simp add: consts_defs mask_eq_exp_minus_1)
    show ?thesis unfolding e by (auto simp: bit_simps)
  qed
  have tm: "bit TYPE_MASK n \<longleftrightarrow> n < 2" for n
  proof -
    have e: "TYPE_MASK = mask 2" by (simp add: consts_defs mask_eq_exp_minus_1)
    show ?thesis unfolding e by (auto simp: bit_simps)
  qed
  have bx: "bit x n \<Longrightarrow> 2 \<le> n \<and> n < 5" for n
  proof -
    assume n: "bit x n"
    then have "n < 64" using bit_imp_le_length [of x n] by simp
    have "\<not> bit (x AND NOT ATTRIBUTE_MASK) n" by (simp add: x)
    then have "bit ATTRIBUTE_MASK n" using n \<open>n < 64\<close> by (simp add: bit_and_iff bit_not_iff)
    then show ?thesis by (simp add: am)
  qed
  have bf: "bit f n \<Longrightarrow> \<not> (12 \<le> n \<and> n < 48) \<and> \<not> (2 \<le> n \<and> n < 5)" for n
    using disjoint_bits [OF f(1), of n] disjoint_bits [OF f(2), of n] pm am by blast
  have bv: "bit v n \<longleftrightarrow> bit f n \<or> bit a n \<or> bit x n" for n
  proof -
    have "bit f n \<or> bit a n \<Longrightarrow> n < 64 \<and> \<not> bit ATTRIBUTE_MASK n"
      using a [of n] bf [of n] am [of n] bit_imp_le_length [of f n] by auto
    then show ?thesis unfolding v by (auto simp: bit_or_iff bit_and_iff bit_not_iff)
  qed
  show "v AND PAGE_ADDRESS_MASK = a"
    by (rule bit_word_eqI) (use a bf bx in \<open>fastforce simp: bit_and_iff bv pm\<close>)
  show "v AND ATTRIBUTE_MASK = x"
    by (rule bit_word_eqI) (use a bf bx in \<open>fastforce simp: bit_and_iff bv am\<close>)
  show "\<not> bit v 6" using a [of 6] bx [of 6] f(3) by (auto simp: bv)
  show "v AND TYPE_MASK = f AND TYPE_MASK"
    by (rule bit_word_eqI) (use a bx in \<open>fastforce simp: bit_and_iff bv tm\<close>)
qed

lemma block_row_fields:
  assumes "2 ^ 21 dvd unat a" and "unat a < 2 ^ 48" and "1 \<le> l"
  shows "classify_row (int l) (block_row a) = Some Block" "block_row a AND PAGE_ADDRESS_MASK = a"
    "block_row a AND ATTRIBUTE_MASK = 0" "\<not> bit (block_row a) 6"
proof -
  have a: "12 \<le> n \<and> n < 48" if "bit a n" for n using aligned_bits [OF assms(1,2) that] by simp
  have v: "block_row a = (((TYPE_BLOCK OR ACCESS_FLAG OR NOT_GLOBAL) OR a) AND NOT ATTRIBUTE_MASK) OR 0"
    by (simp add: block_row_def block_desc_set_attribute_def or.assoc)
  note f = row_fields [OF a _ _ _ _ v]
  show "block_row a AND PAGE_ADDRESS_MASK = a" "block_row a AND ATTRIBUTE_MASK = 0" "\<not> bit (block_row a) 6"
    by (rule f; simp add: consts_defs)+
  have "block_row a AND TYPE_MASK = (TYPE_BLOCK OR ACCESS_FLAG OR NOT_GLOBAL) AND TYPE_MASK"
    by (rule f; simp add: consts_defs)
  then show "classify_row (int l) (block_row a) = Some Block" using assms(3) by (simp add: classify_row_def consts_defs)
qed

lemma kernel_page_row_fields:
  assumes "2 ^ 12 dvd unat a" and "unat a < 2 ^ 48"
  shows "classify_row 3 (kernel_page_row a) = Some Page" "kernel_page_row a AND PAGE_ADDRESS_MASK = a"
    "kernel_page_row a AND ATTRIBUTE_MASK = push_bit 2 1" "\<not> bit (kernel_page_row a) 6"
proof -
  have a: "12 \<le> n \<and> n < 48" if "bit a n" for n using aligned_bits [OF assms that] by simp
  have v: "kernel_page_row a = (((TYPE_PAGE OR ACCESS_FLAG OR NOT_GLOBAL) OR a) AND NOT ATTRIBUTE_MASK) OR push_bit 2 1"
    by (simp add: kernel_page_row_def page_desc_set_attribute_def or.assoc ATTRIBUTE_SHIFT_def)
  note f = row_fields [OF a _ _ _ _ v]
  show "kernel_page_row a AND PAGE_ADDRESS_MASK = a" "kernel_page_row a AND ATTRIBUTE_MASK = push_bit 2 1" "\<not> bit (kernel_page_row a) 6"
    by (rule f; simp add: consts_defs)+
  have "kernel_page_row a AND TYPE_MASK = (TYPE_PAGE OR ACCESS_FLAG OR NOT_GLOBAL) AND TYPE_MASK"
    by (rule f; simp add: consts_defs)
  then show "classify_row 3 (kernel_page_row a) = Some Page" by (simp add: classify_row_def consts_defs)
qed

lemma table_row_fields:
  assumes "tables_ok b" and "unat k < 6" and "l < 3"
  shows "classify_row (int l) (table_row (table_ptr b k)) = Some Table"
    and "table_desc_address (TableDescriptorBuilder (table_row (table_ptr b k))) = PhysicalAddress (table_ptr b k)"
proof -
  note p = table_ptr_ok [OF assms(1,2)]
  have "table_desc_new (PhysicalAddress (table_ptr b k)) = Ok (TableDescriptorBuilder (table_row (table_ptr b k)))"
    using aligned_field [OF p(2,3)] by (simp add: table_desc_new_def field_masks table_row_def)
  note n = table_desc.new_address [OF this]
  then show "table_desc_address (TableDescriptorBuilder (table_row (table_ptr b k))) = PhysicalAddress (table_ptr b k)" by simp
  show "classify_row (int l) (table_row (table_ptr b k)) = Some Table"
    using n assms(3) by (simp add: classify_row_def consts_defs)
qed

lemma walk_table:
  assumes "R t (va_index l va) = table_row (table_ptr b k)" and "tables_ok b" "unat k < 6" "l < 3" "n = Suc l"
  shows "mmu_walk R l t va = mmu_walk R n (table_ptr b k) va"
  using table_row_fields [OF assms(2-4)] assms(1,5) by (subst mmu_walk.simps) (simp add: Let_def)

lemma walk_block:
  assumes "R t (va_index l va) = block_row a" and "2 ^ 21 dvd unat a" "unat a < 2 ^ 48" "1 \<le> l"
  shows "mmu_walk R l t va = Some (block_row a, l)"
  using block_row_fields [OF assms(2-4)] assms(1) by (subst mmu_walk.simps) (simp add: Let_def)

lemma walk_page:
  assumes "R t (va_index 3 va) = kernel_page_row a" and "2 ^ 12 dvd unat a" "unat a < 2 ^ 48"
  shows "mmu_walk R 3 t va = Some (kernel_page_row a, 3)"
  using kernel_page_row_fields [OF assms(2,3)] assms(1) by (subst mmu_walk.simps) (simp add: Let_def)


lemma va_split:
  fixes n :: nat
  assumes "n < 2 ^ 39"
  shows "n div 2 ^ 39 mod 512 = 0" "n div 2 ^ 30 mod 512 = n div 2 ^ 30"
    and "n < 2 ^ 30 \<Longrightarrow> n div 2 ^ 21 mod 512 = n div 2 ^ 21"
    and "n div 2 ^ 30 = 0 \<longleftrightarrow> n < 2 ^ 30" "n div 2 ^ 21 < 3 \<longleftrightarrow> n < 0x600000"
    and "2 ^ 21 * (n div 2 ^ 21) + 2 ^ 12 * (n div 2 ^ 12 mod 512) + n mod 2 ^ 12 = n"
proof -
  show "n div 2 ^ 39 mod 512 = 0" using assms by simp
  show "n div 2 ^ 30 = 0 \<longleftrightarrow> n < 2 ^ 30" by (simp only: div_eq_0_iff) simp
  have "n div 2 ^ 30 < 512" using assms by (simp add: less_mult_imp_div_less)
  then show "n div 2 ^ 30 mod 512 = n div 2 ^ 30" by simp
  show "n div 2 ^ 21 mod 512 = n div 2 ^ 21" if "n < 2 ^ 30"
  proof -
    have "n div 2 ^ 21 < 512" using that by (simp add: less_mult_imp_div_less)
    then show ?thesis by simp
  qed
  show "n div 2 ^ 21 < 3 \<longleftrightarrow> n < 0x600000" by auto
  show "2 ^ 21 * (n div 2 ^ 21) + 2 ^ 12 * (n div 2 ^ 12 mod 512) + n mod 2 ^ 12 = n"
  proof -
    let ?q = "n div 2 ^ 12"
    have p: "(2 :: nat) ^ 21 = 2 ^ 12 * 512" by simp
    have "n div 2 ^ 21 = ?q div 512" unfolding p by (rule div_mult2_eq)
    then have "2 ^ 21 * (n div 2 ^ 21) + 2 ^ 12 * (?q mod 512) = 2 ^ 12 * (512 * (?q div 512) + ?q mod 512)"
      unfolding p by (simp only: distrib_left mult.assoc)
    also have "512 * (?q div 512) + ?q mod 512 = ?q" by (rule mult_div_mod_eq)
    finally show ?thesis by (simp only: mult_div_mod_eq)
  qed
qed

lemma translate_walk:
  assumes "mmu_walk R 0 root va = Some (v, l)" and "v AND PAGE_ADDRESS_MASK = a" "v AND ATTRIBUTE_MASK = x" "\<not> bit v 6"
    and "unat a div 2 ^ row_shift l * 2 ^ row_shift l + unat va mod 2 ^ row_shift l = n"
  shows "translate R root va = Some (n, drop_bit 2 x, False)"
  using assms(4,5) unfolding translate_def assms(1) option.case prod.case assms(2,3) ATTRIBUTE_SHIFT_def by simp

definition kernel_rows :: "usize \<Rightarrow> rows \<Rightarrow> bool" where
  "kernel_rows b R \<longleftrightarrow> (\<forall>i < 512. R b i = (if i = 0 then table_row (table_ptr b 1) else 0))
    \<and> (\<forall>i < 512. R (table_ptr b 1) i = T1_row b i) \<and> (\<forall>i < 512. R (table_ptr b 2) i = T2_row b i)
    \<and> (\<forall>k < 3. \<forall>j < 512. R (table_ptr b (3 + of_nat k)) j = T3_row k j)"

lemma kernel_rowsD:
  assumes "kernel_rows b R"
  shows "R b 0 = table_row (table_ptr b 1)" "0 < i \<Longrightarrow> i < 512 \<Longrightarrow> R b i = 0" "i < 512 \<Longrightarrow> R (table_ptr b 1) i = T1_row b i"
    "i < 512 \<Longrightarrow> R (table_ptr b 2) i = T2_row b i" "k < 3 \<Longrightarrow> i < 512 \<Longrightarrow> R (table_ptr b (3 + of_nat k)) i = T3_row k i"
  using assms unfolding kernel_rows_def by auto

lemma kernel_walk:
  assumes b: "tables_ok b" and R: "kernel_rows b R" and va: "unat va < 2 ^ 39"
  shows "translate R b va = Some (unat va, if unat va < 0x600000 then 1 else 0, False)"
proof -
  note d = va_split [OF va]
  have i0: "va_index 0 va = 0" using d(1) by (simp add: va_index_def row_shift_def)
  have w0: "mmu_walk R 0 b va = mmu_walk R 1 (table_ptr b 1) va"
  proof (rule walk_table [OF _ b])
    show "R b (va_index 0 va) = table_row (table_ptr b 1)" unfolding i0 by (rule kernel_rowsD(1) [OF R])
  qed simp_all
  have i1: "va_index 1 va = unat va div 2 ^ 30" using d(2) by (simp add: va_index_def row_shift_def)
  have lt1: "unat va div 2 ^ 30 < 512" using va by (simp add: less_mult_imp_div_less)
  show ?thesis
  proof (cases "unat va < 2 ^ 30")
    case False
    let ?i = "of_nat (unat va div 2 ^ 30) :: u64"
    have ui: "unat ?i = unat va div 2 ^ 30" using lt1 by (intro unat_of_nat64) simp
    have ua: "unat (2 ^ 30 * ?i) = 2 ^ 30 * (unat va div 2 ^ 30)" using unat_shifted [of ?i 30] ui lt1 by simp
    have al: "2 ^ 21 dvd unat (2 ^ 30 * ?i)" "unat (2 ^ 30 * ?i) < 2 ^ 48"
      unfolding ua using lt1 by (auto intro!: dvd_mult2 le_imp_power_dvd)
    have "R (table_ptr b 1) (va_index 1 va) = block_row (2 ^ 30 * ?i)"
      using kernel_rowsD(3) [OF R lt1] i1 d(4) False by (simp add: T1_row_def)
    from walk_block [where R = R and t = "table_ptr b 1" and l = 1 and va = va, OF this al] w0 have w: "mmu_walk R 0 b va = Some (block_row (2 ^ 30 * ?i), 1)" by simp
    have "unat (2 ^ 30 * ?i) div 2 ^ 30 * 2 ^ 30 + unat va mod 2 ^ 30 = unat va" unfolding ua by simp
    then show ?thesis
      using translate_walk [OF w block_row_fields(2-4) [OF al, of 1]] False by (simp add: row_shift_def)
  next
    case True
    have i2: "va_index 2 va = unat va div 2 ^ 21" using d(3) [OF True] by (simp add: va_index_def row_shift_def)
    have lt2: "unat va div 2 ^ 21 < 512" using True by (simp add: less_mult_imp_div_less)
    have "R (table_ptr b 1) (va_index 1 va) = table_row (table_ptr b 2)"
      using kernel_rowsD(3) [OF R lt1] i1 d(4) True by (simp add: T1_row_def)
    then have "mmu_walk R 1 (table_ptr b 1) va = mmu_walk R 2 (table_ptr b 2) va"
      by (rule walk_table [OF _ b]) simp_all
    with w0 have w1: "mmu_walk R 0 b va = mmu_walk R 2 (table_ptr b 2) va" by (rule trans)
    let ?i = "of_nat (unat va div 2 ^ 21) :: u64"
    have ui: "unat ?i = unat va div 2 ^ 21" using lt2 by (intro unat_of_nat64) simp
    have ua: "unat (2 ^ 21 * ?i) = 2 ^ 21 * (unat va div 2 ^ 21)" using unat_shifted [of ?i 21] ui lt2 by simp
    show ?thesis
    proof (cases "unat va < 0x600000")
      case False
      have al: "2 ^ 21 dvd unat (2 ^ 21 * ?i)" "unat (2 ^ 21 * ?i) < 2 ^ 48" unfolding ua using lt2 by simp_all
      have "R (table_ptr b 2) (va_index 2 va) = block_row (2 ^ 21 * ?i)"
        using kernel_rowsD(4) [OF R lt2] i2 d(5) False by (simp add: T2_row_def)
      from walk_block [where R = R and t = "table_ptr b 2" and l = 2 and va = va, OF this al] w1 have w: "mmu_walk R 0 b va = Some (block_row (2 ^ 21 * ?i), 2)" by simp
      have "unat (2 ^ 21 * ?i) div 2 ^ 21 * 2 ^ 21 + unat va mod 2 ^ 21 = unat va" unfolding ua by simp
      then show ?thesis
        using translate_walk [OF w block_row_fields(2-4) [OF al, of 2]] False by (simp add: row_shift_def)
    next
      case low: True
      let ?j = "of_nat (unat va div 2 ^ 12 mod 512) :: u64"
      have k: "unat va div 2 ^ 21 < 3" using low d(5) by simp
      have k6: "unat (3 + ?i) < 6" using unat_3_plus [of ?i] ui k by simp
      have "R (table_ptr b 2) (va_index 2 va) = table_row (table_ptr b (3 + ?i))"
        using kernel_rowsD(4) [OF R lt2] i2 k by (simp add: T2_row_def)
      then have "mmu_walk R 2 (table_ptr b 2) va = mmu_walk R 3 (table_ptr b (3 + ?i)) va"
        by (rule walk_table [OF _ b k6]) simp_all
      with w1 have w2: "mmu_walk R 0 b va = mmu_walk R 3 (table_ptr b (3 + ?i)) va" by (rule trans)
      have uj: "unat ?j = unat va div 2 ^ 12 mod 512" by (intro unat_of_nat64) (simp add: less_le_trans [of _ 512])
      have ub: "unat (2 ^ 12 * ?j) = 2 ^ 12 * (unat va div 2 ^ 12 mod 512)" using unat_shifted [of ?j 12] uj by simp
      have uab: "unat (2 ^ 21 * ?i + 2 ^ 12 * ?j) = 2 ^ 21 * (unat va div 2 ^ 21) + 2 ^ 12 * (unat va div 2 ^ 12 mod 512)"
        using ua ub d(6) True by (subst unat_add_noof) simp_all
      have al: "2 ^ 12 dvd unat (2 ^ 21 * ?i + 2 ^ 12 * ?j)" "unat (2 ^ 21 * ?i + 2 ^ 12 * ?j) < 2 ^ 48"
        unfolding uab using d(6) True by (auto intro!: dvd_add dvd_mult2 le_imp_power_dvd)
      have "R (table_ptr b (3 + ?i)) (va_index 3 va) = kernel_page_row (2 ^ 21 * ?i + 2 ^ 12 * ?j)"
        using kernel_rowsD(5) [OF R k, of "unat va div 2 ^ 12 mod 512"] by (simp add: T3_row_def va_index_def row_shift_def)
      from walk_page [where R = R and t = "table_ptr b (3 + ?i)" and va = va, OF this al] w2 have w: "mmu_walk R 0 b va = Some (kernel_page_row (2 ^ 21 * ?i + 2 ^ 12 * ?j), 3)" by simp
      have "unat (2 ^ 21 * ?i + 2 ^ 12 * ?j) div 2 ^ 12 * 2 ^ 12 + unat va mod 2 ^ 12 = unat va"
        using al(1) d(6) unfolding uab by simp
      then show ?thesis
        using translate_walk [OF w kernel_page_row_fields(2-4) [OF al]] low by (simp add: row_shift_def)
    qed
  qed
qed


lemma translate_no_row:
  assumes "R b (va_index 0 va) = 0"
  shows "translate R b va = None"
  using assms by (simp add: translate_def) (subst mmu_walk.simps, simp)

lemma kernel_rows_created:
  assumes b: "tables_ok b" and z: "\<forall>i < 512. mem_rows m b i = 0"
  shows "\<exists>m'. create_tables b m = (Ok b, m') \<and> kernel_rows b (mem_rows m')"
proof -
  have "rows_eq m (mem_rows m)" by (simp add: rows_eq_def)
  from create_tables_rows [OF b this] obtain m' R' where c: "create_tables b m = (Ok b, m')" "rows_eq m' R'"
    and r: "\<And>i. R' b i = (if i = 0 then table_row (table_ptr b 1) else mem_rows m b i)"
      "\<And>i. i < 512 \<Longrightarrow> R' (table_ptr b 1) i = T1_row b i" "\<And>i. i < 512 \<Longrightarrow> R' (table_ptr b 2) i = T2_row b i"
      "\<And>k j. k < 3 \<Longrightarrow> j < 512 \<Longrightarrow> R' (table_ptr b (3 + of_nat k)) j = T3_row k j"
    by blast
  have p: "page_ptr b" "page_ptr (table_ptr b 1)" "page_ptr (table_ptr b 2)"
    using table_ptr_ok(1) [OF b, of 0] table_ptr_ok(1) [OF b, of 1] table_ptr_ok(1) [OF b, of 2] by (simp_all add: table_ptr_def)
  have p3: "page_ptr (table_ptr b (3 + of_nat k))" if "k < 3" for k
  proof -
    have "unat (of_nat k :: u64) = k" using that by (intro unat_of_nat64) simp
    then show ?thesis using unat_3_plus [of "of_nat k"] that by (intro table_ptr_ok(1) [OF b]) simp
  qed
  have m': "mem_rows m' t i = R' t i" if "page_ptr t" "i < 512" for t i using c(2) that by (simp add: rows_eq_def)
  have "kernel_rows b (mem_rows m')"
    unfolding kernel_rows_def using m' [OF p(1)] m' [OF p(2)] m' [OF p(3)] m' [OF p3] r z by auto
  with c(1) show ?thesis by blast
qed

text \<open>
  The kernel's address map. With the array of tables aligned, below \<open>2 ^ 48\<close> and zeroed as the linker leaves
  it, \<^verbatim>\<open>virtual_memory_early_init\<close> succeeds, turns the MMU on with the same root for both halves of
  the address space, and by the architecture's walk of the tables every address of the first
  512 GB is translated to itself, without access from EL0: as normal memory below 6 MB, as device memory
  above. Other addresses of the half are not translated.
\<close>

lemma early_init_identity:
  assumes "tables_ok b" and "\<forall>i < 512. mem_rows m b i = 0"
  shows "\<exists>u' m'. virtual_memory_early_init b (u, m) = (Ok (), (u', m'))
    \<and> mmu_ttbr0 u' = b \<and> mmu_ttbr1 u' = b \<and> bit (sctlr_el1 u') 0 \<and> mair_el1 u' = 0x44FF00
    \<and> (\<forall>va. unat va < 2 ^ 48 \<longrightarrow> translate (mem_rows m') b va =
         (if unat va < 2 ^ 39 then Some (unat va, if unat va < 0x600000 then attribute_index Normal else attribute_index Device, False)
          else None))"
proof -
  obtain m' where c: "create_tables b m = (Ok b, m')" and R: "kernel_rows b (mem_rows m')"
    using kernel_rows_created [OF assms] by blast
  have "translate (mem_rows m') b va = None" if "unat va < 2 ^ 48" "\<not> unat va < 2 ^ 39" for va
  proof -
    have "0 < unat va div 2 ^ 39" using that(2) by (simp add: div_greater_zero_iff)
    moreover have "unat va div 2 ^ 39 < 512" using that(1) by (simp add: less_mult_imp_div_less)
    ultimately have "0 < va_index 0 va" "va_index 0 va < 512" by (simp_all add: va_index_def row_shift_def)
    from kernel_rowsD(2) [OF R this] show ?thesis by (rule translate_no_row)
  qed
  moreover have "translate (mem_rows m') b va = Some (unat va, if unat va < 0x600000 then attribute_index Normal else attribute_index Device, False)"
    if "unat va < 2 ^ 39" for va using kernel_walk [OF assms(1) R that] by simp
  moreover have "virtual_memory_early_init b (u, m) = (Ok (), (u\<lparr>mair_el1 := MAIR_EL1, tcr_el1 := TCR_EL1, mmu_ttbr0 := b, mmu_ttbr1 := b,
      sctlr_el1 := sctlr_el1 u OR SCTLR_EL1_C OR SCTLR_EL1_I OR SCTLR_EL1_M\<rparr>, m'))"
    by (simp add: virtual_memory_early_init_def c)
  moreover have "bit (sctlr_el1 u OR SCTLR_EL1_C OR SCTLR_EL1_I OR SCTLR_EL1_M) 0" by (simp add: SCTLR_EL1_M_def bit_or_iff)
  moreover have "MAIR_EL1 = 0x44FF00" by (simp add: consts_defs)
  ultimately show ?thesis by auto
qed

lemma early_init_identity_witness:
  "\<exists>u' m'. virtual_memory_early_init 0x90000 (\<lparr>mair_el1 = 0, tcr_el1 = 0, mmu_ttbr0 = 0, mmu_ttbr1 = 0, sctlr_el1 = 0\<rparr>, \<lambda>_. 0) = (Ok (), (u', m'))
     \<and> translate (mem_rows m') 0x90000 0x123456 = Some (0x123456, 1, False)"
proof -
  have "tables_ok 0x90000" by (simp add: tables_ok_def)
  moreover have "\<forall>i < 512. mem_rows (\<lambda>_. 0) 0x90000 i = 0"
    by (simp add: mem_rows_def read_u64_def map_replicate_const le_word_zeros)
  ultimately show ?thesis
    using early_init_identity [of "0x90000" "\<lambda>_. 0" "\<lparr>mair_el1 = 0, tcr_el1 = 0, mmu_ttbr0 = 0, mmu_ttbr1 = 0, sctlr_el1 = 0\<rparr>"] by fastforce
qed

end
