(* ===== verification/Start.thy ===== *)
theory Start
  imports Memory_Init Cpu
begin

unbundle bit_operations_syntax

text \<open>
  The first instructions (\<^verbatim>\<open>boot/aarch64/start.rs\<close>, \<^verbatim>\<open>start.s\<close>): the values that the assembly writes to the system registers, and its
  effect from the entry of the image to the branch to \<^verbatim>\<open>kernel_init\<close>: the BSS is cleared, the core goes to EL1, virtual memory
  is enabled, and stack and program counter move to the kernel's half of the address space.
\<close>

definition HCR_EL2_RW :: u64 where
  [consts_defs]: "HCR_EL2_RW = push_bit 31 1"

definition SCTLR_EL1_SA :: u64 where
  [consts_defs]: "SCTLR_EL1_SA = push_bit 3 1"

definition SCTLR_EL1_SA0 :: u64 where
  [consts_defs]: "SCTLR_EL1_SA0 = push_bit 4 1"

definition SCTLR_EL1_EOS :: u64 where
  [consts_defs]: "SCTLR_EL1_EOS = push_bit 11 1"

definition SCTLR_EL1_NTWI :: u64 where
  [consts_defs]: "SCTLR_EL1_NTWI = push_bit 16 1"

definition SCTLR_EL1_NTWE :: u64 where
  [consts_defs]: "SCTLR_EL1_NTWE = push_bit 18 1"

definition SCTLR_EL1_EIS :: u64 where
  [consts_defs]: "SCTLR_EL1_EIS = push_bit 22 1"

definition SCTLR_EL1_SPAN :: u64 where
  [consts_defs]: "SCTLR_EL1_SPAN = push_bit 23 1"

definition SCTLR_EL1_INIT :: u64 where
  [consts_defs]: "SCTLR_EL1_INIT = SCTLR_EL1_SA OR SCTLR_EL1_SA0 OR SCTLR_EL1_EOS OR SCTLR_EL1_NTWI OR SCTLR_EL1_NTWE OR SCTLR_EL1_EIS
     OR SCTLR_EL1_SPAN"

definition SPSR_EL2_F :: u64 where
  [consts_defs]: "SPSR_EL2_F = push_bit 6 1"

definition SPSR_EL2_I :: u64 where
  [consts_defs]: "SPSR_EL2_I = push_bit 7 1"

definition SPSR_EL2_A :: u64 where
  [consts_defs]: "SPSR_EL2_A = push_bit 8 1"

definition SPSR_EL2_D :: u64 where
  [consts_defs]: "SPSR_EL2_D = push_bit 9 1"

definition SPSR_EL2_M_EL1H :: u64 where
  [consts_defs]: "SPSR_EL2_M_EL1H = 0b0101"

definition SPSR_EL2_INIT :: u64 where
  [consts_defs]: "SPSR_EL2_INIT = SPSR_EL2_D OR SPSR_EL2_A OR SPSR_EL2_I OR SPSR_EL2_F OR SPSR_EL2_M_EL1H"

section \<open>From the entry to the kernel\<close>

text \<open>
  The loop that clears the BSS stores sixteen bytes before it compares. A loop that wraps around the address space has no end.
\<close>

partial_function (option) clear_bss :: "usize \<Rightarrow> usize \<Rightarrow> mem \<Rightarrow> mem option" where
  "clear_bss x9 x10 m =
     (let m = write_u64 (write_u64 m x9 0) (x9 + 8) 0; x9 = x9 + 16
      in if x9 < x10 then clear_bss x9 x10 m else Some m)"

text \<open>Addresses that the linker chooses, in the kernel's half, and the address of \<^verbatim>\<open>TABLES\<close> as the code computes it before virtual memory is on.\<close>

record symbols =
  sym_bss_start :: usize
  sym_bss_end :: usize
  sym_stack_start :: usize
  sym_after_relocate :: usize
  sym_tables :: usize

text \<open>\<open>st_el\<close> is the exception level, and \<open>st_spsel\<close> says which stack pointer is in use: that of the level (1) or that of EL0 (0).\<close>

record start_state =
  st_mmu :: mmu
  st_cpu :: cpu
  st_hcr_el2 :: u64
  st_el :: nat
  st_spsel :: nat
  st_mem :: mem

text \<open>
  The exception return from EL2, as the architecture defines it: the level and the stack pointer are taken from the mode field of the saved
  status, the exception mask from the bits at the positions they have in \<^verbatim>\<open>DAIF\<close>. Illegal are a return to AArch32 state, to a higher level, to a
  reserved mode, and to EL1 or EL0 in AArch64 state while \<^verbatim>\<open>HCR_EL2\<close> says that they use AArch32; then the code does not go on.
\<close>

definition eret :: "u64 \<Rightarrow> start_state \<Rightarrow> unit res \<times> start_state" where
  "eret spsr st =
     (let el = unat (drop_bit 2 (spsr AND 0xF)) in
      if bit spsr 4 \<or> bit spsr 1 \<or> st_el st < el \<or> (el = 0 \<and> bit spsr 0) \<or> (el < 2 \<and> \<not> bit (st_hcr_el2 st) 31) then (Panic, st)
      else (Ok (), st\<lparr>st_el := el, st_spsel := unat (spsr AND 1), st_cpu := (st_cpu st)\<lparr>daif := spsr AND 0x3C0\<rparr>\<rparr>))"

definition enter_el1 :: "start_state \<Rightarrow> unit res \<times> start_state" where
  "enter_el1 st = eret SPSR_EL2_INIT (st\<lparr>st_mmu := (st_mmu st)\<lparr>sctlr_el1 := SCTLR_EL1_INIT\<rparr>\<rparr>)"

lemma enter_el1_state:
  assumes "st_el st = 2" and "bit (st_hcr_el2 st) 31"
  shows "enter_el1 st = (Ok (), st\<lparr>st_el := 1, st_spsel := 1, st_mmu := (st_mmu st)\<lparr>sctlr_el1 := SCTLR_EL1_INIT\<rparr>,
     st_cpu := (st_cpu st)\<lparr>daif := 0x3C0\<rparr>\<rparr>)"
  using assms by (simp add: enter_el1_def eret_def consts_defs bit_simps)

definition set_sp :: "u64 \<Rightarrow> start_state \<Rightarrow> start_state" where
  "set_sp v st = st\<lparr>st_cpu := (st_cpu st)\<lparr>regs := (regs (st_cpu st))\<lparr>sp := v\<rparr>\<rparr>\<rparr>"

text \<open>The result is the address of the next instruction.\<close>

definition start :: "symbols \<Rightarrow> start_state \<Rightarrow> u64 res \<times> start_state" where
  "start sy st =
     (case clear_bss (sym_bss_start sy AND NOT VA_START) (sym_bss_end sy AND NOT VA_START) (st_mem st) of
        None \<Rightarrow> (Hang, st)
      | Some m \<Rightarrow>
          let st = st\<lparr>st_mem := m, st_hcr_el2 := HCR_EL2_RW OR st_hcr_el2 st\<rparr> in
          and_then (enter_el1 st) (\<lambda>_ st.
          let st = set_sp (sym_stack_start sy AND NOT VA_START) st
          in and_then (case virtual_memory_early_init (sym_tables sy) (st_mmu st, st_mem st) of (r, (u, m)) \<Rightarrow> (r, st\<lparr>st_mmu := u, st_mem := m\<rparr>)) (\<lambda>_ st.
             let st = set_sp (sp (regs (st_cpu st)) OR VA_START) st;
                 x9 = sym_after_relocate sy AND NOT VA_START
             in (Ok (x9 OR VA_START), st))))"

section \<open>Clearing the BSS\<close>

lemma write_zero_pair: "write_u64 (write_u64 m a 0) (a + 8) 0 = fill_bytes m a 0 16"
proof (rule ext)
  fix x
  have z: "word_le 8 0 ! i = 0" if "i < 8" for i using that by (simp add: word_le_def)
  have l: "length (word_le 8 0) = 8" by (simp add: word_le_def)
  have d: "x - (a + 8) = (x - a) - 8" by simp
  have u: "unat ((x - a) - 8) = unat (x - a) - 8" if "8 \<le> unat (x - a)" using that by (simp add: unat_sub_noof)
  have w: "\<not> unat ((x - a) - 8) < 8" if "unat (x - a) < 8"
    using that by (subst word_diff_less_iff) simp_all
  show "write_u64 (write_u64 m a 0) (a + 8) 0 x = fill_bytes m a 0 16 x"
    using z u w unfolding write_u64_def write_bytes_at_def fill_bytes_def l d by (cases "unat (x - a) < 8") auto
qed

lemma fill_bytes_join:
  assumes "unat a + n + k < 2 ^ 64"
  shows "fill_bytes (fill_bytes m a v n) (a + of_nat n) v k = fill_bytes m a v (n + k)"
proof (rule ext)
  fix x
  have n: "unat (of_nat n :: u64) = n" using assms by (intro unat_of_nat64) simp
  then have u: "unat (a + of_nat n) = unat a + n" using assms by (simp add: unat_add_noof)
  have "unat (x - (a + of_nat n)) < k \<longleftrightarrow> unat a + n \<le> unat x \<and> unat x < unat a + n + k"
    using assms u by (subst word_diff_less_iff) auto
  moreover have "unat (x - a) < j \<longleftrightarrow> unat a \<le> unat x \<and> unat x < unat a + j" if "unat a + j < 2 ^ 64" for j
    using that by (subst word_diff_less_iff) auto
  ultimately show "fill_bytes (fill_bytes m a v n) (a + of_nat n) v k x = fill_bytes m a v (n + k) x"
    using assms by (auto simp: fill_bytes_def)
qed

text \<open>The loop ends and clears whole blocks of sixteen bytes: up to the end, rounded up, and at least one.\<close>

lemma clear_bss_fills:
  assumes "unat x10 + 16 < 2 ^ 64" and "unat x9 \<le> unat x10"
  shows "\<exists>n. clear_bss x9 x10 m = Some (fill_bytes m x9 0 n) \<and> unat x10 \<le> unat x9 + n \<and> unat x9 + n \<le> unat x10 + 16"
  using assms
proof (induction "unat x10 - unat x9" arbitrary: x9 m rule: less_induct)
  case less
  have u: "unat (x9 + 16) = unat x9 + 16" using less.prems by (simp add: unat_add_noof)
  show ?case
  proof (cases "x9 + 16 < x10")
    case True
    then have lt: "unat x9 + 16 < unat x10" using u by (simp add: word_less_nat_alt)
    have "unat x10 - unat (x9 + 16) < unat x10 - unat x9" "unat (x9 + 16) \<le> unat x10" using lt u by linarith+
    note IH = less.hyps [OF this(1) less.prems(1) this(2), of "fill_bytes m x9 0 16"]
    obtain n where n: "clear_bss (x9 + 16) x10 (fill_bytes m x9 0 16) = Some (fill_bytes (fill_bytes m x9 0 16) (x9 + 16) 0 n)"
        "unat x10 \<le> unat (x9 + 16) + n" "unat (x9 + 16) + n \<le> unat x10 + 16"
      using IH by blast
    have "fill_bytes (fill_bytes m x9 0 16) (x9 + 16) 0 n = fill_bytes m x9 0 (16 + n)"
      using fill_bytes_join [of x9 16 n m 0] n(3) u less.prems(1) by simp
    moreover have "clear_bss x9 x10 m = clear_bss (x9 + 16) x10 (fill_bytes m x9 0 16)"
      using True by (subst clear_bss.simps) (simp add: write_zero_pair)
    ultimately show ?thesis using n u by (intro exI [of _ "16 + n"]) simp
  next
    case False
    then have "unat x10 \<le> unat x9 + 16" using u by (simp add: word_less_nat_alt)
    moreover have "clear_bss x9 x10 m = Some (fill_bytes m x9 0 16)"
      using False by (subst clear_bss.simps) (simp add: write_zero_pair)
    ultimately show ?thesis using less.prems by (intro exI [of _ 16]) simp
  qed
qed

section \<open>The start\<close>

text \<open>Kernel addresses and the physical addresses behind them.\<close>

lemma to_kernel_half:
  assumes "va AND VA_START = VA_START"
  shows "(va AND NOT VA_START) OR VA_START = va"
proof (rule bit_word_eqI)
  fix n
  have "bit (va AND VA_START) n = bit VA_START n" using assms by simp
  then show "bit ((va AND NOT VA_START) OR VA_START) n = bit va n"
    by (auto simp: bit_simps dest: bit_imp_le_length)
qed

text \<open>The linker puts the BSS on a page boundary with the tables in it, and everything in the six megabytes of the kernel.\<close>

definition linked :: "symbols \<Rightarrow> bool" where
  "linked sy \<longleftrightarrow>
     (let s = sym_bss_start sy AND NOT VA_START; e = sym_bss_end sy AND NOT VA_START in
      unat s \<le> unat (sym_tables sy) \<and> unat (sym_tables sy) + 6 * 4096 \<le> unat e \<and> unat e \<le> 0x600000
      \<and> 4096 dvd unat (sym_tables sy))
     \<and> sym_stack_start sy AND VA_START = VA_START
     \<and> sym_after_relocate sy AND VA_START = VA_START \<and> unat (sym_after_relocate sy AND NOT VA_START) < 0x600000"

lemma filled_rows:
  assumes "unat a \<le> unat t" and "unat t + 4096 \<le> unat a + n" and "unat a + n < 2 ^ 64" and "i < 512"
  shows "mem_rows (fill_bytes m a 0 n) t i = 0"
proof -
  have "unat (row_addr t i) = unat t + 8 * i"
  proof -
    have "unat (of_nat (8 * i) :: u64) = 8 * i" using assms(4) by (intro unat_of_nat64) simp
    then show ?thesis using assms unfolding row_addr_def by (subst unat_add_noof) simp_all
  qed
  then show ?thesis unfolding mem_rows_def using assms by (intro read_u64_fill_zero) simp_all
qed

section \<open>Creating the tables changes nothing else\<close>

definition in_tables :: "usize \<Rightarrow> usize \<Rightarrow> bool" where
  "in_tables b x \<longleftrightarrow> unat b \<le> unat x \<and> unat x < unat b + 6 * 4096"

definition only_tables :: "usize \<Rightarrow> (mem \<Rightarrow> 'a res \<times> mem) \<Rightarrow> bool" where
  "only_tables b f \<longleftrightarrow> (\<forall>m x. \<not> in_tables b x \<longrightarrow> snd (f m) x = m x)"

lemma only_tables_and_then:
  assumes "only_tables b f" and "\<And>r. only_tables b (g r)"
  shows "only_tables b (\<lambda>m. and_then (f m) g)"
  unfolding only_tables_def
proof (intro allI impI)
  fix m x assume x: "\<not> in_tables b x"
  obtain r m1 where f: "f m = (r, m1)" by (cases "f m") auto
  then have "m1 x = m x" using assms(1) x unfolding only_tables_def by (metis snd_conv)
  moreover have "snd (g v m1) x = m1 x" for v using assms(2) x unfolding only_tables_def by blast
  ultimately show "snd (and_then (f m) g) x = m x" using f by (cases r) simp_all
qed

lemma only_tables_pure [simp]: "only_tables b (\<lambda>m. (r, m))"
  by (simp add: only_tables_def)

lemma only_tables_for_range:
  assumes "\<And>i. only_tables b (f i)"
  shows "only_tables b (for_range i n f)"
proof (induction n arbitrary: i)
  case (Suc n)
  have "for_range i (Suc n) f = (\<lambda>m. and_then (f (of_nat i) m) (\<lambda>_. for_range (Suc i) n f))" by (rule ext) simp
  then show ?case using only_tables_and_then [OF assms Suc] by simp
qed (simp add: only_tables_def)

lemma only_tables_row:
  assumes "tables_ok b" and "unat k < 6" and "tm_table (row_table r) = table_ptr b k"
  shows "only_tables b (row_set_value r v)"
  unfolding only_tables_def
proof (intro allI impI)
  fix m x assume x: "\<not> in_tables b x"
  show "snd (row_set_value r v m) x = m x"
  proof (cases "row_index r < ROW_COUNT")
    case True
    let ?p = "row_ptr r"
    have i: "unat (row_index r) < 512" using True by (simp add: word_less_nat_alt ROW_COUNT_def)
    have "unat (8 * row_index r) = 8 * unat (row_index r)" using i by (subst unat_mult_noof) simp_all
    then have p: "unat ?p = unat b + 4096 * unat k + 8 * unat (row_index r)"
      using unat_table_ptr [OF assms(1,2)] assms i by (simp add: row_ptr_def unat_add_noof tables_ok_def)
    have "unat (x - ?p) < 8 \<longleftrightarrow> unat ?p \<le> unat x \<and> unat x < unat ?p + 8"
      using p i assms(1,2) by (subst word_diff_less_iff) (auto simp: tables_ok_def)
    moreover have "unat ?p + 8 \<le> unat b + 6 * 4096" using p i assms(2) by linarith
    ultimately have "\<not> unat (x - ?p) < 8" using x p unfolding in_tables_def by linarith
    moreover have "length (word_le 8 v) = 8" by (simp add: word_le_def)
    ultimately show ?thesis using True by (simp add: row_set_value_def write_u64_def write_bytes_at_def)
  next
    case False
    then show ?thesis by (simp add: row_set_value_def)
  qed
qed

lemma only_tables_if: "(c \<Longrightarrow> only_tables b f) \<Longrightarrow> (\<not> c \<Longrightarrow> only_tables b g) \<Longrightarrow> only_tables b (\<lambda>m. if c then f m else g m)"
  by (cases c) simp_all

lemma only_tables_writes:
  assumes "tables_ok b" and "unat k < 6" and "tm_table (row_table r) = table_ptr b k"
  shows "only_tables b (write_table r t)" "only_tables b (write_block r d)" "only_tables b (write_page r p)"
  unfolding write_table_def [abs_def] write_block_def [abs_def] write_page_def [abs_def]
  by (intro only_tables_if only_tables_pure only_tables_row [OF assms])+

lemma only_tables_levels:
  assumes "tables_ok b"
  shows "only_tables b (level1_row (table_manager_new (table_ptr b 1) l st) t i)"
    and "unat k < 6 \<Longrightarrow> only_tables b (level3_row (table_manager_new (table_ptr b k) l st) i)"
    and "only_tables b (level2_row (table_manager_new (table_ptr b 2) l st)
           [table_manager_new (table_ptr b 3) l3 s3, table_manager_new (table_ptr b 4) l4 s4, table_manager_new (table_ptr b 5) l5 s5] i)"
proof -
  note w = only_tables_writes [OF assms] and s = only_tables_and_then only_tables_if only_tables_pure
  show "only_tables b (level1_row (table_manager_new (table_ptr b 1) l st) t i)"
    unfolding level1_row_def [abs_def] Let_def
    by (intro s w(1,2) [where k = 1]) (simp_all add: tm_row_def table_manager_new_def)
  show l3: "only_tables b (level3_row (table_manager_new (table_ptr b k) l st) i)" if "unat k < 6" for k l st i
    unfolding level3_row_def [abs_def] Let_def
    by (intro s w(3) [OF that]) (simp_all add: tm_row_def table_manager_new_def)
  let ?ts = "[table_manager_new (table_ptr b 3) l3 s3, table_manager_new (table_ptr b 4) l4 s4, table_manager_new (table_ptr b 5) l5 s5]"
  have "only_tables b (level3_row (?ts ! unat i) j)" if "i < L3_TABLE_COUNT" for i j
  proof -
    have "unat i < 3" using that by (simp add: L3_TABLE_COUNT_def word_less_nat_alt)
    then consider "unat i = 0" | "unat i = 1" | "unat i = 2" by linarith
    then show ?thesis by cases (simp_all add: l3)
  qed
  then show "only_tables b (level2_row (table_manager_new (table_ptr b 2) l st) ?ts i)"
    unfolding level2_row_def [abs_def] Let_def
    by (intro s w(1,2) [where k = 2] only_tables_for_range) (simp_all add: tm_row_def table_manager_new_def)
qed

lemma create_tables_frame:
  assumes "tables_ok b" and "\<not> in_tables b x"
  shows "snd (create_tables b m) x = m x"
proof -
  note w = only_tables_writes [OF assms(1)] and s = only_tables_and_then only_tables_for_range only_tables_levels [OF assms(1)] only_tables_pure
  have "only_tables b (create_tables b)"
    unfolding create_tables_def [abs_def] Let_def
    by (intro s w(1) [where k = 0]) (simp_all add: tm_row_def table_manager_new_def)
  then show ?thesis using assms(2) by (simp add: only_tables_def)
qed

section \<open>What the first instructions do\<close>

lemma early_init_result:
  assumes "virtual_memory_early_init b (u, m) = (Ok (), (u', m'))" and "tables_ok b"
  shows "u' = \<lparr>mair_el1 = MAIR_EL1, tcr_el1 = TCR_EL1, mmu_ttbr0 = mmu_ttbr0 u', mmu_ttbr1 = mmu_ttbr1 u',
      sctlr_el1 = sctlr_el1 u OR SCTLR_EL1_C OR SCTLR_EL1_I OR SCTLR_EL1_M\<rparr>"
    and "\<not> in_tables b x \<Longrightarrow> m' x = m x"
proof -
  obtain r m1 where c: "create_tables b m = (r, m1)" by (cases "create_tables b m") auto
  then obtain root where "r = Ok root" "m' = m1" "u' = u\<lparr>mair_el1 := MAIR_EL1, tcr_el1 := TCR_EL1, mmu_ttbr0 := root, mmu_ttbr1 := root,
      sctlr_el1 := sctlr_el1 u OR SCTLR_EL1_C OR SCTLR_EL1_I OR SCTLR_EL1_M\<rparr>"
    using assms(1) by (cases r) (auto simp: virtual_memory_early_init_def)
  then show "u' = \<lparr>mair_el1 = MAIR_EL1, tcr_el1 = TCR_EL1, mmu_ttbr0 = mmu_ttbr0 u', mmu_ttbr1 = mmu_ttbr1 u',
      sctlr_el1 = sctlr_el1 u OR SCTLR_EL1_C OR SCTLR_EL1_I OR SCTLR_EL1_M\<rparr>" by simp
  show "m' x = m x" if "\<not> in_tables b x"
    using create_tables_frame [OF assms(2) that, of m] c \<open>m' = m1\<close> by simp
qed

text \<open>
  C13. The first instructions. From EL2, any memory and any registers, with the symbols where the linker script puts them: the
  loop over the BSS ends, and every byte of the BSS outside the translation tables is zero when the kernel starts (the tables were zero before they
  were filled), while nothing before the BSS and nothing more than sixteen bytes behind it has changed. The code continues at the address of \<^verbatim>\<open>after_relocate\<close> with the stack of the kernel, both in the upper
  half, in AArch64 state at EL1 on the stack pointer of EL1, with all exceptions masked. The system registers hold: AArch64 for the lower
  levels, beside what the firmware has set; the memory attributes; two halves of 48 bits with pages of 4 KB;
  MMU and caches on. By the architecture's walk the instruction there is the one that was next before, every address of the first 512 GB means itself, in both
  halves, and EL0 reaches nothing.
\<close>

theorem start_reaches_kernel:
  assumes "linked sy" and "st_el st = 2"
  shows "\<exists>st'. start sy st = (Ok (sym_after_relocate sy), st') \<and> sp (regs (st_cpu st')) = sym_stack_start sy
    \<and> st_el st' = 1 \<and> st_spsel st' = 1 \<and> daif (st_cpu st') = 0x3C0 \<and> \<not> interrupts_enabled (st_cpu st')
    \<and> (\<forall>x. unat (sym_bss_start sy AND NOT VA_START) \<le> unat x \<longrightarrow> unat x < unat (sym_bss_end sy AND NOT VA_START) \<longrightarrow>
         \<not> in_tables (sym_tables sy) x \<longrightarrow> st_mem st' x = 0)
    \<and> (\<forall>x. unat x < unat (sym_bss_start sy AND NOT VA_START) \<or> unat (sym_bss_end sy AND NOT VA_START) + 16 \<le> unat x \<longrightarrow>
         st_mem st' x = st_mem st x)
    \<and> st_hcr_el2 st' = HCR_EL2_RW OR st_hcr_el2 st
    \<and> st_mmu st' = \<lparr>mair_el1 = 0x44FF00, tcr_el1 = 0x1280100010, mmu_ttbr0 = sym_tables sy, mmu_ttbr1 = sym_tables sy, sctlr_el1 = 0xC5181D\<rparr>
    \<and> translate (mem_rows (st_mem st')) (sym_tables sy) (take_bit 48 (sym_after_relocate sy))
        = Some (unat (sym_after_relocate sy AND NOT VA_START), attribute_index Normal, False)
    \<and> (\<forall>va. unat va < 2 ^ 48 \<longrightarrow> translate (mem_rows (st_mem st')) (sym_tables sy) va =
         (if unat va < 2 ^ 39 then Some (unat va, if unat va < 0x600000 then attribute_index Normal else attribute_index Device, False)
          else None))"
proof -
  let ?s = "sym_bss_start sy AND NOT VA_START" and ?e = "sym_bss_end sy AND NOT VA_START" and ?b = "sym_tables sy" and ?a = "sym_after_relocate sy"
  have l: "unat ?s \<le> unat ?b" "unat ?b + 6 * 4096 \<le> unat ?e" "unat ?e \<le> 0x600000" "4096 dvd unat ?b"
    "sym_stack_start sy AND VA_START = VA_START" "?a AND VA_START = VA_START" "unat (?a AND NOT VA_START) < 0x600000"
    using assms(1) by (simp_all add: linked_def Let_def)
  obtain n where n: "clear_bss ?s ?e (st_mem st) = Some (fill_bytes (st_mem st) ?s 0 n)" "unat ?e \<le> unat ?s + n" "unat ?s + n \<le> unat ?e + 16"
    using clear_bss_fills [of ?e ?s "st_mem st"] l by auto
  have tb: "tables_ok ?b" using l by (simp add: tables_ok_def)
  have z: "\<forall>i < 512. mem_rows (fill_bytes (st_mem st) ?s 0 n) ?b i = 0"
    using filled_rows [of ?s ?b n] n l by simp
  let ?u = "(st_mmu st)\<lparr>sctlr_el1 := SCTLR_EL1_INIT\<rparr>" and ?c = "(st_cpu st)\<lparr>daif := 0x3C0\<rparr>" and ?h = "HCR_EL2_RW OR st_hcr_el2 st"
  obtain u m where e: "virtual_memory_early_init ?b (?u, fill_bytes (st_mem st) ?s 0 n) = (Ok (), (u, m))" "mmu_ttbr0 u = ?b" "mmu_ttbr1 u = ?b"
      "\<forall>va. unat va < 2 ^ 48 \<longrightarrow> translate (mem_rows m) ?b va =
         (if unat va < 2 ^ 39 then Some (unat va, if unat va < 0x600000 then attribute_index Normal else attribute_index Device, False) else None)"
    using early_init_identity [OF tb z, of ?u] by blast
  note r = early_init_result [OF e(1) tb]
  let ?st = "\<lparr>st_mmu = u, st_cpu = ?c\<lparr>regs := (regs ?c)\<lparr>sp := sym_stack_start sy\<rparr>\<rparr>, st_hcr_el2 = ?h, st_el = 1, st_spsel = 1, st_mem = m\<rparr>"
  have h: "bit ?h 31" by (simp add: HCR_EL2_RW_def bit_or_iff bit_push_bit_iff)
  have run: "start sy st = (Ok ?a, ?st)"
    using n(1) e(1) to_kernel_half [OF l(5)] to_kernel_half [OF l(6)] enter_el1_state [of "st\<lparr>st_mem := fill_bytes (st_mem st) ?s 0 n, st_hcr_el2 := ?h\<rparr>"] h assms(2)
    by (cases st) (simp add: start_def set_sp_def Let_def)
  have "take_bit 48 ?a = ?a AND NOT VA_START" by (simp add: not_VA_START take_bit_eq_mask)
  then have pc: "translate (mem_rows m) ?b (take_bit 48 ?a) = Some (unat (?a AND NOT VA_START), attribute_index Normal, False)"
    using e(4) l(7) by simp
  have masked: "\<not> interrupts_enabled (?c\<lparr>regs := r\<rparr>)" for r by (simp add: interrupts_enabled_def consts_defs)
  have mmu: "u = \<lparr>mair_el1 = 0x44FF00, tcr_el1 = 0x1280100010, mmu_ttbr0 = ?b, mmu_ttbr1 = ?b, sctlr_el1 = 0xC5181D\<rparr>"
    by (subst r(1)) (simp add: e(2,3) consts_defs VA_BITS_def)
  have filled: "unat (x - ?s) < n \<longleftrightarrow> unat ?s \<le> unat x \<and> unat x < unat ?s + n" for x
    using n(3) l(3) by (subst word_diff_less_iff) auto
  have bss: "m x = 0" if "unat ?s \<le> unat x" "unat x < unat ?e" "\<not> in_tables ?b x" for x
    using r(2) [OF that(3)] filled [of x] that n(2) by (simp add: fill_bytes_def)
  have out: "m x = st_mem st x" if "unat x < unat ?s \<or> unat ?e + 16 \<le> unat x" for x
  proof -
    have "\<not> in_tables ?b x" using that l(1,2) unfolding in_tables_def by linarith
    moreover have "\<not> unat (x - ?s) < n" using filled [of x] that n(3) by linarith
    ultimately show ?thesis using r(2) by (simp add: fill_bytes_def)
  qed
  show ?thesis using run mmu pc masked bss out e(4) by (intro exI [of _ ?st]) simp
qed

definition symbols0 :: symbols where
  "symbols0 = \<lparr>sym_bss_start = 0xFFFF0000000A0000, sym_bss_end = 0xFFFF0000005A0008, sym_stack_start = 0xFFFF000000080000,
     sym_after_relocate = 0xFFFF00000008005C, sym_tables = 0xA1000\<rparr>"

definition start0 :: start_state where
  "start0 = \<lparr>st_mmu = \<lparr>mair_el1 = 0, tcr_el1 = 0, mmu_ttbr0 = 0, mmu_ttbr1 = 0, sctlr_el1 = 0\<rparr>,
     st_cpu = \<lparr>mpidr_el1 = 0x80000000, daif = 0, ttbr0_el1 = 0, regs = registers_new\<rparr>, st_hcr_el2 = 0, st_el = 2, st_spsel = 1, st_mem = \<lambda>_. 0xFF\<rparr>"

theorem start_reaches_kernel_witness:
  "\<exists>st'. start symbols0 start0 = (Ok 0xFFFF00000008005C, st') \<and> sp (regs (st_cpu st')) = 0xFFFF000000080000 \<and> st_el st' = 1
     \<and> st_mem st' 0x5A0007 = 0 \<and> st_mem st' 0x9FFFF = 0xFF
     \<and> translate (mem_rows (st_mem st')) 0xA1000 0x8005C = Some (0x8005C, attribute_index Normal, False)"
proof -
  have "linked symbols0" by (simp add: linked_def symbols0_def VA_START_value)
  note s = start_reaches_kernel [OF this, of start0]
  show ?thesis using s by (auto simp: symbols0_def start0_def in_tables_def VA_START_value)
qed

end
