(* ===== verification/Heap_Data.thy ===== *)
theory Heap_Data
  imports Heap Tmpfs Drivers
begin

text \<open>
  Bytes on the kernel's heap: \<^verbatim>\<open>Vec<u8>\<close> over the allocator of \<^verbatim>\<open>memory/heap.rs\<close>, and the operations whose buffers grow with what they are
  asked for: \<^verbatim>\<open>read\<close> and \<^verbatim>\<open>write\<close> of \<^verbatim>\<open>fs/tmpfs.rs\<close>, and \<^verbatim>\<open>read\<close> of \<^verbatim>\<open>device/driver/bcm2837_serial.rs\<close>. The theorems say exactly when the heap
  is large enough for them; when it is not, the kernel panics.
\<close>

section \<open>Buffers\<close>

text \<open>
  How a \<^verbatim>\<open>Vec\<close> chooses its new capacity from the old one and the number of bytes it must hold is up to the standard library, so it is a
  parameter; its documentation says that the bytes fit.
\<close>

type_synonym growth = "nat \<Rightarrow> nat \<Rightarrow> nat"

definition grows_enough :: "growth \<Rightarrow> bool" where
  "grows_enough grow \<longleftrightarrow> (\<forall>cap needed. needed \<le> grow cap needed)"

text \<open>
  An allocation of \<open>n\<close> bytes: none for no bytes; a panic above \<^verbatim>\<open>isize::MAX\<close>, and when the allocator returns the null pointer.
\<close>

definition buf_alloc :: "nat \<Rightarrow> heap \<Rightarrow> unit res \<times> heap" where
  "buf_alloc n h =
     (if n = 0 then (Ok (), h)
      else if 2 ^ 63 \<le> n then (Panic, h)
      else case heap_alloc HEAP_N \<lparr>layout_size = of_nat n, layout_align = 1\<rparr> h of (p, h) \<Rightarrow> (if p = 0 then Panic else Ok (), h))"

text \<open>
  Making room for \<open>needed\<close> bytes in a buffer of capacity \<open>cap\<close>. The allocator has no \<^verbatim>\<open>realloc\<close> of its own, so the default one allocates a new
  block for the whole capacity. The result is the new capacity.
\<close>

definition buf_reserve :: "growth \<Rightarrow> nat \<Rightarrow> nat \<Rightarrow> heap \<Rightarrow> nat res \<times> heap" where
  "buf_reserve grow cap needed h =
     (if needed \<le> cap then (Ok cap, h)
      else and_then (buf_alloc (grow cap needed) h) (\<lambda>_ h. (Ok (grow cap needed), h)))"

text \<open>What is left of the heap, and the heap with \<open>n\<close> more bytes handed out.\<close>

definition heap_room :: "heap \<Rightarrow> nat" where
  "heap_room h = unat HEAP_N - unat (heap_allocated h)"

definition heap_take :: "nat \<Rightarrow> heap \<Rightarrow> heap" where
  "heap_take n h = h\<lparr>heap_allocated := heap_allocated h + of_nat n\<rparr>"

lemma heap_take_0 [simp]: "heap_take 0 h = h"
  by (simp add: heap_take_def)

lemma heap_take_take [simp]: "heap_take a (heap_take b h) = heap_take (b + a) h"
  by (simp add: heap_take_def add.assoc)

lemma heap_take_sound:
  assumes "heap_sound h" and "n \<le> heap_room h"
  shows "heap_sound (heap_take n h)" and "heap_room (heap_take n h) = heap_room h - n"
proof -
  have N: "unat HEAP_N = 4194304" by (simp add: HEAP_N_def)
  have n: "unat (heap_allocated h) + n \<le> 4194304" using assms N unfolding heap_sound_def heap_room_def by linarith
  then have "unat (of_nat n :: u64) = n" by (intro unat_of_nat64) simp
  then have "unat (heap_allocated h + of_nat n) = unat (heap_allocated h) + n" using n by (simp add: unat_add_noof)
  then show "heap_sound (heap_take n h)" "heap_room (heap_take n h) = heap_room h - n"
    using assms n N by (simp_all add: heap_sound_def heap_room_def heap_take_def)
qed

lemma heap_room_small: "heap_room h \<le> 4194304"
  by (simp add: heap_room_def HEAP_N_def)

lemma buf_alloc_fits:
  assumes "heap_sound h" and "n \<le> heap_room h"
  shows "buf_alloc n h = (Ok (), heap_take n h)"
proof -
  have N: "unat HEAP_N = 4194304" by (simp add: HEAP_N_def)
  have n: "unat (heap_allocated h) + n \<le> 4194304" using assms N unfolding heap_sound_def heap_room_def by linarith
  then have u: "unat (of_nat n :: u64) = n" by (intro unat_of_nat64) simp
  then have s: "unat (heap_allocated h + of_nat n) = unat (heap_allocated h) + n" using n by (simp add: unat_add_noof)
  have "unat (heap_start h + heap_allocated h) = unat (heap_start h) + unat (heap_allocated h)"
    using assms(1) by (simp add: heap_sound_def unat_add_noof)
  moreover have "0 < unat (heap_start h)" using assms(1) by (simp add: heap_sound_def unat_gt_0)
  ultimately have "heap_start h + heap_allocated h \<noteq> 0" by auto
  then show ?thesis
    using n s N by (auto simp: buf_alloc_def heap_alloc_def align_offset_def heap_take_def word_less_nat_alt Let_def)
qed

lemma buf_alloc_refused:
  assumes "heap_sound h" and "heap_room h < n"
  shows "fst (buf_alloc n h) = Panic"
proof (cases "2 ^ 63 \<le> n")
  case False
  have N: "unat HEAP_N = 4194304" by (simp add: HEAP_N_def)
  have u: "unat (of_nat n :: u64) = n" using False by (intro unat_of_nat64) simp
  have "unat (heap_allocated h + of_nat n) = unat (heap_allocated h) + n"
    using assms(1) False u N by (simp add: heap_sound_def unat_add_noof)
  then show ?thesis
    using assms N False by (auto simp: buf_alloc_def heap_alloc_def align_offset_def heap_room_def heap_sound_def word_less_nat_alt Let_def)
qed (use assms in \<open>simp add: buf_alloc_def\<close>)

text \<open>What a buffer costs when it has to hold \<open>needed\<close> bytes, and its capacity then.\<close>

definition growth_cost :: "growth \<Rightarrow> nat \<Rightarrow> nat \<Rightarrow> nat" where
  "growth_cost grow cap needed = (if needed \<le> cap then 0 else grow cap needed)"

definition grown :: "growth \<Rightarrow> nat \<Rightarrow> nat \<Rightarrow> nat" where
  "grown grow cap needed = (if needed \<le> cap then cap else grow cap needed)"

lemma buf_reserve_result:
  assumes "heap_sound h"
  shows "growth_cost grow cap needed \<le> heap_room h \<Longrightarrow>
      buf_reserve grow cap needed h = (Ok (grown grow cap needed), heap_take (growth_cost grow cap needed) h)"
    and "heap_room h < growth_cost grow cap needed \<Longrightarrow> fst (buf_reserve grow cap needed h) = Panic"
proof -
  show "growth_cost grow cap needed \<le> heap_room h \<Longrightarrow>
      buf_reserve grow cap needed h = (Ok (grown grow cap needed), heap_take (growth_cost grow cap needed) h)"
    using buf_alloc_fits [OF assms] by (auto simp: buf_reserve_def growth_cost_def grown_def)
  show "fst (buf_reserve grow cap needed h) = Panic" if "heap_room h < growth_cost grow cap needed"
  proof (cases "needed \<le> cap")
    case False
    then have "fst (buf_alloc (grow cap needed) h) = Panic" using that buf_alloc_refused [OF assms] by (simp add: growth_cost_def)
    then obtain h' where "buf_alloc (grow cap needed) h = (Panic, h')" by (metis prod.collapse)
    then show ?thesis using False by (simp add: buf_reserve_def)
  qed (use that in \<open>simp add: growth_cost_def\<close>)
qed

section \<open>Files\<close>

text \<open>A temporary file system with the capacity of the buffer of each file, and the heap.\<close>

record heap_files =
  hf_tmpfs :: tmpfs
  hf_capacity :: "u64 \<Rightarrow> nat"
  hf_heap :: heap

text \<open>
  \<^verbatim>\<open>write\<close> lets the buffer of the file grow before it changes anything; then it does what \<open>tmpfs_write\<close> says. The bytes that \<^verbatim>\<open>read\<close>
  returns are a new buffer.
\<close>

definition tmpfs_write_on :: "growth \<Rightarrow> open_file \<Rightarrow> usize \<Rightarrow> u8 list \<Rightarrow> heap_files \<Rightarrow> usize res \<times> heap_files" where
  "tmpfs_write_on grow f position buf s =
     (let nid = node_id (file_node f); range_end = position + vec_len buf in
      case files (hf_tmpfs s) nid of
        None \<Rightarrow> (Err (), s)
      | Some bytes \<Rightarrow>
          and_then
            (if vec_len bytes < range_end
             then (case buf_reserve grow (hf_capacity s nid) (unat range_end) (hf_heap s) of (r, h) \<Rightarrow> (r, s\<lparr>hf_heap := h\<rparr>))
             else (Ok (hf_capacity s nid), s))
            (\<lambda>cap s. case tmpfs_write f position buf (hf_tmpfs s) of (r, t) \<Rightarrow>
               (r, s\<lparr>hf_tmpfs := t, hf_capacity := (hf_capacity s)(nid := cap)\<rparr>)))"

definition tmpfs_read_on :: "open_file \<Rightarrow> usize \<Rightarrow> usize \<Rightarrow> heap_files \<Rightarrow> u8 list res \<times> heap_files" where
  "tmpfs_read_on f position count s =
     and_then (tmpfs_read f position count (hf_tmpfs s), s) (\<lambda>bytes s.
     case buf_alloc (length bytes) (hf_heap s) of (r, h) \<Rightarrow> and_then (r, s\<lparr>hf_heap := h\<rparr>) (\<lambda>_ s. (Ok bytes, s)))"

text \<open>The file system is well-formed, the heap is sound, and no file is longer than its buffer, which no \<^verbatim>\<open>Vec\<close> makes larger than \<^verbatim>\<open>isize::MAX\<close>.\<close>

definition heap_files_wf :: "fs_id \<Rightarrow> heap_files \<Rightarrow> bool" where
  "heap_files_wf me s \<longleftrightarrow> tmpfs_wf me (hf_tmpfs s) \<and> heap_sound (hf_heap s)
     \<and> (\<forall>i bytes. files (hf_tmpfs s) i = Some bytes \<longrightarrow> length bytes \<le> hf_capacity s i \<and> hf_capacity s i < 2 ^ 63)"

text \<open>
  C23. Writing implements the abstract file, and panics exactly when the heap is too small. For every position and buffer: a
  write that ends within the capacity of the file needs no memory; any other needs a new buffer. If the heap has room for
  it, the write returns the number of bytes given, extends the file to the end of the range, zero-fills a gap, takes the new buffer from the
  heap and changes no other byte and no other file; otherwise it panics, also when the end of the range wraps. An identifier with
  no file is an error that changes nothing.
\<close>

theorem tmpfs_write_on_refines:
  assumes "heap_files_wf me s" and "grows_enough grow" and "vec_ok buf"
  shows "case files (hf_tmpfs s) (node_id (file_node f)) of
      None \<Rightarrow> tmpfs_write_on grow f pos buf s = (Err (), s)
    | Some bytes \<Rightarrow>
        let nid = node_id (file_node f); cap = hf_capacity s nid; last = unat pos + length buf in
        if growth_cost grow cap last \<le> heap_room (hf_heap s)
        then \<exists>bytes'. tmpfs_write_on grow f pos buf s
               = (Ok (vec_len buf), \<lparr>hf_tmpfs = (hf_tmpfs s)\<lparr>files := (files (hf_tmpfs s))(nid \<mapsto> bytes')\<rparr>,
                    hf_capacity = (hf_capacity s)(nid := grown grow cap last), hf_heap = heap_take (growth_cost grow cap last) (hf_heap s)\<rparr>)
             \<and> abs_bytes bytes' = spec_write (unat pos) buf (abs_bytes bytes)
        else fst (tmpfs_write_on grow f pos buf s) = Panic"
proof (cases "files (hf_tmpfs s) (node_id (file_node f))")
  case None
  then show ?thesis by (simp add: tmpfs_write_on_def)
next
  case (Some bytes)
  let ?t = "hf_tmpfs s" and ?nid = "node_id (file_node f)" and ?last = "unat pos + length buf" and ?e = "pos + vec_len buf"
  let ?cap = "hf_capacity s ?nid"
  have wf: "tmpfs_wf me ?t" and h: "heap_sound (hf_heap s)" and cap: "length bytes \<le> ?cap" "?cap < 2 ^ 63"
    using assms(1) Some by (simp_all add: heap_files_wf_def)
  have ul: "unat (vec_len buf) = length buf" "unat (vec_len bytes) = length bytes"
    using assms(3) wf_rest(2) [OF wf Some] by (simp_all add: unat_vec_len)
  note w = tmpfs_write_refines [OF wf assms(3), of f pos, unfolded Some option.case]
  show ?thesis
  proof (cases "growth_cost grow ?cap ?last \<le> heap_room (hf_heap s)")
    case True
    have small: "?last < 2 ^ 63"
    proof (cases "?last \<le> ?cap")
      case False
      then have "grow ?cap ?last \<le> heap_room (hf_heap s)" using True by (simp add: growth_cost_def)
      moreover have "?last \<le> grow ?cap ?last" using assms(2) by (simp add: grows_enough_def)
      ultimately show ?thesis using heap_room_small [of "hf_heap s"] by simp
    qed (use cap in simp)
    then have ue: "unat ?e = ?last" using ul by (simp add: unat_add_noof)
    obtain bytes' where b: "tmpfs_write f pos buf ?t = (Ok (vec_len buf), ?t\<lparr>files := (files ?t)(?nid \<mapsto> bytes')\<rparr>)"
        "abs_bytes bytes' = spec_write (unat pos) buf (abs_bytes bytes)" using w small by auto
    have r: "buf_reserve grow ?cap ?last (hf_heap s) = (Ok (grown grow ?cap ?last), heap_take (growth_cost grow ?cap ?last) (hf_heap s))"
      by (rule buf_reserve_result(1) [OF h True])
    have "tmpfs_write_on grow f pos buf s
        = (Ok (vec_len buf), \<lparr>hf_tmpfs = ?t\<lparr>files := (files ?t)(?nid \<mapsto> bytes')\<rparr>,
             hf_capacity = (hf_capacity s)(?nid := grown grow ?cap ?last), hf_heap = heap_take (growth_cost grow ?cap ?last) (hf_heap s)\<rparr>)"
    proof (cases "vec_len bytes < ?e")
      case True
      then show ?thesis using Some ue r b(1) by (cases s) (simp add: tmpfs_write_on_def Let_def)
    next
      case False
      then have "?last \<le> ?cap" using ue ul cap(1) by (simp add: word_less_nat_alt)
      then show ?thesis using Some False b(1) by (cases s) (simp add: tmpfs_write_on_def Let_def growth_cost_def grown_def)
    qed
    then show ?thesis using Some True b(2) by (auto simp: Let_def)
  next
    case False
    then have big: "?cap < ?last" by (simp add: growth_cost_def split: if_splits)
    have "fst (tmpfs_write_on grow f pos buf s) = Panic"
    proof (cases "?last < 2 ^ 63")
      case True
      then have ue: "unat ?e = ?last" using ul by (simp add: unat_add_noof)
      then have "vec_len bytes < ?e" using ul cap(1) big by (simp add: word_less_nat_alt)
      moreover have "fst (buf_reserve grow ?cap ?last (hf_heap s)) = Panic" using False by (intro buf_reserve_result(2) [OF h]) simp
      then obtain h' where "buf_reserve grow ?cap ?last (hf_heap s) = (Panic, h')" by (metis prod.collapse)
      ultimately show ?thesis using Some ue by (simp add: tmpfs_write_on_def Let_def)
    next
      case F: False
      then obtain t' where t': "tmpfs_write f pos buf ?t = (Panic, t')" using w by (metis prod.collapse)
      have "fst (buf_reserve grow c n h) \<in> {Panic} \<union> range Ok" for c n h
        by (auto simp: buf_reserve_def buf_alloc_def split: prod.split)
      then obtain r h' where "buf_reserve grow ?cap (unat ?e) (hf_heap s) = (r, h')" "r = Panic \<or> r \<in> range Ok" by (metis Un_iff prod.collapse singletonD)
      then show ?thesis using Some t' by (auto simp: tmpfs_write_on_def Let_def)
    qed
    then show ?thesis using Some False by (simp add: Let_def)
  qed
qed

text \<open>
  C32. Reading implements the abstract file, and panics exactly when it must. For every position and count: if the position is
  at most the length of the file, position and count add up to a \<^verbatim>\<open>usize\<close>, and the heap has room for the bytes, then a read
  returns the bytes of the part of the range that exists and takes as many bytes from the heap. At a position past the end it panics instead of returning nothing,
  and inside the file it panics for a count so large that the end of the range wraps. An identifier with no file is an error.
\<close>

theorem tmpfs_read_on_refines:
  assumes "heap_files_wf me s"
  shows "case files (hf_tmpfs s) (node_id (file_node f)) of
      None \<Rightarrow> tmpfs_read_on f pos count s = (Err (), s)
    | Some bytes \<Rightarrow>
        let n = min (unat count) (length bytes - unat pos) in
        if unat pos \<le> length bytes \<and> unat pos + unat count < 2 ^ 64 \<and> n \<le> heap_room (hf_heap s)
        then tmpfs_read_on f pos count s
               = (Ok (spec_read (unat pos) (unat count) (abs_bytes bytes)), s\<lparr>hf_heap := heap_take n (hf_heap s)\<rparr>)
        else fst (tmpfs_read_on f pos count s) = Panic"
proof (cases "files (hf_tmpfs s) (node_id (file_node f))")
  case None
  then show ?thesis by (simp add: tmpfs_read_on_def tmpfs_read_def)
next
  case (Some bytes)
  let ?n = "min (unat count) (length bytes - unat pos)" and ?bs = "spec_read (unat pos) (unat count) (abs_bytes bytes)"
  have wf: "tmpfs_wf me (hf_tmpfs s)" and h: "heap_sound (hf_heap s)" using assms by (simp_all add: heap_files_wf_def)
  note r = tmpfs_read_refines [OF wf, of f pos count, unfolded Some option.case]
  have len: "length ?bs = ?n" if "unat pos \<le> length bytes" using that by (auto simp: spec_read_def abs_bytes_def)
  show ?thesis
  proof (cases "unat pos \<le> length bytes \<and> unat pos + unat count < 2 ^ 64")
    case False
    then show ?thesis using Some r by (auto simp: tmpfs_read_on_def Let_def)
  next
    case True
    then have rd: "tmpfs_read f pos count (hf_tmpfs s) = Ok ?bs" using r by simp
    show ?thesis
    proof (cases "?n \<le> heap_room (hf_heap s)")
      case n: True
      then show ?thesis using Some rd len True buf_alloc_fits [OF h n] by (simp add: tmpfs_read_on_def Let_def)
    next
      case n: False
      then have "fst (buf_alloc ?n (hf_heap s)) = Panic" by (intro buf_alloc_refused [OF h]) linarith
      then obtain h' where "buf_alloc ?n (hf_heap s) = (Panic, h')" by (metis prod.collapse)
      then show ?thesis using Some rd len True n by (simp add: tmpfs_read_on_def Let_def)
    qed
  qed
qed

text \<open>One empty file on a heap of which all but five bytes are used, and a \<^verbatim>\<open>Vec\<close> that takes what it needs, or doubles.\<close>

definition doubling :: growth where
  "doubling cap needed = max (2 * cap) needed"

definition files0 :: heap_files where
  "files0 = \<lparr>hf_tmpfs = tmpfs_one 7, hf_capacity = \<lambda>_. 0, hf_heap = \<lparr>heap_start = 0xFFFF000000100000, heap_allocated = 0x3FFFFB\<rparr>\<rparr>"

lemma files0_ok: "heap_files_wf 7 files0" "grows_enough doubling" "heap_room (hf_heap files0) = 5"
  by (simp_all add: heap_files_wf_def files0_def tmpfs_one_wf tmpfs_one_files heap_sound_def heap_room_def HEAP_N_def grows_enough_def doubling_def)

definition file1 :: open_file where
  "file1 = file_new \<lparr>node_fs = 7, node_id = 1, node_type = File\<rparr>"

theorem tmpfs_write_on_refines_witness:
  "(\<exists>s. tmpfs_write_on doubling file1 3 [5, 6] files0 = (Ok 2, s)) \<and> fst (tmpfs_write_on doubling file1 3 [5, 6, 7] files0) = Panic"
proof -
  have v: "vec_ok [5 :: u8, 6]" "vec_ok [5 :: u8, 6, 7]" by (simp_all add: vec_ok_def)
  have f: "files (hf_tmpfs files0) (node_id (file_node file1)) = Some []" "hf_capacity files0 i = 0" for i
    by (simp_all add: files0_def file1_def file_new_def tmpfs_one_files)
  show ?thesis
    using tmpfs_write_on_refines [OF files0_ok(1,2) v(1), of file1 3] tmpfs_write_on_refines [OF files0_ok(1,2) v(2), of file1 3] f files0_ok(3)
    by (auto simp: growth_cost_def doubling_def vec_len_def Let_def)
qed

theorem tmpfs_read_on_refines_witness:
  "tmpfs_read_on file1 0 4 files0 = (Ok [], files0) \<and> fst (tmpfs_read_on file1 1 4 files0) = Panic"
proof -
  have f: "files (hf_tmpfs files0) (node_id (file_node file1)) = Some []"
    by (simp add: files0_def file1_def file_new_def tmpfs_one_files)
  have e: "spec_read 0 4 (abs_bytes []) = []" by (simp add: spec_read_def abs_bytes_def)
  show ?thesis
    using tmpfs_read_on_refines [OF files0_ok(1), of file1 0 4] tmpfs_read_on_refines [OF files0_ok(1), of file1 1 4] f e
    by (simp add: Let_def)
qed

section \<open>The serial port\<close>

text \<open>The loop of \<^verbatim>\<open>read\<close>: \<^verbatim>\<open>push\<close> makes room for one byte more.\<close>

partial_function (option) read_loop_on :: "growth \<Rightarrow> u8 list \<Rightarrow> nat \<Rightarrow> heap \<times> uart \<Rightarrow> (u8 list res \<times> heap \<times> uart) option" where
  "read_loop_on grow buf cap st =
     (case read_byte (snd st) of
        (Ok (Some byte), u) \<Rightarrow>
          (case buf_reserve grow cap (length buf + 1) (fst st) of
             (Ok cap, h) \<Rightarrow> read_loop_on grow (buf @ [byte]) cap (h, u)
           | (_, h) \<Rightarrow> Some (Panic, (h, u)))
      | (Ok None, u) \<Rightarrow> Some (Ok buf, (fst st, u))
      | (Err e, u) \<Rightarrow> Some (Err e, (fst st, u))
      | (Panic, u) \<Rightarrow> Some (Panic, (fst st, u))
      | (Hang, u) \<Rightarrow> None)"

declare read_loop_on.simps [code]

definition serial_read_on :: "growth \<Rightarrow> usize \<Rightarrow> heap \<times> uart \<Rightarrow> u8 list res \<times> heap \<times> uart" where
  "serial_read_on grow count st =
     (case buf_alloc (unat count) (fst st) of (r, h) \<Rightarrow> and_then (r, (h, snd st)) (\<lambda>_ st.
        case read_loop_on grow [] (unat count) st of None \<Rightarrow> (Hang, st) | Some out \<Rightarrow> out))"

text \<open>What it costs to push \<open>n\<close> bytes, one by one, to a buffer of capacity \<open>cap\<close> that holds \<open>len\<close>.\<close>

fun push_cost :: "growth \<Rightarrow> nat \<Rightarrow> nat \<Rightarrow> nat \<Rightarrow> nat" where
  "push_cost grow cap len 0 = 0"
| "push_cost grow cap len (Suc n) = growth_cost grow cap (len + 1) + push_cost grow (grown grow cap (len + 1)) (len + 1) n"

lemma push_cost_within: "len + n \<le> cap \<Longrightarrow> push_cost grow cap len n = 0"
  by (induction n arbitrary: len) (simp_all add: growth_cost_def grown_def)

lemma read_byte_free:
  assumes "\<not> uart_lock u"
  shows "read_byte u = (if lsr u (lsr_reads u) AND AUX_MU_LSR_RX_READY = 0 then (Ok None, u\<lparr>lsr_reads := Suc (lsr_reads u)\<rparr>)
    else (Ok (Some (rx u (rx_reads u))), u\<lparr>lsr_reads := Suc (lsr_reads u), rx_reads := Suc (rx_reads u)\<rparr>))"
  using assms by (cases u) (simp add: read_byte_def serial_call_free read_lsr_def unlock_def)

lemma read_loop_on_result:
  assumes "heap_sound h" and "\<not> uart_lock u"
    and "\<forall>i < n. lsr u (lsr_reads u + i) AND AUX_MU_LSR_RX_READY \<noteq> 0" and "lsr u (lsr_reads u + n) AND AUX_MU_LSR_RX_READY = 0"
  shows "if push_cost grow cap (length buf) n \<le> heap_room h
    then read_loop_on grow buf cap (h, u) = Some (Ok (buf @ map (\<lambda>i. rx u (rx_reads u + i)) [0..<n]),
        (heap_take (push_cost grow cap (length buf) n) h, u\<lparr>lsr_reads := lsr_reads u + n + 1, rx_reads := rx_reads u + n\<rparr>))
    else \<exists>st. read_loop_on grow buf cap (h, u) = Some (Panic, st)"
  using assms
proof (induction n arbitrary: u buf cap h)
  case 0
  then show ?case by (subst read_loop_on.simps) (simp add: read_byte_free)
next
  case (Suc n)
  let ?u = "u\<lparr>lsr_reads := Suc (lsr_reads u), rx_reads := Suc (rx_reads u)\<rparr>" and ?cost = "growth_cost grow cap (length buf + 1)"
  let ?h = "heap_take ?cost h" and ?cap = "grown grow cap (length buf + 1)" and ?buf = "buf @ [rx u (rx_reads u)]"
  have rb: "read_byte u = (Ok (Some (rx u (rx_reads u))), ?u)" using Suc.prems(3) by (auto simp: read_byte_free [OF Suc.prems(2)])
  have free: "\<not> uart_lock ?u" using Suc.prems(2) by simp
  have ready: "\<forall>i < n. lsr ?u (lsr_reads ?u + i) AND AUX_MU_LSR_RX_READY \<noteq> 0" "lsr ?u (lsr_reads ?u + n) AND AUX_MU_LSR_RX_READY = 0"
    using Suc.prems(3,4) by (auto dest: spec [of _ "Suc _"])
  have bytes: "map (\<lambda>i. rx u (rx_reads u + i)) [0..<Suc n] = rx u (rx_reads u) # map (\<lambda>i. rx ?u (rx_reads ?u + i)) [0..<n]"
    by (simp only: upt_0_Suc list.map map_map comp_def) simp
  show ?case
  proof (cases "?cost \<le> heap_room h")
    case True
    note tk = heap_take_sound [OF Suc.prems(1) True]
    have step: "read_loop_on grow buf cap (h, u) = read_loop_on grow ?buf ?cap (?h, ?u)"
      using rb buf_reserve_result(1) [OF Suc.prems(1) True] by (subst read_loop_on.simps) simp
    let ?rest = "push_cost grow ?cap (length ?buf) n"
    have eq: "push_cost grow cap (length buf) (Suc n) = ?cost + ?rest" "?cost + ?rest \<le> heap_room h \<longleftrightarrow> ?rest \<le> heap_room ?h"
      using True tk(2) by auto
    note IH = Suc.IH [OF tk(1) free ready, of ?cap ?buf]
    show ?thesis
    proof (cases "?rest \<le> heap_room ?h")
      case fits: True
      then have "read_loop_on grow ?buf ?cap (?h, ?u) = Some (Ok (?buf @ map (\<lambda>i. rx ?u (rx_reads ?u + i)) [0..<n]),
          (heap_take ?rest ?h, ?u\<lparr>lsr_reads := lsr_reads ?u + n + 1, rx_reads := rx_reads ?u + n\<rparr>))" using IH by (simp only: if_True)
      then show ?thesis using fits unfolding step bytes eq by simp
    next
      case False
      then have "\<exists>st. read_loop_on grow ?buf ?cap (?h, ?u) = Some (Panic, st)" using IH by (simp only: if_False)
      then show ?thesis using False unfolding step eq by (simp only: if_False)
    qed
  next
    case False
    then have "fst (buf_reserve grow cap (length buf + 1) h) = Panic" by (intro buf_reserve_result(2) [OF Suc.prems(1)]) simp
    then obtain h' where "buf_reserve grow cap (length buf + 1) h = (Panic, h')" by (metis prod.collapse)
    then have "read_loop_on grow buf cap (h, u) = Some (Panic, (h', ?u))" using rb by (subst read_loop_on.simps) simp
    then show ?thesis using False by simp
  qed
qed

text \<open>
  C39. The serial port. Writing sends every byte, in order, and returns their number, provided that
  the lock of the driver is free and the transmitter becomes empty again and again; nothing else changes but the number of
  status reads. Reading, when the receiver is ready \<open>n\<close> times in a row and then not: if the heap has room for a
  buffer of \<open>count\<close> bytes and for what the buffer grows by, the result is the \<open>n\<close> bytes received, however many bytes the caller has asked for, and that much is taken from
  the heap; otherwise the call panics. (When \<open>n\<close> is at most \<open>count\<close> the buffer does not grow: \<open>push_cost_within\<close>.)
\<close>

theorem serial_write_read:
  assumes "uart_ready u" and "heap_sound h"
    and "\<forall>i < n. lsr u (lsr_reads u + i) AND AUX_MU_LSR_RX_READY \<noteq> 0" and "lsr u (lsr_reads u + n) AND AUX_MU_LSR_RX_READY = 0"
  shows "(\<exists>j. serial_write buf u = (Ok (vec_len buf), u\<lparr>lsr_reads := j, tx := tx u @ buf\<rparr>))
    \<and> (let cost = unat count + push_cost grow (unat count) 0 n in
       if cost \<le> heap_room h
       then serial_read_on grow count (h, u) = (Ok (map (\<lambda>i. rx u (rx_reads u + i)) [0..<n]),
           (heap_take cost h, u\<lparr>lsr_reads := lsr_reads u + n + 1, rx_reads := rx_reads u + n\<rparr>))
       else fst (serial_read_on grow count (h, u)) = Panic)"
proof (intro conjI)
  show "\<exists>j. serial_write buf u = (Ok (vec_len buf), u\<lparr>lsr_reads := j, tx := tx u @ buf\<rparr>)" by (rule serial_write_all [OF assms(1)])
  have free: "\<not> uart_lock u" using assms(1) by (simp add: uart_ready_def)
  show "let cost = unat count + push_cost grow (unat count) 0 n in
       if cost \<le> heap_room h
       then serial_read_on grow count (h, u) = (Ok (map (\<lambda>i. rx u (rx_reads u + i)) [0..<n]),
           (heap_take cost h, u\<lparr>lsr_reads := lsr_reads u + n + 1, rx_reads := rx_reads u + n\<rparr>))
       else fst (serial_read_on grow count (h, u)) = Panic"
  proof (cases "unat count \<le> heap_room h")
    case True
    note tk = heap_take_sound [OF assms(2) True] and al = buf_alloc_fits [OF assms(2) True]
    have run: "serial_read_on grow count (h, u) = (case read_loop_on grow [] (unat count) (heap_take (unat count) h, u) of
        None \<Rightarrow> (Hang, (heap_take (unat count) h, u)) | Some out \<Rightarrow> out)" using al by (simp add: serial_read_on_def)
    let ?rest = "push_cost grow (unat count) 0 n"
    note loop = read_loop_on_result [OF tk(1) free assms(3,4), of grow "unat count" "[]", unfolded list.size(3)]
    have eq: "unat count + ?rest \<le> heap_room h \<longleftrightarrow> ?rest \<le> heap_room (heap_take (unat count) h)" using True tk(2) by auto
    show ?thesis
    proof (cases "?rest \<le> heap_room (heap_take (unat count) h)")
      case fits: True
      then show ?thesis using loop run eq by (simp add: Let_def)
    next
      case False
      then obtain st where "read_loop_on grow [] (unat count) (heap_take (unat count) h, u) = Some (Panic, st)" using loop by auto
      then show ?thesis using False run eq by (simp add: Let_def)
    qed
  next
    case False
    then have "fst (buf_alloc (unat count) h) = Panic" by (intro buf_alloc_refused [OF assms(2)]) simp
    then obtain h' where "buf_alloc (unat count) h = (Panic, h')" by (metis prod.collapse)
    then show ?thesis using False by (simp add: serial_read_on_def Let_def)
  qed
qed

text \<open>A port that has received three bytes.\<close>

definition uart3 :: uart where
  "uart3 = \<lparr>uart_lock = False, regs8 = \<lambda>_. 0, regs16 = \<lambda>_. 0, regs32 = \<lambda>_. 0, lsr = \<lambda>i. if i < 3 then 0x21 else 0x20, lsr_reads = 0, rx = (!) [97, 98, 99], rx_reads = 0, tx = []\<rparr>"

theorem serial_write_read_witness:
  "fst (serial_write [72, 105] uart3) = Ok 2
   \<and> fst (serial_read_on doubling 1 (\<lparr>heap_start = 0xFFFF000000100000, heap_allocated = 0x3FFFF0\<rparr>, uart3)) = Ok [97, 98, 99]
   \<and> fst (serial_read_on doubling 0x400000 (\<lparr>heap_start = 0xFFFF000000100000, heap_allocated = 0x3FFFF0\<rparr>, uart3)) = Panic"
proof -
  let ?h = "\<lparr>heap_start = 0xFFFF000000100000, heap_allocated = 0x3FFFF0\<rparr>"
  have t: "uart_ready uart3"
    unfolding uart_ready_def tx_fair_def
  proof (intro conjI allI)
    show "\<not> uart_lock uart3" by (simp add: uart3_def)
  next
    fix n show "\<exists>k \<ge> n. lsr uart3 k AND AUX_MU_LSR_TX_EMPTY \<noteq> 0"
      by (rule exI [of _ "n + 3"]) (simp add: uart3_def AUX_MU_LSR_TX_EMPTY_def)
  qed
  have h: "heap_sound ?h" "heap_room ?h = 16" by (simp_all add: heap_sound_def heap_room_def HEAP_N_def)
  have r: "\<forall>i < 3. lsr uart3 (lsr_reads uart3 + i) AND AUX_MU_LSR_RX_READY \<noteq> 0" "lsr uart3 (lsr_reads uart3 + 3) AND AUX_MU_LSR_RX_READY = 0"
    by (simp_all add: uart3_def AUX_MU_LSR_RX_READY_def)
  have c: "push_cost doubling 1 0 3 = 6" by (simp add: numeral_3_eq_3 growth_cost_def grown_def doubling_def)
  have b: "map (\<lambda>i. rx uart3 (rx_reads uart3 + i)) [0..<3] = [97, 98, 99]" by (simp add: uart3_def numeral_3_eq_3)
  show ?thesis
    using serial_write_read [OF t h(1) r, where buf = "[72, 105]" and count = 1 and grow = doubling]
      serial_write_read [OF t h(1) r, where buf = "[]" and count = "0x400000" and grow = doubling] c b h(2)
    by (auto simp: vec_len_def Let_def)
qed

end
