(* ===== verification/Lock_Held.thy ===== *)
theory Lock_Held
  imports Vector_Table
begin

text \<open>
  The driver of the serial port takes its lock (\<^verbatim>\<open>sync/lock.rs\<close>) without masking interrupts, and a system call runs with
  interrupts masked. This theory is about the state in which a thread has been preempted between \<^verbatim>\<open>lock\<close> and \<^verbatim>\<open>unlock\<close>
  of \<^verbatim>\<open>write_byte\<close>: what the interrupt does there, and which system calls of the next task return.
\<close>

text \<open>The platform when the running thread has just taken the lock of the serial port.\<close>

definition lock_held :: "platform \<Rightarrow> platform" where
  "lock_held p = p\<lparr>p_machine := (p_machine p)\<lparr>m_uart := (m_uart (p_machine p))\<lparr>uart_lock := True\<rparr>\<rparr>\<rparr>"

lemma lock_held_simps [simp]:
  "m_kernel (p_machine (lock_held p)) = m_kernel (p_machine p)" "m_log (p_machine (lock_held p)) = m_log (p_machine p)"
  "m_heap (p_machine (lock_held p)) = m_heap (p_machine p)" "m_intc (p_machine (lock_held p)) = m_intc (p_machine p)"
  "m_scheduler (p_machine (lock_held p)) = m_scheduler (p_machine p)" "uart_lock (m_uart (p_machine (lock_held p)))"
  "platform_ready (lock_held p) \<longleftrightarrow> platform_ready p"
  by (simp_all add: lock_held_def platform_ready_def installed_table_def)

section \<open>The interrupt\<close>

lemma schedule_handler_uart: "schedule_handler (m\<lparr>m_uart := u\<rparr>) = apsnd (m_uart_update (\<lambda>_. u)) (schedule_handler m)"
  by (simp add: schedule_handler_def on_kernel_def split: prod.split)

lemma vector_irq_held:
  assumes "platform_ready p"
  shows "vector_irq (lock_held p) = apsnd lock_held (vector_irq p)"
proof (cases "intc_is_pending CNTPNSIRQ (m_intc (p_machine p))")
  case True
  let ?m = "(p_machine p)\<lparr>m_intc := intc_clear CNTPNSIRQ (m_intc (p_machine p))\<rparr>"
  let ?u = "(m_uart (p_machine p))\<lparr>uart_lock := True\<rparr>"
  have held: "(p_machine (lock_held p))\<lparr>m_intc := intc_clear CNTPNSIRQ (m_intc (p_machine (lock_held p)))\<rparr> = ?m\<lparr>m_uart := ?u\<rparr>"
    by (simp add: lock_held_def)
  have "m_uart (snd (schedule_handler ?m)) = m_uart (p_machine p)"
    by (simp add: schedule_handler_def on_kernel_def split: prod.split)
  moreover have "vector_irq (lock_held p) = (case apsnd (m_uart_update (\<lambda>_. ?u)) (schedule_handler ?m) of (r, m) \<Rightarrow> (r, (lock_held p)\<lparr>p_machine := m\<rparr>))"
    using vector_irq_timer(1) [of "lock_held p"] assms True unfolding held schedule_handler_uart by simp
  ultimately show ?thesis
    using vector_irq_timer(1) [OF assms True] by (cases "schedule_handler ?m") (simp add: lock_held_def)
next
  case False
  then show ?thesis using vector_irq_timer(2) [OF assms False] vector_irq_timer(2) [of "lock_held p"] assms by simp
qed

section \<open>Printing\<close>

lemma write_str_held: "uart_lock u \<Longrightarrow> write_str serial_log s u = (if s = [] then Ok () else Hang, u)"
  by (cases s) (simp_all add: write_str_def serial_log_get serial_device_def serial_write_def write_byte_def serial_call_held)

lemma print_pieces_held:
  "uart_lock u \<Longrightarrow> print_pieces serial_log ss u = (if concat ss = [] then Ok () else Hang, u)"
  by (induction ss) (auto simp: write_str_held)

lemma timestamp_prints: "concat (timestamp t) \<noteq> []"
  by (simp add: timestamp_def ascii_def)

lemma println_pieces_held:
  "uart_lock u \<Longrightarrow> monotonic h = Ok t \<Longrightarrow> println_pieces serial_log h ss u = (Hang, u)"
  using timestamp_prints [of t] by (simp add: println_pieces_def print_pieces_held)

lemma lossy_prints: "from_utf8_lossy bs = [] \<longleftrightarrow> bs = []"
  using utf8_next_pos [of bs] lossy_step [of bs] by (cases "bs = []") (auto simp: REPLACEMENT_def)

lemma the_current_task_uart: "the_current_task (m\<lparr>m_uart := u\<rparr>) = apsnd (m_uart_update (\<lambda>_. u)) (the_current_task m)"
  by (cases "bind_res (once_lock_get (m_scheduler m)) unwrap_opt") (simp_all add: the_current_task_def on_kernel_def split: prod.split)

lemma sys_write_held:
  assumes "runs_task (p_machine p) x" and "arg0 a = 1" and "heap_left (unat (arg2 a)) (m_heap (p_machine p))"
    and "user_range (k_mm (m_kernel (p_machine p))) (mem_context x) (arg1 a) (unat (arg2 a))"
  shows "fst (sys_write_call a (p_machine (lock_held p))) = (if arg2 a = 0 then Ok 0 else Hang)"
proof -
  let ?m = "p_machine p" and ?l = "p_machine (lock_held p)"
  have task: "the_current_task ?l = (Ok x, ?l)"
    using the_current_task_runs [OF assms(1)] by (simp add: lock_held_def the_current_task_uart)
  have h: "heap_left (unat (arg2 a)) (m_heap ?l)" using assms(3) by simp
  have v: "vec_zeroed (arg2 a) ?l = (Ok (replicate (unat (arg2 a)) 0), heap_used (arg2 a) ?l)"
    using vec_zeroed_cases(1) [OF heap_leftD [OF h] h] by (simp add: heap_used_def)
  obtain bs where bs: "load_bytes (kmem (k_mm (m_kernel ?m))) (mc_ttbr (mem_context x)) (arg1 a) (unat (arg2 a)) = Ok bs" "length bs = unat (arg2 a)"
    using load_bytes_user [OF runs_task_space(2) [OF assms(1)] assms(4)] by simp
  have "print [from_utf8_lossy bs] (heap_used (arg2 a) ?l) = (if bs = [] then Ok () else Hang, heap_used (arg2 a) ?l)"
    using assms(1) print_pieces_held [of "m_uart ?l" "[from_utf8_lossy bs]"] by (simp add: print_def runs_task_def lossy_prints heap_used_def)
  moreover have "bs = [] \<longleftrightarrow> arg2 a = 0" using bs(2) by (metis length_0_conv unat_eq_zero)
  ultimately show ?thesis
    using task v bs(1) assms(2) by (simp add: sys_write_call_def Let_def copy_from_user_def runs_task_space(1) [OF assms(1)])
qed

text \<open>The calls that print: \<^verbatim>\<open>write\<close> of a mapped range that fits in the heap, and the numbers that are not implemented.\<close>

definition prints :: "trap_frame \<Rightarrow> platform \<Rightarrow> task \<Rightarrow> bool" where
  "prints frame p x \<longleftrightarrow> r_x8 frame \<noteq> 64
     \<or> r_x0 frame = 1 \<and> heap_left (unat (r_x2 frame)) (m_heap (p_machine p))
       \<and> user_range (k_mm (m_kernel (p_machine p))) (mem_context x) (r_x1 frame) (unat (r_x2 frame))"

text \<open>
  C40. Printing while a preempted thread holds the lock of the serial port. A timer interrupt does to that state what it does to the state
  with a free lock, so it switches to the next task; and as long as the lock is held, no system call that prints returns: neither a
  \<^verbatim>\<open>write\<close> of at least one byte of the task that fits in the heap, nor a call of a number that is not implemented, which is logged. Only \<^verbatim>\<open>write\<close> of no byte returns. The
  system call runs with interrupts masked, so the thread that holds the lock does not run again on this core. With a free lock all these calls
  return.
\<close>

theorem held_lock_hangs:
  assumes "platform_ready p" and "runs_task (p_machine p) x" and "is_svc esr" and "monotonic (timer (k_core (m_kernel (p_machine p)))) = Ok now"
  shows "vector_irq (lock_held p) = apsnd lock_held (vector_irq p)
    \<and> (prints frame p x \<longrightarrow> fst (vector_sync_el0 frame esr far elr p) = Ok ()
        \<and> fst (vector_sync_el0 frame esr far elr (lock_held p)) = (if r_x8 frame = 64 \<and> r_x2 frame = 0 then Ok () else Hang))"
proof (intro conjI impI)
  show "vector_irq (lock_held p) = apsnd lock_held (vector_irq p)" by (rule vector_irq_held [OF assms(1)])
next
  have log: "m_log (p_machine p) = serial_log" "uart_ready (m_uart (p_machine p))" using assms(2) by (simp_all add: runs_task_def)
  assume c: "prints frame p x"
  then show "fst (vector_sync_el0 frame esr far elr p) = Ok ()"
    using svc_write_prints [OF assms(1,3) _ assms(2), of frame far elr] svc_other [OF assms(1,3) _ log assms(4), of frame far elr]
    by (fastforce simp: prints_def)
next
  have ready: "platform_ready (lock_held p)" using assms(1) by simp
  assume c: "prints frame p x"
  then show "fst (vector_sync_el0 frame esr far elr (lock_held p)) = (if r_x8 frame = 64 \<and> r_x2 frame = 0 then Ok () else Hang)"
  proof (cases "r_x8 frame = 64")
    case True
    then show ?thesis
      using sys_write_held [OF assms(2), of "svc_args frame"] c svc_write [OF ready assms(3), of frame far elr]
      by (cases "sys_write_call (svc_args frame) (p_machine (lock_held p))") (simp add: svc_args_simps prints_def)
  next
    case False
    obtain t where "installed_table (lock_held p) = Ok t" "\<And>num. router_get (system_call_handler t) num = (if num = 64 then Some sys_write else None)"
      using ready_get [OF ready] by blast
    moreover have "println ss (p_machine (lock_held p)) = (Hang, p_machine (lock_held p))" for ss
      using println_pieces_held [of "m_uart (p_machine (lock_held p))" _ now] assms(2,4) by (simp add: println_def runs_task_def)
    ultimately show ?thesis using False assms(3) by (simp add: vector_sync_el0_def system_call_handle_def is_svc_def)
  qed
qed

theorem held_lock_hangs_witness:
  "\<exists>s c. (let p = platform_of (machine_of s c); f = frame0\<lparr>r_x8 := 64, r_x0 := 1, r_x1 := 0x400200, r_x2 := 2\<rparr> in
     fst (vector_sync_el0 f 0x56000000 0 0 p) = Ok () \<and> fst (vector_sync_el0 f 0x56000000 0 0 (lock_held p)) = Hang
     \<and> fst (vector_sync_el0 (f\<lparr>r_x2 := 0\<rparr>) 0x56000000 0 0 (lock_held p)) = Ok ())"
proof -
  obtain s c where r: "runs_task (machine_of s c) (task_of c)" and m: "user_mem s c = spec_zero_page 0x400 Map.empty" and "image_wf (s, c)"
    by (rule mm1_mapped_machine)
  let ?p = "platform_of (machine_of s c)" and ?f = "frame0\<lparr>r_x8 := 64, r_x0 := 1, r_x1 := 0x400200, r_x2 := 2\<rparr>"
  have svc: "is_svc 0x56000000" by (simp add: is_svc_def consts_defs)
  have at: "user_mem s c (0x400200 + of_nat i) = Some 0" if "i < 2" for i
  proof -
    have "i = 0 \<or> i = 1" using that by linarith
    then show ?thesis by (elim disjE) (simp_all add: m spec_zero_page_def)
  qed
  have h: "heap_left n (m_heap (p_machine ?p))" if "n \<le> 2" for n
    using that by (simp add: machine_of_def heap_left_def heap_new_def HEAP_N_def)
  have pr: "prints ?f ?p (task_of c)" "prints (?f\<lparr>r_x2 := 0\<rparr>) ?p (task_of c)"
    using at h [of 2] h [of 0] by (simp_all add: prints_def user_range_def machine_of_def task_of_def)
  have r': "runs_task (p_machine ?p) (task_of c)" using r by simp
  obtain now where "monotonic (timer (k_core (m_kernel (p_machine ?p)))) = Ok now"
    by (simp add: machine_of_def core0_def monotonic_def timer_frequency_def)
  note use = held_lock_hangs [OF platform_of_ready r' svc this]
  show ?thesis
    using use [of ?f 0 0] use [of "?f\<lparr>r_x2 := 0\<rparr>" 0 0] pr by (intro exI [of _ s] exI [of _ c]) (simp add: Let_def)
qed

end
