(* ===== verification/Spec2Isabelle.thy ===== *)
theory Spec2Isabelle
  imports Cli Preemption Stubs Start Heap_Data Lock_Held
begin

text \<open>
  Verification of the Pimento kernel: a small operating system kernel in Rust for the Raspberry Pi 3 B (AArch64), under \<^verbatim>\<open>src/kernel\<close>,
  and the program it runs, \<^verbatim>\<open>src/cli\<close>.

  \<^bold>\<open>The program.\<close> The boot code (\<^verbatim>\<open>boot/\<close>) enables virtual memory with static tables, then builds the parts and connects them: a linear page
  allocator and a linear heap, one address space per task (four levels of translation tables), a round-robin scheduler driven by the timer
  interrupt, a virtual file system with mounts over a temporary and a device file system, a loader for ELF programs, and an exception vector with
  one system call, \<^verbatim>\<open>write\<close>. It ends by loading \<^verbatim>\<open>/bin/cli\<close> into the first task and dropping to EL0.

  \<^bold>\<open>Theories.\<close> Every operation has the name it has in the source, with a prefix where names meet. Paths are below \<^verbatim>\<open>src/kernel/src\<close>.

  \<^item> \<^verbatim>\<open>Prelude\<close>: words, outcomes (\<open>Ok\<close>, \<open>Err\<close>, \<open>Panic\<close>, \<open>Hang\<close>), sequencing, byte memory, little-endian encoding, identifiers.
  \<^item> \<^verbatim>\<open>Address\<close>: \<^verbatim>\<open>memory/address.rs\<close>, \<^verbatim>\<open>memory/aarch64/mapper.rs\<close>. \<^verbatim>\<open>Linear_Allocator\<close>: the contract of an allocator that only moves forward, a locale.
  \<^item> \<^verbatim>\<open>Page_Allocator\<close>: \<^verbatim>\<open>memory/page.rs\<close>. \<^verbatim>\<open>Heap\<close>: \<^verbatim>\<open>memory/heap.rs\<close>. Both interpret the contract: what is handed out is disjoint and never reused.
  \<^item> \<^verbatim>\<open>Page_Table\<close>, \<^verbatim>\<open>Table_Walk\<close>: \<^verbatim>\<open>memory/aarch64/page_table.rs\<close>, and the translation the architecture performs on the tables.
  \<^item> \<^verbatim>\<open>Memory_Context\<close>: \<^verbatim>\<open>memory/aarch64/memory_context.rs\<close>. The abstract state is the map from page numbers to frames; \<^verbatim>\<open>alloc_page\<close> refines its extension,
    fails only without memory, and leaves all other address spaces alone. \<^verbatim>\<open>User_Memory\<close>: the two copies between kernel and user memory, on the memory
    that a task sees (\<open>user_mem\<close>).
  \<^item> \<^verbatim>\<open>Memory_Init\<close>: \<^verbatim>\<open>memory/aarch64/init.rs\<close>, the static tables. \<^verbatim>\<open>Start\<close>: \<^verbatim>\<open>boot/aarch64/start.rs\<close>, \<^verbatim>\<open>start.s\<close>, from
    the entry of the image to the branch to \<^verbatim>\<open>kernel_init\<close>.
  \<^item> \<^verbatim>\<open>Fs_Node\<close>, \<^verbatim>\<open>Tmpfs\<close>, \<^verbatim>\<open>Devfs\<close>, \<^verbatim>\<open>File_System\<close>: \<^verbatim>\<open>fs/node.rs\<close>, \<^verbatim>\<open>directory.rs\<close>, \<^verbatim>\<open>file.rs\<close>, \<^verbatim>\<open>tmpfs.rs\<close>, \<^verbatim>\<open>file_system.rs\<close>, \<^verbatim>\<open>device/devfs.rs\<close>. A \<^verbatim>\<open>Weak\<close> reference to a
    file system is a number, and the store maps it to the object.
  \<^item> \<^verbatim>\<open>Vfs\<close>, \<^verbatim>\<open>File_Manager\<close>: \<^verbatim>\<open>fs/virtual_file_system.rs\<close>, \<^verbatim>\<open>fs/file_manager.rs\<close>. The invariant \<open>vfs_sound\<close> holds in all reachable states, whatever is mounted where.
    The code accepts mounts that close a cycle; resolution ends in a sound state exactly when there is none. With \<open>vfs_wf\<close>, which adds that there is no cycle
    and that all mount points exist, the two resolutions are inverse and a walk is a chain of lookups. The start-up code makes such a state.
  \<^item> \<^verbatim>\<open>Elf\<close>: \<^verbatim>\<open>task/elf.rs\<close>. Headers, the pages of a segment, and what they concatenate to; the log is a parameter of the iterator.
  \<^item> \<^verbatim>\<open>Sync\<close>: \<^verbatim>\<open>sync/\<close>. Mutual exclusion is proved over all interleavings of the atomic steps; all other theories then use the operations under a lock as one step.
  \<^item> \<^verbatim>\<open>Drivers\<close>, \<^verbatim>\<open>Log\<close>, \<^verbatim>\<open>Cpu\<close>: \<^verbatim>\<open>device/driver/\<close>, \<^verbatim>\<open>log.rs\<close>, \<^verbatim>\<open>cpu/aarch64/\<close>. The lock of the serial port is part of its state.
  \<^item> \<^verbatim>\<open>Heap_Data\<close>: the data of \<^verbatim>\<open>Tmpfs::read\<close>, \<^verbatim>\<open>Tmpfs::write\<close> and of the serial \<^verbatim>\<open>read\<close> on the heap of 4 MB, with the capacities of their buffers. The
    policy by which a \<^verbatim>\<open>Vec\<close> grows is a parameter; the panics are exactly those of the heap and of the slices.
  \<^item> \<^verbatim>\<open>Scheduler\<close>, \<^verbatim>\<open>Task_Creation\<close>: \<^verbatim>\<open>task/scheduler.rs\<close>, \<^verbatim>\<open>task.rs\<close>, \<^verbatim>\<open>aarch64/context.rs\<close>, \<^verbatim>\<open>aarch64/task_creation.rs\<close>. The abstract state is the registers of every task: any run on
    any number of cores acts as if every task had a core of its own. \<open>kernel_wf\<close> adds that address spaces are disjoint.
  \<^item> \<^verbatim>\<open>Machine\<close>, \<^verbatim>\<open>Interrupts\<close>, \<^verbatim>\<open>System_Calls\<close>, \<^verbatim>\<open>Vector_Table\<close>: the state of the whole machine, \<^verbatim>\<open>abi/\<close>, and what an exception does from its entry to its return.
  \<^item> \<^verbatim>\<open>Lock_Held\<close>: the machine when a thread has been preempted with the lock of the serial port; which system calls then never return.
  \<^item> \<^verbatim>\<open>Task_Execution\<close>: \<^verbatim>\<open>task/aarch64/task_execution.rs\<close>. The memory of a task after \<^verbatim>\<open>execute\<close> is the image that the program headers describe.
  \<^item> \<^verbatim>\<open>Boot_Files\<close>, \<^verbatim>\<open>Boot\<close>: \<^verbatim>\<open>boot/aarch64/raspi3b/init.rs\<close>, \<^verbatim>\<open>kernel.rs\<close>, \<^verbatim>\<open>panic.rs\<close>. The composition of everything above, from the loader to the program.
  \<^item> \<^verbatim>\<open>Stubs\<close>: \<^verbatim>\<open>abi/aarch64/vector_table.s\<close>, \<^verbatim>\<open>cpu/aarch64/cpu_context.s\<close>, instruction by instruction, with the structures of the Rust code in memory. They
    are what the other theories assume of them: a frame that holds the registers, and a switch that saves and loads.
  \<^item> \<^verbatim>\<open>System_Run\<close>: the kernel after boot as a machine that reacts to events: computation and stores of the running task, exceptions, interrupts,
    rounds of the kernel threads, changes of the hardware. Each event that enters the kernel is a run of the code. The invariant \<open>system_wf\<close> is that of every component, and
    every sequence of events keeps it or ends in a panic, for one of four reasons.
  \<^item> \<^verbatim>\<open>Ideal_Machine\<close>: the specification of all that: threads with memories and registers of their own, a queue, an output, and a budget of heap. A system call
    may have it print addresses of the kernel, since the code does not check for them; what is there is a parameter of that step. From power-on, the kernel refines it; so
    a thread runs as if it were alone.
  \<^item> \<^verbatim>\<open>Preemption\<close>: all of \<^verbatim>\<open>kernel_init\<close> that runs with interrupts enabled, \<^verbatim>\<open>Kernel::run\<close> and \<^verbatim>\<open>execute\<close> included, again, with a pause after every operation
    in which interrupts are taken and other threads run. Without pauses it is the code of the other theories, and with any pauses it loads the same memory.
  \<^item> \<^verbatim>\<open>Cli\<close>: \<^verbatim>\<open>src/cli\<close>. The program as events, and with the rest its output from power-on to the panic of a kernel whose heap is used up.

  \<^bold>\<open>Interfaces.\<close> Contracts between components are locales with an interpretation on the code's definitions: linear allocators, sources of identifiers,
  directories that can be scanned, operations on one address space, and interrupt controllers.

  \<^bold>\<open>Conventions.\<close> The build is a release build: integer operations wrap at their width, while indices, slices, \<^verbatim>\<open>unwrap\<close> and \<^verbatim>\<open>assert\<close> panic. The state after a call is returned in every
  case, also after an error. A loop that nothing in the code bounds is a partial function and may be \<open>Hang\<close>; that it ends is then part of the
  theorems. No fuel is used. Bounds that theorems assume: counters of identifiers below \<open>2 ^ 60\<close> (files) or one below the
  maximum (tasks), files and buffers below \<open>2 ^ 63\<close> bytes as \<^verbatim>\<open>Vec\<close> has it (and as the heap has room, in \<^verbatim>\<open>Heap_Data\<close>), \<open>room n\<close> for the next \<open>n\<close> pages of memory, where
  mapping one page takes at most four.

  \<^bold>\<open>Code outside the repository.\<close> The hardware is a parameter of the state: a stream of status bytes of the serial port (\<open>tx_fair\<close> says that the transmitter is empty again and
  again, \<open>uart_ready\<close> that also the lock is free), the counter of the timer, register arrays. \<^verbatim>\<open>Arc\<close>, \<^verbatim>\<open>Vec\<close>, \<^verbatim>\<open>VecDeque\<close>, \<^verbatim>\<open>BTreeMap\<close>, formatting and UTF-8 decoding of the standard library are written out as they are used.

  \<^bold>\<open>Not modelled.\<close>
  \<^item> Exhaustion of the heap, other than by buffers whose size a caller chooses: that of the system call \<^verbatim>\<open>write\<close>, in the running system, and those of files and of the
    serial port (\<^verbatim>\<open>Heap_Data\<close>). So the start-up code is not charged for its objects, nor \<^verbatim>\<open>write\<close> for the string that replaces ill-formed text, nor
    \<^verbatim>\<open>schedule\<close> for a queue that grows, which in an interrupt of the allocator would wait for its lock. The global allocator is modelled; how much
    a container takes is decided by the standard library.
  \<^item> Memory orderings of atomics, caches and the TLB: a store is seen by everyone after it. Interrupts within an operation of
    the kernel: they are taken between operations on the tasks, the memory, the files or the log. For the lock of the serial port,
    \<^verbatim>\<open>Lock_Held\<close> shows what an interrupt within an operation can lead to.
  \<^item> The call of \<^verbatim>\<open>after_func\<close> at the end of \<^verbatim>\<open>cpu_context.s\<close> is part of \<open>context_switch\<close>, not of the instructions in \<^verbatim>\<open>Stubs\<close>; the stub \<^verbatim>\<open>el1h_irq\<close> is
    the pause of \<^verbatim>\<open>Preemption\<close>: what other threads do until this one goes on.
  \<^item> Instructions of EL0: an event gives the registers that a computation leaves, which may be any. The assembly of \<^verbatim>\<open>task_creation.s\<close> and \<^verbatim>\<open>task_execution.s\<close> is in
    the definitions that use it, by its effect on the registers.
  \<^item> Other cores than the first in the running system: no code starts them. The scheduler and the locks are proved for any number.
  \<^item> The macro \<^verbatim>\<open>dbg!\<close>, which nothing uses, and declarations of modules and traits.

  \<^bold>\<open>What could follow.\<close> Interrupts at the grain of single loads and stores of the kernel, and allocation sizes of the standard library's containers.
\<close>

end
